(* ===== verification/Degu_Prelude.thy ===== *)
theory Degu_Prelude
  imports Main "HOL-Library.Word" "HOL-Library.List_Lexorder" "HOL-Library.Product_Lexorder"
    "HOL-Library.Char_ord" "HOL-Library.Sublist"
begin

unbundle bit_operations_syntax

text \<open>
  Shared vocabulary of the development: machine integers and byte strings, Rust's
  \<open>Result\<close> with the early return of the question-mark operator, checked and saturating
  arithmetic, little-endian integers, Unix paths as
  \<open>std::path\<close> sees them, and ordered maps (\<open>BTreeMap\<close>) as strictly sorted
  association lists. Everything else imports this theory.
\<close>

section \<open>Collections of simplification rules\<close>

named_theorems codec_simps \<open>round-trip rewrite rules of the WAL codec\<close>
named_theorems wal_defs \<open>unfolding rules of the WAL operations\<close>

section \<open>Machine types\<close>

type_synonym u8 = "8 word"
type_synonym u16 = "16 word"
type_synonym u32 = "32 word"
type_synonym u64 = "64 word"
type_synonym bytes = "u8 list"

text \<open>\<open>usize\<close> is 64 bits wide; lengths are natural numbers and \<open>checked_add\<close> says where they
  would stop fitting.\<close>

definition usize_checked_add :: "nat \<Rightarrow> nat \<Rightarrow> nat option" where
  "usize_checked_add a b = (if a + b < 2 ^ 64 then Some (a + b) else None)"

definition sat_add :: "'a::len word \<Rightarrow> 'a word \<Rightarrow> 'a word" where
  "sat_add a b = (if unat a + unat b < 2 ^ LENGTH('a) then a + b else - 1)"

definition checked_mul64 :: "u64 \<Rightarrow> u64 \<Rightarrow> u64 option" where
  "checked_mul64 a b = (if unat a * unat b < 2 ^ 64 then Some (a * b) else None)"

definition checked_add64 :: "u64 \<Rightarrow> u64 \<Rightarrow> u64 option" where
  "checked_add64 a b = (if unat a + unat b < 2 ^ 64 then Some (a + b) else None)"

lemma unat_sat_add:
  "unat (sat_add a (b :: 'a::len word)) = min (unat a + unat b) (2 ^ LENGTH('a) - 1)"
proof (cases "unat a + unat b < 2 ^ LENGTH('a)")
  case True
  then show ?thesis by (simp add: sat_add_def unat_word_ariths)
next
  case False
  then show ?thesis by (simp add: sat_add_def unsigned_minus_1_eq_mask mask_eq_exp_minus_1)
qed

lemma sat_add_ge:
  fixes a b :: "'a::len word"
  shows "a \<le> sat_add a b" and "b \<le> sat_add a b"
proof -
  have "unat x \<le> 2 ^ LENGTH('a) - 1" for x :: "'a word"
  proof -
    have "unat x < 2 ^ LENGTH('a)" by (rule unsigned_less)
    then show ?thesis by linarith
  qed
  then show "a \<le> sat_add a b" and "b \<le> sat_add a b"
    by (simp_all add: word_le_nat_alt unat_sat_add)
qed

section \<open>Results\<close>

text \<open>\<open>Result<T, E>\<close> is \<open>'e + 'a\<close>; \<open>and_then m f\<close> is \<open>f(m?)\<close>.\<close>

definition and_then :: "'e + 'a \<Rightarrow> ('a \<Rightarrow> 'e + 'b) \<Rightarrow> 'e + 'b" where
  "and_then m f = (case m of Inl e \<Rightarrow> Inl e | Inr x \<Rightarrow> f x)"

definition ok_or :: "'e \<Rightarrow> 'a option \<Rightarrow> 'e + 'a" where
  "ok_or e m = (case m of None \<Rightarrow> Inl e | Some x \<Rightarrow> Inr x)"

lemma and_then_simps [simp]:
  "and_then (Inl e) f = Inl e"
  "and_then (Inr x) f = f x"
  by (simp_all add: and_then_def)

lemma and_then_cong [fundef_cong]:
  assumes "m = m'" and "\<And>x. m' = Inr x \<Longrightarrow> f x = f' x"
  shows "and_then m f = and_then m' f'"
  using assms by (cases m') simp_all

lemma and_then_Inr_iff: "and_then m f = Inr y \<longleftrightarrow> (\<exists>x. m = Inr x \<and> f x = Inr y)"
  by (cases m) simp_all

lemma and_then_InrE:
  assumes "and_then m f = Inr y"
  obtains x where "m = Inr x" "f x = Inr y"
  using assms by (auto simp: and_then_Inr_iff)

lemma and_then_assoc: "and_then (and_then m f) g = and_then m (\<lambda>x. and_then (f x) g)"
  by (cases m) simp_all

lemma ok_or_simps [simp]:
  "ok_or e None = Inl e"
  "ok_or e (Some x) = Inr x"
  by (simp_all add: ok_or_def)

lemma ok_or_Inr_iff [simp]: "ok_or e m = Inr x \<longleftrightarrow> m = Some x"
  by (cases m) simp_all

text \<open>A fallible loop over a list: stop at the first error.\<close>

fun fold_r :: "('a \<Rightarrow> 's \<Rightarrow> 'e + 's) \<Rightarrow> 'a list \<Rightarrow> 's \<Rightarrow> 'e + 's" where
  "fold_r f [] s = Inr s"
| "fold_r f (x # xs) s = and_then (f x s) (fold_r f xs)"

lemma fold_r_append: "fold_r f (xs @ ys) s = and_then (fold_r f xs s) (fold_r f ys)"
proof (induction xs arbitrary: s)
  case (Cons x xs)
  then show ?case by (cases "f x s") simp_all
qed simp

lemma fold_r_cong_list:
  assumes "\<And>x s. x \<in> set xs \<Longrightarrow> f x s = g x s"
  shows "fold_r f xs s = fold_r g xs s"
  using assms
proof (induction xs arbitrary: s)
  case (Cons x xs)
  then show ?case by (cases "g x s") simp_all
qed simp

lemma fold_r_invariant:
  assumes "\<And>x s t. x \<in> set xs \<Longrightarrow> P s \<Longrightarrow> f x s = Inr t \<Longrightarrow> P t"
    and "P s" and "fold_r f xs s = Inr t"
  shows "P t"
  using assms
proof (induction xs arbitrary: s)
  case (Cons x xs)
  from Cons.prems(3) obtain u where u: "f x s = Inr u" "fold_r f xs u = Inr t"
    by (auto simp: and_then_Inr_iff)
  with Cons.prems have "P u" by auto
  with u(2) Cons.prems(1) show ?case by (auto intro: Cons.IH)
qed simp

section \<open>Little-endian integers\<close>

definition le_bytes :: "nat \<Rightarrow> 'a::len word \<Rightarrow> bytes" where
  "le_bytes n w = map (\<lambda>i. ucast (drop_bit (8 * i) w)) [0..<n]"

primrec le_word :: "bytes \<Rightarrow> 'a::len word" where
  "le_word [] = 0"
| "le_word (b # bs) = ucast b OR push_bit 8 (le_word bs)"

lemma length_le_bytes [simp]: "length (le_bytes n w) = n"
  by (simp add: le_bytes_def)

lemma le_bytes_eval:
  "le_bytes 2 w = [ucast w, ucast (drop_bit 8 w)]"
  "le_bytes 4 w = [ucast w, ucast (drop_bit 8 w), ucast (drop_bit 16 w), ucast (drop_bit 24 w)]"
  "le_bytes 8 w = [ucast w, ucast (drop_bit 8 w), ucast (drop_bit 16 w), ucast (drop_bit 24 w),
     ucast (drop_bit 32 w), ucast (drop_bit 40 w), ucast (drop_bit 48 w), ucast (drop_bit 56 w)]"
  by (simp_all add: le_bytes_def upt_rec)

lemma bit_le_word:
  "bit (le_word bs :: 'a::len word) i \<longleftrightarrow>
     i < LENGTH('a) \<and> i div 8 < length bs \<and> bit (bs ! (i div 8)) (i mod 8)"
proof (induction bs arbitrary: i)
  case (Cons b bs)
  show ?case
  proof (cases "i < 8")
    case True
    then show ?thesis by (auto simp: bit_simps)
  next
    case False
    then have "i div 8 = Suc ((i - 8) div 8)" and "i mod 8 = (i - 8) mod 8"
      by (simp_all add: div_if mod_if)
    moreover have "\<not> bit b i" using False by (auto dest: bit_imp_le_length)
    ultimately show ?thesis using False by (auto simp: bit_simps Cons.IH)
  qed
qed simp

lemma le_word_le_bytes:
  assumes "LENGTH('a) \<le> 8 * n"
  shows "le_word (le_bytes n w) = (w :: 'a::len word)"
proof (rule bit_word_eqI)
  fix i assume "i < LENGTH('a)"
  moreover from this assms have "i div 8 < n" by linarith
  moreover have "8 * (i div 8) + i mod 8 = i" by simp
  ultimately show "bit (le_word (le_bytes n w) :: 'a word) i = bit w i"
    by (simp add: bit_le_word le_bytes_def bit_simps)
qed

lemma le_bytes_le_word:
  assumes "length bs = n" and "8 * n \<le> LENGTH('a)"
  shows "le_bytes n (le_word bs :: 'a::len word) = bs"
proof (rule nth_equalityI)
  show "length (le_bytes n (le_word bs :: 'a word)) = length bs" by (simp add: assms)
  fix i assume i: "i < length (le_bytes n (le_word bs :: 'a word))"
  show "le_bytes n (le_word bs :: 'a word) ! i = bs ! i"
  proof (rule bit_word_eqI)
    fix j assume "j < LENGTH(8)"
    moreover from this i assms have "8 * i + j < LENGTH('a)" by simp
    ultimately show "bit (le_bytes n (le_word bs :: 'a word) ! i) j = bit (bs ! i) j"
      using i assms by (simp add: le_bytes_def bit_simps bit_le_word)
  qed
qed

section \<open>Unix paths\<close>

text \<open>
  A \<open>PathBuf\<close> is its bytes. \<open>components\<close> is \<open>std::path::Path::components\<close> on Unix:
  separators may repeat, a \<open>.\<close> survives only as the first component of a relative path,
  and \<open>..\<close> is kept. \<open>Path\<close> equality, ordering, \<open>starts_with\<close> and \<open>strip_prefix\<close> all work on
  components, never on bytes.
\<close>

type_synonym path = bytes

datatype path_component = RootDir | CurDir | ParentDir | Normal bytes

fun component_key :: "path_component \<Rightarrow> nat \<times> bytes" where
  "component_key RootDir = (0, [])"
| "component_key CurDir = (1, [])"
| "component_key ParentDir = (2, [])"
| "component_key (Normal s) = (3, s)"

lemma component_key_inject: "component_key a = component_key b \<longleftrightarrow> a = b"
  by (cases a; cases b) simp_all

instantiation path_component :: linorder
begin

definition less_eq_path_component :: "path_component \<Rightarrow> path_component \<Rightarrow> bool" where
  "less_eq_path_component a b = (component_key a \<le> component_key b)"

definition less_path_component :: "path_component \<Rightarrow> path_component \<Rightarrow> bool" where
  "less_path_component a b = (component_key a < component_key b)"

instance
  by standard
    (auto simp: less_eq_path_component_def less_path_component_def component_key_inject
      intro: order_trans)

end

definition slash :: u8 where "slash = 47"
definition dot :: u8 where "dot = 46"

fun split_slash :: "bytes \<Rightarrow> bytes list" where
  "split_slash [] = [[]]"
| "split_slash (b # bs) =
     (if b = slash then [] # split_slash bs
      else case split_slash bs of [] \<Rightarrow> [[b]] | s # ss \<Rightarrow> (b # s) # ss)"

definition seg_components :: "bytes \<Rightarrow> path_component list" where
  "seg_components s =
     (if s = [] \<or> s = [dot] then [] else if s = [dot, dot] then [ParentDir] else [Normal s])"

definition is_absolute :: "path \<Rightarrow> bool" where
  "is_absolute p = (case p of [] \<Rightarrow> False | b # _ \<Rightarrow> b = slash)"

definition path_components :: "path \<Rightarrow> path_component list" where
  "path_components p =
     (if is_absolute p then [RootDir] else if hd (split_slash p) = [dot] then [CurDir] else []) @
     concat (map seg_components (split_slash p))"

fun is_normal :: "path_component \<Rightarrow> bool" where
  "is_normal (Normal _) = True"
| "is_normal _ = False"

definition path_eq :: "path \<Rightarrow> path \<Rightarrow> bool" where
  "path_eq p q = (path_components p = path_components q)"

definition path_starts_with :: "path \<Rightarrow> path \<Rightarrow> bool" where
  "path_starts_with p q = prefix (path_components q) (path_components p)"

definition path_join :: "path \<Rightarrow> path \<Rightarrow> path" where
  "path_join p q =
     (if is_absolute q then q
      else if p = [] \<or> last p = slash then p @ q
      else p @ [slash] @ q)"

lemma path_eq_refl [simp]: "path_eq p p"
  by (simp add: path_eq_def)

lemma split_slash_not_Nil [simp]: "split_slash p \<noteq> []"
  by (cases p) (auto split: list.splits)

lemma path_components_Nil [simp]: "path_components [] = []"
  by (simp add: path_components_def is_absolute_def seg_components_def)

lemma split_slash_join:
  "split_slash (p @ slash # q) = split_slash p @ split_slash q"
proof (induction p)
  case (Cons b p)
  then show ?case by (cases "split_slash p") (simp_all split: list.splits)
qed simp

section \<open>Ordered maps\<close>

text \<open>
  A \<open>BTreeMap\<close> is a strictly sorted association list: lookup is \<open>map_of\<close>, iteration is the
  list itself.
\<close>

type_synonym ('k, 'v) btree = "('k \<times> 'v) list"

fun bt_insert :: "'k::linorder \<Rightarrow> 'v \<Rightarrow> ('k, 'v) btree \<Rightarrow> ('k, 'v) btree" where
  "bt_insert k v [] = [(k, v)]"
| "bt_insert k v ((k', v') # m) =
     (if k < k' then (k, v) # (k', v') # m
      else if k = k' then (k, v) # m
      else (k', v') # bt_insert k v m)"

definition bt_sorted :: "('k::linorder, 'v) btree \<Rightarrow> bool" where
  "bt_sorted m = sorted_wrt (<) (map fst m)"

text \<open>The interface: what an ordered map promises its clients.\<close>

locale ordered_map =
  fixes empty :: "'m"
    and lookup :: "'m \<Rightarrow> 'k::linorder \<Rightarrow> 'v option"
    and insert :: "'k \<Rightarrow> 'v \<Rightarrow> 'm \<Rightarrow> 'm"
    and entries :: "'m \<Rightarrow> ('k \<times> 'v) list"
    and invar :: "'m \<Rightarrow> bool"
  assumes invar_empty: "invar empty"
    and lookup_empty: "lookup empty k = None"
    and invar_insert: "invar m \<Longrightarrow> invar (insert k v m)"
    and lookup_insert: "invar m \<Longrightarrow> lookup (insert k v m) k' = (if k' = k then Some v else lookup m k')"
    and entries_sorted: "invar m \<Longrightarrow> sorted_wrt (<) (map fst (entries m))"
    and entries_lookup: "invar m \<Longrightarrow> map_of (entries m) = lookup m"
    and entries_inject: "invar m \<Longrightarrow> invar n \<Longrightarrow> entries m = entries n \<Longrightarrow> m = n"
begin

lemma entries_distinct: "invar m \<Longrightarrow> distinct (map fst (entries m))"
  using entries_sorted [of m] by (simp add: strict_sorted_iff)

lemma entries_mem_iff: "invar m \<Longrightarrow> (k, v) \<in> set (entries m) \<longleftrightarrow> lookup m k = Some v"
  using entries_distinct [of m] entries_lookup [of m] by (metis map_of_eq_Some_iff)

lemma finite_keys: "invar m \<Longrightarrow> finite (dom (lookup m))"
  by (metis entries_lookup finite_dom_map_of)

text \<open>An ordered map is determined by what it looks up: iteration order carries nothing else.\<close>

lemma extensional:
  assumes "invar m" "invar n" "\<And>k. lookup m k = lookup n k"
  shows "m = n"
proof -
  have "map_of (entries m) = map_of (entries n)"
    using assms by (auto simp: entries_lookup)
  then have sets: "set (entries m) = set (entries n)"
    using entries_distinct assms(1,2) by (metis map_of_eqI map_of_inject_set)
  have "entries m = entries n"
  proof (rule map_sorted_distinct_set_unique [where f = fst])
    show "inj_on fst (set (entries m) \<union> set (entries n))"
      using sets entries_distinct [OF assms(1)] by (simp add: distinct_map)
    show "sorted (map fst (entries m))" "distinct (map fst (entries m))"
      "sorted (map fst (entries n))" "distinct (map fst (entries n))"
      using entries_sorted assms(1,2) by (simp_all add: strict_sorted_iff)
    show "set (entries m) = set (entries n)" by (rule sets)
  qed
  then show ?thesis using assms(1,2) by (simp add: entries_inject)
qed

end

lemma set_keys_bt_insert: "fst ` set (bt_insert k v m) = insert k (fst ` set m)"
proof (induction m)
  case (Cons p m)
  then show ?case by (cases p) (auto simp: insert_commute)
qed simp

lemma bt_sorted_Cons:
  "bt_sorted ((k, v) # m) \<longleftrightarrow> (\<forall>k' \<in> fst ` set m. k < k') \<and> bt_sorted m"
  by (auto simp: bt_sorted_def)

lemma bt_sorted_insert: "bt_sorted m \<Longrightarrow> bt_sorted (bt_insert k v m)"
proof (induction m)
  case (Cons p m)
  obtain k' v' where p: "p = (k', v')" by (cases p)
  from Cons show ?case
    by (cases k k' rule: linorder_cases)
       (auto simp: p bt_sorted_Cons set_keys_bt_insert simp flip: image_iff
         intro: less_trans)
qed (simp add: bt_sorted_def)

lemma map_of_less_None:
  assumes "\<forall>k' \<in> fst ` set m. k < k'" shows "map_of m (k::'k::linorder) = None"
  using assms by (auto simp: map_of_eq_None_iff)

lemma map_of_bt_insert:
  "bt_sorted m \<Longrightarrow> map_of (bt_insert k v m) = (map_of m)(k \<mapsto> v)"
proof (induction m)
  case (Cons p m)
  obtain k' v' where p: "p = (k', v')" by (cases p)
  from Cons show ?case
    by (cases k k' rule: linorder_cases) (auto simp: p bt_sorted_Cons fun_eq_iff)
qed simp

interpretation bt: ordered_map "[]" map_of bt_insert "\<lambda>m. m" bt_sorted
  by unfold_locales (simp_all add: bt_sorted_insert map_of_bt_insert, simp_all add: bt_sorted_def)

section \<open>Counting the entries of a map\<close>

definition count_map :: "('k \<Rightarrow> 'v \<Rightarrow> bool) \<Rightarrow> ('k \<rightharpoonup> 'v) \<Rightarrow> nat" where
  "count_map Q m = card {k. \<exists>v. m k = Some v \<and> Q k v}"

lemma finite_count_map: "finite (dom m) \<Longrightarrow> finite {k. \<exists>v. m k = Some v \<and> Q k v}"
  by (rule finite_subset [of _ "dom m"]) auto

lemma count_map_empty [simp]: "count_map Q Map.empty = 0"
  by (simp add: count_map_def)

lemma count_map_cong:
  assumes "\<And>k v. m k = Some v \<Longrightarrow> Q k v = R k v"
  shows "count_map Q m = count_map R m"
proof -
  have "{k. \<exists>v. m k = Some v \<and> Q k v} = {k. \<exists>v. m k = Some v \<and> R k v}" using assms by auto
  then show ?thesis by (simp add: count_map_def)
qed

lemma count_map_new:
  assumes "finite (dom m)" "m k = None"
  shows "count_map Q (m(k \<mapsto> v)) = count_map Q m + of_bool (Q k v)"
proof -
  let ?S = "{k. \<exists>v. m k = Some v \<and> Q k v}"
  have "{k'. \<exists>v'. (m(k \<mapsto> v)) k' = Some v' \<and> Q k' v'} = (if Q k v then insert k ?S else ?S)"
    using assms(2) by auto
  moreover have "k \<notin> ?S" using assms(2) by simp
  ultimately show ?thesis using finite_count_map [OF assms(1), of Q] by (simp add: count_map_def)
qed

lemma count_map_upd:
  assumes "finite (dom m)" "m k = Some u"
  shows "count_map Q (m(k \<mapsto> v)) + of_bool (Q k u) = count_map Q m + of_bool (Q k v)"
proof -
  let ?m = "m(k := None)"
  have fin: "finite (dom ?m)" using assms(1) by simp
  have "m(k \<mapsto> v) = ?m(k \<mapsto> v)" "m = ?m(k \<mapsto> u)" using assms(2) by auto
  then have "count_map Q (m(k \<mapsto> v)) = count_map Q ?m + of_bool (Q k v)"
    "count_map Q m = count_map Q ?m + of_bool (Q k u)"
    using count_map_new [OF fin, of k] by (metis fun_upd_same)+
  then show ?thesis by simp
qed

lemma count_map_filter:
  assumes "distinct (map fst xs)"
  shows "length (filter (\<lambda>(k, v). Q k v) xs) = count_map Q (map_of xs)"
proof -
  have "{k. \<exists>v. map_of xs k = Some v \<and> Q k v} = fst ` set (filter (\<lambda>(k, v). Q k v) xs)"
    using assms by (force simp: image_iff)
  moreover have "distinct (map fst (filter (\<lambda>(k, v). Q k v) xs))"
    using assms by (rule distinct_map_filter)
  from distinct_card [OF this] have
    "length (filter (\<lambda>(k, v). Q k v) xs) = card (fst ` set (filter (\<lambda>(k, v). Q k v) xs))" by simp
  ultimately show ?thesis by (simp only: count_map_def)
qed

lemma count_map_le: "finite (dom m) \<Longrightarrow> (\<And>k v. m k = Some v \<Longrightarrow> Q k v \<Longrightarrow> R k v) \<Longrightarrow>
    count_map Q m \<le> count_map R m"
  unfolding count_map_def by (rule card_mono) (auto intro: finite_count_map)

text \<open>Counting the sub-collection as many as the collection means they are the same.\<close>

lemma count_map_eq_iff:
  assumes "finite (dom m)" "\<And>k v. m k = Some v \<Longrightarrow> Q k v \<Longrightarrow> R k v"
  shows "count_map Q m = count_map R m \<longleftrightarrow> (\<forall>k v. m k = Some v \<longrightarrow> R k v \<longrightarrow> Q k v)"
proof
  assume "count_map Q m = count_map R m"
  moreover have "{k. \<exists>v. m k = Some v \<and> Q k v} \<subseteq> {k. \<exists>v. m k = Some v \<and> R k v}"
    using assms(2) by auto
  ultimately have "{k. \<exists>v. m k = Some v \<and> Q k v} = {k. \<exists>v. m k = Some v \<and> R k v}"
    using card_subset_eq [OF finite_count_map [OF assms(1)]] by (simp add: count_map_def)
  then have "(\<exists>v. m k = Some v \<and> Q k v) = (\<exists>v. m k = Some v \<and> R k v)" for k
    by (simp add: set_eq_iff)
  then show "\<forall>k v. m k = Some v \<longrightarrow> R k v \<longrightarrow> Q k v" by (metis option.inject)
next
  assume "\<forall>k v. m k = Some v \<longrightarrow> R k v \<longrightarrow> Q k v"
  then show "count_map Q m = count_map R m" using assms(2) by (intro count_map_cong) blast
qed

lemma count_map_split:
  assumes "finite (dom m)"
  shows "count_map Q m = count_map (\<lambda>k v. Q k v \<and> R k v) m + count_map (\<lambda>k v. Q k v \<and> \<not> R k v) m"
proof -
  let ?A = "{k. \<exists>v. m k = Some v \<and> Q k v \<and> R k v}" and ?B = "{k. \<exists>v. m k = Some v \<and> Q k v \<and> \<not> R k v}"
  have "{k. \<exists>v. m k = Some v \<and> Q k v} = ?A \<union> ?B" "?A \<inter> ?B = {}" by auto
  moreover have "finite ?A" "finite ?B" using finite_count_map [OF assms] by auto
  ultimately show ?thesis by (simp add: count_map_def card_Un_disjoint)
qed

lemma count_map_0_iff:
  "finite (dom m) \<Longrightarrow> count_map Q m = 0 \<longleftrightarrow> (\<forall>k v. m k = Some v \<longrightarrow> \<not> Q k v)"
  using finite_count_map [of m Q] by (auto simp: count_map_def)

end
