(* ===== verification/Policy.thy ===== *)
theory Policy
  imports Degu_Prelude
begin

text \<open>
  The deletion policy of \<open>degu-core\<close>: the facts an adapter reports about a location
  (\<open>finding.rs\<close>), the one place deletion authority is derived (\<open>disposition.rs\<close>), the
  finalization that turns a candidate into a finding under an authority constraint
  (\<open>finding/finalize.rs\<close>), the merge of findings for the same path
  (\<open>finding/consolidate.rs\<close>) and the clean plan (\<open>plan.rs\<close>).
\<close>

section \<open>Facts and findings\<close>

datatype finding_kind =
  PackageCache | ModelCache | BuildArtifact | ContainerCache | Checkpoint | Environment | OtherKind

datatype regen_cost = Cheap | Costly

datatype recovery = RecoveryUnknown | Regenerable regen_cost | UserAsset

datatype ownership = OwnershipUnknown | Standalone | ToolCoordinated

datatype hazard = BreaksConsumers | ActiveUse

datatype confidence = Verified | Unverified

datatype finding_source = WellKnownRoot | RedirectRoot bool | ProjectRoot

datatype disposition_mode = Eligible | OptIn | ReportOnly

datatype scan_priority_class = Preferred | Deferred

record disposition =
  d_mode :: disposition_mode
  d_reason :: "string option"

record finding_candidate =
  fc_ecosystem :: string
  fc_path :: path
  fc_kind :: finding_kind
  fc_bytes_apparent :: u64
  fc_bytes_allocated :: u64
  fc_age_days :: "u64 option"
  fc_bytes_hardlinked :: u64
  fc_inodes :: u64
  fc_skipped :: u64
  fc_truncated :: bool
  fc_unvisited_dirs :: u64
  fc_shared_writable_dirs :: u64
  fc_parent_grants_foreign_mutation :: bool
  fc_protected_boundaries :: u64
  fc_protected_credential_boundaries :: u64
  fc_recovery :: recovery
  fc_ownership :: ownership
  fc_hazard :: "hazard option"
  fc_rationale :: string

record finding =
  f_ecosystem :: string
  f_path :: path
  f_kind :: finding_kind
  f_bytes_apparent :: u64
  f_bytes_allocated :: u64
  f_age_days :: "u64 option"
  f_bytes_hardlinked :: u64
  f_inodes :: u64
  f_skipped :: u64
  f_truncated :: bool
  f_unvisited_dirs :: u64
  f_recovery :: recovery
  f_ownership :: ownership
  f_hazard :: "hazard option"
  f_confidence :: confidence
  f_disposition :: disposition
  f_rationale :: string

definition measurement_incomplete :: "finding \<Rightarrow> bool" where
  "measurement_incomplete f = (f_truncated f \<or> f_skipped f > 0 \<or> f_unvisited_dirs f > 0)"

section \<open>Deriving a disposition\<close>

definition UNKNOWN_RECOVERY :: string where
  "UNKNOWN_RECOVERY = ''recovery requirements are unknown''"
definition USER_ASSET :: string where
  "USER_ASSET = ''user asset: degu cannot recreate it''"
definition TOOL_MANAGED :: string where
  "TOOL_MANAGED = ''managed by the owning tool; delete through it''"
definition UNKNOWN_OWNERSHIP :: string where
  "UNKNOWN_OWNERSHIP = ''ownership and coordination requirements are unknown''"
definition UNVERIFIED_REDIRECT :: string where
  "UNVERIFIED_REDIRECT = ''relocated via an environment variable degu cannot verify''"
definition INCOMPLETE_MEASUREMENT :: string where
  "INCOMPLETE_MEASUREMENT = ''measurement incomplete: some paths were not measured''"
definition BREAKS_CONSUMERS :: string where
  "BREAKS_CONSUMERS = ''deletion can break software that links into this data''"
definition ACTIVE_USE :: string where
  "ACTIVE_USE = ''deletion can disrupt active sessions using this data''"
definition COSTLY_REGEN :: string where
  "COSTLY_REGEN = ''costly to regenerate''"

definition MIXED_STATE_AI_TOOL_REASON :: string where
  "MIXED_STATE_AI_TOOL_REASON = ''path overlaps a protected mixed-state AI tool directory''"
definition PROTECTED_CREDENTIAL_REASON :: string where
  "PROTECTED_CREDENTIAL_REASON = ''path contains a protected credential directory''"
definition SHARED_WRITABLE_REASON :: string where
  "SHARED_WRITABLE_REASON = ''path contains a group- or world-writable directory''"
definition UNTRUSTED_PARENT_REASON :: string where
  "UNTRUSTED_PARENT_REASON =
     ''parent directory is not a trusted namespace (foreign owner, group- or world-writable without the sticky bit, or unverifiable)''"

definition STATIC_REASONS :: "string list" where
  "STATIC_REASONS =
     [UNKNOWN_RECOVERY, USER_ASSET, TOOL_MANAGED, UNKNOWN_OWNERSHIP, UNVERIFIED_REDIRECT,
      INCOMPLETE_MEASUREMENT, BREAKS_CONSUMERS, ACTIVE_USE, COSTLY_REGEN]"

lemmas reason_defs =
  UNKNOWN_RECOVERY_def USER_ASSET_def TOOL_MANAGED_def UNKNOWN_OWNERSHIP_def
  UNVERIFIED_REDIRECT_def INCOMPLETE_MEASUREMENT_def BREAKS_CONSUMERS_def ACTIVE_USE_def
  COSTLY_REGEN_def MIXED_STATE_AI_TOOL_REASON_def PROTECTED_CREDENTIAL_REASON_def
  SHARED_WRITABLE_REASON_def UNTRUSTED_PARENT_REASON_def

record disposition_facts =
  df_recovery :: recovery
  df_ownership :: ownership
  df_hazard :: "hazard option"
  df_confidence :: confidence
  df_measurement_complete :: bool

definition from_candidate_facts :: "finding_candidate \<Rightarrow> confidence \<Rightarrow> disposition_facts" where
  "from_candidate_facts c conf =
     \<lparr>df_recovery = fc_recovery c, df_ownership = fc_ownership c, df_hazard = fc_hazard c,
      df_confidence = conf,
      df_measurement_complete =
        (fc_skipped c = 0 \<and> \<not> fc_truncated c \<and> fc_unvisited_dirs c = 0)\<rparr>"

definition report_only_reason :: "disposition_facts \<Rightarrow> string option" where
  "report_only_reason facts =
     (let stronger_reason =
        (case df_recovery facts of
           RecoveryUnknown \<Rightarrow> Some UNKNOWN_RECOVERY
         | UserAsset \<Rightarrow> Some USER_ASSET
         | Regenerable _ \<Rightarrow>
             (case df_ownership facts of
                ToolCoordinated \<Rightarrow> Some TOOL_MANAGED
              | OwnershipUnknown \<Rightarrow> Some UNKNOWN_OWNERSHIP
              | Standalone \<Rightarrow>
                  (case df_confidence facts of
                     Unverified \<Rightarrow> Some UNVERIFIED_REDIRECT
                   | Verified \<Rightarrow> None)))
      in if stronger_reason \<noteq> None then stronger_reason
         else if \<not> df_measurement_complete facts then Some INCOMPLETE_MEASUREMENT
         else None)"

definition opt_in_reason :: "disposition_facts \<Rightarrow> string option" where
  "opt_in_reason facts =
     (case df_hazard facts of
        Some BreaksConsumers \<Rightarrow> Some BREAKS_CONSUMERS
      | Some ActiveUse \<Rightarrow> Some ACTIVE_USE
      | None \<Rightarrow> (if df_recovery facts = Regenerable Costly then Some COSTLY_REGEN else None))"

definition derive :: "disposition_facts \<Rightarrow> disposition" where
  "derive facts =
     (case report_only_reason facts of
        Some reason \<Rightarrow> \<lparr>d_mode = ReportOnly, d_reason = Some reason\<rparr>
      | None \<Rightarrow>
          (case opt_in_reason facts of
             Some reason \<Rightarrow> \<lparr>d_mode = OptIn, d_reason = Some reason\<rparr>
           | None \<Rightarrow> \<lparr>d_mode = Eligible, d_reason = None\<rparr>))"

fun scan_priority :: "recovery \<times> ownership \<times> hazard option \<Rightarrow> scan_priority_class" where
  "scan_priority (r, ow, hz) =
     (case d_mode (derive \<lparr>df_recovery = r, df_ownership = ow, df_hazard = hz,
                          df_confidence = Verified, df_measurement_complete = True\<rparr>) of
        ReportOnly \<Rightarrow> Deferred
      | OptIn \<Rightarrow> Preferred
      | Eligible \<Rightarrow> Preferred)"

text \<open>\<open>position\<close> of an iterator: the index of the first match.\<close>

fun list_position :: "('a \<Rightarrow> bool) \<Rightarrow> 'a list \<Rightarrow> nat option" where
  "list_position P [] = None"
| "list_position P (x # xs) = (if P x then Some 0 else map_option Suc (list_position P xs))"

definition reason_rank :: "string \<Rightarrow> nat" where
  "reason_rank reason =
     (let derived = length STATIC_REASONS in
      if reason = PROTECTED_CREDENTIAL_REASON then derived + 3
      else if reason = SHARED_WRITABLE_REASON then derived + 2
      else if reason = MIXED_STATE_AI_TOOL_REASON then derived + 1
      else case list_position (\<lambda>r. r = reason) STATIC_REASONS of
             None \<Rightarrow> 0
           | Some index \<Rightarrow> derived - index)"

definition authority_rank :: "disposition \<Rightarrow> nat \<times> nat" where
  "authority_rank d =
     ((case d_mode d of Eligible \<Rightarrow> 0 | OptIn \<Rightarrow> 1 | ReportOnly \<Rightarrow> 2),
      (case d_reason d of None \<Rightarrow> 0 | Some r \<Rightarrow> reason_rank r))"

section \<open>Finalization\<close>

text \<open>Ascending protective precedence: the derived \<open>Ord\<close> is the declaration order.\<close>

datatype authority_constraint =
  MixedStateAiToolDirectory | SharedWritableDirectory | UntrustedParent | ProtectedCredentialDirectory

fun constraint_index :: "authority_constraint \<Rightarrow> nat" where
  "constraint_index MixedStateAiToolDirectory = 0"
| "constraint_index SharedWritableDirectory = 1"
| "constraint_index UntrustedParent = 2"
| "constraint_index ProtectedCredentialDirectory = 3"

lemma constraint_index_inject: "constraint_index a = constraint_index b \<longleftrightarrow> a = b"
  by (cases a; cases b) simp_all

instantiation authority_constraint :: linorder
begin

definition less_eq_authority_constraint :: "authority_constraint \<Rightarrow> authority_constraint \<Rightarrow> bool" where
  "less_eq_authority_constraint a b = (constraint_index a \<le> constraint_index b)"

definition less_authority_constraint :: "authority_constraint \<Rightarrow> authority_constraint \<Rightarrow> bool" where
  "less_authority_constraint a b = (constraint_index a < constraint_index b)"

instance
  by standard
    (auto simp: less_eq_authority_constraint_def less_authority_constraint_def
      constraint_index_inject)

end

fun source_confidence :: "finding_source \<Rightarrow> confidence" where
  "source_confidence WellKnownRoot = Verified"
| "source_confidence ProjectRoot = Verified"
| "source_confidence (RedirectRoot has_valid_cachedir_tag) =
     (if has_valid_cachedir_tag then Verified else Unverified)"

definition synthesize_constraint :: "finding_candidate \<Rightarrow> authority_constraint option" where
  "synthesize_constraint c =
     (if fc_protected_credential_boundaries c > 0 then Some ProtectedCredentialDirectory
      else if fc_parent_grants_foreign_mutation c then Some UntrustedParent
      else if fc_shared_writable_dirs c > 0 then Some SharedWritableDirectory
      else if fc_protected_boundaries c > 0 then Some MixedStateAiToolDirectory
      else None)"

fun constraint_reason :: "authority_constraint \<Rightarrow> string" where
  "constraint_reason MixedStateAiToolDirectory = MIXED_STATE_AI_TOOL_REASON"
| "constraint_reason SharedWritableDirectory = SHARED_WRITABLE_REASON"
| "constraint_reason UntrustedParent = UNTRUSTED_PARENT_REASON"
| "constraint_reason ProtectedCredentialDirectory = PROTECTED_CREDENTIAL_REASON"

definition finalized_disposition ::
  "finding_candidate \<Rightarrow> confidence \<Rightarrow> authority_constraint option \<Rightarrow> disposition" where
  "finalized_disposition c conf constraint =
     (case constraint of
        Some k \<Rightarrow> \<lparr>d_mode = ReportOnly, d_reason = Some (constraint_reason k)\<rparr>
      | None \<Rightarrow> derive (from_candidate_facts c conf))"

text \<open>\<open>[a, b].into_iter().flatten().max()\<close>\<close>

fun max_constraint ::
  "authority_constraint option \<Rightarrow> authority_constraint option \<Rightarrow> authority_constraint option" where
  "max_constraint None b = b"
| "max_constraint a None = a"
| "max_constraint (Some a) (Some b) = Some (max a b)"

definition from_candidate ::
  "finding_candidate \<Rightarrow> confidence \<Rightarrow> authority_constraint option \<Rightarrow> finding" where
  "from_candidate c conf constraint =
     (let constraint = max_constraint constraint (synthesize_constraint c) in
      \<lparr>f_ecosystem = fc_ecosystem c, f_path = fc_path c, f_kind = fc_kind c,
       f_bytes_apparent = fc_bytes_apparent c, f_bytes_allocated = fc_bytes_allocated c,
       f_age_days = fc_age_days c, f_bytes_hardlinked = fc_bytes_hardlinked c,
       f_inodes = fc_inodes c,
       f_skipped = sat_add (fc_skipped c) (fc_protected_boundaries c),
       f_truncated = fc_truncated c, f_unvisited_dirs = fc_unvisited_dirs c,
       f_recovery = fc_recovery c, f_ownership = fc_ownership c, f_hazard = fc_hazard c,
       f_confidence = conf,
       f_disposition = finalized_disposition c conf constraint,
       f_rationale = fc_rationale c\<rparr>)"

definition finalize ::
  "finding_candidate list \<Rightarrow> finding_source \<Rightarrow> authority_constraint option \<Rightarrow> finding list" where
  "finalize candidates source constraint =
     map (\<lambda>c. from_candidate c (source_confidence source) constraint) candidates"

definition finalize_findings :: "finding_candidate list \<Rightarrow> finding_source \<Rightarrow> finding list" where
  "finalize_findings candidates source = finalize candidates source None"

definition finalize_findings_with_constraint ::
  "finding_candidate list \<Rightarrow> finding_source \<Rightarrow> authority_constraint \<Rightarrow> finding list" where
  "finalize_findings_with_constraint candidates source constraint =
     finalize candidates source (Some constraint)"

section \<open>Consolidation\<close>

definition authority_precedes :: "finding \<Rightarrow> finding \<Rightarrow> bool" where
  "authority_precedes cand cur =
     (let candidate_rank = authority_rank (f_disposition cand);
          current_rank = authority_rank (f_disposition cur)
      in candidate_rank > current_rank \<or>
         candidate_rank = current_rank \<and> f_ecosystem cand < f_ecosystem cur)"

fun conservative_age :: "u64 option \<Rightarrow> u64 option \<Rightarrow> u64 option" where
  "conservative_age (Some l) (Some r) = Some (min l r)"
| "conservative_age _ _ = None"

definition replace_authority :: "finding \<Rightarrow> finding \<Rightarrow> finding" where
  "replace_authority self other =
     self\<lparr>f_ecosystem := f_ecosystem other, f_kind := f_kind other,
          f_recovery := f_recovery other, f_ownership := f_ownership other,
          f_hazard := f_hazard other, f_confidence := f_confidence other,
          f_disposition := f_disposition other, f_rationale := f_rationale other\<rparr>"

definition merge_same_path :: "finding \<Rightarrow> finding \<Rightarrow> finding" where
  "merge_same_path self other =
     (let replace = authority_precedes other self;
          merged = self\<lparr>
            f_bytes_apparent := max (f_bytes_apparent self) (f_bytes_apparent other),
            f_bytes_allocated := max (f_bytes_allocated self) (f_bytes_allocated other),
            f_age_days := conservative_age (f_age_days self) (f_age_days other),
            f_bytes_hardlinked := max (f_bytes_hardlinked self) (f_bytes_hardlinked other),
            f_inodes := max (f_inodes self) (f_inodes other),
            f_skipped := max (f_skipped self) (f_skipped other),
            f_truncated := (f_truncated self \<or> f_truncated other),
            f_unvisited_dirs := max (f_unvisited_dirs self) (f_unvisited_dirs other)\<rparr>
      in if replace then replace_authority merged other else merged)"

text \<open>The map is keyed by path equality, which is equality of components.\<close>

definition consolidate_insert ::
  "finding \<Rightarrow> (path_component list, finding) btree \<Rightarrow> (path_component list, finding) btree" where
  "consolidate_insert f by_path =
     (let k = path_components (f_path f) in
      case map_of by_path k of
        None \<Rightarrow> bt_insert k f by_path
      | Some cur \<Rightarrow> bt_insert k (merge_same_path cur f) by_path)"

definition consolidate_findings :: "finding list \<Rightarrow> finding list" where
  "consolidate_findings findings = map snd (fold consolidate_insert findings [])"

section \<open>The clean plan\<close>

definition paths_overlap :: "path \<Rightarrow> path \<Rightarrow> bool" where
  "paths_overlap l r = (path_starts_with l r \<or> path_starts_with r l)"

datatype plan_violation = Unauthorized | Overlapping

record invalid_plan =
  violation :: plan_violation
  offending_paths :: "path list"

record plan =
  p_items :: "finding list"

definition authorized :: "finding \<Rightarrow> bool \<Rightarrow> bool" where
  "authorized f opt_in_allowed =
     (case d_mode (f_disposition f) of
        Eligible \<Rightarrow> True | OptIn \<Rightarrow> opt_in_allowed | ReportOnly \<Rightarrow> False)"

text \<open>The pairs \<open>(items[i], items[j])\<close> with \<open>i < j\<close> that overlap, in the nested loop's order.\<close>

fun overlap_pairs :: "finding list \<Rightarrow> path list" where
  "overlap_pairs [] = []"
| "overlap_pairs (f # fs) =
     concat (map (\<lambda>g. if paths_overlap (f_path f) (f_path g) then [f_path f, f_path g] else []) fs) @
     overlap_pairs fs"

text \<open>\<open>Vec::dedup\<close> drops an element equal to the one before it; equality is component equality.\<close>

fun dedup_by :: "('a \<Rightarrow> 'a \<Rightarrow> bool) \<Rightarrow> 'a list \<Rightarrow> 'a list" where
  "dedup_by eq (x # y # xs) = (if eq x y then dedup_by eq (x # xs) else x # dedup_by eq (y # xs))"
| "dedup_by eq xs = xs"

definition overlapping_paths :: "finding list \<Rightarrow> path list" where
  "overlapping_paths items = dedup_by path_eq (sort_key path_components (overlap_pairs items))"

definition plan_new :: "finding list \<Rightarrow> bool \<Rightarrow> invalid_plan + plan" where
  "plan_new items opt_in_allowed =
     (let offending = map f_path (filter (\<lambda>f. \<not> authorized f opt_in_allowed) items) in
      if offending \<noteq> [] then Inl \<lparr>violation = Unauthorized, offending_paths = offending\<rparr>
      else let overlapping = overlapping_paths items in
        if overlapping \<noteq> [] then Inl \<lparr>violation = Overlapping, offending_paths = overlapping\<rparr>
        else Inr \<lparr>p_items = items\<rparr>)"

definition total_bytes_allocated :: "plan \<Rightarrow> u64" where
  "total_bytes_allocated p = foldl (\<lambda>t f. sat_add t (f_bytes_allocated f)) 0 (p_items p)"

definition total_inodes :: "plan \<Rightarrow> u64" where
  "total_inodes p = foldl (\<lambda>t f. sat_add t (f_inodes f)) 0 (p_items p)"

section \<open>The disposition is derived in one place\<close>

lemmas derive_defs =
  derive_def report_only_reason_def opt_in_reason_def Let_def

lemma derive_mode_cases:
  "d_mode (derive facts) = ReportOnly \<longleftrightarrow> report_only_reason facts \<noteq> None"
  "d_mode (derive facts) = OptIn \<longleftrightarrow>
     report_only_reason facts = None \<and> opt_in_reason facts \<noteq> None"
  by (auto simp: derive_def split: option.splits)

lemma report_only_reason_None_iff:
  "report_only_reason facts = None \<longleftrightarrow>
     (\<exists>cost. df_recovery facts = Regenerable cost) \<and> df_ownership facts = Standalone \<and>
     df_confidence facts = Verified \<and> df_measurement_complete facts"
  by (auto simp: report_only_reason_def Let_def
      split: recovery.splits ownership.splits confidence.splits)

lemma opt_in_reason_None_iff:
  "opt_in_reason facts = None \<longleftrightarrow>
     df_hazard facts = None \<and> df_recovery facts \<noteq> Regenerable Costly"
  by (auto simp: opt_in_reason_def split: option.splits hazard.splits)

lemma derive_reason_static:
  "d_reason (derive facts) = Some r \<Longrightarrow> r \<in> set STATIC_REASONS"
  by (auto simp: derive_defs STATIC_REASONS_def
      split: option.splits recovery.splits ownership.splits confidence.splits hazard.splits
        if_splits)

lemma derive_reason_iff: "d_reason (derive facts) = None \<longleftrightarrow> d_mode (derive facts) = Eligible"
  by (auto simp: derive_def split: option.splits)

lemma STATIC_REASONS_distinct: "distinct STATIC_REASONS"
  by (simp add: STATIC_REASONS_def reason_defs)

section \<open>Finalization\<close>

lemma max_constraint_None_iff: "max_constraint a b = None \<longleftrightarrow> a = None \<and> b = None"
  by (cases a; cases b) simp_all

lemma synthesize_constraint_None_iff:
  "synthesize_constraint c = None \<longleftrightarrow>
     fc_protected_credential_boundaries c = 0 \<and> \<not> fc_parent_grants_foreign_mutation c \<and>
     fc_shared_writable_dirs c = 0 \<and> fc_protected_boundaries c = 0"
  by (auto simp: synthesize_constraint_def word_gt_0)

lemma finalized_mode_constraint:
  "d_mode (f_disposition (from_candidate c conf k)) = ReportOnly"
  if "max_constraint k (synthesize_constraint c) \<noteq> None"
  using that by (auto simp: from_candidate_def Let_def finalized_disposition_def split: option.splits)

lemma from_candidate_unconstrained:
  "max_constraint k (synthesize_constraint c) = None \<Longrightarrow>
   f_disposition (from_candidate c conf k) = derive (from_candidate_facts c conf)"
  by (simp add: from_candidate_def Let_def finalized_disposition_def)

section \<open>Consolidation\<close>

text \<open>
  The interface of a keyed merge: a map that folds each element into the entry of its key.
  What the entry of a key holds is then the left fold of the elements of that key, in the
  order they came.
\<close>

locale keyed_merge =
  fixes key :: "'a \<Rightarrow> 'k::linorder"
    and merge :: "'a \<Rightarrow> 'a \<Rightarrow> 'a"
    and ins :: "'a \<Rightarrow> ('k, 'a) btree \<Rightarrow> ('k, 'a) btree"
  assumes ins_new: "map_of m (key x) = None \<Longrightarrow> ins x m = bt_insert (key x) x m"
    and ins_old: "map_of m (key x) = Some c \<Longrightarrow> ins x m = bt_insert (key x) (merge c x) m"
    and key_merge: "key (merge c x) = key c"
begin

lemma ins_sorted: "bt_sorted m \<Longrightarrow> bt_sorted (ins x m)"
  by (cases "map_of m (key x)") (simp_all add: ins_new ins_old bt_sorted_insert)

lemma fold_sorted: "bt_sorted m \<Longrightarrow> bt_sorted (fold ins xs m)"
  by (induction xs arbitrary: m) (simp_all add: ins_sorted)

lemma ins_lookup:
  "bt_sorted m \<Longrightarrow> map_of (ins x m) k =
     (if k = key x then Some (case map_of m k of None \<Rightarrow> x | Some c \<Rightarrow> merge c x) else map_of m k)"
  by (cases "map_of m (key x)") (auto simp: ins_new ins_old map_of_bt_insert)

text \<open>An invariant of the merge holds of every entry, in terms of the elements folded into it.\<close>

lemma fold_entries:
  assumes "bt_sorted m"
    and base: "\<And>x. Q {x} x"
    and step: "\<And>A c x. Q A c \<Longrightarrow> key c = key x \<Longrightarrow> Q (insert x A) (merge c x)"
    and "\<And>k c. map_of m k = Some c \<Longrightarrow> key c = k \<and> Q {a \<in> B. key a = k} c"
    and "\<And>k. map_of m k = None \<Longrightarrow> {a \<in> B. key a = k} = {}"
  shows "(\<forall>k c. map_of (fold ins xs m) k = Some c \<longrightarrow> key c = k \<and> Q {a \<in> B \<union> set xs. key a = k} c)
       \<and> (\<forall>k. map_of (fold ins xs m) k = None \<longrightarrow> {a \<in> B \<union> set xs. key a = k} = {})"
  using assms(1,4,5)
proof (induction xs arbitrary: m B)
  case Nil
  then show ?case by simp
next
  case (Cons x xs)
  have union: "B \<union> set (x # xs) = insert x B \<union> set xs" by simp
  have same: "{a \<in> insert x B. key a = key x} = insert x {a \<in> B. key a = key x}" by auto
  have other: "k \<noteq> key x \<Longrightarrow> {a \<in> insert x B. key a = k} = {a \<in> B. key a = k}" for k by auto
  have "key c = k \<and> Q {a \<in> insert x B. key a = k} c" if "map_of (ins x m) k = Some c" for k c
  proof (cases "k = key x")
    case False
    with that Cons.prems(1) have "map_of m k = Some c" by (simp add: ins_lookup)
    from Cons.prems(2) [OF this] show ?thesis unfolding other [OF False] .
  next
    case True
    show ?thesis
    proof (cases "map_of m k")
      case None
      with True that Cons.prems(1) have "c = x" by (simp add: ins_lookup)
      moreover have "{a \<in> insert x B. key a = k} = {x}"
        using True same Cons.prems(3) [OF None] by blast
      ultimately show ?thesis using True base by simp
    next
      case (Some d)
      with True that Cons.prems have "c = merge d x" and d: "key d = k" "Q {a \<in> B. key a = k} d"
        by (auto simp: ins_lookup)
      from step [OF d(2), of x] True d(1) have "Q {a \<in> insert x B. key a = k} (merge d x)"
        unfolding True same by simp
      with \<open>c = merge d x\<close> d(1) show ?thesis by (simp add: key_merge)
    qed
  qed
  moreover have "{a \<in> insert x B. key a = k} = {}" if "map_of (ins x m) k = None" for k
    using that Cons.prems by (auto simp: ins_lookup split: if_splits)
  ultimately show ?case
    unfolding union fold_Cons comp_apply
    by (intro Cons.IH) (auto simp: ins_sorted Cons.prems)
qed

end

lemma merge_same_path_path [simp]: "f_path (merge_same_path a b) = f_path a"
  by (simp add: merge_same_path_def Let_def replace_authority_def)

interpretation consolidation:
  keyed_merge "\<lambda>f. path_components (f_path f)" merge_same_path consolidate_insert
  by unfold_locales (simp_all add: consolidate_insert_def Let_def)

text \<open>What a merged finding carries of the findings merged into it.\<close>

definition strictest_of :: "finding set \<Rightarrow> finding \<Rightarrow> bool" where
  "strictest_of A g \<longleftrightarrow>
     (\<exists>f \<in> A. f_disposition g = f_disposition f \<and> f_recovery g = f_recovery f \<and>
        f_ownership g = f_ownership f \<and> f_hazard g = f_hazard f \<and>
        f_confidence g = f_confidence f \<and> f_rationale g = f_rationale f \<and>
        f_ecosystem g = f_ecosystem f) \<and>
     (\<forall>f \<in> A. authority_rank (f_disposition f) \<le> authority_rank (f_disposition g) \<and>
        f_bytes_allocated f \<le> f_bytes_allocated g \<and> f_inodes f \<le> f_inodes g \<and>
        f_skipped f \<le> f_skipped g \<and> f_unvisited_dirs f \<le> f_unvisited_dirs g \<and>
        (f_truncated f \<longrightarrow> f_truncated g))"

lemma strictest_of_single: "strictest_of {f} f"
  by (simp add: strictest_of_def)

lemma strictest_of_merge:
  assumes "strictest_of A c"
  shows "strictest_of (insert x A) (merge_same_path c x)"
proof -
  let ?m = "merge_same_path c x"
  have facts: "f_bytes_allocated ?m = max (f_bytes_allocated c) (f_bytes_allocated x)"
    "f_inodes ?m = max (f_inodes c) (f_inodes x)" "f_skipped ?m = max (f_skipped c) (f_skipped x)"
    "f_unvisited_dirs ?m = max (f_unvisited_dirs c) (f_unvisited_dirs x)"
    "f_truncated ?m = (f_truncated c \<or> f_truncated x)"
    by (simp_all add: merge_same_path_def Let_def replace_authority_def)
  show ?thesis
  proof (cases "authority_precedes x c")
    case True
    then have auth: "f_disposition ?m = f_disposition x" "f_recovery ?m = f_recovery x"
      "f_ownership ?m = f_ownership x" "f_hazard ?m = f_hazard x"
      "f_confidence ?m = f_confidence x" "f_rationale ?m = f_rationale x"
      "f_ecosystem ?m = f_ecosystem x"
      by (simp_all add: merge_same_path_def Let_def replace_authority_def)
    from True have le: "authority_rank (f_disposition c) \<le> authority_rank (f_disposition x)"
      by (auto simp: authority_precedes_def Let_def)
    have "authority_rank (f_disposition f) \<le> authority_rank (f_disposition ?m)" if "f \<in> insert x A" for f
    proof (cases "f = x")
      case False
      with that assms have "authority_rank (f_disposition f) \<le> authority_rank (f_disposition c)"
        unfolding strictest_of_def by blast
      then show ?thesis unfolding auth using le by (rule order_trans)
    qed (simp add: auth)
    with assms show ?thesis
      unfolding strictest_of_def by (simp add: auth facts le_max_iff_disj)
  next
    case False
    then have auth: "f_disposition ?m = f_disposition c" "f_recovery ?m = f_recovery c"
      "f_ownership ?m = f_ownership c" "f_hazard ?m = f_hazard c"
      "f_confidence ?m = f_confidence c" "f_rationale ?m = f_rationale c"
      "f_ecosystem ?m = f_ecosystem c"
      by (simp_all add: merge_same_path_def Let_def)
    from False have "authority_rank (f_disposition x) \<le> authority_rank (f_disposition c)"
      by (auto simp: authority_precedes_def Let_def not_less)
    with assms show ?thesis
      unfolding strictest_of_def by (auto simp: auth facts le_max_iff_disj)
  qed
qed

lemma consolidate_map:
  fixes fs :: "finding list"
  defines "m \<equiv> fold consolidate_insert fs []"
  shows "bt_sorted m"
    and "map_of m k = Some g \<Longrightarrow> path_components (f_path g) = k \<and>
           strictest_of {f \<in> set fs. path_components (f_path f) = k} g"
    and "map_of m k = None \<Longrightarrow> {f \<in> set fs. path_components (f_path f) = k} = {}"
proof -
  show "bt_sorted m" unfolding m_def by (rule consolidation.fold_sorted) (simp add: bt.invar_empty)
  have "(\<forall>k c. map_of m k = Some c \<longrightarrow> path_components (f_path c) = k \<and>
            strictest_of {a \<in> {} \<union> set fs. path_components (f_path a) = k} c)
      \<and> (\<forall>k. map_of m k = None \<longrightarrow> {a \<in> {} \<union> set fs. path_components (f_path a) = k} = {})"
    unfolding m_def
    by (rule consolidation.fold_entries)
       (simp_all add: bt.invar_empty strictest_of_single strictest_of_merge)
  then show "map_of m k = Some g \<Longrightarrow> path_components (f_path g) = k \<and>
           strictest_of {f \<in> set fs. path_components (f_path f) = k} g"
    and "map_of m k = None \<Longrightarrow> {f \<in> set fs. path_components (f_path f) = k} = {}"
    by simp_all
qed

lemma consolidate_mem:
  assumes "g \<in> set (consolidate_findings fs)"
  shows "strictest_of {f \<in> set fs. path_eq (f_path f) (f_path g)} g"
proof -
  from assms obtain k where "(k, g) \<in> set (fold consolidate_insert fs [])"
    by (auto simp: consolidate_findings_def)
  then have "map_of (fold consolidate_insert fs []) k = Some g"
    by (simp add: bt.entries_mem_iff [OF consolidate_map(1)])
  from consolidate_map(2) [OF this] show ?thesis by (simp add: path_eq_def)
qed

lemma consolidate_keys:
  "map (\<lambda>g. path_components (f_path g)) (consolidate_findings fs) =
   map fst (fold consolidate_insert fs [])"
proof -
  have "path_components (f_path g) = k" if "(k, g) \<in> set (fold consolidate_insert fs [])" for k g
    using that consolidate_map(2) [of fs k g] by (simp add: bt.entries_mem_iff [OF consolidate_map(1)])
  then show ?thesis by (auto simp: consolidate_findings_def)
qed

lemma consolidate_covers:
  assumes "f \<in> set fs"
  shows "\<exists>g \<in> set (consolidate_findings fs). path_eq (f_path g) (f_path f)"
proof -
  let ?m = "fold consolidate_insert fs []" and ?k = "path_components (f_path f)"
  from assms consolidate_map(3) [of fs ?k] obtain g where g: "map_of ?m ?k = Some g"
    by fastforce
  then have "(?k, g) \<in> set ?m" by (rule map_of_SomeD)
  then have "g \<in> set (consolidate_findings fs)" by (force simp: consolidate_findings_def)
  with consolidate_map(2) [OF g] show ?thesis by (auto simp: path_eq_def)
qed

lemma authority_rank_report_only:
  assumes "authority_rank d \<le> authority_rank d'" "d_mode d = ReportOnly"
  shows "d_mode d' = ReportOnly"
  using assms by (cases "d_mode d'") (simp_all add: authority_rank_def)

section \<open>The plan\<close>

lemma dedup_by_Nil_iff: "dedup_by eq xs = [] \<longleftrightarrow> xs = []"
  by (induction eq xs rule: dedup_by.induct) simp_all

lemma overlapping_paths_Nil_iff: "overlapping_paths fs = [] \<longleftrightarrow> overlap_pairs fs = []"
proof -
  have "sort_key path_components ps = [] \<longleftrightarrow> ps = []" for ps :: "path list"
    by (metis length_0_conv length_sort)
  then show ?thesis by (simp add: overlapping_paths_def dedup_by_Nil_iff)
qed

lemma overlap_pairs_Nil_iff:
  "overlap_pairs fs = [] \<longleftrightarrow>
     sorted_wrt (\<lambda>f g. \<not> paths_overlap (f_path f) (f_path g)) fs"
  by (induction fs) (auto simp: concat_eq_Nil_conv)

lemma plan_new_Inr_iff:
  "plan_new items b = Inr p \<longleftrightarrow>
     p = \<lparr>p_items = items\<rparr> \<and> (\<forall>f \<in> set items. authorized f b) \<and>
     sorted_wrt (\<lambda>f g. \<not> paths_overlap (f_path f) (f_path g)) items"
  by (auto simp: plan_new_def Let_def overlapping_paths_Nil_iff overlap_pairs_Nil_iff
      filter_empty_conv)

lemma foldl_sat_add:
  "unat (foldl (\<lambda>t f. sat_add t (g f)) t xs) =
     min (unat t + (\<Sum>f \<leftarrow> xs. unat (g f))) (2 ^ 64 - 1)"
  for t :: u64
proof (induction xs arbitrary: t)
  case Nil
  have "unat t < 2 ^ 64" using unsigned_less [of t, where 'a = nat] by simp
  then show ?case by simp
next
  case (Cons x xs)
  then show ?case by (simp add: unat_sat_add)
qed

section \<open>Properties\<close>

text \<open>A location is eligible for cleaning by default exactly when every fact allows it: it is
  cheap to regenerate, no tool coordinates it, its location is verified, it was measured
  completely and no hazard is declared; a reason is attached exactly to the other modes.\<close>

theorem derive_eligible_iff:
  "(d_mode (derive facts) = Eligible \<longleftrightarrow>
     df_recovery facts = Regenerable Cheap \<and> df_ownership facts = Standalone \<and>
     df_confidence facts = Verified \<and> df_measurement_complete facts \<and> df_hazard facts = None) \<and>
   (d_reason (derive facts) = None \<longleftrightarrow> d_mode (derive facts) = Eligible)"
proof -
  have "d_mode (derive facts) = Eligible \<longleftrightarrow>
      report_only_reason facts = None \<and> opt_in_reason facts = None"
    by (auto simp: derive_def split: option.splits)
  moreover have "(\<exists>cost. r = Regenerable cost) \<and> r \<noteq> Regenerable Costly \<longleftrightarrow> r = Regenerable Cheap"
    for r
    by (metis recovery.inject regen_cost.exhaust regen_cost.simps(2))
  ultimately show ?thesis
    by (auto simp: report_only_reason_None_iff opt_in_reason_None_iff derive_reason_iff)
qed

text \<open>C37: A finalized finding can enter a plan (its mode is not report-only) exactly when no
  authority constraint applies, neither the caller's nor one its own evidence supports, and the
  facts say a regenerable, standalone, verified and completely measured tree. A constraint never
  loses to a weaker one: the reason is that of the strongest.\<close>

theorem finalize_plannable_iff:
  "(d_mode (f_disposition (from_candidate c conf k)) \<noteq> ReportOnly \<longleftrightarrow>
     k = None \<and> fc_protected_credential_boundaries c = 0 \<and>
     \<not> fc_parent_grants_foreign_mutation c \<and> fc_shared_writable_dirs c = 0 \<and>
     fc_protected_boundaries c = 0 \<and>
     (\<exists>cost. fc_recovery c = Regenerable cost) \<and> fc_ownership c = Standalone \<and>
     conf = Verified \<and> fc_skipped c = 0 \<and> \<not> fc_truncated c \<and> fc_unvisited_dirs c = 0) \<and>
   (case max_constraint k (synthesize_constraint c) of
      None \<Rightarrow> True
    | Some strongest \<Rightarrow>
        d_reason (f_disposition (from_candidate c conf k)) = Some (constraint_reason strongest))"
proof (cases "max_constraint k (synthesize_constraint c)")
  case None
  then have "k = None" "synthesize_constraint c = None" by (simp_all add: max_constraint_None_iff)
  moreover from this have "fc_protected_credential_boundaries c = 0"
    "\<not> fc_parent_grants_foreign_mutation c" "fc_shared_writable_dirs c = 0"
    "fc_protected_boundaries c = 0"
    by (simp_all add: synthesize_constraint_None_iff)
  ultimately show ?thesis using None
    by (auto simp: from_candidate_unconstrained derive_mode_cases report_only_reason_None_iff
        from_candidate_facts_def)
next
  case (Some strongest)
  then have "\<not> (k = None \<and> synthesize_constraint c = None)"
    by (metis max_constraint_None_iff option.distinct(1))
  moreover from Some have "d_mode (f_disposition (from_candidate c conf k)) = ReportOnly"
    by (simp add: finalized_mode_constraint)
  ultimately show ?thesis using Some
    by (auto simp: synthesize_constraint_None_iff from_candidate_def Let_def finalized_disposition_def)
qed

text \<open>Consolidation returns one finding per distinct path, in path order, and covers every
  input path. Each returned finding keeps wholesale the policy facts of one of the findings of
  its path, one of the greatest authority rank, and a measurement at least as large as every
  one of them.\<close>

theorem consolidate_strictest:
  "sorted_wrt (<) (map (\<lambda>g. path_components (f_path g)) (consolidate_findings fs)) \<and>
   (\<forall>f \<in> set fs. \<exists>g \<in> set (consolidate_findings fs). path_eq (f_path g) (f_path f)) \<and>
   (\<forall>g \<in> set (consolidate_findings fs).
      strictest_of {f \<in> set fs. path_eq (f_path f) (f_path g)} g)"
  using consolidate_map(1) [of fs]
  by (simp add: consolidate_keys bt_sorted_def consolidate_covers consolidate_mem)

definition sample_candidate :: "string \<Rightarrow> recovery \<Rightarrow> finding_candidate" where
  "sample_candidate eco r =
     \<lparr>fc_ecosystem = eco, fc_path = [47, 99], fc_kind = OtherKind, fc_bytes_apparent = 4096,
      fc_bytes_allocated = 4096, fc_age_days = Some 1, fc_bytes_hardlinked = 0, fc_inodes = 1,
      fc_skipped = 0, fc_truncated = False, fc_unvisited_dirs = 0, fc_shared_writable_dirs = 0,
      fc_parent_grants_foreign_mutation = False, fc_protected_boundaries = 0,
      fc_protected_credential_boundaries = 0, fc_recovery = r, fc_ownership = Standalone,
      fc_hazard = None, fc_rationale = eco\<rparr>"

definition sample_finding :: "string \<Rightarrow> recovery \<Rightarrow> finding" where
  "sample_finding eco r = from_candidate (sample_candidate eco r) Verified None"

theorem consolidate_strictest_witness:
  "(\<exists>g \<in> set (consolidate_findings
        [sample_finding ''pip'' (Regenerable Cheap), sample_finding ''workspace'' UserAsset]).
      path_eq (f_path g) [47, 99])"
proof -
  let ?fs = "[sample_finding ''pip'' (Regenerable Cheap), sample_finding ''workspace'' UserAsset]"
  have "f_path (sample_finding ''pip'' (Regenerable Cheap)) = [47, 99]"
    by (simp add: sample_finding_def sample_candidate_def from_candidate_def Let_def)
  moreover have "sample_finding ''pip'' (Regenerable Cheap) \<in> set ?fs" by simp
  ultimately show ?thesis
    using consolidate_strictest [of ?fs, THEN conjunct2, THEN conjunct1, THEN bspec] by metis
qed

text \<open>C24: A report-only finding can never be cleaned through another finding of the same path: no
  plan built from consolidated findings has an item with the path of a report-only input,
  whether or not opt-in findings are allowed.\<close>

theorem report_only_never_planned:
  assumes "set items \<subseteq> set (consolidate_findings fs)"
    and "plan_new items opt_in_allowed = Inr p"
    and "f \<in> set fs" and "d_mode (f_disposition f) = ReportOnly"
    and "g \<in> set (p_items p)"
  shows "\<not> path_eq (f_path f) (f_path g)"
proof
  assume same: "path_eq (f_path f) (f_path g)"
  from assms(2,5) have g: "g \<in> set items" "authorized g opt_in_allowed"
    by (auto simp: plan_new_Inr_iff)
  with assms(1) have "strictest_of {f \<in> set fs. path_eq (f_path f) (f_path g)} g"
    by (auto intro: consolidate_mem)
  with assms(3) same have "authority_rank (f_disposition f) \<le> authority_rank (f_disposition g)"
    by (auto simp: strictest_of_def)
  from authority_rank_report_only [OF this assms(4)] have "d_mode (f_disposition g) = ReportOnly" .
  with g(2) show False by (simp add: authorized_def)
qed

definition sample_other :: finding where
  "sample_other = (sample_finding ''npm'' (Regenerable Cheap))\<lparr>f_path := [47, 100]\<rparr>"

lemmas sample_defs =
  sample_finding_def sample_candidate_def sample_other_def from_candidate_def Let_def
  synthesize_constraint_def finalized_disposition_def from_candidate_facts_def
  derive_def report_only_reason_def opt_in_reason_def

lemma sample_consolidated:
  "sample_other \<in> set (consolidate_findings [sample_finding ''ws'' UserAsset, sample_other])"
  by (simp add: consolidate_findings_def consolidate_insert_def sample_defs path_components_def
      is_absolute_def slash_def seg_components_def dot_def)

lemma sample_plan: "plan_new [sample_other] False = Inr \<lparr>p_items = [sample_other]\<rparr>"
  by (simp add: plan_new_def overlapping_paths_def authorized_def sample_defs)

theorem report_only_never_planned_witness:
  "\<not> path_eq (f_path (sample_finding ''ws'' UserAsset)) (f_path sample_other)"
  by (rule report_only_never_planned [OF _ sample_plan, where fs = "[sample_finding ''ws'' UserAsset, sample_other]"])
     (use sample_consolidated in \<open>simp_all add: sample_defs\<close>)

text \<open>\<open>Plan::new\<close> accepts a list of findings exactly when every one is authorized and no two
  overlap, and then the plan is that list; it reports unauthorized findings, all of them and
  nothing else, before it looks for overlaps.\<close>

theorem plan_new_cases:
  "plan_new items opt_in_allowed =
     (if \<not> (\<forall>f \<in> set items. authorized f opt_in_allowed)
      then Inl \<lparr>violation = Unauthorized,
                offending_paths = map f_path (filter (\<lambda>f. \<not> authorized f opt_in_allowed) items)\<rparr>
      else if \<not> sorted_wrt (\<lambda>f g. \<not> paths_overlap (f_path f) (f_path g)) items
      then Inl \<lparr>violation = Overlapping, offending_paths = overlapping_paths items\<rparr>
      else Inr \<lparr>p_items = items\<rparr>)"
  by (auto simp: plan_new_def Let_def overlapping_paths_Nil_iff overlap_pairs_Nil_iff
      filter_empty_conv)

theorem plan_new_cases_witness:
  "plan_new [sample_other] False = Inr \<lparr>p_items = [sample_other]\<rparr>"
  using plan_new_cases [of "[sample_other]" False]
  by (simp add: authorized_def sample_defs)

text \<open>C38: The totals of a plan saturate: they are the exact sums, or \<open>u64::MAX\<close> when the sum does
  not fit, and never wrap around.\<close>

theorem plan_totals_saturate:
  "unat (total_bytes_allocated p) =
     min (\<Sum>f \<leftarrow> p_items p. unat (f_bytes_allocated f)) (2 ^ 64 - 1) \<and>
   unat (total_inodes p) = min (\<Sum>f \<leftarrow> p_items p. unat (f_inodes f)) (2 ^ 64 - 1)"
  by (simp add: total_bytes_allocated_def total_inodes_def foldl_sat_add)

text \<open>C39: The reason of an untrusted parent does not survive a merge. \<open>reason_rank\<close> has no rank for
  it, so it ranks below every derived reason: merging a finding constrained by an untrusted
  parent with any report-only finding that carries a derived reason keeps the derived reason,
  although constraint reasons are documented to outrank every derived reason.\<close>

theorem untrusted_parent_reason_lost:
  assumes "fc_protected_credential_boundaries c = 0"
    and "d_mode (f_disposition g) = ReportOnly"
    and "d_reason (f_disposition g) = Some r" and "r \<in> set STATIC_REASONS"
  shows "f_disposition (merge_same_path (from_candidate c conf (Some UntrustedParent)) g) =
         f_disposition g"
proof -
  have "max_constraint (Some UntrustedParent) (synthesize_constraint c) = Some UntrustedParent"
    using assms(1)
    by (auto simp: synthesize_constraint_def max_def less_eq_authority_constraint_def)
  then have d: "f_disposition (from_candidate c conf (Some UntrustedParent)) =
      \<lparr>d_mode = ReportOnly, d_reason = Some UNTRUSTED_PARENT_REASON\<rparr>"
    by (simp add: from_candidate_def Let_def finalized_disposition_def)
  have "reason_rank UNTRUSTED_PARENT_REASON = 0"
    by (simp add: reason_rank_def Let_def STATIC_REASONS_def reason_defs)
  moreover have "reason_rank r > 0"
    using assms(4) by (auto simp: reason_rank_def Let_def STATIC_REASONS_def reason_defs)
  ultimately have "authority_precedes g (from_candidate c conf (Some UntrustedParent))"
    using assms(2,3) by (simp add: authority_precedes_def Let_def d authority_rank_def)
  then show ?thesis by (simp add: merge_same_path_def Let_def replace_authority_def)
qed

theorem untrusted_parent_reason_lost_witness:
  "d_reason (f_disposition (merge_same_path
      (from_candidate (sample_candidate ''a'' (Regenerable Cheap)) Verified (Some UntrustedParent))
      (sample_finding ''b'' UserAsset))) = Some USER_ASSET"
  using untrusted_parent_reason_lost
    [of "sample_candidate ''a'' (Regenerable Cheap)" "sample_finding ''b'' UserAsset" USER_ASSET Verified]
  by (simp add: sample_defs STATIC_REASONS_def)

end
