(* ===== verification/Authority.thy ===== *)
theory Authority
  imports Degu_Prelude
begin

text \<open>
  The authority vocabulary of \<open>degu-core\<close>: the durable transaction states and the recovery
  evidence they carry (\<open>authority.rs\<close>), writer exposures and how a stage-time exposure is
  compared with a confirmed one, and the POSIX mode-bit evaluation of who may change a
  directory's namespace (\<open>authority/mode.rs\<close>).
\<close>

section \<open>Transaction states\<close>

datatype transaction_state =
  Prepared | ParentSealIntent | ParentSealed | TreeSealIntent | TreeSealed | RenameIntent |
  StagedUnverified | SourceParentRestoreIntent | SourceParentRestored | StagedSealed |
  VerifiedCommitted | UndoIntent | UndoModesRestored | UndoRenameIntent | UndoConflict |
  Purgeable | PurgeIntent | PurgeOutcome | Purged | RollbackIntent | RolledBack |
  RestoreIntent | Restored | Quarantined | RecoveryRequired

definition writer_acceptance_expired :: "transaction_state \<Rightarrow> bool" where
  "writer_acceptance_expired s \<longleftrightarrow>
     s \<in> {VerifiedCommitted, UndoIntent, UndoModesRestored, UndoRenameIntent, UndoConflict,
          Purgeable, PurgeIntent, PurgeOutcome, Purged}"

section \<open>Recovery evidence\<close>

record persistent_recovery_evidence =
  ev_relative_path :: path
  ev_filesystem_id :: "bytes option"
  ev_device :: u64
  ev_inode :: u64
  ev_generation_or_btime :: "u64 option"
  ev_expected_mode :: u32

definition is_confined_relative_path :: "path \<Rightarrow> bool" where
  "is_confined_relative_path p =
     (case path_components p of
        [] \<Rightarrow> False
      | c # cs \<Rightarrow> is_normal c \<and> list_all is_normal cs)"

definition evidence_new_inner ::
  "path \<Rightarrow> bytes option \<Rightarrow> u64 \<Rightarrow> u64 \<Rightarrow> u64 option \<Rightarrow> u32 \<Rightarrow> bool \<Rightarrow>
   persistent_recovery_evidence option" where
  "evidence_new_inner p fs dev ino gen mode allow_anchor =
     (if is_confined_relative_path p \<or> allow_anchor \<and> p = []
      then Some \<lparr>ev_relative_path = p, ev_filesystem_id = fs, ev_device = dev, ev_inode = ino,
                 ev_generation_or_btime = gen, ev_expected_mode = mode\<rparr>
      else None)"

definition evidence_new ::
  "path \<Rightarrow> bytes option \<Rightarrow> u64 \<Rightarrow> u64 \<Rightarrow> u64 option \<Rightarrow> u32 \<Rightarrow> persistent_recovery_evidence option"
where
  "evidence_new p fs dev ino gen mode = evidence_new_inner p fs dev ino gen mode False"

definition evidence_new_staging ::
  "path \<Rightarrow> bytes option \<Rightarrow> u64 \<Rightarrow> u64 \<Rightarrow> u64 option \<Rightarrow> u32 \<Rightarrow> persistent_recovery_evidence option"
where
  "evidence_new_staging p fs dev ino gen mode = evidence_new_inner p fs dev ino gen mode True"

section \<open>Rights and exposures\<close>

datatype principal = PosixUid u32 | PosixGid u32 | Nfs4 string | Everyone | UnknownPrincipal

record namespace_rights =
  create_file :: bool
  create_dir :: bool
  delete_child :: bool
  replace_child :: bool
  traverse :: bool

definition no_namespace_rights :: namespace_rights where
  "no_namespace_rights =
     \<lparr>create_file = False, create_dir = False, delete_child = False, replace_child = False,
      traverse = False\<rparr>"

definition ns_subset :: "namespace_rights \<Rightarrow> namespace_rights \<Rightarrow> bool" where
  "ns_subset a b \<longleftrightarrow>
     (create_file a \<longrightarrow> create_file b) \<and> (create_dir a \<longrightarrow> create_dir b) \<and>
     (delete_child a \<longrightarrow> delete_child b) \<and> (replace_child a \<longrightarrow> replace_child b) \<and>
     (traverse a \<longrightarrow> traverse b)"

definition ns_union :: "namespace_rights \<Rightarrow> namespace_rights \<Rightarrow> namespace_rights" where
  "ns_union a b =
     \<lparr>create_file = (create_file a \<or> create_file b), create_dir = (create_dir a \<or> create_dir b),
      delete_child = (delete_child a \<or> delete_child b),
      replace_child = (replace_child a \<or> replace_child b), traverse = (traverse a \<or> traverse b)\<rparr>"

record authority_control_rights =
  change_mode :: bool
  change_acl :: bool
  replace_binding :: bool

definition ctl_subset :: "authority_control_rights \<Rightarrow> authority_control_rights \<Rightarrow> bool" where
  "ctl_subset a b \<longleftrightarrow>
     (change_mode a \<longrightarrow> change_mode b) \<and> (change_acl a \<longrightarrow> change_acl b) \<and>
     (replace_binding a \<longrightarrow> replace_binding b)"

definition ctl_union ::
  "authority_control_rights \<Rightarrow> authority_control_rights \<Rightarrow> authority_control_rights" where
  "ctl_union a b =
     \<lparr>change_mode = (change_mode a \<or> change_mode b), change_acl = (change_acl a \<or> change_acl b),
      replace_binding = (replace_binding a \<or> replace_binding b)\<rparr>"

datatype authority_backend = PosixMode | LinuxPosixAcl | MacOsAcl | Nfs4Acl | UnknownBackend

definition backend_is_known :: "authority_backend \<Rightarrow> bool" where
  "backend_is_known b = (b \<noteq> UnknownBackend)"

datatype evidence_certainty = VerifiedEvidence | InferredEvidence | UnknownEvidence

fun no_weaker_than :: "evidence_certainty \<Rightarrow> evidence_certainty \<Rightarrow> bool" where
  "no_weaker_than VerifiedEvidence c = (c = VerifiedEvidence \<or> c = InferredEvidence)"
| "no_weaker_than InferredEvidence c = (c = InferredEvidence)"
| "no_weaker_than UnknownEvidence c = False"

fun least_certainty :: "evidence_certainty \<Rightarrow> evidence_certainty \<Rightarrow> evidence_certainty" where
  "least_certainty UnknownEvidence _ = UnknownEvidence"
| "least_certainty _ UnknownEvidence = UnknownEvidence"
| "least_certainty InferredEvidence _ = InferredEvidence"
| "least_certainty _ InferredEvidence = InferredEvidence"
| "least_certainty VerifiedEvidence VerifiedEvidence = VerifiedEvidence"

datatype object_file_type = Directory | RegularFile | Symlink | OtherFileType

record stable_object_id =
  so_mount_id :: u64
  so_device :: u64
  so_inode :: u64
  so_file_type :: object_file_type

datatype authority_scope = RootBinding | WholeMutationUnit | DirectoryScope stable_object_id

fun is_within :: "authority_scope \<Rightarrow> authority_scope \<Rightarrow> bool" where
  "is_within RootBinding RootBinding = True"
| "is_within WholeMutationUnit WholeMutationUnit = True"
| "is_within (DirectoryScope _) WholeMutationUnit = True"
| "is_within (DirectoryScope actual) (DirectoryScope expected) = (actual = expected)"
| "is_within _ _ = False"

record exposure_key =
  ek_mutation_unit_id :: u64
  ek_scope :: authority_scope
  ek_principal :: principal
  ek_backend :: authority_backend

record exposure_value =
  xv_rights :: namespace_rights
  xv_control_rights :: authority_control_rights
  xv_certainty :: evidence_certainty

definition value_no_wider :: "exposure_value \<Rightarrow> exposure_value \<Rightarrow> bool" where
  "value_no_wider a c \<longleftrightarrow>
     ns_subset (xv_rights a) (xv_rights c) \<and>
     ctl_subset (xv_control_rights a) (xv_control_rights c) \<and>
     no_weaker_than (xv_certainty a) (xv_certainty c)"

definition value_union :: "exposure_value \<Rightarrow> exposure_value \<Rightarrow> exposure_value" where
  "value_union a b =
     \<lparr>xv_rights = ns_union (xv_rights a) (xv_rights b),
      xv_control_rights = ctl_union (xv_control_rights a) (xv_control_rights b),
      xv_certainty = least_certainty (xv_certainty a) (xv_certainty b)\<rparr>"

text \<open>The exposure set is only searched and quantified over, so the order of its map is not
  modelled.\<close>

type_synonym writer_exposure_set = "(exposure_key \<times> exposure_value) list"

fun exposure_insert ::
  "exposure_key \<Rightarrow> exposure_value \<Rightarrow> writer_exposure_set \<Rightarrow> writer_exposure_set" where
  "exposure_insert k v [] = [(k, v)]"
| "exposure_insert k v ((k', v') # es) =
     (if k' = k then (k', value_union v' v) # es else (k', v') # exposure_insert k v es)"

definition exposure_entry_covered ::
  "exposure_key \<times> exposure_value \<Rightarrow> exposure_key \<times> exposure_value \<Rightarrow> bool" where
  "exposure_entry_covered a c \<longleftrightarrow>
     ek_principal (fst c) \<noteq> UnknownPrincipal \<and> backend_is_known (ek_backend (fst c)) \<and>
     ek_mutation_unit_id (fst a) = ek_mutation_unit_id (fst c) \<and>
     ek_principal (fst a) = ek_principal (fst c) \<and> ek_backend (fst a) = ek_backend (fst c) \<and>
     is_within (ek_scope (fst a)) (ek_scope (fst c)) \<and> value_no_wider (snd a) (snd c)"

definition is_no_wider_than :: "writer_exposure_set \<Rightarrow> writer_exposure_set \<Rightarrow> bool" where
  "is_no_wider_than actual confirmed =
     list_all (\<lambda>a. ek_principal (fst a) \<noteq> UnknownPrincipal \<and> backend_is_known (ek_backend (fst a)) \<and>
        list_ex (exposure_entry_covered a) confirmed) actual"

section \<open>Mode bits\<close>

text \<open>Octal constants: \<open>0o200 = 128\<close>, \<open>0o100 = 64\<close>, \<open>0o020 = 16\<close>, \<open>0o010 = 8\<close>, \<open>0o1000 = 512\<close>.\<close>

definition OWNER_WRITE :: u32 where "OWNER_WRITE = 128"
definition OWNER_EXECUTE :: u32 where "OWNER_EXECUTE = 64"
definition GROUP_WRITE :: u32 where "GROUP_WRITE = 16"
definition GROUP_EXECUTE :: u32 where "GROUP_EXECUTE = 8"
definition OTHER_WRITE :: u32 where "OTHER_WRITE = 2"
definition OTHER_EXECUTE :: u32 where "OTHER_EXECUTE = 1"
definition STICKY :: u32 where "STICKY = 512"

lemmas mode_bit_defs =
  OWNER_WRITE_def OWNER_EXECUTE_def GROUP_WRITE_def GROUP_EXECUTE_def OTHER_WRITE_def
  OTHER_EXECUTE_def STICKY_def

datatype access_class = OwnerClass | GroupClass | OtherClass

record posix_subject =
  ps_uid :: u32
  ps_groups :: "u32 list"

record directory_mode_facts =
  dm_mode :: u32
  dm_owner_uid :: u32
  dm_group_gid :: u32

definition effective_access_class :: "directory_mode_facts \<Rightarrow> posix_subject \<Rightarrow> access_class" where
  "effective_access_class facts subject =
     (if ps_uid subject = dm_owner_uid facts then OwnerClass
      else if dm_group_gid facts \<in> set (ps_groups subject) then GroupClass
      else OtherClass)"

definition evaluate_namespace_rights ::
  "directory_mode_facts \<Rightarrow> posix_subject \<Rightarrow> u32 option \<Rightarrow> namespace_rights" where
  "evaluate_namespace_rights facts subject binding_owner_uid =
     (let (w, x) = (case effective_access_class facts subject of
            OwnerClass \<Rightarrow> (OWNER_WRITE, OWNER_EXECUTE)
          | GroupClass \<Rightarrow> (GROUP_WRITE, GROUP_EXECUTE)
          | OtherClass \<Rightarrow> (OTHER_WRITE, OTHER_EXECUTE));
          write = (dm_mode facts AND w \<noteq> 0);
          search = (dm_mode facts AND x \<noteq> 0);
          can_write_namespace = (write \<and> search);
          can_mutate_existing = (dm_mode facts AND STICKY = 0 \<or>
            ps_uid subject = dm_owner_uid facts \<or>
            (case binding_owner_uid of None \<Rightarrow> False | Some owner \<Rightarrow> ps_uid subject = owner))
      in \<lparr>create_file = can_write_namespace, create_dir = can_write_namespace,
          delete_child = (can_write_namespace \<and> can_mutate_existing),
          replace_child = (can_write_namespace \<and> can_mutate_existing),
          traverse = search\<rparr>)"

record writer_exposure =
  we_principal :: principal
  we_rights :: namespace_rights
  we_source :: authority_backend
  we_inherited :: bool
  we_certainty :: evidence_certainty

record authority_controller_exposure =
  ac_principal :: principal
  ac_rights :: authority_control_rights

definition class_rights :: "u32 \<Rightarrow> u32 \<Rightarrow> u32 \<Rightarrow> bool \<Rightarrow> namespace_rights" where
  "class_rights mode w x sticky_owner =
     (let sticky = (mode AND STICKY \<noteq> 0);
          trav = (mode AND x \<noteq> 0);
          write_and_search = (mode AND w \<noteq> 0 \<and> trav)
      in \<lparr>create_file = write_and_search, create_dir = write_and_search,
          delete_child = (write_and_search \<and> (\<not> sticky \<or> sticky_owner)),
          replace_child = (write_and_search \<and> (\<not> sticky \<or> sticky_owner)),
          traverse = trav\<rparr>)"

definition mode_writer :: "principal \<Rightarrow> namespace_rights \<Rightarrow> writer_exposure" where
  "mode_writer p r =
     \<lparr>we_principal = p, we_rights = r, we_source = PosixMode, we_inherited = False,
      we_certainty = VerifiedEvidence\<rparr>"

definition foreign_mode_exposure ::
  "directory_mode_facts \<Rightarrow> u32 \<Rightarrow> writer_exposure list \<times> authority_controller_exposure list" where
  "foreign_mode_exposure facts effective_uid =
     (let mode = dm_mode facts;
          foreign = (dm_owner_uid facts \<noteq> effective_uid);
          owner = class_rights mode OWNER_WRITE OWNER_EXECUTE True;
          grp = class_rights mode GROUP_WRITE GROUP_EXECUTE False;
          oth = class_rights mode OTHER_WRITE OTHER_EXECUTE False
      in ((if foreign \<and> (create_file owner \<or> delete_child owner \<or> traverse owner)
           then [mode_writer (PosixUid (dm_owner_uid facts)) owner] else []) @
          (if create_file grp \<or> delete_child grp
           then [mode_writer (PosixGid (dm_group_gid facts)) grp] else []) @
          (if create_file oth \<or> delete_child oth then [mode_writer Everyone oth] else []),
          (if foreign
           then [\<lparr>ac_principal = PosixUid (dm_owner_uid facts),
                  ac_rights = \<lparr>change_mode = True, change_acl = True, replace_binding = True\<rparr>\<rparr>]
           else [])))"

definition minimal_sealed_mode :: "u32 \<Rightarrow> u32" where
  "minimal_sealed_mode mode =
     (let sealed = (if mode AND (GROUP_WRITE OR GROUP_EXECUTE) = GROUP_WRITE OR GROUP_EXECUTE
                    then mode AND NOT GROUP_WRITE else mode)
      in if mode AND (OTHER_WRITE OR OTHER_EXECUTE) = OTHER_WRITE OR OTHER_EXECUTE
         then sealed AND NOT OTHER_WRITE else sealed)"

datatype capability_assessment =
  CapabilityPresent authority_backend
  | OwnerModeTransform u32 u32
  | PermissionDenied

text \<open>\<open>OwnerModeTransform original required\<close> is \<open>Acquirable\<close>, \<open>PermissionDenied\<close> is \<open>Missing\<close>.\<close>

definition assess_capability_facts ::
  "directory_mode_facts \<Rightarrow> posix_subject \<Rightarrow> u32 option \<Rightarrow> capability_assessment" where
  "assess_capability_facts facts subject binding_owner_uid =
     (if replace_child (evaluate_namespace_rights facts subject binding_owner_uid)
      then CapabilityPresent PosixMode
      else if ps_uid subject = dm_owner_uid facts
      then OwnerModeTransform (dm_mode facts)
             (minimal_sealed_mode (dm_mode facts OR OWNER_WRITE OR OWNER_EXECUTE))
      else PermissionDenied)"

section \<open>Mode-bit lemmas\<close>

lemma u32_bits:
  fixes m :: u32
  shows "m AND 1 \<noteq> 0 \<longleftrightarrow> bit m 0" "m AND 2 \<noteq> 0 \<longleftrightarrow> bit m 1" "m AND 8 \<noteq> 0 \<longleftrightarrow> bit m 3"
    "m AND 16 \<noteq> 0 \<longleftrightarrow> bit m 4" "m AND 64 \<noteq> 0 \<longleftrightarrow> bit m 6" "m AND 128 \<noteq> 0 \<longleftrightarrow> bit m 7"
    "m AND 512 \<noteq> 0 \<longleftrightarrow> bit m 9"
  using and_exp_eq_0_iff_not_bit [of m 0] and_exp_eq_0_iff_not_bit [of m 1]
    and_exp_eq_0_iff_not_bit [of m 3] and_exp_eq_0_iff_not_bit [of m 4]
    and_exp_eq_0_iff_not_bit [of m 6] and_exp_eq_0_iff_not_bit [of m 7]
    and_exp_eq_0_iff_not_bit [of m 9]
  by simp_all

lemma and_eq_mask_iff: "m AND k = k \<longleftrightarrow> (\<forall>n. bit k n \<longrightarrow> bit m n)" for m k :: "'a::len word"
  by (auto simp: bit_eq_iff bit_and_iff dest: bit_imp_le_length)

lemma bit_exp32: "k < 32 \<Longrightarrow> bit (2 ^ k :: u32) n \<longleftrightarrow> n = k"
  by (auto simp: bit_exp_iff possible_bit_word)

lemma bit_u32_exp:
  "bit (1::u32) n \<longleftrightarrow> n = 0" "bit (2::u32) n \<longleftrightarrow> n = 1" "bit (8::u32) n \<longleftrightarrow> n = 3"
  "bit (16::u32) n \<longleftrightarrow> n = 4" "bit (64::u32) n \<longleftrightarrow> n = 6" "bit (128::u32) n \<longleftrightarrow> n = 7"
  "bit (512::u32) n \<longleftrightarrow> n = 9"
  using bit_exp32 [of 0 n] bit_exp32 [of 1 n] bit_exp32 [of 3 n] bit_exp32 [of 4 n]
    bit_exp32 [of 6 n] bit_exp32 [of 7 n] bit_exp32 [of 9 n]
  by (simp_all del: bit_numeral_simps bit_1_iff add: numeral_eq_Suc)

lemma bit_minimal_sealed_mode:
  "bit (minimal_sealed_mode m) n \<longleftrightarrow>
     bit m n \<and> \<not> (n = 4 \<and> bit m 3) \<and> \<not> (n = 1 \<and> bit m 0)"
proof -
  have g: "m AND (GROUP_WRITE OR GROUP_EXECUTE) = GROUP_WRITE OR GROUP_EXECUTE \<longleftrightarrow> bit m 3 \<and> bit m 4"
    unfolding and_eq_mask_iff bit_or_iff mode_bit_defs bit_u32_exp by auto
  have o: "m AND (OTHER_WRITE OR OTHER_EXECUTE) = OTHER_WRITE OR OTHER_EXECUTE \<longleftrightarrow> bit m 0 \<and> bit m 1"
    unfolding and_eq_mask_iff bit_or_iff mode_bit_defs bit_u32_exp by auto
  have clear: "bit (x AND NOT GROUP_WRITE) n \<longleftrightarrow> bit x n \<and> n \<noteq> 4"
    "bit (x AND NOT OTHER_WRITE) n \<longleftrightarrow> bit x n \<and> n \<noteq> 1" for x :: u32
    unfolding bit_and_iff bit_not_iff mode_bit_defs bit_u32_exp possible_bit_word
    using bit_imp_le_length [of x n] by auto
  show ?thesis
    unfolding minimal_sealed_mode_def g o Let_def by (auto simp: clear)
qed

lemma rights_bits:
  "traverse (evaluate_namespace_rights f s b) \<longleftrightarrow>
     bit (dm_mode f) (case effective_access_class f s of OwnerClass \<Rightarrow> 6 | GroupClass \<Rightarrow> 3 | OtherClass \<Rightarrow> 0)"
  "create_file (evaluate_namespace_rights f s b) \<longleftrightarrow>
     bit (dm_mode f) (case effective_access_class f s of OwnerClass \<Rightarrow> 7 | GroupClass \<Rightarrow> 4 | OtherClass \<Rightarrow> 1) \<and>
     bit (dm_mode f) (case effective_access_class f s of OwnerClass \<Rightarrow> 6 | GroupClass \<Rightarrow> 3 | OtherClass \<Rightarrow> 0)"
  "create_dir (evaluate_namespace_rights f s b) = create_file (evaluate_namespace_rights f s b)"
  "delete_child (evaluate_namespace_rights f s b) \<longleftrightarrow>
     create_file (evaluate_namespace_rights f s b) \<and>
     (\<not> bit (dm_mode f) 9 \<or> ps_uid s = dm_owner_uid f \<or> b = Some (ps_uid s))"
  "replace_child (evaluate_namespace_rights f s b) = delete_child (evaluate_namespace_rights f s b)"
  by (auto simp: evaluate_namespace_rights_def Let_def mode_bit_defs u32_bits
      simp flip: u32_bits(7) split: access_class.splits option.splits)

section \<open>Exposure lemmas\<close>

lemma value_union_no_wider:
  "value_no_wider (value_union a b) c \<Longrightarrow> value_no_wider a c"
  by (cases "xv_certainty a"; cases "xv_certainty b"; cases "xv_certainty c")
     (auto simp: value_no_wider_def value_union_def ns_subset_def ns_union_def ctl_subset_def ctl_union_def)

lemma value_no_wider_trans:
  "value_no_wider a b \<Longrightarrow> value_no_wider b c \<Longrightarrow> value_no_wider a c"
  by (cases "xv_certainty a"; cases "xv_certainty b"; cases "xv_certainty c")
     (auto simp: value_no_wider_def ns_subset_def ctl_subset_def)

lemma is_within_trans: "is_within a b \<Longrightarrow> is_within b c \<Longrightarrow> is_within a c"
  by (cases a; cases b; cases c) auto

lemma exposure_entry_covered_trans:
  "exposure_entry_covered a b \<Longrightarrow> exposure_entry_covered b c \<Longrightarrow> exposure_entry_covered a c"
  unfolding exposure_entry_covered_def by (auto intro: value_no_wider_trans is_within_trans)

lemma is_no_wider_than_insert:
  "is_no_wider_than (exposure_insert k v es) c \<Longrightarrow> is_no_wider_than es c"
proof (induction es)
  case (Cons e es)
  obtain k' v' where e: "e = (k', v')" by (cases e)
  show ?case
  proof (cases "k' = k")
    case True
    with Cons.prems show ?thesis
      by (auto simp: e is_no_wider_than_def list_ex_iff exposure_entry_covered_def
          intro: value_union_no_wider)
  next
    case False
    with Cons show ?thesis by (simp add: e is_no_wider_than_def)
  qed
qed (simp add: is_no_wider_than_def)

section \<open>Properties\<close>

text \<open>Sealing a directory mode takes the namespace away from everybody but its owner and
  changes nothing else: no subject other than the owner may create, delete or replace an entry
  afterwards, every subject traverses as before, the owner's rights and every bit other than
  the two write bits are kept, and sealing twice is sealing once.\<close>

theorem sealed_mode_excludes_others:
  fixes facts :: directory_mode_facts
  defines "sealed \<equiv> facts\<lparr>dm_mode := minimal_sealed_mode (dm_mode facts)\<rparr>"
  shows "(ps_uid s \<noteq> dm_owner_uid facts \<longrightarrow>
            \<not> create_file (evaluate_namespace_rights sealed s b) \<and>
            \<not> create_dir (evaluate_namespace_rights sealed s b) \<and>
            \<not> delete_child (evaluate_namespace_rights sealed s b) \<and>
            \<not> replace_child (evaluate_namespace_rights sealed s b)) \<and>
         (traverse (evaluate_namespace_rights sealed s b) =
            traverse (evaluate_namespace_rights facts s b)) \<and>
         (ps_uid s = dm_owner_uid facts \<longrightarrow>
            evaluate_namespace_rights sealed s b = evaluate_namespace_rights facts s b) \<and>
         (\<forall>n. n \<noteq> 4 \<and> n \<noteq> 1 \<longrightarrow> bit (dm_mode sealed) n = bit (dm_mode facts) n) \<and>
         minimal_sealed_mode (dm_mode sealed) = dm_mode sealed"
proof -
  have cls: "effective_access_class sealed s = effective_access_class facts s"
    by (simp add: sealed_def effective_access_class_def)
  have mode: "dm_mode sealed = minimal_sealed_mode (dm_mode facts)"
    and own: "dm_owner_uid sealed = dm_owner_uid facts"
    by (simp_all add: sealed_def)
  have other: "effective_access_class facts s = OwnerClass \<longleftrightarrow> ps_uid s = dm_owner_uid facts"
    by (simp add: effective_access_class_def)
  have none: "\<not> create_file (evaluate_namespace_rights sealed s b)" if "ps_uid s \<noteq> dm_owner_uid facts"
    using that other
    by (cases "effective_access_class facts s") (auto simp: rights_bits cls mode bit_minimal_sealed_mode)
  have idem: "minimal_sealed_mode (dm_mode sealed) = dm_mode sealed"
    by (auto simp: bit_eq_iff mode bit_minimal_sealed_mode)
  have trav: "traverse (evaluate_namespace_rights sealed s b) = traverse (evaluate_namespace_rights facts s b)"
    by (cases "effective_access_class facts s") (auto simp: rights_bits cls mode bit_minimal_sealed_mode)
  have same: "evaluate_namespace_rights sealed s b = evaluate_namespace_rights facts s b"
    if "ps_uid s = dm_owner_uid facts"
    using that other by (intro namespace_rights.equality)
      (auto simp: rights_bits cls mode own bit_minimal_sealed_mode)
  show ?thesis
    using none idem trav same by (auto simp: rights_bits(3-5) mode bit_minimal_sealed_mode)
qed

theorem sealed_mode_excludes_others_witness:
  "\<not> create_file (evaluate_namespace_rights
      \<lparr>dm_mode = minimal_sealed_mode 511, dm_owner_uid = 7, dm_group_gid = 8\<rparr>
      \<lparr>ps_uid = 9, ps_groups = [8]\<rparr> None)"
  using sealed_mode_excludes_others [of "\<lparr>ps_uid = 9, ps_groups = [8]\<rparr>"
      "\<lparr>dm_mode = 511, dm_owner_uid = 7, dm_group_gid = 8\<rparr>" None]
  by simp

text \<open>Confirmation of writer exposures is monotone and composes: recording one more exposure
  never makes an unconfirmed set look confirmed, and an exposure set within a set that is itself
  within a third is within the third.\<close>

theorem exposure_confirmation_monotone:
  "(is_no_wider_than (exposure_insert k v actual) confirmed \<longrightarrow> is_no_wider_than actual confirmed) \<and>
   (is_no_wider_than actual confirmed \<and> is_no_wider_than confirmed broader \<longrightarrow>
      is_no_wider_than actual broader)"
proof -
  have "is_no_wider_than actual broader"
    if "is_no_wider_than actual confirmed" "is_no_wider_than confirmed broader"
    using that unfolding is_no_wider_than_def list_all_iff list_ex_iff
    by (meson exposure_entry_covered_trans)
  then show ?thesis using is_no_wider_than_insert by blast
qed

definition sample_exposure :: "exposure_key \<times> exposure_value" where
  "sample_exposure =
     (\<lparr>ek_mutation_unit_id = 1, ek_scope = RootBinding, ek_principal = Everyone, ek_backend = PosixMode\<rparr>,
      \<lparr>xv_rights = no_namespace_rights,
       xv_control_rights = \<lparr>change_mode = False, change_acl = False, replace_binding = False\<rparr>,
       xv_certainty = VerifiedEvidence\<rparr>)"

theorem exposure_confirmation_monotone_witness:
  "is_no_wider_than [] [sample_exposure]"
proof -
  have "is_no_wider_than (exposure_insert (fst sample_exposure) (snd sample_exposure) []) [sample_exposure]"
    by (simp add: is_no_wider_than_def sample_exposure_def exposure_entry_covered_def
        backend_is_known_def value_no_wider_def ns_subset_def ctl_subset_def)
  then show ?thesis using exposure_confirmation_monotone by blast
qed

end
