(* ===== verification/Wal_Types.thy ===== *)
theory Wal_Types
  imports Authority
begin

text \<open>
  The data of the seal WAL (\<open>seal/wal.rs\<close>): identities, locators and the staging metadata bound
  by a transaction's first frame, tree manifests and sidecar commitments (\<open>seal/sidecar.rs\<close>),
  rename outcomes, purge commitments, permission intents, and the records themselves, with the
  validity conditions their constructors enforce.
\<close>

section \<open>Transaction identifiers\<close>

datatype transaction_id = TransactionId (tid_bytes: bytes)

instantiation transaction_id :: linorder
begin

definition less_eq_transaction_id :: "transaction_id \<Rightarrow> transaction_id \<Rightarrow> bool" where
  "less_eq_transaction_id a b = (tid_bytes a \<le> tid_bytes b)"

definition less_transaction_id :: "transaction_id \<Rightarrow> transaction_id \<Rightarrow> bool" where
  "less_transaction_id a b = (tid_bytes a < tid_bytes b)"

instance
  by standard
    (auto simp: less_eq_transaction_id_def less_transaction_id_def transaction_id.expand)

end

section \<open>Constants\<close>

definition VERSION :: u16 where "VERSION = 13"
definition LEGACY_CONTENT_PROOF_MANIFEST_VERSION :: u16 where
  "LEGACY_CONTENT_PROOF_MANIFEST_VERSION = 2"
definition CONTENT_PROOF_MANIFEST_VERSION :: u16 where "CONTENT_PROOF_MANIFEST_VERSION = 3"
definition SIDECAR_VERSION :: u16 where "SIDECAR_VERSION = 12"
definition HEADER_LEN :: nat where "HEADER_LEN = 20"
definition MAX_PAYLOAD_LEN :: nat where "MAX_PAYLOAD_LEN = 1048576"
definition MAX_WAL_LEN :: nat where "MAX_WAL_LEN = 67108864"

section \<open>Text\<close>

text \<open>\<open>String::from_utf8\<close> accepts exactly the well-formed UTF-8 byte sequences.\<close>

definition utf8_cont :: "u8 \<Rightarrow> bool" where
  "utf8_cont b = (128 \<le> b \<and> b \<le> 191)"

fun utf8_valid :: "bytes \<Rightarrow> bool" where
  "utf8_valid [] = True"
| "utf8_valid (a # bs) =
     (if a < 128 then utf8_valid bs
      else case bs of
        [] \<Rightarrow> False
      | b # cs \<Rightarrow>
          if 194 \<le> a \<and> a \<le> 223 then utf8_cont b \<and> utf8_valid cs
          else case cs of
            [] \<Rightarrow> False
          | c # ds \<Rightarrow>
              if 224 \<le> a \<and> a \<le> 239 then
                utf8_cont b \<and> (a = 224 \<longrightarrow> 160 \<le> b) \<and> (a = 237 \<longrightarrow> b \<le> 159) \<and>
                utf8_cont c \<and> utf8_valid ds
              else case ds of
                [] \<Rightarrow> False
              | d # es \<Rightarrow>
                  240 \<le> a \<and> a \<le> 244 \<and>
                  utf8_cont b \<and> (a = 240 \<longrightarrow> 144 \<le> b) \<and> (a = 244 \<longrightarrow> b \<le> 143) \<and>
                  utf8_cont c \<and> utf8_cont d \<and> utf8_valid es)"

section \<open>Identities and locators\<close>

record strong_object_identity =
  si_device :: u64
  si_inode :: u64
  si_incarnation :: u64
  si_mount_id :: u64

record staging_locator =
  sl_relative_path :: path
  sl_filesystem_id :: bytes

definition staging_path_is_confined :: "path \<Rightarrow> bool" where
  "staging_path_is_confined p = (p = [] \<or> list_all is_normal (path_components p))"

definition purge_progress_path_is_confined :: "path \<Rightarrow> bool" where
  "purge_progress_path_is_confined p = (p = [] \<or> list_all is_normal (path_components p))"

definition locator_new :: "path \<Rightarrow> bytes \<Rightarrow> staging_locator option" where
  "locator_new p fs =
     (if staging_path_is_confined p \<and> fs \<noteq> []
      then Some \<lparr>sl_relative_path = p, sl_filesystem_id = fs\<rparr> else None)"

text \<open>The derived equality compares the path by components.\<close>

definition locator_eq :: "staging_locator \<Rightarrow> staging_locator \<Rightarrow> bool" where
  "locator_eq a b =
     (path_eq (sl_relative_path a) (sl_relative_path b) \<and> sl_filesystem_id a = sl_filesystem_id b)"

record already_exclusive_parent =
  ae_source_parent :: staging_locator
  ae_source_parent_identity :: strong_object_identity
  ae_observed_mode :: u32

datatype source_parent_strategy = PermissionSeal | AlreadyExclusive already_exclusive_parent

datatype certified_local_backend = Ext4 | Xfs | Apfs

datatype production_association = ProductionAssociation (reclamation_id: bytes)

definition production_association_new :: "bytes \<Rightarrow> production_association option" where
  "production_association_new r =
     (if r \<noteq> [] \<and> length r \<le> 4096 then Some (ProductionAssociation r) else None)"

section \<open>Staging metadata\<close>

record staging_metadata =
  sm_source_parent :: staging_locator
  sm_source_parent_identity :: strong_object_identity
  sm_source_basename :: bytes
  sm_root_identity :: strong_object_identity
  sm_destination_parent :: staging_locator
  sm_destination_parent_identity :: strong_object_identity
  sm_destination_basename :: bytes
  sm_backend :: certified_local_backend
  sm_source_parent_strategy :: source_parent_strategy
  sm_production_association :: "production_association option"
  sm_recovery_anchor :: "path option"

definition sm_filesystem_id :: "staging_metadata \<Rightarrow> bytes" where
  "sm_filesystem_id m = sl_filesystem_id (sm_source_parent m)"

text \<open>\<open>mode & !0o7777 == 0 && mode & 0o300 == 0o300 && mode & 0o030 != 0o030 && mode & 0o003 != 0o003\<close>\<close>

definition mode_is_exclusive_parent :: "u32 \<Rightarrow> bool" where
  "mode_is_exclusive_parent mode =
     (mode AND NOT 4095 = 0 \<and> mode AND 192 = 192 \<and> mode AND 24 \<noteq> 24 \<and> mode AND 3 \<noteq> 3)"

definition recovery_anchor_path_is_normal :: "path \<Rightarrow> bool" where
  "recovery_anchor_path_is_normal p =
     (is_absolute p \<and>
      (case path_components p of
         [] \<Rightarrow> False
       | c # cs \<Rightarrow> c = RootDir \<and> list_all is_normal cs))"

definition normal_name :: "bytes \<Rightarrow> bool" where
  "normal_name name =
     (case path_components name of [c] \<Rightarrow> is_normal c | _ \<Rightarrow> False)"

definition locator_is_valid :: "staging_locator \<Rightarrow> bool" where
  "locator_is_valid l = (staging_path_is_confined (sl_relative_path l) \<and> sl_filesystem_id l \<noteq> [])"

definition strategy_is_bound :: "staging_metadata \<Rightarrow> bool" where
  "strategy_is_bound m =
     (case sm_source_parent_strategy m of
        PermissionSeal \<Rightarrow> True
      | AlreadyExclusive proof \<Rightarrow>
          locator_eq (ae_source_parent proof) (sm_source_parent m) \<and>
          ae_source_parent_identity proof = sm_source_parent_identity m \<and>
          mode_is_exclusive_parent (ae_observed_mode proof))"

definition invariants_hold :: "staging_metadata \<Rightarrow> bool" where
  "invariants_hold m =
     (locator_is_valid (sm_source_parent m) \<and> locator_is_valid (sm_destination_parent m) \<and>
      sl_filesystem_id (sm_source_parent m) = sl_filesystem_id (sm_destination_parent m) \<and>
      si_mount_id (sm_source_parent_identity m) \<noteq> 0 \<and>
      si_mount_id (sm_source_parent_identity m) = si_mount_id (sm_root_identity m) \<and>
      si_mount_id (sm_root_identity m) = si_mount_id (sm_destination_parent_identity m) \<and>
      normal_name (sm_source_basename m) \<and> normal_name (sm_destination_basename m) \<and>
      (\<not> path_eq (sl_relative_path (sm_source_parent m)) (sl_relative_path (sm_destination_parent m)) \<or>
       sm_source_basename m \<noteq> sm_destination_basename m) \<and>
      strategy_is_bound m \<and>
      (case sm_recovery_anchor m of None \<Rightarrow> True | Some p \<Rightarrow> recovery_anchor_path_is_normal p) \<and>
      (case sm_production_association m of
         None \<Rightarrow> True
       | Some a \<Rightarrow> reclamation_id a \<noteq> [] \<and> length (reclamation_id a) \<le> 4096))"

definition staging_metadata_new ::
  "staging_locator \<Rightarrow> strong_object_identity \<Rightarrow> bytes \<Rightarrow> strong_object_identity \<Rightarrow>
   staging_locator \<Rightarrow> strong_object_identity \<Rightarrow> bytes \<Rightarrow> certified_local_backend \<Rightarrow>
   source_parent_strategy \<Rightarrow> staging_metadata option" where
  "staging_metadata_new sp spi sb ri dp dpi db backend strategy =
     (let m = \<lparr>sm_source_parent = sp, sm_source_parent_identity = spi, sm_source_basename = sb,
               sm_root_identity = ri, sm_destination_parent = dp,
               sm_destination_parent_identity = dpi, sm_destination_basename = db,
               sm_backend = backend, sm_source_parent_strategy = strategy,
               sm_production_association = None, sm_recovery_anchor = None\<rparr>
      in if invariants_hold m then Some m else None)"

definition with_production_association ::
  "staging_metadata \<Rightarrow> production_association \<Rightarrow> staging_metadata" where
  "with_production_association m a = m\<lparr>sm_production_association := Some a\<rparr>"

definition with_recovery_anchor :: "staging_metadata \<Rightarrow> path \<Rightarrow> staging_metadata option" where
  "with_recovery_anchor m p =
     (if \<not> recovery_anchor_path_is_normal p then None
      else let m' = m\<lparr>sm_recovery_anchor := Some p\<rparr>
           in if invariants_hold m' then Some m' else None)"

section \<open>Manifests, sidecars, outcomes\<close>

record durable_tree_manifest =
  tm_schema_version :: u16
  tm_entry_count :: u64
  tm_sha256 :: bytes

definition has_content_proof :: "durable_tree_manifest \<Rightarrow> bool" where
  "has_content_proof m =
     (tm_schema_version m = LEGACY_CONTENT_PROOF_MANIFEST_VERSION \<or>
      tm_schema_version m = CONTENT_PROOF_MANIFEST_VERSION)"

record tree_sidecar_commitment =
  sc_transaction :: transaction_id
  sc_segment_count :: u64
  sc_record_count :: u64
  sc_payload_bytes :: u64
  sc_file_bytes :: u64
  sc_root_sha256 :: bytes

definition SIDECAR_HEADER_LEN :: u64 where "SIDECAR_HEADER_LEN = 80"
definition SEGMENT_HEADER_LEN :: u64 where "SEGMENT_HEADER_LEN = 56"
definition MAX_SEGMENT_PAYLOAD :: u64 where "MAX_SEGMENT_PAYLOAD = 1048576"
definition MAX_SEGMENTS :: u64 where "MAX_SEGMENTS = 1000000"
definition MAX_RECORDS :: u64 where "MAX_RECORDS = 100000"
definition MAX_TOTAL_PAYLOAD_BYTES :: u64 where
  "MAX_TOTAL_PAYLOAD_BYTES = MAX_SEGMENTS * MAX_SEGMENT_PAYLOAD"
definition MAX_FILE_BYTES :: u64 where
  "MAX_FILE_BYTES = SIDECAR_HEADER_LEN + MAX_SEGMENTS * SEGMENT_HEADER_LEN + MAX_TOTAL_PAYLOAD_BYTES"

definition validate_tree_sidecar_commitment :: "tree_sidecar_commitment \<Rightarrow> string + unit" where
  "validate_tree_sidecar_commitment c =
     (if sc_segment_count c = 0 \<or> sc_segment_count c > MAX_SEGMENTS
      then Inl ''invalid sidecar segment count''
      else if sc_record_count c < sc_segment_count c \<or> sc_record_count c > MAX_RECORDS
      then Inl ''invalid sidecar record count''
      else and_then (ok_or ''sidecar payload bound overflow''
             (checked_mul64 (sc_segment_count c) MAX_SEGMENT_PAYLOAD)) (\<lambda>max_payload.
        if sc_payload_bytes c > MAX_TOTAL_PAYLOAD_BYTES \<or> sc_payload_bytes c > max_payload
        then Inl ''invalid sidecar payload byte count''
        else and_then (ok_or ''sidecar framing length overflow''
               (checked_mul64 (sc_segment_count c) SEGMENT_HEADER_LEN)) (\<lambda>framing.
          and_then (ok_or ''sidecar file length overflow''
            (Option.bind (checked_add64 SIDECAR_HEADER_LEN framing)
               (\<lambda>b. checked_add64 b (sc_payload_bytes c)))) (\<lambda>expected_file_bytes.
            if expected_file_bytes > MAX_FILE_BYTES \<or> sc_file_bytes c \<noteq> expected_file_bytes
            then Inl ''invalid sidecar file byte count''
            else Inr ()))))"

datatype durable_rename_outcome =
  AppliedAndParentsSynced strong_object_identity
  | ConfirmedNotAppliedAtSource strong_object_identity

fun rename_outcome_identity :: "durable_rename_outcome \<Rightarrow> strong_object_identity" where
  "rename_outcome_identity (AppliedAndParentsSynced i) = i"
| "rename_outcome_identity (ConfirmedNotAppliedAtSource i) = i"

datatype durable_undo_rename_outcome =
  UndoAppliedAndParentsSynced strong_object_identity
  | ConfirmedCollisionAtStaged strong_object_identity

fun undo_outcome_identity :: "durable_undo_rename_outcome \<Rightarrow> strong_object_identity" where
  "undo_outcome_identity (UndoAppliedAndParentsSynced i) = i"
| "undo_outcome_identity (ConfirmedCollisionAtStaged i) = i"

record durable_purge_commitment =
  pc_destination_parent :: staging_locator
  pc_destination_parent_identity :: strong_object_identity
  pc_destination_basename :: bytes
  pc_root_identity :: strong_object_identity
  pc_manifest :: durable_tree_manifest

definition purge_commitment_exact ::
  "staging_metadata \<Rightarrow> durable_tree_manifest \<Rightarrow> durable_purge_commitment" where
  "purge_commitment_exact m manifest =
     \<lparr>pc_destination_parent = sm_destination_parent m,
      pc_destination_parent_identity = sm_destination_parent_identity m,
      pc_destination_basename = sm_destination_basename m,
      pc_root_identity = sm_root_identity m, pc_manifest = manifest\<rparr>"

definition purge_commitment_eq ::
  "durable_purge_commitment \<Rightarrow> durable_purge_commitment \<Rightarrow> bool" where
  "purge_commitment_eq a b =
     (locator_eq (pc_destination_parent a) (pc_destination_parent b) \<and>
      pc_destination_parent_identity a = pc_destination_parent_identity b \<and>
      pc_destination_basename a = pc_destination_basename b \<and>
      pc_root_identity a = pc_root_identity b \<and> pc_manifest a = pc_manifest b)"

section \<open>Permission mutations\<close>

datatype application_status = Applied | ConfirmedNotApplied | ApplicationUnknown

datatype permission_resolution = ResolvedApplied | ResolvedNotApplied

record permission_intent =
  pi_transaction :: transaction_id
  pi_mutation_id :: u64
  pi_evidence :: persistent_recovery_evidence
  pi_pre_mode :: u32
  pi_expected_mode :: u32
  pi_reverses :: "u64 option"

record durable_permission =
  dp_mutation_id :: u64
  dp_phase :: transaction_state
  dp_evidence :: persistent_recovery_evidence
  dp_pre_mode :: u32
  dp_expected_mode :: u32
  dp_reverses :: "u64 option"
  dp_application :: application_status

section \<open>Records\<close>

datatype seal_record =
  State transaction_id transaction_state
  | PermissionIntent transaction_id u64 persistent_recovery_evidence u32 u32 "u64 option"
  | PermissionApplied transaction_id u64
  | PermissionNotApplied transaction_id u64
  | StagingBegin transaction_id staging_metadata
  | TreeManifestComplete transaction_id durable_tree_manifest
  | TreeManifestSidecarComplete transaction_id durable_tree_manifest tree_sidecar_commitment
  | RenameIntentRecord transaction_id
  | RenameOutcome transaction_id durable_rename_outcome
  | UndoRenameOutcome transaction_id durable_undo_rename_outcome
  | PurgeAuthorized transaction_id durable_purge_commitment
  | PurgeClaimed transaction_id durable_purge_commitment
  | PurgeProgress transaction_id u64 path

fun record_transaction :: "seal_record \<Rightarrow> transaction_id" where
  "record_transaction (State t _) = t"
| "record_transaction (PermissionIntent t _ _ _ _ _) = t"
| "record_transaction (PermissionApplied t _) = t"
| "record_transaction (PermissionNotApplied t _) = t"
| "record_transaction (StagingBegin t _) = t"
| "record_transaction (TreeManifestComplete t _) = t"
| "record_transaction (TreeManifestSidecarComplete t _ _) = t"
| "record_transaction (RenameIntentRecord t) = t"
| "record_transaction (RenameOutcome t _) = t"
| "record_transaction (UndoRenameOutcome t _) = t"
| "record_transaction (PurgeAuthorized t _) = t"
| "record_transaction (PurgeClaimed t _) = t"
| "record_transaction (PurgeProgress t _ _) = t"

definition intent_record :: "permission_intent \<Rightarrow> seal_record" where
  "intent_record i =
     PermissionIntent (pi_transaction i) (pi_mutation_id i) (pi_evidence i) (pi_pre_mode i)
       (pi_expected_mode i) (pi_reverses i)"

section \<open>Evidence comparisons\<close>

definition evidence_is_exact_source_parent ::
  "persistent_recovery_evidence \<Rightarrow> staging_metadata \<Rightarrow> bool" where
  "evidence_is_exact_source_parent e m =
     (path_eq (ev_relative_path e) (sl_relative_path (sm_source_parent m)) \<and>
      ev_filesystem_id e = Some (sl_filesystem_id (sm_source_parent m)) \<and>
      ev_device e = si_device (sm_source_parent_identity m) \<and>
      ev_inode e = si_inode (sm_source_parent_identity m) \<and>
      ev_generation_or_btime e = Some (si_incarnation (sm_source_parent_identity m)))"

definition same_recovery_object ::
  "persistent_recovery_evidence \<Rightarrow> persistent_recovery_evidence \<Rightarrow> bool" where
  "same_recovery_object a b =
     (ev_filesystem_id a = ev_filesystem_id b \<and> ev_device a = ev_device b \<and>
      ev_inode a = ev_inode b \<and> ev_generation_or_btime a = ev_generation_or_btime b)"

section \<open>Well-formed values\<close>

text \<open>
  What the Rust types and constructors guarantee and the model's types do not: the fixed array
  lengths, UTF-8 strings, confined evidence and valid locators. Every value the WAL decodes
  satisfies it, and every value a caller can construct does.
\<close>

definition wf_tid :: "transaction_id \<Rightarrow> bool" where
  "wf_tid t = (length (tid_bytes t) = 16)"

definition wf_locator :: "staging_locator \<Rightarrow> bool" where
  "wf_locator l = (locator_is_valid l \<and> utf8_valid (sl_filesystem_id l))"

definition wf_manifest :: "durable_tree_manifest \<Rightarrow> bool" where
  "wf_manifest m = (length (tm_sha256 m) = 32)"

definition wf_evidence :: "persistent_recovery_evidence \<Rightarrow> bool" where
  "wf_evidence e =
     ((is_confined_relative_path (ev_relative_path e) \<or> ev_relative_path e = []) \<and>
      (case ev_filesystem_id e of None \<Rightarrow> True | Some fs \<Rightarrow> utf8_valid fs))"

definition wf_metadata :: "staging_metadata \<Rightarrow> bool" where
  "wf_metadata m =
     (wf_locator (sm_source_parent m) \<and> wf_locator (sm_destination_parent m) \<and>
      (case sm_source_parent_strategy m of
         PermissionSeal \<Rightarrow> True | AlreadyExclusive p \<Rightarrow> wf_locator (ae_source_parent p)) \<and>
      (case sm_production_association m of
         None \<Rightarrow> True
       | Some a \<Rightarrow> utf8_valid (reclamation_id a) \<and> reclamation_id a \<noteq> [] \<and>
           length (reclamation_id a) \<le> 4096))"

definition wf_commitment :: "durable_purge_commitment \<Rightarrow> bool" where
  "wf_commitment c = (wf_locator (pc_destination_parent c) \<and> wf_manifest (pc_manifest c))"

lemma locator_eq_refl [simp]: "locator_eq l l"
  by (simp add: locator_eq_def)

lemma purge_commitment_eq_refl [simp]: "purge_commitment_eq c c"
  by (simp add: purge_commitment_eq_def)

lemma locator_new_Some_iff:
  "locator_new p fs = Some l \<longleftrightarrow>
     l = \<lparr>sl_relative_path = p, sl_filesystem_id = fs\<rparr> \<and> locator_is_valid l"
  by (auto simp: locator_new_def locator_is_valid_def)

lemma locator_new_valid:
  "locator_is_valid l \<Longrightarrow> locator_new (sl_relative_path l) (sl_filesystem_id l) = Some l"
  by (simp add: locator_new_Some_iff)

lemma wf_commitment_exact:
  "wf_metadata m \<Longrightarrow> wf_manifest t \<Longrightarrow> wf_commitment (purge_commitment_exact m t)"
  by (simp add: wf_commitment_def wf_metadata_def purge_commitment_exact_def)

end
