(* ===== verification/Wal_Codec.thy ===== *)
theory Wal_Codec
  imports Wal_Types
begin

text \<open>
  The record codec of \<open>seal/wal.rs\<close>: the append-only encoders (\<open>put_*\<close>, \<open>encode_*\<close>), the
  bounds-checked \<open>Cursor\<close> and the version-dependent decoders. The locale \<open>field_codec\<close> is the
  contract between an encoder and its decoder, and is interpreted on every field type; the round
  trip of whole records is assembled from those interpretations.
\<close>

section \<open>Errors\<close>

datatype io_error = UnexpectedEof | OsError nat | OtherError string

datatype frame_error = FieldTooLarge | PayloadTooLarge nat | LegacyTreeManifest

datatype permission_read_error =
  Unframed u64 | PermissionReadIo u64 io_error | PermissionMismatch u64 string

text \<open>\<open>ReplayPanic\<close> is not a variant of the source's enum: it is the panic of an \<open>expect\<close> on a
  lookup that replay validated before.\<close>

datatype replay_error =
  ReplayIo io_error
  | Malformed u64 string
  | UnsupportedLegacyVersion u64 u16
  | HeaderChecksum u64
  | Checksum u64
  | InvalidHistory string
  | TooLarge nat
  | PermissionRecord permission_read_error
  | ReplayPanic

section \<open>Encoders\<close>

text \<open>An encoder takes the output buffer and returns it extended, or the framing error.\<close>

definition put_raw :: "bytes \<Rightarrow> bytes \<Rightarrow> frame_error + bytes" where
  "put_raw bs out = Inr (out @ bs)"

definition put_u8 :: "u8 \<Rightarrow> bytes \<Rightarrow> frame_error + bytes" where
  "put_u8 b = put_raw [b]"

definition put_u16 :: "u16 \<Rightarrow> bytes \<Rightarrow> frame_error + bytes" where
  "put_u16 w = put_raw (le_bytes 2 w)"

definition put_u32 :: "u32 \<Rightarrow> bytes \<Rightarrow> frame_error + bytes" where
  "put_u32 w = put_raw (le_bytes 4 w)"

definition put_u64 :: "u64 \<Rightarrow> bytes \<Rightarrow> frame_error + bytes" where
  "put_u64 w = put_raw (le_bytes 8 w)"

definition put_bytes :: "bytes \<Rightarrow> bytes \<Rightarrow> frame_error + bytes" where
  "put_bytes bs out =
     (if length bs < 2 ^ 32 then Inr (out @ le_bytes 4 (of_nat (length bs) :: u32) @ bs)
      else Inl FieldTooLarge)"

text \<open>\<open>a;; b\<close> of the source: run the first encoder, then the second on its output.\<close>

definition put_then ::
  "(bytes \<Rightarrow> frame_error + bytes) \<Rightarrow> (bytes \<Rightarrow> frame_error + bytes) \<Rightarrow> bytes \<Rightarrow> frame_error + bytes"
where
  "put_then p q out = and_then (p out) q"

primrec put_all :: "(bytes \<Rightarrow> frame_error + bytes) list \<Rightarrow> bytes \<Rightarrow> frame_error + bytes" where
  "put_all [] = Inr"
| "put_all (p # ps) = put_then p (put_all ps)"

fun put_optional_bytes :: "bytes option \<Rightarrow> bytes \<Rightarrow> frame_error + bytes" where
  "put_optional_bytes (Some bs) = put_all [put_u8 1, put_bytes bs]"
| "put_optional_bytes None = put_u8 0"

fun put_optional_u64 :: "u64 option \<Rightarrow> bytes \<Rightarrow> frame_error + bytes" where
  "put_optional_u64 (Some w) = put_all [put_u8 1, put_u64 w]"
| "put_optional_u64 None = put_u8 0"

definition encode_strong_identity :: "strong_object_identity \<Rightarrow> bytes \<Rightarrow> frame_error + bytes" where
  "encode_strong_identity i =
     put_all [put_u64 (si_device i), put_u64 (si_inode i), put_u64 (si_incarnation i),
       put_u64 (si_mount_id i)]"

definition encode_locator :: "staging_locator \<Rightarrow> bytes \<Rightarrow> frame_error + bytes" where
  "encode_locator l = put_all [put_bytes (sl_relative_path l), put_bytes (sl_filesystem_id l)]"

fun encode_backend :: "certified_local_backend \<Rightarrow> u8" where
  "encode_backend Ext4 = 1"
| "encode_backend Xfs = 2"
| "encode_backend Apfs = 3"

fun encode_strategy :: "source_parent_strategy \<Rightarrow> bytes \<Rightarrow> frame_error + bytes" where
  "encode_strategy PermissionSeal = put_u8 1"
| "encode_strategy (AlreadyExclusive p) =
     put_all [put_u8 2, encode_locator (ae_source_parent p),
       encode_strong_identity (ae_source_parent_identity p), put_u32 (ae_observed_mode p)]"

definition encode_staging_metadata :: "staging_metadata \<Rightarrow> bytes \<Rightarrow> frame_error + bytes" where
  "encode_staging_metadata m =
     put_all
       [encode_locator (sm_source_parent m),
        encode_strong_identity (sm_source_parent_identity m),
        put_bytes (sm_source_basename m),
        encode_strong_identity (sm_root_identity m),
        encode_locator (sm_destination_parent m),
        encode_strong_identity (sm_destination_parent_identity m),
        put_bytes (sm_destination_basename m),
        put_u8 (encode_backend (sm_backend m)),
        encode_strategy (sm_source_parent_strategy m),
        put_optional_bytes (map_option reclamation_id (sm_production_association m)),
        put_optional_bytes (sm_recovery_anchor m)]"

definition encode_manifest :: "durable_tree_manifest \<Rightarrow> bytes \<Rightarrow> frame_error + bytes" where
  "encode_manifest m =
     put_all [put_u16 (tm_schema_version m), put_u64 (tm_entry_count m), put_raw (tm_sha256 m)]"

text \<open>The sidecar commitment's transaction is not encoded again: the record carries it once.\<close>

definition encode_sidecar :: "tree_sidecar_commitment \<Rightarrow> bytes \<Rightarrow> frame_error + bytes" where
  "encode_sidecar c =
     put_all [put_u64 (sc_segment_count c), put_u64 (sc_record_count c),
       put_u64 (sc_payload_bytes c), put_u64 (sc_file_bytes c), put_raw (sc_root_sha256 c)]"

definition encode_commitment :: "durable_purge_commitment \<Rightarrow> bytes \<Rightarrow> frame_error + bytes" where
  "encode_commitment c =
     put_all [encode_locator (pc_destination_parent c),
       encode_strong_identity (pc_destination_parent_identity c),
       put_bytes (pc_destination_basename c), encode_strong_identity (pc_root_identity c),
       encode_manifest (pc_manifest c)]"

fun encode_rename_outcome :: "durable_rename_outcome \<Rightarrow> bytes \<Rightarrow> frame_error + bytes" where
  "encode_rename_outcome (AppliedAndParentsSynced i) =
     put_all [put_u8 1, encode_strong_identity i]"
| "encode_rename_outcome (ConfirmedNotAppliedAtSource i) =
     put_all [put_u8 2, encode_strong_identity i]"

fun encode_undo_outcome :: "durable_undo_rename_outcome \<Rightarrow> bytes \<Rightarrow> frame_error + bytes" where
  "encode_undo_outcome (UndoAppliedAndParentsSynced i) =
     put_all [put_u8 1, encode_strong_identity i]"
| "encode_undo_outcome (ConfirmedCollisionAtStaged i) =
     put_all [put_u8 2, encode_strong_identity i]"

fun encode_state :: "transaction_state \<Rightarrow> u8" where
  "encode_state Prepared = 0"
| "encode_state ParentSealIntent = 1"
| "encode_state ParentSealed = 2"
| "encode_state TreeSealIntent = 3"
| "encode_state TreeSealed = 4"
| "encode_state RenameIntent = 5"
| "encode_state StagedUnverified = 6"
| "encode_state StagedSealed = 7"
| "encode_state VerifiedCommitted = 8"
| "encode_state Purgeable = 9"
| "encode_state Purged = 10"
| "encode_state RollbackIntent = 11"
| "encode_state RolledBack = 12"
| "encode_state RestoreIntent = 13"
| "encode_state Restored = 14"
| "encode_state Quarantined = 15"
| "encode_state RecoveryRequired = 16"
| "encode_state SourceParentRestoreIntent = 17"
| "encode_state SourceParentRestored = 18"
| "encode_state UndoIntent = 19"
| "encode_state UndoModesRestored = 20"
| "encode_state UndoRenameIntent = 21"
| "encode_state UndoConflict = 22"
| "encode_state PurgeIntent = 23"
| "encode_state PurgeOutcome = 24"

definition put_tid :: "transaction_id \<Rightarrow> bytes \<Rightarrow> frame_error + bytes" where
  "put_tid t = put_raw (tid_bytes t)"

fun encode_record_body :: "seal_record \<Rightarrow> bytes \<Rightarrow> frame_error + bytes" where
  "encode_record_body (State t s) = put_all [put_u8 1, put_tid t, put_u8 (encode_state s)]"
| "encode_record_body (PermissionIntent t mid ev pre expd rv) =
     put_all [put_u8 2, put_tid t, put_u64 mid, put_bytes (ev_relative_path ev),
       put_optional_bytes (ev_filesystem_id ev), put_u64 (ev_device ev), put_u64 (ev_inode ev),
       put_optional_u64 (ev_generation_or_btime ev), put_u32 (ev_expected_mode ev), put_u32 pre,
       put_u32 expd, put_optional_u64 rv]"
| "encode_record_body (PermissionApplied t mid) = put_all [put_u8 3, put_tid t, put_u64 mid]"
| "encode_record_body (PermissionNotApplied t mid) = put_all [put_u8 4, put_tid t, put_u64 mid]"
| "encode_record_body (StagingBegin t m) =
     put_all [put_u8 5, put_tid t, encode_staging_metadata m]"
| "encode_record_body (TreeManifestComplete t m) =
     put_all [put_u8 6, put_tid t, encode_manifest m]"
| "encode_record_body (TreeManifestSidecarComplete t m c) =
     put_all [put_u8 13, put_tid t, encode_manifest m, encode_sidecar c]"
| "encode_record_body (RenameIntentRecord t) = put_all [put_u8 7, put_tid t]"
| "encode_record_body (RenameOutcome t out) =
     put_all [put_u8 8, put_tid t, encode_rename_outcome out]"
| "encode_record_body (UndoRenameOutcome t out) =
     put_all [put_u8 9, put_tid t, encode_undo_outcome out]"
| "encode_record_body (PurgeAuthorized t c) = put_all [put_u8 10, put_tid t, encode_commitment c]"
| "encode_record_body (PurgeClaimed t c) = put_all [put_u8 11, put_tid t, encode_commitment c]"
| "encode_record_body (PurgeProgress t n p) =
     put_all [put_u8 12, put_tid t, put_u64 n, put_bytes p]"

definition encode_record :: "seal_record \<Rightarrow> frame_error + bytes" where
  "encode_record r =
     and_then (encode_record_body r []) (\<lambda>bs.
       if length bs > MAX_PAYLOAD_LEN then Inl (PayloadTooLarge MAX_PAYLOAD_LEN) else Inr bs)"

section \<open>The cursor\<close>

record cursor =
  cu_bytes :: bytes
  cu_offset :: u64
  cu_position :: nat

type_synonym 'a decoder = "cursor \<Rightarrow> replay_error + 'a \<times> cursor"

definition cursor_new :: "bytes \<Rightarrow> u64 \<Rightarrow> cursor" where
  "cursor_new bs off = \<lparr>cu_bytes = bs, cu_offset = off, cu_position = 0\<rparr>"

definition get_then :: "'a decoder \<Rightarrow> ('a \<Rightarrow> 'b decoder) \<Rightarrow> 'b decoder" where
  "get_then d f c = and_then (d c) (\<lambda>(x, c'). f x c')"

definition get_return :: "'a \<Rightarrow> 'a decoder" where
  "get_return x c = Inr (x, c)"

definition get_fail :: "string \<Rightarrow> 'a decoder" where
  "get_fail reason c = Inl (Malformed (cu_offset c) reason)"

definition cursor_take :: "nat \<Rightarrow> bytes decoder" where
  "cursor_take n c =
     (case usize_checked_add (cu_position c) n of
        None \<Rightarrow> Inl (Malformed (cu_offset c) ''record length overflow'')
      | Some fin \<Rightarrow>
          if fin \<le> length (cu_bytes c)
          then Inr (take n (drop (cu_position c) (cu_bytes c)), c\<lparr>cu_position := fin\<rparr>)
          else Inl (Malformed (cu_offset c) ''record payload is truncated''))"

definition cursor_u8 :: "u8 decoder" where
  "cursor_u8 = get_then (cursor_take 1) (\<lambda>bs. get_return (hd bs))"

definition cursor_u16 :: "u16 decoder" where
  "cursor_u16 = get_then (cursor_take 2) (\<lambda>bs. get_return (le_word bs))"

definition cursor_u32 :: "u32 decoder" where
  "cursor_u32 = get_then (cursor_take 4) (\<lambda>bs. get_return (le_word bs))"

definition cursor_u64 :: "u64 decoder" where
  "cursor_u64 = get_then (cursor_take 8) (\<lambda>bs. get_return (le_word bs))"

definition cursor_array_16 :: "bytes decoder" where
  "cursor_array_16 = cursor_take 16"

definition cursor_array_32 :: "bytes decoder" where
  "cursor_array_32 = cursor_take 32"

definition cursor_bytes :: "bytes decoder" where
  "cursor_bytes = get_then cursor_u32 (\<lambda>len.
     if unat len > MAX_PAYLOAD_LEN then get_fail ''field exceeds maximum size''
     else cursor_take (unat len))"

definition cursor_optional_bytes :: "bytes option decoder" where
  "cursor_optional_bytes = get_then cursor_u8 (\<lambda>tag.
     if tag = 0 then get_return None
     else if tag = 1 then get_then cursor_bytes (\<lambda>bs. get_return (Some bs))
     else get_fail ''invalid optional field tag'')"

definition cursor_optional_u64 :: "u64 option decoder" where
  "cursor_optional_u64 = get_then cursor_u8 (\<lambda>tag.
     if tag = 0 then get_return None
     else if tag = 1 then get_then cursor_u64 (\<lambda>w. get_return (Some w))
     else get_fail ''invalid optional integer tag'')"

definition cursor_is_empty :: "cursor \<Rightarrow> bool" where
  "cursor_is_empty c = (cu_position c = length (cu_bytes c))"

section \<open>Decoders\<close>

text \<open>
  The source passes the frame's byte offset beside the cursor that was built from it; both are
  \<open>cu_offset\<close>.
\<close>

definition decode_strong_identity :: "u16 \<Rightarrow> strong_object_identity decoder" where
  "decode_strong_identity version =
     get_then cursor_u64 (\<lambda>device. get_then cursor_u64 (\<lambda>inode.
     get_then cursor_u64 (\<lambda>incarnation.
     get_then (if version \<ge> 4 then cursor_u64 else get_return 0) (\<lambda>mount_id.
     get_return \<lparr>si_device = device, si_inode = inode, si_incarnation = incarnation,
       si_mount_id = mount_id\<rparr>))))"

definition decode_locator :: "u16 \<Rightarrow> staging_locator decoder" where
  "decode_locator version =
     get_then cursor_bytes (\<lambda>path. get_then cursor_bytes (\<lambda>fs.
     if \<not> utf8_valid fs then get_fail ''staging filesystem id is not UTF-8''
     else if version < 11 \<and> path = [] then get_fail ''legacy staging locator is empty''
     else case locator_new path fs of
       None \<Rightarrow> get_fail ''staging locator is invalid''
     | Some l \<Rightarrow> get_return l))"

definition decode_backend :: "certified_local_backend decoder" where
  "decode_backend = get_then cursor_u8 (\<lambda>tag.
     if tag = 1 then get_return Ext4 else if tag = 2 then get_return Xfs
     else if tag = 3 then get_return Apfs else get_fail ''unknown staging backend'')"

definition decode_strategy :: "u16 \<Rightarrow> source_parent_strategy decoder" where
  "decode_strategy version = get_then cursor_u8 (\<lambda>tag.
     if tag = 1 then get_return PermissionSeal
     else if tag = 2 then
       get_then (decode_locator version) (\<lambda>l.
       get_then (decode_strong_identity version) (\<lambda>i.
       get_then cursor_u32 (\<lambda>mode.
       get_return (AlreadyExclusive \<lparr>ae_source_parent = l, ae_source_parent_identity = i,
         ae_observed_mode = mode\<rparr>))))
     else get_fail ''unknown source-parent strategy'')"

definition decode_association :: "u16 \<Rightarrow> production_association option decoder" where
  "decode_association version =
     (if version \<ge> 5 then get_then cursor_u8 (\<lambda>tag.
        if tag = 0 then get_return None
        else if tag = 1 then get_then cursor_bytes (\<lambda>r.
          if \<not> utf8_valid r then get_fail ''production reclamation id is not UTF-8''
          else case production_association_new r of
            None \<Rightarrow> get_fail ''production reclamation id is invalid''
          | Some a \<Rightarrow> get_return (Some a))
        else get_fail ''invalid production association tag'')
      else get_return None)"

definition decode_anchor :: "u16 \<Rightarrow> path option decoder" where
  "decode_anchor version =
     (if version \<ge> 11 then get_then cursor_u8 (\<lambda>tag.
        if tag = 0 then get_return None
        else if tag = 1 then get_then cursor_bytes (\<lambda>p. get_return (Some p))
        else get_fail ''invalid recovery anchor tag'')
      else get_return None)"

text \<open>Before version 4 identities carry no mount, and the other invariants are checked on a copy
  promoted to mount 1.\<close>

definition promote_strategy :: "source_parent_strategy \<Rightarrow> source_parent_strategy" where
  "promote_strategy s =
     (case s of
        PermissionSeal \<Rightarrow> PermissionSeal
      | AlreadyExclusive p \<Rightarrow>
          AlreadyExclusive (p\<lparr>ae_source_parent_identity :=
            (ae_source_parent_identity p)\<lparr>si_mount_id := 1\<rparr>\<rparr>))"

definition promote_mounts :: "staging_metadata \<Rightarrow> staging_metadata" where
  "promote_mounts m =
     m\<lparr>sm_source_parent_identity := (sm_source_parent_identity m)\<lparr>si_mount_id := 1\<rparr>,
       sm_root_identity := (sm_root_identity m)\<lparr>si_mount_id := 1\<rparr>,
       sm_destination_parent_identity := (sm_destination_parent_identity m)\<lparr>si_mount_id := 1\<rparr>,
       sm_source_parent_strategy := promote_strategy (sm_source_parent_strategy m)\<rparr>"

definition metadata_valid_for :: "u16 \<Rightarrow> staging_metadata \<Rightarrow> bool" where
  "metadata_valid_for version m =
     (if version \<ge> 4 then invariants_hold m
      else if si_mount_id (sm_source_parent_identity m) \<noteq> 0 \<or>
              si_mount_id (sm_root_identity m) \<noteq> 0 \<or>
              si_mount_id (sm_destination_parent_identity m) \<noteq> 0 then False
      else invariants_hold (promote_mounts m))"

definition check_metadata :: "u16 \<Rightarrow> staging_metadata \<Rightarrow> staging_metadata decoder" where
  "check_metadata version m =
     (if version \<ge> 11 \<and> sm_production_association m \<noteq> None \<and> sm_recovery_anchor m = None
      then get_fail ''v11+ production staging metadata lacks a recovery anchor''
      else if metadata_valid_for version m then get_return m
      else get_fail ''staging metadata is inconsistent'')"

definition decode_staging_metadata :: "u16 \<Rightarrow> staging_metadata decoder" where
  "decode_staging_metadata version =
     get_then (decode_locator version) (\<lambda>sp.
     get_then (decode_strong_identity version) (\<lambda>spi.
     get_then cursor_bytes (\<lambda>sb.
     get_then (decode_strong_identity version) (\<lambda>ri.
     get_then (decode_locator version) (\<lambda>dp.
     get_then (decode_strong_identity version) (\<lambda>dpi.
     get_then cursor_bytes (\<lambda>db.
     get_then decode_backend (\<lambda>backend.
     get_then (decode_strategy version) (\<lambda>strategy.
     get_then (decode_association version) (\<lambda>association.
     get_then (decode_anchor version) (\<lambda>anchor.
     check_metadata version
       \<lparr>sm_source_parent = sp, sm_source_parent_identity = spi, sm_source_basename = sb,
        sm_root_identity = ri, sm_destination_parent = dp, sm_destination_parent_identity = dpi,
        sm_destination_basename = db, sm_backend = backend,
        sm_source_parent_strategy = strategy, sm_production_association = association,
        sm_recovery_anchor = anchor\<rparr>)))))))))))"

definition decode_manifest :: "bool \<Rightarrow> durable_tree_manifest decoder" where
  "decode_manifest versioned =
     get_then (if versioned then cursor_u16 else get_return 1) (\<lambda>v.
     get_then cursor_u64 (\<lambda>n. get_then cursor_array_32 (\<lambda>h.
     get_return \<lparr>tm_schema_version = v, tm_entry_count = n, tm_sha256 = h\<rparr>)))"

definition decode_sidecar :: "transaction_id \<Rightarrow> tree_sidecar_commitment decoder" where
  "decode_sidecar t =
     get_then cursor_u64 (\<lambda>segments. get_then cursor_u64 (\<lambda>records.
     get_then cursor_u64 (\<lambda>payload. get_then cursor_u64 (\<lambda>file. get_then cursor_array_32 (\<lambda>h.
     get_return \<lparr>sc_transaction = t, sc_segment_count = segments, sc_record_count = records,
       sc_payload_bytes = payload, sc_file_bytes = file, sc_root_sha256 = h\<rparr>)))))"

definition decode_commitment :: "u16 \<Rightarrow> durable_purge_commitment decoder" where
  "decode_commitment version =
     get_then (decode_locator version) (\<lambda>dp. get_then (decode_strong_identity version) (\<lambda>dpi.
     get_then cursor_bytes (\<lambda>db. get_then (decode_strong_identity version) (\<lambda>ri.
     get_then (decode_manifest True) (\<lambda>m.
     get_return \<lparr>pc_destination_parent = dp, pc_destination_parent_identity = dpi,
       pc_destination_basename = db, pc_root_identity = ri, pc_manifest = m\<rparr>)))))"

definition decode_rename_outcome :: "u16 \<Rightarrow> durable_rename_outcome decoder" where
  "decode_rename_outcome version = get_then cursor_u8 (\<lambda>kind.
     get_then (decode_strong_identity version) (\<lambda>i.
     if kind = 1 then get_return (AppliedAndParentsSynced i)
     else if kind = 2 then get_return (ConfirmedNotAppliedAtSource i)
     else get_fail ''unknown rename outcome''))"

definition decode_undo_outcome :: "u16 \<Rightarrow> durable_undo_rename_outcome decoder" where
  "decode_undo_outcome version = get_then cursor_u8 (\<lambda>kind.
     get_then (decode_strong_identity version) (\<lambda>i.
     if kind = 1 then get_return (UndoAppliedAndParentsSynced i)
     else if kind = 2 then get_return (ConfirmedCollisionAtStaged i)
     else get_fail ''unknown undo rename outcome''))"

definition decode_state_value :: "u8 \<Rightarrow> u16 \<Rightarrow> transaction_state option" where
  "decode_state_value value version =
     (if value = 0 then Some Prepared
      else if value = 1 then Some ParentSealIntent
      else if value = 2 then Some ParentSealed
      else if value = 3 then Some TreeSealIntent
      else if value = 4 then Some TreeSealed
      else if value = 5 then Some RenameIntent
      else if value = 6 then Some StagedUnverified
      else if value = 7 then Some StagedSealed
      else if value = 8 then Some VerifiedCommitted
      else if value = 9 then Some Purgeable
      else if value = 10 then Some Purged
      else if value = 11 then Some RollbackIntent
      else if value = 12 then Some RolledBack
      else if value = 13 then Some RestoreIntent
      else if value = 14 then Some Restored
      else if value = 15 then Some Quarantined
      else if value = 16 then Some RecoveryRequired
      else if value = 17 \<and> version \<ge> 5 then Some SourceParentRestoreIntent
      else if value = 18 \<and> version \<ge> 5 then Some SourceParentRestored
      else if value = 19 \<and> version \<ge> 6 then Some UndoIntent
      else if value = 20 \<and> version \<ge> 6 then Some UndoModesRestored
      else if value = 21 \<and> version \<ge> 6 then Some UndoRenameIntent
      else if value = 22 \<and> version \<ge> 6 then Some UndoConflict
      else if value = 23 \<and> version \<ge> 9 then Some PurgeIntent
      else if value = 24 \<and> version \<ge> 9 then Some PurgeOutcome
      else None)"

definition decode_state :: "u16 \<Rightarrow> transaction_state decoder" where
  "decode_state version = get_then cursor_u8 (\<lambda>value.
     case decode_state_value value version of
       None \<Rightarrow> get_fail ''transaction state is unknown for this frame version''
     | Some s \<Rightarrow> get_return s)"

definition check_intent ::
  "u16 \<Rightarrow> transaction_id \<Rightarrow> u64 \<Rightarrow> persistent_recovery_evidence \<Rightarrow> u32 \<Rightarrow> u32 \<Rightarrow> u64 option \<Rightarrow>
   seal_record decoder" where
  "check_intent version t mid ev pre expd rv =
     (if ev_expected_mode ev \<noteq> expd then get_fail ''evidence and intent modes disagree''
      else if pre AND NOT 4095 \<noteq> 0 \<or> expd AND NOT 4095 \<noteq> 0
      then get_fail ''permission mode exceeds the supported mode-bit schema''
      else case (if version \<ge> 11 then evidence_new_staging else evidence_new)
             (ev_relative_path ev) (ev_filesystem_id ev) (ev_device ev) (ev_inode ev)
             (ev_generation_or_btime ev) (ev_expected_mode ev) of
        None \<Rightarrow> get_fail ''recovery path is not confined''
      | Some evidence \<Rightarrow> get_return (PermissionIntent t mid evidence pre expd rv))"

definition decode_intent :: "u16 \<Rightarrow> transaction_id \<Rightarrow> seal_record decoder" where
  "decode_intent version t =
     get_then cursor_u64 (\<lambda>mid. get_then cursor_bytes (\<lambda>path.
     get_then cursor_optional_bytes (\<lambda>fs.
     if (case fs of None \<Rightarrow> False | Some b \<Rightarrow> \<not> utf8_valid b)
     then get_fail ''filesystem id is not UTF-8''
     else
       get_then cursor_u64 (\<lambda>device. get_then cursor_u64 (\<lambda>inode.
       get_then cursor_optional_u64 (\<lambda>gen. get_then cursor_u32 (\<lambda>evidence_mode.
       get_then cursor_u32 (\<lambda>pre. get_then cursor_u32 (\<lambda>expd.
       get_then cursor_optional_u64 (\<lambda>rv.
       check_intent version t mid
         \<lparr>ev_relative_path = path, ev_filesystem_id = fs, ev_device = device, ev_inode = inode,
          ev_generation_or_btime = gen, ev_expected_mode = evidence_mode\<rparr>
         pre expd rv))))))))))"

definition decode_record_body :: "u16 \<Rightarrow> u8 \<Rightarrow> transaction_id \<Rightarrow> seal_record decoder" where
  "decode_record_body version tag t =
     (if tag = 1 then get_then (decode_state version) (\<lambda>s. get_return (State t s))
      else if tag = 2 then decode_intent version t
      else if tag = 3 then get_then cursor_u64 (\<lambda>mid. get_return (PermissionApplied t mid))
      else if tag = 4 then get_then cursor_u64 (\<lambda>mid. get_return (PermissionNotApplied t mid))
      else if tag = 5 \<and> version \<ge> 3
      then get_then (decode_staging_metadata version) (\<lambda>m. get_return (StagingBegin t m))
      else if tag = 6 \<and> 3 \<le> version \<and> version < SIDECAR_VERSION
      then get_then (decode_manifest (version \<ge> 7)) (\<lambda>m. get_return (TreeManifestComplete t m))
      else if tag = 7 \<and> version \<ge> 3 then get_return (RenameIntentRecord t)
      else if tag = 8 \<and> version \<ge> 3
      then get_then (decode_rename_outcome version) (\<lambda>x. get_return (RenameOutcome t x))
      else if tag = 9 \<and> version \<ge> 6
      then get_then (decode_undo_outcome version) (\<lambda>x. get_return (UndoRenameOutcome t x))
      else if tag = 10 \<and> version \<ge> 8
      then get_then (decode_commitment version) (\<lambda>c. get_return (PurgeAuthorized t c))
      else if tag = 11 \<and> version \<ge> 10
      then get_then (decode_commitment version) (\<lambda>c. get_return (PurgeClaimed t c))
      else if tag = 12 \<and> version \<ge> 10
      then get_then cursor_u64 (\<lambda>n. get_then cursor_bytes (\<lambda>p. get_return (PurgeProgress t n p)))
      else if tag = 13 \<and> version \<ge> SIDECAR_VERSION
      then get_then (decode_manifest True) (\<lambda>m. get_then (decode_sidecar t) (\<lambda>c.
        get_return (TreeManifestSidecarComplete t m c)))
      else get_fail ''unknown record kind'')"

definition decode_tagged :: "u16 \<Rightarrow> seal_record decoder" where
  "decode_tagged version = get_then cursor_u8 (\<lambda>tag. get_then cursor_array_16 (\<lambda>t.
     decode_record_body version tag (TransactionId t)))"

definition decode_record :: "bytes \<Rightarrow> u64 \<Rightarrow> u16 \<Rightarrow> replay_error + seal_record" where
  "decode_record payload offset version =
     and_then (decode_tagged version (cursor_new payload offset))
       (\<lambda>(r, c). if cursor_is_empty c then Inr r
                 else Inl (Malformed offset ''trailing record bytes''))"

section \<open>Well-formed records\<close>

definition wf_staging_metadata :: "staging_metadata \<Rightarrow> bool" where
  "wf_staging_metadata m =
     (wf_metadata m \<and> invariants_hold m \<and>
      (sm_production_association m = None \<or> sm_recovery_anchor m \<noteq> None))"

text \<open>The records version 13 can hold: what the source's types enforce, and what its decoder
  checks.\<close>

fun wf_record :: "seal_record \<Rightarrow> bool" where
  "wf_record (State t s) = wf_tid t"
| "wf_record (PermissionIntent t mid ev pre expd rv) =
     (wf_tid t \<and> wf_evidence ev \<and> ev_expected_mode ev = expd \<and>
      pre AND NOT 4095 = 0 \<and> expd AND NOT 4095 = 0)"
| "wf_record (PermissionApplied t mid) = wf_tid t"
| "wf_record (PermissionNotApplied t mid) = wf_tid t"
| "wf_record (StagingBegin t m) = (wf_tid t \<and> wf_staging_metadata m)"
| "wf_record (TreeManifestComplete t m) = False"
| "wf_record (TreeManifestSidecarComplete t m c) =
     (wf_tid t \<and> wf_manifest m \<and> sc_transaction c = t \<and> length (sc_root_sha256 c) = 32)"
| "wf_record (RenameIntentRecord t) = wf_tid t"
| "wf_record (RenameOutcome t out) = wf_tid t"
| "wf_record (UndoRenameOutcome t out) = wf_tid t"
| "wf_record (PurgeAuthorized t c) = (wf_tid t \<and> wf_commitment c)"
| "wf_record (PurgeClaimed t c) = (wf_tid t \<and> wf_commitment c)"
| "wf_record (PurgeProgress t n p) = wf_tid t"

section \<open>What encoders append and decoders consume\<close>

definition emits :: "(bytes \<Rightarrow> frame_error + bytes) \<Rightarrow> bytes \<Rightarrow> bool" where
  "emits p bs \<longleftrightarrow> (\<forall>out. p out = Inr (out @ bs))"

definition appender :: "(bytes \<Rightarrow> frame_error + bytes) \<Rightarrow> bool" where
  "appender p \<longleftrightarrow> (\<exists>bs. emits p bs) \<or> (\<exists>e. \<forall>out. p out = Inl e)"

definition parses :: "'a decoder \<Rightarrow> bytes \<Rightarrow> 'a \<Rightarrow> bool" where
  "parses d bs x \<longleftrightarrow>
     (\<forall>c rest. length (cu_bytes c) < 2 ^ 64 \<longrightarrow> cu_position c \<le> length (cu_bytes c) \<longrightarrow>
        drop (cu_position c) (cu_bytes c) = bs @ rest \<longrightarrow>
        d c = Inr (x, c\<lparr>cu_position := cu_position c + length bs\<rparr>))"

definition reads :: "'a decoder \<Rightarrow> ('a \<Rightarrow> bytes \<Rightarrow> bool) \<Rightarrow> bool" where
  "reads d Q \<longleftrightarrow>
     (\<forall>c x c'. cu_position c \<le> length (cu_bytes c) \<longrightarrow> d c = Inr (x, c') \<longrightarrow>
        (\<exists>bs rest. drop (cu_position c) (cu_bytes c) = bs @ rest \<and>
           c' = c\<lparr>cu_position := cu_position c + length bs\<rparr> \<and> Q x bs))"

lemma emits_Inr: "appender p \<Longrightarrow> p out = Inr out' \<Longrightarrow> \<exists>bs. emits p bs \<and> out' = out @ bs"
  by (auto simp: appender_def emits_def)

lemma emits_raw [simp]: "emits (put_raw bs) bs' \<longleftrightarrow> bs' = bs"
  by (auto simp: emits_def put_raw_def)

lemma appender_raw [simp]: "appender (put_raw bs)"
  by (auto simp: appender_def)

lemma appender_bytes [simp]: "appender (put_bytes bs)"
  by (auto simp: appender_def emits_def put_bytes_def)

lemma emits_bytes:
  "emits (put_bytes bs) bs' \<longleftrightarrow>
     length bs < 2 ^ 32 \<and> bs' = le_bytes 4 (of_nat (length bs) :: u32) @ bs"
  by (auto simp: emits_def put_bytes_def split: if_splits)

lemma emits_put_Nil [simp]: "emits Inr bs \<longleftrightarrow> bs = []"
  by (auto simp: emits_def)

lemma appender_Inr [simp]: "appender Inr"
  by (auto simp: appender_def)

lemma emits_then:
  assumes "appender p" "appender q"
  shows "emits (put_then p q) bs \<longleftrightarrow> (\<exists>b b'. bs = b @ b' \<and> emits p b \<and> emits q b')"
proof
  assume seq: "emits (put_then p q) bs"
  then obtain b where b: "emits p b"
    using assms(1) by (auto simp: appender_def emits_def put_then_def)
  with seq obtain b' where "emits q b'"
    using assms(2) by (auto simp: appender_def emits_def put_then_def)
  with b seq show "\<exists>b b'. bs = b @ b' \<and> emits p b \<and> emits q b'"
    by (auto simp: emits_def put_then_def)
qed (auto simp: emits_def put_then_def)

lemma appender_then: "appender p \<Longrightarrow> appender q \<Longrightarrow> appender (put_then p q)"
  by (auto simp: appender_def emits_def put_then_def)

lemma appender_all: "list_all appender ps \<Longrightarrow> appender (put_all ps)"
  by (induction ps) (simp_all add: appender_then)

lemma emits_all_Cons:
  assumes "list_all appender (p # ps)"
  shows "emits (put_all (p # ps)) bs \<longleftrightarrow>
           (\<exists>b b'. bs = b @ b' \<and> emits p b \<and> emits (put_all ps) b')"
  using assms by (simp add: emits_then appender_all)

lemma emits_allI:
  "emits p b \<Longrightarrow> emits (put_all ps) b' \<Longrightarrow> emits (put_all (p # ps)) (b @ b')"
  by (simp add: emits_def put_then_def)

lemma parses_then:
  assumes "parses d b x" "parses (f x) b' y"
  shows "parses (get_then d f) (b @ b') y"
proof -
  have "get_then d f c = Inr (y, c\<lparr>cu_position := cu_position c + length (b @ b')\<rparr>)"
    if c: "length (cu_bytes c) < 2 ^ 64" "cu_position c \<le> length (cu_bytes c)"
      "drop (cu_position c) (cu_bytes c) = (b @ b') @ rest" for c rest
  proof -
    let ?c = "c\<lparr>cu_position := cu_position c + length b\<rparr>"
    have len: "length (drop (cu_position c) (cu_bytes c)) = length b + length b' + length rest"
      using c(3) by simp
    have "drop (length b) (drop (cu_position c) (cu_bytes c)) = b' @ rest"
      using c(3) by simp
    then have "drop (cu_position ?c) (cu_bytes ?c) = b' @ rest"
      by (simp add: add.commute)
    moreover have "cu_position ?c \<le> length (cu_bytes ?c)" using len c(2) by simp
    ultimately have "f x ?c = Inr (y, ?c\<lparr>cu_position := cu_position ?c + length b'\<rparr>)"
      using assms(2) c(1) by (simp add: parses_def)
    moreover have "d c = Inr (x, ?c)" using assms(1) c by (simp add: parses_def)
    ultimately show ?thesis by (simp add: get_then_def add.assoc)
  qed
  then show ?thesis by (simp add: parses_def)
qed

lemma parses_return [simp]: "parses (get_return x) [] x"
  by (simp add: parses_def get_return_def)

lemma parses_return_after: "parses d b x \<Longrightarrow> f x = y \<Longrightarrow> parses (get_then d (\<lambda>x. get_return (f x))) b y"
  using parses_then [of d b x "\<lambda>x. get_return (f x)" "[]"] by simp

lemma parses_take: "length bs = n \<Longrightarrow> parses (cursor_take n) bs bs"
  by (auto simp: parses_def cursor_take_def usize_checked_add_def dest: arg_cong [where f = length])

lemma reads_then:
  assumes "reads d Q" and "\<And>x b. Q x b \<Longrightarrow> reads (f x) (\<lambda>y b'. P y (b @ b'))"
  shows "reads (get_then d f) P"
proof -
  have "\<exists>bs rest. drop (cu_position c) (cu_bytes c) = bs @ rest \<and>
          c' = c\<lparr>cu_position := cu_position c + length bs\<rparr> \<and> P y bs"
    if c: "cu_position c \<le> length (cu_bytes c)" "get_then d f c = Inr (y, c')" for c y c'
  proof -
    from c(2) obtain x c1 where x: "d c = Inr (x, c1)" "f x c1 = Inr (y, c')"
      by (auto simp: get_then_def and_then_Inr_iff)
    from assms(1) c(1) x(1) obtain b rest where
      b: "drop (cu_position c) (cu_bytes c) = b @ rest"
         "c1 = c\<lparr>cu_position := cu_position c + length b\<rparr>" "Q x b"
      unfolding reads_def by metis
    have len: "length (drop (cu_position c) (cu_bytes c)) = length b + length rest"
      using b(1) by simp
    have "drop (length b) (drop (cu_position c) (cu_bytes c)) = rest" using b(1) by simp
    then have rest: "drop (cu_position c1) (cu_bytes c1) = rest"
      by (simp add: b(2) add.commute)
    have "cu_position c1 \<le> length (cu_bytes c1)" using len c(1) b(2) by simp
    with assms(2) [OF b(3)] x(2) obtain b' rest' where
      "drop (cu_position c1) (cu_bytes c1) = b' @ rest'"
      "c' = c1\<lparr>cu_position := cu_position c1 + length b'\<rparr>" "P y (b @ b')"
      unfolding reads_def by metis
    with b rest have "drop (cu_position c) (cu_bytes c) = (b @ b') @ rest' \<and>
        c' = c\<lparr>cu_position := cu_position c + length (b @ b')\<rparr> \<and> P y (b @ b')"
      by (simp add: add.assoc)
    then show ?thesis by blast
  qed
  then show ?thesis by (simp add: reads_def)
qed

lemma reads_return: "P x [] \<Longrightarrow> reads (get_return x) P"
  by (fastforce simp: reads_def get_return_def)

lemma reads_fail [simp]: "reads (get_fail reason) P"
  by (auto simp: reads_def get_fail_def)

lemma reads_if: "(b \<Longrightarrow> reads d P) \<Longrightarrow> (\<not> b \<Longrightarrow> reads e P) \<Longrightarrow> reads (if b then d else e) P"
  by simp

lemma reads_case_option:
  "(m = None \<Longrightarrow> reads d P) \<Longrightarrow> (\<And>x. m = Some x \<Longrightarrow> reads (f x) P) \<Longrightarrow>
   reads (case m of None \<Rightarrow> d | Some x \<Rightarrow> f x) P"
  by (cases m) simp_all

lemma reads_mono: "reads d Q \<Longrightarrow> (\<And>x b. Q x b \<Longrightarrow> P x b) \<Longrightarrow> reads d P"
  unfolding reads_def by metis

lemma reads_take: "reads (cursor_take n) (\<lambda>bs b. bs = b \<and> length b = n)"
proof -
  have "\<exists>b rest. drop (cu_position c) (cu_bytes c) = b @ rest \<and>
          c' = c\<lparr>cu_position := cu_position c + length b\<rparr> \<and> bs = b \<and> length b = n"
    if "cu_position c \<le> length (cu_bytes c)" "cursor_take n c = Inr (bs, c')" for c bs c'
  proof -
    let ?rest = "drop (cu_position c) (cu_bytes c)"
    from that have "cu_position c + n \<le> length (cu_bytes c)" "bs = take n ?rest"
      "c' = c\<lparr>cu_position := cu_position c + n\<rparr>"
      by (auto simp: cursor_take_def usize_checked_add_def split: if_splits)
    moreover have "?rest = take n ?rest @ drop n ?rest" by (rule append_take_drop_id [symmetric])
    moreover have "length (take n ?rest) = n" using calculation(1) by simp
    ultimately show ?thesis by metis
  qed
  then show ?thesis unfolding reads_def by blast
qed

lemma readsE:
  assumes "reads d Q" "cu_position c \<le> length (cu_bytes c)" "d c = Inr (x, c')"
  obtains bs rest where "drop (cu_position c) (cu_bytes c) = bs @ rest"
    "c' = c\<lparr>cu_position := cu_position c + length bs\<rparr>" "Q x bs"
  using assms unfolding reads_def by blast

section \<open>The contract of a field\<close>

locale field_codec =
  fixes put :: "'a \<Rightarrow> bytes \<Rightarrow> frame_error + bytes"
    and get :: "'a decoder"
    and ok :: "'a \<Rightarrow> bool"
  assumes appends: "appender (put x)"
    and get_put: "ok x \<Longrightarrow> emits (put x) bs \<Longrightarrow> length bs \<le> MAX_PAYLOAD_LEN \<Longrightarrow> parses get bs x"
    and put_get: "reads get (\<lambda>x bs. ok x \<and> emits (put x) bs)"
begin

text \<open>The form used in proof search: the emitted bytes name the value first.\<close>

lemma get_emitted: "emits (put x) bs \<Longrightarrow> ok x \<Longrightarrow> length bs \<le> MAX_PAYLOAD_LEN \<Longrightarrow> parses get bs x"
  by (rule get_put)

lemma emits_fun: "emits (put x) bs \<Longrightarrow> emits (put x) bs' \<Longrightarrow> bs = bs'"
  by (simp add: emits_def)

text \<open>Two values with the same encoding are equal.\<close>

lemma put_inject:
  assumes "ok x" "ok y" "emits (put x) bs" "emits (put y) bs" "length bs \<le> MAX_PAYLOAD_LEN"
  shows "x = y"
proof -
  let ?c = "cursor_new bs 0"
  have "parses get bs x" "parses get bs y" using assms get_put by blast+
  moreover have "length (cu_bytes ?c) < 2 ^ 64" "cu_position ?c \<le> length (cu_bytes ?c)"
    "drop (cu_position ?c) (cu_bytes ?c) = bs @ []"
    using assms(5) by (simp_all add: cursor_new_def MAX_PAYLOAD_LEN_def)
  ultimately have "get ?c = Inr (x, ?c\<lparr>cu_position := cu_position ?c + length bs\<rparr>)"
    "get ?c = Inr (y, ?c\<lparr>cu_position := cu_position ?c + length bs\<rparr>)"
    unfolding parses_def by blast+
  then show ?thesis by simp
qed

text \<open>Decoding a buffer from its start consumes all of it exactly when the value is well formed
  and the buffer is its encoding.\<close>

lemma whole_buffer:
  assumes "length bs \<le> MAX_PAYLOAD_LEN"
  shows "get (cursor_new bs off) = Inr (x, c) \<and> cursor_is_empty c \<longleftrightarrow>
     ok x \<and> emits (put x) bs \<and> c = (cursor_new bs off)\<lparr>cu_position := length bs\<rparr>"
proof
  assume *: "get (cursor_new bs off) = Inr (x, c) \<and> cursor_is_empty c"
  have "cu_position (cursor_new bs off) \<le> length (cu_bytes (cursor_new bs off))"
    by (simp add: cursor_new_def)
  from readsE [OF put_get this conjunct1 [OF *]] obtain b rest where
    b: "drop (cu_position (cursor_new bs off)) (cu_bytes (cursor_new bs off)) = b @ rest"
    "c = (cursor_new bs off)\<lparr>cu_position := cu_position (cursor_new bs off) + length b\<rparr>"
    "ok x \<and> emits (put x) b" .
  have "length b = length bs" using conjunct2 [OF *] b(2)
    by (simp add: cursor_is_empty_def cursor_new_def)
  moreover have "bs = b @ rest" using b(1) by (simp add: cursor_new_def)
  ultimately have "b = bs" by simp
  with b(2,3) show "ok x \<and> emits (put x) bs \<and> c = (cursor_new bs off)\<lparr>cu_position := length bs\<rparr>"
    by (simp add: cursor_new_def)
next
  assume *: "ok x \<and> emits (put x) bs \<and> c = (cursor_new bs off)\<lparr>cu_position := length bs\<rparr>"
  with get_put assms have "parses get bs x" by blast
  with * assms show "get (cursor_new bs off) = Inr (x, c) \<and> cursor_is_empty c"
    by (auto simp: parses_def cursor_new_def cursor_is_empty_def MAX_PAYLOAD_LEN_def)
qed

end

interpretation u8: field_codec put_u8 cursor_u8 "\<lambda>_. True"
proof unfold_locales
  fix x bs assume "emits (put_u8 x) bs"
  then show "parses cursor_u8 bs x"
    by (auto simp: put_u8_def cursor_u8_def intro!: parses_return_after [of _ _ "[x]"] parses_take)
next
  show "reads cursor_u8 (\<lambda>x bs. True \<and> emits (put_u8 x) bs)"
    unfolding cursor_u8_def
    by (rule reads_then, rule reads_take, rule reads_return)
       (auto simp: put_u8_def length_Suc_conv)
qed (simp add: put_u8_def)

interpretation u16: field_codec put_u16 cursor_u16 "\<lambda>_. True"
proof unfold_locales
  fix x bs assume "emits (put_u16 x) bs"
  then show "parses cursor_u16 bs x"
    by (auto simp: put_u16_def cursor_u16_def le_word_le_bytes
        intro!: parses_return_after [of _ _ "le_bytes 2 x"] parses_take)
next
  show "reads cursor_u16 (\<lambda>x bs. True \<and> emits (put_u16 x) bs)"
    unfolding cursor_u16_def
    by (rule reads_then, rule reads_take, rule reads_return)
       (auto simp: put_u16_def le_bytes_le_word)
qed (simp add: put_u16_def)

interpretation u32: field_codec put_u32 cursor_u32 "\<lambda>_. True"
proof unfold_locales
  fix x bs assume "emits (put_u32 x) bs"
  then show "parses cursor_u32 bs x"
    by (auto simp: put_u32_def cursor_u32_def le_word_le_bytes
        intro!: parses_return_after [of _ _ "le_bytes 4 x"] parses_take)
next
  show "reads cursor_u32 (\<lambda>x bs. True \<and> emits (put_u32 x) bs)"
    unfolding cursor_u32_def
    by (rule reads_then, rule reads_take, rule reads_return)
       (auto simp: put_u32_def le_bytes_le_word)
qed (simp add: put_u32_def)

interpretation u64: field_codec put_u64 cursor_u64 "\<lambda>_. True"
proof unfold_locales
  fix x bs assume "emits (put_u64 x) bs"
  then show "parses cursor_u64 bs x"
    by (auto simp: put_u64_def cursor_u64_def le_word_le_bytes
        intro!: parses_return_after [of _ _ "le_bytes 8 x"] parses_take)
next
  show "reads cursor_u64 (\<lambda>x bs. True \<and> emits (put_u64 x) bs)"
    unfolding cursor_u64_def
    by (rule reads_then, rule reads_take, rule reads_return)
       (auto simp: put_u64_def le_bytes_le_word)
qed (simp add: put_u64_def)

interpretation array_16: field_codec put_raw cursor_array_16 "\<lambda>bs. length bs = 16"
proof unfold_locales
  show "reads cursor_array_16 (\<lambda>x bs. length x = 16 \<and> emits (put_raw x) bs)"
    unfolding cursor_array_16_def by (rule reads_mono [OF reads_take]) simp
qed (auto simp: cursor_array_16_def parses_take)

interpretation array_32: field_codec put_raw cursor_array_32 "\<lambda>bs. length bs = 32"
proof unfold_locales
  show "reads cursor_array_32 (\<lambda>x bs. length x = 32 \<and> emits (put_raw x) bs)"
    unfolding cursor_array_32_def by (rule reads_mono [OF reads_take]) simp
qed (auto simp: cursor_array_32_def parses_take)

text \<open>A field of at most \<open>MAX_PAYLOAD_LEN\<close> bytes is read back; longer ones the cursor refuses,
  and the bound on the payload already excludes them.\<close>

interpretation field_bytes: field_codec put_bytes cursor_bytes "\<lambda>_. True"
proof unfold_locales
  fix x bs assume x: "emits (put_bytes x) bs" "length bs \<le> MAX_PAYLOAD_LEN"
  let ?w = "of_nat (length x) :: u32"
  from x have bs: "bs = le_bytes 4 ?w @ x" and unat: "unat ?w = length x"
    and len: "length x \<le> MAX_PAYLOAD_LEN"
    by (simp_all add: emits_bytes unat_of_nat)
  have "parses cursor_u32 (le_bytes 4 ?w) ?w"
    by (rule u32.get_put) (simp_all add: put_u32_def MAX_PAYLOAD_LEN_def)
  then show "parses cursor_bytes bs x"
    unfolding bs cursor_bytes_def using unat len by (auto intro!: parses_then parses_take)
next
  show "reads cursor_bytes (\<lambda>x bs. True \<and> emits (put_bytes x) bs)"
    unfolding cursor_bytes_def
  proof (rule reads_then, rule u32.put_get, rule reads_if, rule reads_fail)
    fix len b assume b: "True \<and> emits (put_u32 len) b" and len: "\<not> unat len > MAX_PAYLOAD_LEN"
    have "length x = unat len \<Longrightarrow> of_nat (length x) = len" for x :: bytes by simp
    moreover have "unat len < 2 ^ 32" using unsigned_less [of len] by simp
    ultimately show "reads (cursor_take (unat len)) (\<lambda>y b'. True \<and> emits (put_bytes y) (b @ b'))"
      using b len
      by (intro reads_mono [OF reads_take]) (auto simp: emits_bytes put_u32_def)
  qed
qed simp

section \<open>Composite fields\<close>

declare put_all.simps [simp del]

lemma emits_u8 [simp]: "emits (put_u8 b) bs \<longleftrightarrow> bs = [b]"
  by (simp add: put_u8_def)

lemma emits_all_Nil [simp]: "emits (put_all []) bs \<longleftrightarrow> bs = []"
  by (simp add: put_all.simps)

lemma emits_all_last: "emits p b \<Longrightarrow> emits (put_all [p]) b"
  using emits_allI [of p b "[]" "[]"] by simp

lemma emits_all_u8: "emits (put_all ps) b \<Longrightarrow> emits (put_all (put_u8 t # ps)) (t # b)"
  using emits_allI [of "put_u8 t" "[t]"] by simp

lemma parses_then_last:
  "parses d b x \<Longrightarrow> parses (f x) [] y \<Longrightarrow> parses (get_then d f) b y"
  using parses_then [of d b x f "[]" y] by simp

lemma parses_u8_then:
  "parses (f t) bs y \<Longrightarrow> parses (get_then cursor_u8 f) (t # bs) y"
  using parses_then [of cursor_u8 "[t]" t f bs y] u8.get_put [of t "[t]"]
  by (simp add: MAX_PAYLOAD_LEN_def)

lemmas codec_appends [simp] =
  u8.appends u16.appends u32.appends u64.appends appender_all
lemmas codec_emits = emits_all_u8 emits_allI emits_all_last
lemmas codec_parses = parses_u8_then parses_then parses_return_after
  u16.get_emitted u32.get_emitted u64.get_emitted array_32.get_emitted array_16.get_emitted
  field_bytes.get_emitted
lemmas codec_reads = reads_if reads_fail reads_case_option reads_return
  reads_then [OF u8.put_get] reads_then [OF u16.put_get] reads_then [OF u32.put_get]
  reads_then [OF u64.put_get] reads_then [OF array_16.put_get] reads_then [OF array_32.put_get]
  reads_then [OF field_bytes.put_get]

interpretation opt_bytes: field_codec put_optional_bytes cursor_optional_bytes "\<lambda>_. True"
proof unfold_locales
  fix x show "appender (put_optional_bytes x)" by (cases x) simp_all
next
  fix x bs assume "emits (put_optional_bytes x) bs" "length bs \<le> MAX_PAYLOAD_LEN"
  then show "parses cursor_optional_bytes bs x"
    by (cases x) (auto simp: cursor_optional_bytes_def emits_all_Cons intro!: codec_parses)
next
  show "reads cursor_optional_bytes (\<lambda>x bs. True \<and> emits (put_optional_bytes x) bs)"
    unfolding cursor_optional_bytes_def
    by (intro codec_reads) (auto intro!: codec_emits)
qed

interpretation opt_u64: field_codec put_optional_u64 cursor_optional_u64 "\<lambda>_. True"
proof unfold_locales
  fix x show "appender (put_optional_u64 x)" by (cases x) simp_all
next
  fix x bs assume "emits (put_optional_u64 x) bs" "length bs \<le> MAX_PAYLOAD_LEN"
  then show "parses cursor_optional_u64 bs x"
    by (cases x) (auto simp: cursor_optional_u64_def emits_all_Cons intro!: codec_parses)
next
  show "reads cursor_optional_u64 (\<lambda>x bs. True \<and> emits (put_optional_u64 x) bs)"
    unfolding cursor_optional_u64_def
    by (intro codec_reads) (auto intro!: codec_emits)
qed

interpretation identity: field_codec encode_strong_identity "decode_strong_identity VERSION" "\<lambda>_. True"
proof unfold_locales
  fix x show "appender (encode_strong_identity x)" by (simp add: encode_strong_identity_def)
next
  fix x bs assume "emits (encode_strong_identity x) bs" "length bs \<le> MAX_PAYLOAD_LEN"
  then show "parses (decode_strong_identity VERSION) bs x"
    by (auto simp: encode_strong_identity_def decode_strong_identity_def VERSION_def emits_all_Cons
        intro!: codec_parses)
next
  show "reads (decode_strong_identity VERSION) (\<lambda>x bs. True \<and> emits (encode_strong_identity x) bs)"
    unfolding decode_strong_identity_def VERSION_def
    by simp (intro codec_reads, auto simp: encode_strong_identity_def intro!: codec_emits)
qed

interpretation locator: field_codec encode_locator "decode_locator VERSION" wf_locator
proof unfold_locales
  fix x show "appender (encode_locator x)" by (simp add: encode_locator_def)
next
  fix x bs assume "wf_locator x" "emits (encode_locator x) bs"
    "length bs \<le> MAX_PAYLOAD_LEN"
  then show "parses (decode_locator VERSION) bs x"
    by (auto simp: encode_locator_def decode_locator_def VERSION_def emits_all_Cons wf_locator_def
        locator_new_valid
        intro!: codec_parses parses_then_last [OF field_bytes.get_put [of "sl_filesystem_id x"]])
next
  show "reads (decode_locator VERSION)
    (\<lambda>x bs. wf_locator x \<and> emits (encode_locator x) bs)"
    unfolding decode_locator_def VERSION_def
    by (intro codec_reads)
       (auto simp: encode_locator_def wf_locator_def locator_new_Some_iff
         intro!: codec_emits)
qed

interpretation backend: field_codec "\<lambda>b. put_u8 (encode_backend b)" decode_backend "\<lambda>_. True"
proof unfold_locales
  fix x bs assume "emits (put_u8 (encode_backend x)) bs" "length bs \<le> MAX_PAYLOAD_LEN"
  then show "parses decode_backend bs x"
    by (cases x) (auto simp: decode_backend_def intro!: parses_u8_then)
next
  show "reads decode_backend (\<lambda>x bs. True \<and> emits (put_u8 (encode_backend x)) bs)"
    unfolding decode_backend_def by (intro codec_reads) auto
qed simp

fun ok_strategy :: "source_parent_strategy \<Rightarrow> bool" where
  "ok_strategy PermissionSeal = True"
| "ok_strategy (AlreadyExclusive p) = wf_locator (ae_source_parent p)"

interpretation strategy: field_codec encode_strategy "decode_strategy VERSION" ok_strategy
proof unfold_locales
  fix x show "appender (encode_strategy x)"
    by (cases x) (simp_all add: identity.appends locator.appends)
next
  fix x bs assume "ok_strategy x" "emits (encode_strategy x) bs" "length bs \<le> MAX_PAYLOAD_LEN"
  then show "parses (decode_strategy VERSION) bs x"
    by (cases x)
       (auto simp: decode_strategy_def emits_all_Cons identity.appends locator.appends
         intro!: codec_parses identity.get_emitted locator.get_emitted)
next
  show "reads (decode_strategy VERSION) (\<lambda>x bs. ok_strategy x \<and> emits (encode_strategy x) bs)"
    unfolding decode_strategy_def
    by (intro codec_reads reads_then [OF locator.put_get] reads_then [OF identity.put_get])
       (auto intro!: codec_emits)
qed

definition put_association :: "production_association option \<Rightarrow> bytes \<Rightarrow> frame_error + bytes" where
  "put_association a = put_optional_bytes (map_option reclamation_id a)"

definition ok_association :: "production_association option \<Rightarrow> bool" where
  "ok_association = pred_option (\<lambda>a. utf8_valid (reclamation_id a) \<and> reclamation_id a \<noteq> [] \<and>
     length (reclamation_id a) \<le> 4096)"

interpretation association: field_codec put_association "decode_association VERSION" ok_association
proof unfold_locales
  fix x show "appender (put_association x)" by (simp add: put_association_def opt_bytes.appends)
next
  fix x bs assume "ok_association x" "emits (put_association x) bs" "length bs \<le> MAX_PAYLOAD_LEN"
  then show "parses (decode_association VERSION) bs x"
    by (cases x)
       (auto simp: put_association_def decode_association_def VERSION_def emits_all_Cons
         ok_association_def production_association_new_def
         intro!: parses_u8_then parses_then_last [OF field_bytes.get_put [of "reclamation_id (the x)"]])
next
  show "reads (decode_association VERSION) (\<lambda>x bs. ok_association x \<and> emits (put_association x) bs)"
    unfolding decode_association_def
    by (intro codec_reads)
       (auto simp: VERSION_def put_association_def ok_association_def production_association_new_def
         split: if_splits intro!: codec_emits)
qed

interpretation anchor: field_codec put_optional_bytes "decode_anchor VERSION" "\<lambda>_. True"
proof -
  have "decode_anchor VERSION =
    get_then cursor_u8 (\<lambda>tag.
        if tag = 0 then get_return None
        else if tag = 1 then get_then cursor_bytes (\<lambda>p. get_return (Some p))
        else get_fail ''invalid recovery anchor tag'')"
    by (simp add: decode_anchor_def VERSION_def)
  note def = this
  show "field_codec put_optional_bytes (decode_anchor VERSION) (\<lambda>_. True)"
  proof unfold_locales
    fix x show "appender (put_optional_bytes x)" by (rule opt_bytes.appends)
  next
    fix x bs assume "emits (put_optional_bytes x) bs" "length bs \<le> MAX_PAYLOAD_LEN"
    then show "parses (decode_anchor VERSION) bs x"
      by (cases x) (auto simp: def emits_all_Cons intro!: codec_parses)
  next
    show "reads (decode_anchor VERSION) (\<lambda>x bs. True \<and> emits (put_optional_bytes x) bs)"
      unfolding def by (intro codec_reads) (auto intro!: codec_emits)
  qed
qed

lemma staging_metadata_eta [simp]:
  "\<lparr>sm_source_parent = sm_source_parent x,
     sm_source_parent_identity = sm_source_parent_identity x,
     sm_source_basename = sm_source_basename x,
     sm_root_identity = sm_root_identity x,
     sm_destination_parent = sm_destination_parent x,
     sm_destination_parent_identity = sm_destination_parent_identity x,
     sm_destination_basename = sm_destination_basename x,
     sm_backend = sm_backend x,
     sm_source_parent_strategy = sm_source_parent_strategy x,
     sm_production_association = sm_production_association x,
     sm_recovery_anchor = sm_recovery_anchor x\<rparr> = x"
  by simp

interpretation metadata: field_codec encode_staging_metadata "decode_staging_metadata VERSION"
  wf_staging_metadata
proof unfold_locales
  fix x show "appender (encode_staging_metadata x)"
    by (simp add: encode_staging_metadata_def identity.appends locator.appends strategy.appends
        opt_bytes.appends)
next
  fix x bs assume x: "wf_staging_metadata x" "emits (encode_staging_metadata x) bs"
    "length bs \<le> MAX_PAYLOAD_LEN"
  have check: "parses (check_metadata VERSION x) [] x"
    using x(1) by (auto simp: check_metadata_def wf_staging_metadata_def metadata_valid_for_def VERSION_def)
  have ok: "wf_locator (sm_source_parent x)" "wf_locator (sm_destination_parent x)"
    "ok_strategy (sm_source_parent_strategy x)" "ok_association (sm_production_association x)"
    using x(1) by (auto simp: wf_staging_metadata_def wf_metadata_def ok_association_def
        split: source_parent_strategy.splits option.splits)
  from x(2,3) check ok show "parses (decode_staging_metadata VERSION) bs x"
    by (auto simp: encode_staging_metadata_def decode_staging_metadata_def emits_all_Cons
        identity.appends locator.appends strategy.appends association.appends anchor.appends
        put_association_def [symmetric] simp del: emits_u8
        intro!: parses_then identity.get_emitted locator.get_emitted field_bytes.get_emitted
          strategy.get_emitted association.get_emitted backend.get_emitted
          parses_then_last [OF anchor.get_put [of "sm_recovery_anchor x"]])
next
  show "reads (decode_staging_metadata VERSION)
    (\<lambda>x bs. wf_staging_metadata x \<and> emits (encode_staging_metadata x) bs)"
    unfolding decode_staging_metadata_def check_metadata_def
    by (intro codec_reads reads_then [OF locator.put_get] reads_then [OF identity.put_get]
        reads_then [OF backend.put_get] reads_then [OF strategy.put_get]
        reads_then [OF association.put_get] reads_then [OF anchor.put_get])
       (auto simp: encode_staging_metadata_def wf_staging_metadata_def wf_metadata_def
        metadata_valid_for_def VERSION_def ok_association_def put_association_def
        split: source_parent_strategy.splits option.splits intro!: codec_emits)
qed

interpretation manifest: field_codec encode_manifest "decode_manifest True" wf_manifest
proof unfold_locales
  fix x show "appender (encode_manifest x)" by (simp add: encode_manifest_def)
next
  fix x bs assume "wf_manifest x" "emits (encode_manifest x) bs" "length bs \<le> MAX_PAYLOAD_LEN"
  then show "parses (decode_manifest True) bs x"
    by (auto simp: encode_manifest_def decode_manifest_def emits_all_Cons wf_manifest_def
        intro!: codec_parses)
next
  show "reads (decode_manifest True) (\<lambda>x bs. wf_manifest x \<and> emits (encode_manifest x) bs)"
    unfolding decode_manifest_def
    by simp (intro codec_reads, auto simp: encode_manifest_def wf_manifest_def intro!: codec_emits)
qed

interpretation sidecar: field_codec encode_sidecar "decode_sidecar t"
  "\<lambda>c. sc_transaction c = t \<and> length (sc_root_sha256 c) = 32" for t
proof unfold_locales
  fix x show "appender (encode_sidecar x)" by (simp add: encode_sidecar_def)
next
  fix x bs assume "sc_transaction x = t \<and> length (sc_root_sha256 x) = 32"
    "emits (encode_sidecar x) bs" "length bs \<le> MAX_PAYLOAD_LEN"
  then show "parses (decode_sidecar t) bs x"
    by (auto simp: encode_sidecar_def decode_sidecar_def emits_all_Cons intro!: codec_parses)
next
  show "reads (decode_sidecar t)
    (\<lambda>x bs. (sc_transaction x = t \<and> length (sc_root_sha256 x) = 32) \<and> emits (encode_sidecar x) bs)"
    unfolding decode_sidecar_def
    by (intro codec_reads) (auto simp: encode_sidecar_def intro!: codec_emits)
qed

interpretation commitment: field_codec encode_commitment "decode_commitment VERSION" wf_commitment
proof unfold_locales
  fix x show "appender (encode_commitment x)"
    by (simp add: encode_commitment_def identity.appends locator.appends manifest.appends)
next
  fix x bs assume "wf_commitment x" "emits (encode_commitment x) bs" "length bs \<le> MAX_PAYLOAD_LEN"
  then show "parses (decode_commitment VERSION) bs x"
    by (auto simp: encode_commitment_def decode_commitment_def emits_all_Cons wf_commitment_def
        identity.appends locator.appends manifest.appends
        intro!: codec_parses identity.get_emitted locator.get_emitted manifest.get_emitted)
next
  show "reads (decode_commitment VERSION) (\<lambda>x bs. wf_commitment x \<and> emits (encode_commitment x) bs)"
    unfolding decode_commitment_def
    by (intro codec_reads reads_then [OF locator.put_get] reads_then [OF identity.put_get]
        reads_then [OF manifest.put_get])
       (auto simp: encode_commitment_def wf_commitment_def intro!: codec_emits)
qed

interpretation rename_outcome: field_codec encode_rename_outcome "decode_rename_outcome VERSION" "\<lambda>_. True"
proof unfold_locales
  fix x show "appender (encode_rename_outcome x)" by (cases x) (simp_all add: identity.appends)
next
  fix x bs assume "emits (encode_rename_outcome x) bs" "length bs \<le> MAX_PAYLOAD_LEN"
  then show "parses (decode_rename_outcome VERSION) bs x"
    by (cases x)
       (auto simp: decode_rename_outcome_def emits_all_Cons identity.appends
         intro!: codec_parses identity.get_emitted)
next
  show "reads (decode_rename_outcome VERSION) (\<lambda>x bs. True \<and> emits (encode_rename_outcome x) bs)"
    unfolding decode_rename_outcome_def
    by (intro codec_reads reads_then [OF identity.put_get]) (auto intro!: codec_emits)
qed

interpretation undo_outcome: field_codec encode_undo_outcome "decode_undo_outcome VERSION" "\<lambda>_. True"
proof unfold_locales
  fix x show "appender (encode_undo_outcome x)" by (cases x) (simp_all add: identity.appends)
next
  fix x bs assume "emits (encode_undo_outcome x) bs" "length bs \<le> MAX_PAYLOAD_LEN"
  then show "parses (decode_undo_outcome VERSION) bs x"
    by (cases x)
       (auto simp: decode_undo_outcome_def emits_all_Cons identity.appends
         intro!: codec_parses identity.get_emitted)
next
  show "reads (decode_undo_outcome VERSION) (\<lambda>x bs. True \<and> emits (encode_undo_outcome x) bs)"
    unfolding decode_undo_outcome_def
    by (intro codec_reads reads_then [OF identity.put_get]) (auto intro!: codec_emits)
qed

lemma decode_state_value_encode [simp]: "decode_state_value (encode_state s) VERSION = Some s"
  by (cases s) (simp_all add: decode_state_value_def VERSION_def)

lemma encode_decode_state_value: "decode_state_value v version = Some s \<Longrightarrow> encode_state s = v"
  by (auto simp: decode_state_value_def split: if_splits)

interpretation state: field_codec "\<lambda>s. put_u8 (encode_state s)" "decode_state VERSION" "\<lambda>_. True"
proof unfold_locales
  fix x bs assume "emits (put_u8 (encode_state x)) bs"
  then show "parses (decode_state VERSION) bs x"
    by (auto simp: decode_state_def intro!: parses_u8_then)
next
  show "reads (decode_state VERSION) (\<lambda>x bs. True \<and> emits (put_u8 (encode_state x)) bs)"
    unfolding decode_state_def
    by (intro codec_reads) (auto dest: encode_decode_state_value)
qed simp

section \<open>Records\<close>

lemma evidence_eta [simp]:
  "\<lparr>ev_relative_path = ev_relative_path e, ev_filesystem_id = ev_filesystem_id e,
     ev_device = ev_device e, ev_inode = ev_inode e,
     ev_generation_or_btime = ev_generation_or_btime e, ev_expected_mode = ev_expected_mode e\<rparr> = e"
  by simp

lemma evidence_new_staging_Some_iff:
  "evidence_new_staging p fs dev ino gen mode = Some e \<longleftrightarrow>
     (is_confined_relative_path p \<or> p = []) \<and>
     e = \<lparr>ev_relative_path = p, ev_filesystem_id = fs, ev_device = dev, ev_inode = ino,
          ev_generation_or_btime = gen, ev_expected_mode = mode\<rparr>"
  by (auto simp: evidence_new_staging_def evidence_new_inner_def)

lemma appender_record [simp]: "appender (encode_record_body r)"
  by (cases r)
     (simp_all add: put_tid_def field_bytes.appends opt_bytes.appends opt_u64.appends metadata.appends
       manifest.appends sidecar.appends rename_outcome.appends undo_outcome.appends commitment.appends)

lemma VERSION_ge [simp]:
  "3 \<le> VERSION" "4 \<le> VERSION" "5 \<le> VERSION" "6 \<le> VERSION" "8 \<le> VERSION" "10 \<le> VERSION"
  "11 \<le> VERSION" "SIDECAR_VERSION \<le> VERSION" "\<not> VERSION < SIDECAR_VERSION"
  by (simp_all add: VERSION_def SIDECAR_VERSION_def)

lemma parses_tagged:
  assumes "wf_tid t" "parses (decode_record_body version tag t) bs r"
  shows "parses (decode_tagged version) (tag # tid_bytes t @ bs) r"
  using assms unfolding decode_tagged_def wf_tid_def
  by (auto intro!: parses_u8_then parses_then [OF array_16.get_put] simp: MAX_PAYLOAD_LEN_def)

lemma parses_tagged_last:
  "wf_tid t \<Longrightarrow> parses (decode_record_body version tag t) [] r \<Longrightarrow>
   parses (decode_tagged version) (tag # tid_bytes t) r"
  using parses_tagged [of t version tag "[]" r] by simp

lemma parses_intent:
  assumes "wf_record (PermissionIntent t mid ev pre expd rv)"
    and "emits (put_all [put_u64 mid, put_bytes (ev_relative_path ev),
       put_optional_bytes (ev_filesystem_id ev), put_u64 (ev_device ev), put_u64 (ev_inode ev),
       put_optional_u64 (ev_generation_or_btime ev), put_u32 (ev_expected_mode ev), put_u32 pre,
       put_u32 expd, put_optional_u64 rv]) bs" and "length bs \<le> MAX_PAYLOAD_LEN"
  shows "parses (decode_intent VERSION t) bs (PermissionIntent t mid ev pre expd rv)"
proof -
  have utf8: "\<not> (case ev_filesystem_id ev of None \<Rightarrow> False | Some b \<Rightarrow> \<not> utf8_valid b)"
    using assms(1) by (auto simp: wf_evidence_def split: option.splits)
  have "evidence_new_staging (ev_relative_path ev) (ev_filesystem_id ev) (ev_device ev) (ev_inode ev)
    (ev_generation_or_btime ev) (ev_expected_mode ev) = Some ev"
    using assms(1) by (auto simp: wf_evidence_def evidence_new_staging_Some_iff)
  then have check: "parses (check_intent VERSION t mid ev pre expd rv) []
      (PermissionIntent t mid ev pre expd rv)"
    using assms(1) by (auto simp: check_intent_def VERSION_def)
  from assms(2,3) check utf8 show ?thesis
    by (auto simp: decode_intent_def emits_all_Cons opt_bytes.appends opt_u64.appends
        simp del: wf_record.simps
        intro!: parses_then u64.get_emitted u32.get_emitted field_bytes.get_emitted
          opt_bytes.get_emitted opt_u64.get_emitted parses_then_last [OF opt_u64.get_put [of rv]])
qed

lemma parses_state: "parses (decode_state VERSION) [encode_state s] s"
  by (rule state.get_put) (simp_all add: MAX_PAYLOAD_LEN_def)

lemma parses_record:
  assumes "wf_record r" "emits (encode_record_body r) bs" "length bs \<le> MAX_PAYLOAD_LEN"
  shows "parses (decode_tagged VERSION) bs r"
proof (cases r)
  case (PermissionIntent t mid ev pre expd rv)
  with assms(2) obtain b where b: "bs = 2 # tid_bytes t @ b"
    "emits (put_all [put_u64 mid, put_bytes (ev_relative_path ev),
       put_optional_bytes (ev_filesystem_id ev), put_u64 (ev_device ev), put_u64 (ev_inode ev),
       put_optional_u64 (ev_generation_or_btime ev), put_u32 (ev_expected_mode ev), put_u32 pre,
       put_u32 expd, put_optional_u64 rv]) b"
    by (auto simp: emits_all_Cons [of "put_u8 2"] emits_all_Cons [of "put_raw (tid_bytes t)"] put_tid_def
        opt_bytes.appends opt_u64.appends)
  with assms PermissionIntent parses_intent [OF _ b(2)] show ?thesis
    by (auto simp: decode_record_body_def intro!: parses_tagged)
qed (use assms in \<open>auto simp: emits_all_Cons put_tid_def metadata.appends manifest.appends
      sidecar.appends rename_outcome.appends undo_outcome.appends commitment.appends
      decode_record_body_def
      intro!: parses_tagged parses_tagged_last codec_parses metadata.get_emitted manifest.get_emitted
        sidecar.get_emitted rename_outcome.get_emitted undo_outcome.get_emitted
        commitment.get_emitted parses_return_after [OF parses_state]\<close>)

lemma reads_intent:
  assumes "wf_tid t"
  shows "reads (decode_intent VERSION t)
    (\<lambda>r b. wf_record r \<and> emits (encode_record_body r) (2 # tid_bytes t @ b))"
  unfolding decode_intent_def check_intent_def
  using assms
  by (intro codec_reads reads_then [OF opt_bytes.put_get] reads_then [OF opt_u64.put_get])
     (auto simp: VERSION_def evidence_new_staging_Some_iff wf_evidence_def put_tid_def
       split: option.splits intro!: codec_emits)

lemma reads_record_body:
  assumes "wf_tid t"
  shows "reads (decode_record_body VERSION tag t)
    (\<lambda>r b. wf_record r \<and> emits (encode_record_body r) (tag # tid_bytes t @ b))"
  unfolding decode_record_body_def
  using assms
  by (intro codec_reads reads_then [OF metadata.put_get] reads_then [OF manifest.put_get]
      reads_then [OF sidecar.put_get] reads_then [OF rename_outcome.put_get]
      reads_then [OF undo_outcome.put_get] reads_then [OF commitment.put_get]
      reads_then [OF state.put_get])
     (auto simp: VERSION_def SIDECAR_VERSION_def put_tid_def reads_intent [unfolded VERSION_def]
       intro!: codec_emits)

interpretation seal_record: field_codec encode_record_body "decode_tagged VERSION" wf_record
proof unfold_locales
  show "reads (decode_tagged VERSION) (\<lambda>r b. wf_record r \<and> emits (encode_record_body r) b)"
    unfolding decode_tagged_def
  proof (rule reads_then [OF u8.put_get], rule reads_then [OF array_16.put_get])
    fix tag b t b'
    assume "True \<and> emits (put_u8 tag) b" "length t = 16 \<and> emits (put_raw t) b'"
    then show "reads (decode_record_body VERSION tag (TransactionId t))
      (\<lambda>r b''. wf_record r \<and> emits (encode_record_body r) (b @ b' @ b''))"
      using reads_record_body [of "TransactionId t" tag] by (simp add: wf_tid_def)
  qed
qed (simp_all add: parses_record)

lemma encode_record_Inr_iff:
  "encode_record r = Inr bs \<longleftrightarrow> emits (encode_record_body r) bs \<and> length bs \<le> MAX_PAYLOAD_LEN"
proof
  assume enc: "encode_record r = Inr bs"
  then obtain b where "encode_record_body r [] = Inr b" "b = bs" "length bs \<le> MAX_PAYLOAD_LEN"
    by (auto simp: encode_record_def and_then_Inr_iff split: if_splits)
  with emits_Inr [OF appender_record, of r "[]" b]
  show "emits (encode_record_body r) bs \<and> length bs \<le> MAX_PAYLOAD_LEN" by auto
next
  assume "emits (encode_record_body r) bs \<and> length bs \<le> MAX_PAYLOAD_LEN"
  then show "encode_record r = Inr bs" by (simp add: encode_record_def emits_def)
qed

lemma decode_record_exact:
  assumes "length payload \<le> MAX_PAYLOAD_LEN"
  shows "decode_record payload off VERSION = Inr r \<longleftrightarrow>
         wf_record r \<and> encode_record r = Inr payload"
proof -
  have "decode_record payload off VERSION = Inr r \<longleftrightarrow>
      (\<exists>c. decode_tagged VERSION (cursor_new payload off) = Inr (r, c) \<and> cursor_is_empty c)"
    by (auto simp: decode_record_def and_then_Inr_iff split: if_splits)
  also have "\<dots> \<longleftrightarrow> wf_record r \<and> emits (encode_record_body r) payload"
    using seal_record.whole_buffer [OF assms] by auto
  finally show ?thesis using assms by (simp add: encode_record_Inr_iff)
qed

text \<open>C20: The record codec of the current version is a bijection between well-formed records and
  the payloads the decoder accepts: within the payload limit, \<open>decode_record\<close> at version 13 yields
  a record exactly when that record is well formed and the payload is its encoding, byte for byte.
  In particular a record is read back as it was written, no two payloads mean the same record, and
  truncated, padded or mis-tagged payloads are refused.\<close>

theorem decode_record_iff:
  assumes "length payload \<le> MAX_PAYLOAD_LEN"
  shows "decode_record payload off VERSION = Inr r \<longleftrightarrow>
         wf_record r \<and> encode_record r = Inr payload"
  using assms by (rule decode_record_exact)

text \<open>A concrete permission intent and its payload.\<close>

definition sample_evidence :: persistent_recovery_evidence where
  "sample_evidence = \<lparr>ev_relative_path = [97], ev_filesystem_id = Some [102, 115], ev_device = 1,
     ev_inode = 2, ev_generation_or_btime = None, ev_expected_mode = 448\<rparr>"

definition sample_intent :: seal_record where
  "sample_intent = PermissionIntent (TransactionId (replicate 16 7)) 5 sample_evidence 493 448 None"

definition sample_intent_payload :: bytes where
  "sample_intent_payload =
     [2] @ replicate 16 7 @ [5, 0, 0, 0, 0, 0, 0, 0] @ [1, 0, 0, 0, 97] @ [1, 2, 0, 0, 0, 102, 115] @
      [1, 0, 0, 0, 0, 0, 0, 0] @ [2, 0, 0, 0, 0, 0, 0, 0] @ [0] @ [192, 1, 0, 0] @ [237, 1, 0, 0] @
      [192, 1, 0, 0] @ [0]"

lemma wf_sample_intent: "wf_record sample_intent"
  by (simp add: sample_intent_def sample_evidence_def wf_tid_def wf_evidence_def
      is_confined_relative_path_def path_components_def is_absolute_def seg_components_def slash_def
      dot_def)

lemma encode_sample_intent: "encode_record sample_intent = Inr sample_intent_payload"
  by (simp add: sample_intent_def sample_evidence_def sample_intent_payload_def encode_record_def
      MAX_PAYLOAD_LEN_def put_all.simps put_then_def put_raw_def put_u8_def put_u32_def put_u64_def
      put_tid_def put_bytes_def le_bytes_eval)

theorem decode_record_iff_witness: "decode_record sample_intent_payload 64 VERSION = Inr sample_intent"
proof -
  have "length sample_intent_payload \<le> MAX_PAYLOAD_LEN"
    by (simp add: sample_intent_payload_def MAX_PAYLOAD_LEN_def)
  from decode_record_iff [OF this] show ?thesis
    using wf_sample_intent encode_sample_intent by simp
qed

end
