(* ===== verification/Tree_Guard.thy ===== *)
theory Tree_Guard
  imports Wal_Types Wal_Codec
begin

text \<open>
  The gate of a tree mutation (\<open>degu-walk/src/guard.rs\<close>): one traversal that follows no links and
  refuses mount boundaries, foreign owners, shared-writable directories and protected names. What the
  file system shows during one traversal is an argument: a node carries what is left to be read of its
  directory, and reading an entry may fail. An error is the reason and the paths of its message.
\<close>

section \<open>Trees as they are read\<close>

datatype mount_identity = LinuxMount u64 | MacMount bytes

datatype tree_node =
  TreeNode (tn_path: path) (tn_mount: mount_identity) (tn_uid: "u32 option") (tn_mode: "u32 option")
    (tn_directory: "(io_error + tree_node) list option")

type_synonym directory = "(io_error + tree_node) list"

record tree_root =
  tr_node :: tree_node
  tr_parent_mount :: "mount_identity option"

type_synonym open_root = "path \<Rightarrow> io_error + tree_root"

datatype walk_error =
  WalkIo io_error
  | RootNotAbsolute path
  | RootMountBoundary path
  | MountBoundary path path
  | UidUnavailable path
  | UidDiffers path u32 u32
  | ModeUnavailable path
  | SharedWritable path
  | ParentForeignOwner path u32
  | ParentSharedWritable path
  | ProtectedDescendant path path

section \<open>Namespaces others may change\<close>

definition SHARED_WRITE_MASK :: u32 where "SHARED_WRITE_MASK = 18"
definition STICKY_BIT :: u32 where "STICKY_BIT = 512"

definition directory_grants_foreign_mutation :: "u32 \<Rightarrow> u32 \<Rightarrow> u32 \<Rightarrow> bool" where
  "directory_grants_foreign_mutation uid mode euid \<longleftrightarrow>
     (uid \<noteq> euid \<and> uid \<noteq> 0) \<or> (mode AND SHARED_WRITE_MASK \<noteq> 0 \<and> mode AND STICKY_BIT = 0)"

text \<open>\<open>metadata\<close> is owner and mode of the resolved directory.\<close>

definition validate_trusted_parent_namespace ::
  "(path \<Rightarrow> io_error + (u32 \<times> u32)) \<Rightarrow> path \<Rightarrow> u32 \<Rightarrow> walk_error + unit" where
  "validate_trusted_parent_namespace metadata parent euid =
     (case metadata parent of
        Inl e \<Rightarrow> Inl (WalkIo e)
      | Inr (uid, mode) \<Rightarrow>
          if uid \<noteq> euid \<and> uid \<noteq> 0 then Inl (ParentForeignOwner parent uid)
          else if directory_grants_foreign_mutation uid mode euid then Inl (ParentSharedWritable parent)
          else Inr ())"

section \<open>The traversal\<close>

definition path_file_name :: "path \<Rightarrow> bytes option" where
  "path_file_name p =
     (if path_components p = [] then None
      else case last (path_components p) of Normal s \<Rightarrow> Some s | _ \<Rightarrow> None)"

definition require_uid :: "path \<Rightarrow> u32 option \<Rightarrow> u32 option \<Rightarrow> walk_error + unit" where
  "require_uid p actual required =
     (case required of
        None \<Rightarrow> Inr ()
      | Some r \<Rightarrow>
          (case actual of
             None \<Rightarrow> Inl (UidUnavailable p)
           | Some a \<Rightarrow> if a = r then Inr () else Inl (UidDiffers p a r)))"

definition require_private_directory ::
  "path \<Rightarrow> u32 option \<Rightarrow> bool \<Rightarrow> u32 option \<Rightarrow> walk_error + unit" where
  "require_private_directory p mode is_directory required_uid =
     (if required_uid = None \<or> \<not> is_directory then Inr ()
      else case mode of
        None \<Rightarrow> Inl (ModeUnavailable p)
      | Some m \<Rightarrow> if m AND 18 = 0 then Inr () else Inl (SharedWritable p))"

definition name_matches :: "bytes list \<Rightarrow> path \<Rightarrow> bool" where
  "name_matches names p \<longleftrightarrow> list_ex (\<lambda>name. path_file_name p = Some name) names"

text \<open>The checks of one entry; \<open>Some\<close> is the protected path that ends the traversal.\<close>

definition check_entry ::
  "path \<Rightarrow> mount_identity \<Rightarrow> bytes list \<Rightarrow> u32 option \<Rightarrow> tree_node \<Rightarrow> walk_error + path option" where
  "check_entry root root_mount names required_uid node =
     (if tn_mount node \<noteq> root_mount then Inl (MountBoundary root (tn_path node))
      else and_then (require_uid (tn_path node) (tn_uid node) required_uid) (\<lambda>_.
        and_then (require_private_directory (tn_path node) (tn_mode node) (tn_directory node \<noteq> None) required_uid) (\<lambda>_.
          Inr (if name_matches names (tn_path node) then Some (tn_path node) else None))))"

lemma directory_smaller:
  "tn_directory node = Some d \<Longrightarrow> size_list (size_sum (\<lambda>_. 0) size) d < size node"
  by (cases node) auto

text \<open>The stack holds the open directories, the innermost first.\<close>

function (sequential) walk_find ::
  "path \<Rightarrow> mount_identity \<Rightarrow> bytes list \<Rightarrow> u32 option \<Rightarrow> directory list \<Rightarrow> walk_error + path option" where
  "walk_find root root_mount names required_uid [] = Inr None"
| "walk_find root root_mount names required_uid ([] # pending) =
     walk_find root root_mount names required_uid pending"
| "walk_find root root_mount names required_uid ((Inl e # entries) # pending) = Inl (WalkIo e)"
| "walk_find root root_mount names required_uid ((Inr node # entries) # pending) =
     (case check_entry root root_mount names required_uid node of
        Inl e \<Rightarrow> Inl e
      | Inr (Some p) \<Rightarrow> Inr (Some p)
      | Inr None \<Rightarrow>
          (case tn_directory node of
             Some d \<Rightarrow> walk_find root root_mount names required_uid (d # entries # pending)
           | None \<Rightarrow> walk_find root root_mount names required_uid (entries # pending)))"
  by pat_completeness auto

termination
  by (relation "measure (\<lambda>(_, _, _, _, pending). size_list (size_list (size_sum (\<lambda>_. 0) size)) pending)")
     (auto dest: directory_smaller)

definition find_named_with ::
  "open_root \<Rightarrow> path \<Rightarrow> bytes list \<Rightarrow> u32 option \<Rightarrow> walk_error + path option" where
  "find_named_with open_root root names required_uid =
     (if \<not> is_absolute root then Inl (RootNotAbsolute root)
      else case open_root root of
        Inl e \<Rightarrow> Inl (WalkIo e)
      | Inr opened \<Rightarrow>
          (let node = tr_node opened
           in if (case tr_parent_mount opened of None \<Rightarrow> False | Some parent \<Rightarrow> parent \<noteq> tn_mount node)
              then Inl (RootMountBoundary root)
              else and_then (require_uid (tn_path node) (tn_uid node) required_uid) (\<lambda>_.
                and_then (require_private_directory (tn_path node) (tn_mode node) (tn_directory node \<noteq> None) required_uid) (\<lambda>_.
                  case tn_directory node of
                    None \<Rightarrow> Inr None
                  | Some d \<Rightarrow> walk_find root (tn_mount node) names required_uid [d]))))"

definition find_named_entry_single_mount :: "open_root \<Rightarrow> path \<Rightarrow> bytes list \<Rightarrow> walk_error + path option" where
  "find_named_entry_single_mount open_root root names = find_named_with open_root root names None"

definition validate_single_mount_tree :: "open_root \<Rightarrow> path \<Rightarrow> walk_error + unit" where
  "validate_single_mount_tree open_root root =
     and_then (find_named_with open_root root [] None) (\<lambda>_. Inr ())"

definition validate_owned_single_mount_tree :: "open_root \<Rightarrow> path \<Rightarrow> u32 \<Rightarrow> walk_error + unit" where
  "validate_owned_single_mount_tree open_root root uid =
     and_then (find_named_with open_root root [] (Some uid)) (\<lambda>_. Inr ())"

definition reject_protected_in_owned_single_mount_tree ::
  "open_root \<Rightarrow> path \<Rightarrow> u32 \<Rightarrow> bytes list \<Rightarrow> walk_error + unit" where
  "reject_protected_in_owned_single_mount_tree open_root root uid names =
     and_then (find_named_with open_root root names (Some uid)) (\<lambda>found.
       case found of None \<Rightarrow> Inr () | Some p \<Rightarrow> Inl (ProtectedDescendant p root))"

section \<open>The traversal reads every entry\<close>

text \<open>Every entry below an open directory, in the order it is met.\<close>

function (sequential) entries_below :: "directory \<Rightarrow> directory" where
  "entries_below [] = []"
| "entries_below (Inl e # d) = Inl e # entries_below d"
| "entries_below (Inr n # d) =
     Inr n # (case tn_directory n of None \<Rightarrow> [] | Some d' \<Rightarrow> entries_below d') @ entries_below d"
  by pat_completeness auto

termination
  by (relation "measure (size_list (size_sum (\<lambda>_. 0) size))") (auto dest: directory_smaller)

text \<open>The reference: a scan of the flattened tree.\<close>

fun scan_entries ::
  "path \<Rightarrow> mount_identity \<Rightarrow> bytes list \<Rightarrow> u32 option \<Rightarrow> directory \<Rightarrow> walk_error + path option" where
  "scan_entries root m names u [] = Inr None"
| "scan_entries root m names u (Inl e # d) = Inl (WalkIo e)"
| "scan_entries root m names u (Inr n # d) =
     (case check_entry root m names u n of
        Inl e \<Rightarrow> Inl e | Inr (Some p) \<Rightarrow> Inr (Some p) | Inr None \<Rightarrow> scan_entries root m names u d)"

lemma walk_find_scans: "walk_find root m names u pending = scan_entries root m names u (concat (map entries_below pending))"
  by (induction root m names u pending rule: walk_find.induct) (auto split: sum.split option.split)

definition private_entry :: "u32 option \<Rightarrow> tree_node \<Rightarrow> bool" where
  "private_entry required n \<longleftrightarrow>
     (case required of
        None \<Rightarrow> True
      | Some uid \<Rightarrow> tn_uid n = Some uid \<and> (tn_directory n = None \<or> (\<exists>m. tn_mode n = Some m \<and> m AND 18 = 0)))"

definition clear_entry :: "mount_identity \<Rightarrow> bytes list \<Rightarrow> u32 option \<Rightarrow> io_error + tree_node \<Rightarrow> bool" where
  "clear_entry m names required x \<longleftrightarrow>
     (case x of
        Inl _ \<Rightarrow> False
      | Inr n \<Rightarrow> tn_mount n = m \<and> private_entry required n \<and> path_file_name (tn_path n) \<notin> Some ` set names)"

lemma require_entry_iff:
  "and_then (require_uid (tn_path n) (tn_uid n) u) (\<lambda>_.
     and_then (require_private_directory (tn_path n) (tn_mode n) (tn_directory n \<noteq> None) u) (\<lambda>_. k)) = Inr y \<longleftrightarrow>
   private_entry u n \<and> k = Inr y"
  by (auto simp: require_uid_def require_private_directory_def private_entry_def and_then_Inr_iff
      split: option.splits if_splits)

lemmas require_entry_simp = require_entry_iff [unfolded not_None_eq]

lemma check_entry_iff: "check_entry root m names u n = Inr None \<longleftrightarrow> clear_entry m names u (Inr n)"
  unfolding check_entry_def clear_entry_def
  by (auto simp: require_entry_simp name_matches_def list_ex_iff)

lemma scan_entries_iff:
  "scan_entries root m names u d = Inr None \<longleftrightarrow> list_all (clear_entry m names u) d"
proof (induction d rule: scan_entries.induct)
  case (3 root m names u n d)
  then show ?case
    using check_entry_iff [of root m names u n] by (auto split: sum.split option.split)
qed (simp_all add: clear_entry_def)

text \<open>What an accepted tree looks like.\<close>

definition clear_tree :: "bytes list \<Rightarrow> u32 option \<Rightarrow> tree_root \<Rightarrow> bool" where
  "clear_tree names u r \<longleftrightarrow>
     tr_parent_mount r \<in> {None, Some (tn_mount (tr_node r))} \<and> private_entry u (tr_node r) \<and>
     list_all (clear_entry (tn_mount (tr_node r)) names u)
       (case tn_directory (tr_node r) of None \<Rightarrow> [] | Some d \<Rightarrow> entries_below d)"

lemma find_named_iff:
  "find_named_with open_root root names u = Inr None \<longleftrightarrow>
     is_absolute root \<and> (\<exists>r. open_root root = Inr r \<and> clear_tree names u r)"
proof (cases "open_root root")
  case (Inr r)
  have "(if c then Inl e else x) = Inr y \<longleftrightarrow> \<not> c \<and> x = Inr y"
    for c :: bool and e and x :: "walk_error + path option" and y by simp
  note refused = this
  have "find_named_with open_root root names u = Inr None \<longleftrightarrow>
      is_absolute root \<and> \<not> (case tr_parent_mount r of None \<Rightarrow> False | Some parent \<Rightarrow> parent \<noteq> tn_mount (tr_node r)) \<and>
      private_entry u (tr_node r) \<and>
      (case tn_directory (tr_node r) of None \<Rightarrow> Inr None
       | Some d \<Rightarrow> walk_find root (tn_mount (tr_node r)) names u [d]) = Inr None"
    unfolding find_named_with_def Let_def Inr sum.case refused require_entry_iff not_not by (rule refl)
  then show ?thesis
    by (auto simp: Inr clear_tree_def walk_find_scans scan_entries_iff split: option.splits)
qed (simp add: find_named_with_def)

text \<open>C21: The gate before a tree is renamed into the trash accepts exactly the safe trees. The root
  must be an absolute path on the mount of its parent; the root and everything below it must be
  readable, on that one mount and owned by the invoking user, no directory among them writable by
  group or others, and nothing below the root may carry a protected name. No entry escapes the check,
  however the tree is shaped.\<close>

theorem staging_gate_accepts_iff:
  "reject_protected_in_owned_single_mount_tree open_root root uid names = Inr () \<longleftrightarrow>
     is_absolute root \<and>
     (\<exists>r. open_root root = Inr r \<and>
        (\<forall>m. tr_parent_mount r = Some m \<longrightarrow> m = tn_mount (tr_node r)) \<and>
        (\<forall>x \<in> set (entries_below [Inr (tr_node r)]).
           \<exists>n. x = Inr n \<and> tn_mount n = tn_mount (tr_node r) \<and> tn_uid n = Some uid \<and>
             (tn_directory n \<noteq> None \<longrightarrow> (\<exists>mode. tn_mode n = Some mode \<and> mode AND 18 = 0))) \<and>
        (\<forall>n. Inr n \<in> set (case tn_directory (tr_node r) of None \<Rightarrow> [] | Some d \<Rightarrow> entries_below d) \<longrightarrow>
           path_file_name (tn_path n) \<notin> Some ` set names))"
proof -
  have accept: "reject_protected_in_owned_single_mount_tree open_root root uid names = Inr () \<longleftrightarrow>
      find_named_with open_root root names (Some uid) = Inr None"
    by (auto simp: reject_protected_in_owned_single_mount_tree_def and_then_Inr_iff split: option.splits)
  have "clear_tree names (Some uid) r \<longleftrightarrow>
      (\<forall>m. tr_parent_mount r = Some m \<longrightarrow> m = tn_mount (tr_node r)) \<and>
      (\<forall>x \<in> set (entries_below [Inr (tr_node r)]).
         \<exists>n. x = Inr n \<and> tn_mount n = tn_mount (tr_node r) \<and> tn_uid n = Some uid \<and>
           (tn_directory n \<noteq> None \<longrightarrow> (\<exists>mode. tn_mode n = Some mode \<and> mode AND 18 = 0))) \<and>
      (\<forall>n. Inr n \<in> set (case tn_directory (tr_node r) of None \<Rightarrow> [] | Some d \<Rightarrow> entries_below d) \<longrightarrow>
         path_file_name (tn_path n) \<notin> Some ` set names)" for r
  proof -
    define good where "good x \<longleftrightarrow> (\<exists>n. x = Inr n \<and> tn_mount n = tn_mount (tr_node r) \<and> tn_uid n = Some uid \<and>
      (tn_directory n \<noteq> None \<longrightarrow> (\<exists>mode. tn_mode n = Some mode \<and> mode AND 18 = 0)))"
      for x :: "io_error + tree_node"
    define es where "es = (case tn_directory (tr_node r) of None \<Rightarrow> [] | Some d \<Rightarrow> entries_below d)"
    have clear: "clear_entry (tn_mount (tr_node r)) names (Some uid) x \<longleftrightarrow>
        good x \<and> (\<forall>n. x = Inr n \<longrightarrow> path_file_name (tn_path n) \<notin> Some ` set names)" for x
      by (cases x) (auto simp: clear_entry_def private_entry_def good_def)
    have mount: "tr_parent_mount r \<in> {None, Some (tn_mount (tr_node r))} \<longleftrightarrow>
        (\<forall>m. tr_parent_mount r = Some m \<longrightarrow> m = tn_mount (tr_node r))"
      by (cases "tr_parent_mount r") auto
    have own: "private_entry (Some uid) (tr_node r) \<longleftrightarrow> good (Inr (tr_node r))"
      by (auto simp: private_entry_def good_def)
    have below: "set (entries_below [Inr (tr_node r)]) = insert (Inr (tr_node r)) (set es)"
      by (simp add: es_def)
    show ?thesis
      unfolding clear_tree_def es_def [symmetric] list_all_iff clear good_def [symmetric] mount own below ball_simps
        ball_conj_distrib by blast
  qed
  then show ?thesis unfolding accept find_named_iff by blast
qed

definition sample_tree :: tree_root where
  "sample_tree = \<lparr>tr_node = TreeNode [47, 97] (LinuxMount 1) (Some 1000) (Some 448)
       (Some [Inr (TreeNode [47, 97, 47, 98] (LinuxMount 1) (Some 1000) (Some 493)
                (Some [Inr (TreeNode [47, 97, 47, 98, 47, 99] (LinuxMount 1) (Some 1000) (Some 438) None)]))]),
     tr_parent_mount = Some (LinuxMount 1)\<rparr>"

theorem staging_gate_accepts_iff_witness:
  "reject_protected_in_owned_single_mount_tree (\<lambda>_. Inr sample_tree) [47, 97] 1000 [[46, 115, 115, 104]] = Inr () \<and>
   reject_protected_in_owned_single_mount_tree (\<lambda>_. Inr sample_tree) [47, 97] 1000 [[99]] \<noteq> Inr ()"
  unfolding staging_gate_accepts_iff
  by (simp add: sample_tree_def is_absolute_def slash_def path_file_name_def path_components_def seg_components_def dot_def)

end
