(* ===== verification/Safety_Guard.thy ===== *)
theory Safety_Guard
  imports Policy Tree_Guard
begin

text \<open>
  The last gate before a plan is executed (\<open>safety.rs\<close>): protected paths, protected names and their
  descendants. Resolving a path, asking whether it exists and opening a tree are the file system's and
  arguments of the model.
\<close>

section \<open>Names and errors\<close>

definition ascii :: "string \<Rightarrow> bytes" where
  "ascii s = map of_char s"

definition CREDENTIAL_DIR_NAMES :: "string list" where
  "CREDENTIAL_DIR_NAMES = [''.ssh'', ''.gnupg'', ''.aws'', ''.kube'', ''.docker'', ''keyrings'']"

definition HOME_PROTECTED_PATHS :: "string list" where
  "HOME_PROTECTED_PATHS = [''.ssh'', ''.gnupg'', ''.aws'', ''.kube'', ''.docker'', ''.config'',
     ''.local/share/keyrings'', ''.local/state/degu'', ''Documents'', ''Desktop'']"

definition MIXED_STATE_AI_TOOL_DIR_NAMES :: "string list" where
  "MIXED_STATE_AI_TOOL_DIR_NAMES = [''.claude'', ''.codex'', ''.hermes'']"

definition PROTECTED_DESCENDANT_DIR_NAMES :: "string list" where
  "PROTECTED_DESCENDANT_DIR_NAMES = CREDENTIAL_DIR_NAMES @ MIXED_STATE_AI_TOOL_DIR_NAMES"

datatype guard_error =
  Protected path path
  | NotAbsolute path
  | ProtectedCanonicalize path io_error
  | CandidateCanonicalize path io_error
  | CandidateInspect path walk_error

record file_system =
  os_canonicalize :: "path \<Rightarrow> io_error + path"
  os_try_exists :: "path \<Rightarrow> io_error + bool"
  os_open_root :: open_root

section \<open>The policy\<close>

record protection_policy =
  protected_paths :: "path list"
  protected_names :: "bytes list"
  recursive_names :: "bytes list"

definition with_names :: "string list \<Rightarrow> string list \<Rightarrow> protection_policy" where
  "with_names names recursive =
     \<lparr>protected_paths = [], protected_names = map ascii names, recursive_names = map ascii recursive\<rparr>"

definition policy_add :: "file_system \<Rightarrow> path \<Rightarrow> protection_policy \<Rightarrow> guard_error + protection_policy" where
  "policy_add os p policy =
     (if \<not> is_absolute p then Inl (NotAbsolute p)
      else case os_try_exists os p of
        Inl e \<Rightarrow> Inl (ProtectedCanonicalize p e)
      | Inr exists \<Rightarrow>
          (let policy = policy\<lparr>protected_paths := protected_paths policy @ [p]\<rparr>
           in if exists
              then (case os_canonicalize os p of
                      Inl e \<Rightarrow> Inl (ProtectedCanonicalize p e)
                    | Inr canonical \<Rightarrow> Inr (policy\<lparr>protected_paths := protected_paths policy @ [canonical]\<rparr>))
              else Inr policy))"

definition canonical_home :: "file_system \<Rightarrow> path \<Rightarrow> guard_error + path" where
  "canonical_home os home =
     (case os_canonicalize os home of Inl e \<Rightarrow> Inl (ProtectedCanonicalize home e) | Inr p \<Rightarrow> Inr p)"

definition canonical_candidate :: "file_system \<Rightarrow> path \<Rightarrow> guard_error + path" where
  "canonical_candidate os candidate =
     (if \<not> is_absolute candidate then Inl (NotAbsolute candidate)
      else case os_canonicalize os candidate of
        Inl e \<Rightarrow> Inl (CandidateCanonicalize candidate e) | Inr p \<Rightarrow> Inr p)"

text \<open>The loop that adds paths below the home directory.\<close>

definition add_below :: "file_system \<Rightarrow> path \<Rightarrow> string list \<Rightarrow> protection_policy \<Rightarrow> guard_error + protection_policy" where
  "add_below os home names = fold_r (\<lambda>name. policy_add os (path_join home (ascii name))) names"

definition for_mixed_state_ai :: "file_system \<Rightarrow> path \<Rightarrow> guard_error + protection_policy" where
  "for_mixed_state_ai os home =
     and_then (canonical_home os home) (\<lambda>home.
       add_below os home MIXED_STATE_AI_TOOL_DIR_NAMES
         (with_names MIXED_STATE_AI_TOOL_DIR_NAMES PROTECTED_DESCENDANT_DIR_NAMES))"

definition with_guard_defaults :: "file_system \<Rightarrow> path \<Rightarrow> guard_error + protection_policy" where
  "with_guard_defaults os home =
     and_then (canonical_home os home) (\<lambda>home.
       add_below os home (HOME_PROTECTED_PATHS @ MIXED_STATE_AI_TOOL_DIR_NAMES)
         (with_names (CREDENTIAL_DIR_NAMES @ MIXED_STATE_AI_TOOL_DIR_NAMES) PROTECTED_DESCENDANT_DIR_NAMES))"

text \<open>\<open>find_map\<close> over the normal components of every view.\<close>

definition named_component :: "protection_policy \<Rightarrow> path list \<Rightarrow> path option" where
  "named_component policy views =
     List.find (\<lambda>name. name \<in> set (protected_names policy))
       (concat (map (\<lambda>view. List.map_filter (\<lambda>c. case c of Normal name \<Rightarrow> Some name | _ \<Rightarrow> None)
          (path_components view)) views))"

definition containing_path :: "protection_policy \<Rightarrow> path list \<Rightarrow> path option" where
  "containing_path policy views =
     List.find (\<lambda>protected. list_ex (\<lambda>view. path_starts_with view protected) views) (protected_paths policy)"

definition overlapping_path :: "protection_policy \<Rightarrow> path list \<Rightarrow> path option" where
  "overlapping_path policy views =
     List.find (\<lambda>protected. list_ex (\<lambda>view. paths_overlap view protected) views) (protected_paths policy)"

definition or_else :: "'a option \<Rightarrow> 'a option \<Rightarrow> 'a option" where
  "or_else a b = (case a of None \<Rightarrow> b | Some x \<Rightarrow> Some x)"

definition contains_resolved :: "protection_policy \<Rightarrow> path list \<Rightarrow> path option" where
  "contains_resolved policy views = or_else (named_component policy views) (containing_path policy views)"

definition policy_contains :: "file_system \<Rightarrow> protection_policy \<Rightarrow> path \<Rightarrow> guard_error + path option" where
  "policy_contains os policy candidate =
     and_then (canonical_candidate os candidate) (\<lambda>canonical.
       Inr (or_else (named_component policy [candidate, canonical]) (containing_path policy [candidate, canonical])))"

definition identity_match :: "protection_policy \<Rightarrow> path list \<Rightarrow> path option" where
  "identity_match policy views = or_else (named_component policy views) (overlapping_path policy views)"

definition identity_overlap :: "file_system \<Rightarrow> protection_policy \<Rightarrow> path \<Rightarrow> guard_error + path option" where
  "identity_overlap os policy candidate =
     and_then (canonical_candidate os candidate) (\<lambda>canonical. Inr (identity_match policy [candidate, canonical]))"

definition named_descendant :: "file_system \<Rightarrow> protection_policy \<Rightarrow> path \<Rightarrow> guard_error + path option" where
  "named_descendant os policy root =
     (case find_named_entry_single_mount (os_open_root os) root (recursive_names policy) of
        Inl e \<Rightarrow> Inl (CandidateInspect root e) | Inr found \<Rightarrow> Inr found)"

definition policy_overlap :: "file_system \<Rightarrow> protection_policy \<Rightarrow> path \<Rightarrow> guard_error + path option" where
  "policy_overlap os policy candidate =
     and_then (canonical_candidate os candidate) (\<lambda>canonical.
       case identity_match policy [candidate, canonical] of
         Some protected \<Rightarrow> Inr (Some protected)
       | None \<Rightarrow> named_descendant os policy canonical)"

section \<open>The guard\<close>

datatype guard = Guard (guard_policy: protection_policy)

definition guard_with_defaults :: "file_system \<Rightarrow> path \<Rightarrow> guard_error + guard" where
  "guard_with_defaults os home = and_then (with_guard_defaults os home) (\<lambda>policy. Inr (Guard policy))"

definition guard_add :: "file_system \<Rightarrow> path \<Rightarrow> guard \<Rightarrow> guard_error + guard" where
  "guard_add os p g = and_then (policy_add os p (guard_policy g)) (\<lambda>policy. Inr (Guard policy))"

definition guard_check :: "file_system \<Rightarrow> guard \<Rightarrow> path \<Rightarrow> guard_error + unit" where
  "guard_check os g candidate =
     and_then (policy_overlap os (guard_policy g) candidate) (\<lambda>found.
       case found of Some protected \<Rightarrow> Inl (Protected candidate protected) | None \<Rightarrow> Inr ())"

definition guard_check_identity :: "file_system \<Rightarrow> guard \<Rightarrow> path \<Rightarrow> guard_error + unit" where
  "guard_check_identity os g candidate =
     and_then (identity_overlap os (guard_policy g) candidate) (\<lambda>found.
       case found of Some protected \<Rightarrow> Inl (Protected candidate protected) | None \<Rightarrow> Inr ())"

section \<open>What the guard lets through\<close>

lemma find_None_iff_set: "List.find P xs = None \<longleftrightarrow> (\<forall>x\<in>set xs. \<not> P x)"
  by (induction xs) auto

lemma or_else_None [simp]: "or_else a b = None \<longleftrightarrow> a = None \<and> b = None"
  by (simp add: or_else_def split: option.split)

lemma named_component_None:
  "named_component policy views = None \<longleftrightarrow>
     (\<forall>view name. view \<in> set views \<longrightarrow> Normal name \<in> set (path_components view) \<longrightarrow> name \<notin> set (protected_names policy))"
proof -
  have "set (List.map_filter (\<lambda>c. case c of Normal name \<Rightarrow> Some name | _ \<Rightarrow> None) cs) = {name. Normal name \<in> set cs}" for cs
    by (induction cs) (auto simp: List.map_filter_simps split: path_component.splits)
  then show ?thesis by (auto simp: named_component_def find_None_iff_set)
qed

lemma identity_match_None:
  "identity_match policy views = None \<longleftrightarrow>
     (\<forall>view \<in> set views. \<forall>name. Normal name \<in> set (path_components view) \<longrightarrow> name \<notin> set (protected_names policy)) \<and>
     (\<forall>view \<in> set views. \<forall>p \<in> set (protected_paths policy). \<not> path_starts_with view p \<and> \<not> path_starts_with p view)"
  by (auto simp: identity_match_def named_component_None overlapping_path_def find_None_iff_set list_ex_iff
      paths_overlap_def)

text \<open>Adding paths only ever protects more.\<close>

lemma policy_add_Inr:
  assumes "policy_add os p policy = Inr policy'"
  shows "insert p (set (protected_paths policy)) \<subseteq> set (protected_paths policy')"
    "os_try_exists os p = Inr True \<Longrightarrow> \<exists>c. os_canonicalize os p = Inr c \<and> c \<in> set (protected_paths policy')"
    "protected_names policy' = protected_names policy" "recursive_names policy' = recursive_names policy"
  using assms by (auto simp: policy_add_def Let_def split: if_splits sum.splits)

lemma add_below_Inr:
  assumes "add_below os home names policy = Inr policy'"
  shows "(\<lambda>name. path_join home (ascii name)) ` set names \<union> set (protected_paths policy) \<subseteq> set (protected_paths policy') \<and>
    (\<forall>name \<in> set names. os_try_exists os (path_join home (ascii name)) = Inr True \<longrightarrow>
       (\<exists>c. os_canonicalize os (path_join home (ascii name)) = Inr c \<and> c \<in> set (protected_paths policy'))) \<and>
    protected_names policy' = protected_names policy \<and> recursive_names policy' = recursive_names policy"
  using assms unfolding add_below_def
proof (induction names arbitrary: policy)
  case (Cons name names)
  then obtain mid where mid: "policy_add os (path_join home (ascii name)) policy = Inr mid"
    "fold_r (\<lambda>name. policy_add os (path_join home (ascii name))) names mid = Inr policy'"
    by (auto simp: and_then_Inr_iff)
  note add = policy_add_Inr [OF mid(1)] and ih = Cons.IH [OF mid(2)]
  then have grows: "set (protected_paths mid) \<subseteq> set (protected_paths policy')" by simp
  show ?case
  proof (intro conjI ballI impI)
    fix n assume n: "n \<in> set (name # names)" "os_try_exists os (path_join home (ascii n)) = Inr True"
    show "\<exists>c. os_canonicalize os (path_join home (ascii n)) = Inr c \<and> c \<in> set (protected_paths policy')"
    proof (cases "n = name")
      case True
      then show ?thesis using add(2) n(2) grows by blast
    next
      case False
      then show ?thesis using n ih by simp
    qed
  qed (use add(1,3,4) ih grows in auto)
qed simp

lemma guard_check_Inr:
  "guard_check os g candidate = Inr () \<longleftrightarrow>
     is_absolute candidate \<and>
     (\<exists>canonical. os_canonicalize os candidate = Inr canonical \<and>
        identity_match (guard_policy g) [candidate, canonical] = None \<and>
        find_named_with (os_open_root os) canonical (recursive_names (guard_policy g)) None = Inr None)"
  by (auto simp: guard_check_def policy_overlap_def canonical_candidate_def named_descendant_def
      find_named_entry_single_mount_def and_then_Inr_iff split: if_splits sum.splits option.splits)

text \<open>C22: The guard lets a path through exactly when nothing protected can be reached from it. The
  path must be absolute and resolve; neither it nor its resolution may contain a protected name as a
  component, lie inside or above a protected path; and the whole tree below the resolution must be
  readable on the mount of its parent and hold no entry with a protected name.\<close>

theorem guard_accepts_iff:
  "guard_check os g candidate = Inr () \<longleftrightarrow>
     is_absolute candidate \<and>
     (\<exists>canonical r. os_canonicalize os candidate = Inr canonical \<and> is_absolute canonical \<and>
        os_open_root os canonical = Inr r \<and>
        (\<forall>view \<in> {candidate, canonical}. \<forall>name. Normal name \<in> set (path_components view) \<longrightarrow>
           name \<notin> set (protected_names (guard_policy g))) \<and>
        (\<forall>view \<in> {candidate, canonical}. \<forall>p \<in> set (protected_paths (guard_policy g)).
           \<not> path_starts_with view p \<and> \<not> path_starts_with p view) \<and>
        (\<forall>m. tr_parent_mount r = Some m \<longrightarrow> m = tn_mount (tr_node r)) \<and>
        (\<forall>x \<in> set (case tn_directory (tr_node r) of None \<Rightarrow> [] | Some d \<Rightarrow> entries_below d).
           \<exists>n. x = Inr n \<and> tn_mount n = tn_mount (tr_node r) \<and>
             path_file_name (tn_path n) \<notin> Some ` set (recursive_names (guard_policy g))))"
proof -
  have entry: "clear_entry m names None x \<longleftrightarrow>
      (\<exists>n. x = Inr n \<and> tn_mount n = m \<and> path_file_name (tn_path n) \<notin> Some ` set names)" for m names x
    by (cases x) (auto simp: clear_entry_def private_entry_def)
  have mount: "tr_parent_mount r \<in> {None, Some m} \<longleftrightarrow> (\<forall>m'. tr_parent_mount r = Some m' \<longrightarrow> m' = m)" for r m
    by (cases "tr_parent_mount r") auto
  have own: "private_entry None n" for n by (simp add: private_entry_def)
  show ?thesis
    unfolding guard_check_Inr identity_match_None find_named_iff clear_tree_def list_all_iff entry mount set_simps
    by (rule iffI; elim conjE exE; intro conjI exI; (assumption | rule own))
qed

definition sample_os :: file_system where
  "sample_os = \<lparr>os_canonicalize = Inr, os_try_exists = (\<lambda>_. Inr False), os_open_root = (\<lambda>_. Inr sample_tree)\<rparr>"

lemmas guard_eval = is_absolute_def slash_def dot_def path_file_name_def path_components_def seg_components_def
  path_starts_with_def ascii_def path_join_def

theorem guard_accepts_iff_witness:
  "guard_check sample_os (Guard (with_names [''.ssh''] [''.ssh''])) [47, 97] = Inr () \<and>
   guard_check sample_os (Guard (with_names [''.ssh''] [''c''])) [47, 97] \<noteq> Inr () \<and>
   guard_check sample_os (Guard (with_names [''a''] [])) [47, 97] \<noteq> Inr ()"
  unfolding guard_accepts_iff
  by (auto simp: sample_os_def sample_tree_def with_names_def guard_eval)

text \<open>C23: The default guard protects the home directory. Build the guard for a home directory, add any
  further paths of the configuration, and let it accept a candidate: then neither the candidate nor
  what it resolves to lies inside or above any of the protected places of the resolved home
  (credentials, configuration, key rings, degu's own state, documents, AI tool state) or what an
  existing one resolves to, nor inside or above an added path, and neither has a credential or AI tool
  directory among its components.\<close>

theorem default_guard_protects_home:
  assumes "guard_with_defaults os home = Inr g0" "fold_r (guard_add os) extra g0 = Inr g"
    and "guard_check os g candidate = Inr ()"
  shows "\<exists>h canonical. os_canonicalize os home = Inr h \<and> os_canonicalize os candidate = Inr canonical \<and>
    (\<forall>view \<in> {candidate, canonical}.
       (\<forall>name \<in> set (HOME_PROTECTED_PATHS @ MIXED_STATE_AI_TOOL_DIR_NAMES).
          \<not> paths_overlap view (path_join h (ascii name)) \<and>
          (os_try_exists os (path_join h (ascii name)) = Inr True \<longrightarrow>
             (\<exists>c. os_canonicalize os (path_join h (ascii name)) = Inr c \<and> \<not> paths_overlap view c))) \<and>
       (\<forall>p \<in> set extra. \<not> paths_overlap view p) \<and>
       (\<forall>name \<in> set (CREDENTIAL_DIR_NAMES @ MIXED_STATE_AI_TOOL_DIR_NAMES).
          Normal (ascii name) \<notin> set (path_components view)))"
proof -
  let ?names = "HOME_PROTECTED_PATHS @ MIXED_STATE_AI_TOOL_DIR_NAMES"
  let ?policy = "with_names (CREDENTIAL_DIR_NAMES @ MIXED_STATE_AI_TOOL_DIR_NAMES) PROTECTED_DESCENDANT_DIR_NAMES"
  from assms(1) obtain h policy where h: "os_canonicalize os home = Inr h"
    "add_below os h ?names ?policy = Inr policy" "g0 = Guard policy"
    by (auto simp: guard_with_defaults_def with_guard_defaults_def canonical_home_def and_then_Inr_iff split: sum.splits)
  have more: "set (protected_paths (guard_policy g0)) \<union> set extra \<subseteq> set (protected_paths (guard_policy g)) \<and>
      protected_names (guard_policy g) = protected_names (guard_policy g0)"
    using assms(2)
  proof (induction extra arbitrary: g0)
    case (Cons p extra)
    then obtain g1 where g1: "guard_add os p g0 = Inr g1" "fold_r (guard_add os) extra g1 = Inr g"
      by (auto simp: and_then_Inr_iff)
    then have "policy_add os p (guard_policy g0) = Inr (guard_policy g1)"
      by (auto simp: guard_add_def and_then_Inr_iff)
    from policy_add_Inr(1,3) [OF this] Cons.IH [OF g1(2)] show ?case by auto
  qed simp
  obtain canonical where c: "os_canonicalize os candidate = Inr canonical"
    "identity_match (guard_policy g) [candidate, canonical] = None"
    using assms(3) by (auto simp: guard_check_Inr)
  have apart: "\<not> paths_overlap view p" if "view \<in> {candidate, canonical}" "p \<in> set (protected_paths (guard_policy g))" for view p
    using c(2) that unfolding identity_match_None paths_overlap_def by auto
  have names: "name \<notin> set (protected_names policy)"
    if "view \<in> {candidate, canonical}" "Normal name \<in> set (path_components view)" for view name
    using c(2) that more h(3) unfolding identity_match_None by auto
  note below = add_below_Inr [OF h(2)]
  have home: "path_join h (ascii name) \<in> set (protected_paths (guard_policy g))"
    "os_try_exists os (path_join h (ascii name)) = Inr True \<Longrightarrow>
       \<exists>c. os_canonicalize os (path_join h (ascii name)) = Inr c \<and> c \<in> set (protected_paths (guard_policy g))"
    if "name \<in> set ?names" for name
    using below more h(3) that by (simp_all add: subset_iff) blast
  have listed: "ascii name \<in> set (protected_names policy)"
    if "name \<in> set (CREDENTIAL_DIR_NAMES @ MIXED_STATE_AI_TOOL_DIR_NAMES)" for name
    using below that by (auto simp: with_names_def)
  have "(\<forall>name \<in> set ?names. \<not> paths_overlap view (path_join h (ascii name)) \<and>
      (os_try_exists os (path_join h (ascii name)) = Inr True \<longrightarrow>
         (\<exists>c. os_canonicalize os (path_join h (ascii name)) = Inr c \<and> \<not> paths_overlap view c))) \<and>
    (\<forall>p \<in> set extra. \<not> paths_overlap view p) \<and>
    (\<forall>name \<in> set (CREDENTIAL_DIR_NAMES @ MIXED_STATE_AI_TOOL_DIR_NAMES).
       Normal (ascii name) \<notin> set (path_components view))" if "view \<in> {candidate, canonical}" for view
  proof (intro conjI ballI impI)
    fix name assume name: "name \<in> set ?names"
    show "\<not> paths_overlap view (path_join h (ascii name))" using apart [OF that] home(1) [OF name] by blast
    assume "os_try_exists os (path_join h (ascii name)) = Inr True"
    with home(2) [OF name] apart [OF that]
    show "\<exists>c. os_canonicalize os (path_join h (ascii name)) = Inr c \<and> \<not> paths_overlap view c" by blast
  next
    fix p assume "p \<in> set extra"
    then show "\<not> paths_overlap view p" using more apart [OF that] by blast
  next
    fix name assume "name \<in> set (CREDENTIAL_DIR_NAMES @ MIXED_STATE_AI_TOOL_DIR_NAMES)"
    then show "Normal (ascii name) \<notin> set (path_components view)" using listed names [OF that] by blast
  qed
  with h(1) c(1) show ?thesis by blast
qed

theorem default_guard_protects_home_witness:
  "\<exists>g0 g. guard_with_defaults sample_os [47, 104] = Inr g0 \<and> fold_r (guard_add sample_os) [[47, 120]] g0 = Inr g \<and>
     guard_check sample_os g [47, 97] = Inr () \<and> \<not> paths_overlap [47, 97] (path_join [47, 104] (ascii ''.config''))"
proof -
  have "\<exists>g0 g. guard_with_defaults sample_os [47, 104] = Inr g0 \<and> fold_r (guard_add sample_os) [[47, 120]] g0 = Inr g \<and>
      guard_check sample_os g [47, 97] = Inr ()"
    by (auto simp: guard_with_defaults_def with_guard_defaults_def canonical_home_def add_below_def
        HOME_PROTECTED_PATHS_def MIXED_STATE_AI_TOOL_DIR_NAMES_def CREDENTIAL_DIR_NAMES_def policy_add_def
        PROTECTED_DESCENDANT_DIR_NAMES_def guard_add_def with_names_def sample_os_def guard_check_Inr
        identity_match_None find_named_iff clear_tree_def clear_entry_def private_entry_def sample_tree_def guard_eval)
  then obtain g0 g where g: "guard_with_defaults sample_os [47, 104] = Inr g0"
    "fold_r (guard_add sample_os) [[47, 120]] g0 = Inr g" "guard_check sample_os g [47, 97] = Inr ()" by blast
  have "\<not> paths_overlap [47, 97] (path_join [47, 104] (ascii ''.config''))"
    using default_guard_protects_home [OF g] by (auto simp: sample_os_def HOME_PROTECTED_PATHS_def)
  with g show ?thesis by blast
qed

end
