(* ===== verification/Wal_Frames.thy ===== *)
theory Wal_Frames
  imports Wal_Codec
begin

text \<open>
  The framing layer of \<open>seal/wal.rs\<close>: checksummed, length-prefixed frames, the scan that splits a
  file into its committed frames and an uncommitted tail, and the read-back of one indexed frame.
  The locale \<open>framing\<close> states what a frame checker promises; its client lemmas say that a file cut
  anywhere is a shorter log with a torn tail, which is what a crash leaves.
\<close>

section \<open>Checksums\<close>

definition crc_shift :: "u32 \<Rightarrow> u32" where
  "crc_shift crc = drop_bit 1 crc XOR (0xedb88320 AND (0 - (crc AND 1)))"

definition crc_byte :: "u32 \<Rightarrow> u8 \<Rightarrow> u32" where
  "crc_byte crc b = (crc_shift ^^ 8) (crc XOR ucast b)"

definition crc32 :: "bytes \<Rightarrow> u32" where
  "crc32 bs = NOT (foldl crc_byte (NOT 0) bs)"

section \<open>Frames\<close>

definition MAGIC :: bytes where "MAGIC = [0x44, 0x53, 0x57, 0x4c]"

definition frame_header :: "u16 \<Rightarrow> u32 \<Rightarrow> bytes" where
  "frame_header version payload_len = le_bytes 2 version @ le_bytes 2 (0 :: u16) @ le_bytes 4 payload_len"

definition frame_bytes_of :: "u16 \<Rightarrow> bytes \<Rightarrow> bytes" where
  "frame_bytes_of version payload =
     (let header = frame_header version (of_nat (length payload))
      in MAGIC @ header @ le_bytes 4 (crc32 header) @ le_bytes 4 (crc32 payload) @ payload)"

definition frame_payload :: "u16 \<Rightarrow> bytes \<Rightarrow> frame_error + bytes" where
  "frame_payload version payload =
     (if length payload < 2 ^ 32 then Inr (frame_bytes_of version payload)
      else Inl (PayloadTooLarge MAX_PAYLOAD_LEN))"

fun is_legacy_manifest :: "seal_record \<Rightarrow> bool" where
  "is_legacy_manifest (TreeManifestComplete _ _) = True"
| "is_legacy_manifest _ = False"

definition encode_frame :: "seal_record \<Rightarrow> frame_error + bytes" where
  "encode_frame r =
     (if is_legacy_manifest r then Inl LegacyTreeManifest
      else and_then (encode_record r) (frame_payload VERSION))"

record checked_frame =
  cf_version :: u16
  cf_payload :: bytes

definition version_supported :: "u16 \<Rightarrow> bool" where
  "version_supported v = (v \<in> set [1, 3, 4, 5, 6, 7, 8, 9, 10, 11, 12, VERSION])"

definition check_frame :: "bytes \<Rightarrow> nat \<Rightarrow> replay_error + checked_frame option" where
  "check_frame bytes offset =
     (if length bytes - offset < HEADER_LEN then Inr None
      else
        let header = take HEADER_LEN (drop offset bytes);
            expected_header_crc = le_word (take 4 (drop 12 header)) :: u32;
            version = le_word (take 2 (drop 4 header)) :: u16;
            payload_len = unat (le_word (take 4 (drop 8 header)) :: u32);
            frame_len = HEADER_LEN + payload_len;
            expected = le_word (take 4 (drop 16 header)) :: u32;
            payload = take payload_len (drop (offset + HEADER_LEN) bytes)
        in
          if take 4 header \<noteq> MAGIC then Inl (Malformed (of_nat offset) ''bad frame magic'')
          else if crc32 (take 8 (drop 4 header)) \<noteq> expected_header_crc
          then Inl (HeaderChecksum (of_nat offset))
          else if \<not> version_supported version
          then Inl (UnsupportedLegacyVersion (of_nat offset) version)
          else if header ! 6 \<noteq> 0 \<or> header ! 7 \<noteq> 0
          then Inl (Malformed (of_nat offset) ''nonzero reserved header bits'')
          else if payload_len > MAX_PAYLOAD_LEN
          then Inl (Malformed (of_nat offset) ''frame exceeds maximum size'')
          else if length bytes - offset < frame_len then Inr None
          else if crc32 payload \<noteq> expected then Inl (Checksum (of_nat offset))
          else Inr (Some \<lparr>cf_version = version, cf_payload = payload\<rparr>))"

section \<open>Extents\<close>

text \<open>The \<open>NonZeroU32\<close> length is nonzero because a frame carries at least its header.\<close>

record frame_extent =
  fe_start :: u32
  fe_len :: u32

definition extent_new :: "nat \<Rightarrow> nat \<Rightarrow> frame_extent option" where
  "extent_new start len =
     Option.bind (usize_checked_add start len) (\<lambda>fin.
       if \<not> (HEADER_LEN \<le> len \<and> len \<le> HEADER_LEN + MAX_PAYLOAD_LEN) \<or> fin > MAX_WAL_LEN then None
       else if start < 2 ^ 32 \<and> len < 2 ^ 32 \<and> len \<noteq> 0
       then Some \<lparr>fe_start = of_nat start, fe_len = of_nat len\<rparr> else None)"

definition extent_of :: "frame_extent \<Rightarrow> bytes \<Rightarrow> bytes option" where
  "extent_of e bytes =
     Option.bind (usize_checked_add (unat (fe_start e)) (unat (fe_len e))) (\<lambda>fin.
       if fin \<le> length bytes then Some (take (unat (fe_len e)) (drop (unat (fe_start e)) bytes))
       else None)"

record permission_entry =
  pe_frame :: "frame_extent option"
  pe_reverses :: "u64 option"
  pe_phase :: transaction_state
  pe_application :: application_status

definition decode_indexed_intent ::
  "bytes \<Rightarrow> transaction_id \<Rightarrow> u64 \<Rightarrow> permission_entry \<Rightarrow> permission_read_error + durable_permission"
where
  "decode_indexed_intent frame t mid entry =
     (case check_frame frame 0 of
        Inl _ \<Rightarrow> Inl (PermissionMismatch mid ''frame fails the checks replay applies'')
      | Inr None \<Rightarrow>
          Inl (PermissionMismatch mid ''frame's declared length does not match its extent'')
      | Inr (Some cf) \<Rightarrow>
          if HEADER_LEN + length (cf_payload cf) \<noteq> length frame
          then Inl (PermissionMismatch mid ''frame's declared length does not match its extent'')
          else case decode_record (cf_payload cf) 0 (cf_version cf) of
            Inl _ \<Rightarrow> Inl (PermissionMismatch mid ''payload is malformed'')
          | Inr (PermissionIntent ft fmid ev pre expd rv) \<Rightarrow>
              if ft \<noteq> t \<or> fmid \<noteq> mid
              then Inl (PermissionMismatch mid ''frame belongs to another mutation'')
              else Inr \<lparr>dp_mutation_id = mid, dp_phase = pe_phase entry, dp_evidence = ev,
                        dp_pre_mode = pre, dp_expected_mode = expd, dp_reverses = rv,
                        dp_application = pe_application entry\<rparr>
          | Inr _ \<Rightarrow> Inl (PermissionMismatch mid ''frame is not a permission intent''))"

definition read_framed_intent ::
  "bytes \<Rightarrow> transaction_id \<Rightarrow> u64 \<Rightarrow> permission_entry \<Rightarrow> permission_read_error + durable_permission"
where
  "read_framed_intent frames t mid entry =
     (case pe_frame entry of
        None \<Rightarrow> Inl (Unframed mid)
      | Some extent \<Rightarrow>
          (case extent_of extent frames of
             None \<Rightarrow> Inl (PermissionReadIo mid UnexpectedEof)
           | Some frame \<Rightarrow> decode_indexed_intent frame t mid entry))"

section \<open>The scan\<close>

record versioned_record =
  vr_version :: u16
  vr_record :: seal_record
  vr_frame :: "frame_extent option"

record frame_span =
  fs_transaction :: transaction_id
  fs_start :: nat
  fs_end :: nat

record parsed_frames =
  pf_records :: "versioned_record list"
  pf_spans :: "frame_span list"
  pf_committed_len :: nat

definition frame_len_of :: "checked_frame \<Rightarrow> nat" where
  "frame_len_of cf = HEADER_LEN + length (cf_payload cf)"

definition version_regressed :: "u16 option \<Rightarrow> u16 \<Rightarrow> bool" where
  "version_regressed prev v = (case prev of None \<Rightarrow> False | Some previous \<Rightarrow> v < previous)"

function parse_loop ::
  "bytes \<Rightarrow> nat \<Rightarrow> u16 option \<Rightarrow> versioned_record list \<Rightarrow> frame_span list \<Rightarrow> replay_error + parsed_frames"
where
  "parse_loop bytes offset prev records spans =
     (if offset < length bytes then
        and_then (check_frame bytes offset) (\<lambda>checked.
          case checked of
            None \<Rightarrow> Inr \<lparr>pf_records = records, pf_spans = spans, pf_committed_len = offset\<rparr>
          | Some cf \<Rightarrow>
              and_then (decode_record (cf_payload cf) (of_nat offset) (cf_version cf)) (\<lambda>r.
                if version_regressed prev (cf_version cf)
                then Inl (InvalidHistory ''WAL frame version regressed'')
                else parse_loop bytes (offset + frame_len_of cf) (Some (cf_version cf))
                       (records @ [\<lparr>vr_version = cf_version cf, vr_record = r,
                          vr_frame = extent_new offset (frame_len_of cf)\<rparr>])
                       (spans @ [\<lparr>fs_transaction = record_transaction r, fs_start = offset,
                          fs_end = offset + frame_len_of cf\<rparr>])))
      else Inr \<lparr>pf_records = records, pf_spans = spans, pf_committed_len = offset\<rparr>)"
  by pat_completeness auto
termination
  by (relation "measure (\<lambda>(bytes, offset, _). length bytes - offset)")
     (auto simp: frame_len_of_def HEADER_LEN_def)

declare parse_loop.simps [simp del]

definition parse_frames :: "bytes \<Rightarrow> replay_error + parsed_frames" where
  "parse_frames bytes = parse_loop bytes 0 None [] []"

section \<open>A single damaged byte changes the checksum\<close>

lemma bit_crc_mask: "bit (- (c AND 1) :: u32) n \<longleftrightarrow> n < 32 \<and> bit c 0"
proof -
  have "c AND 1 = of_bool (bit c 0)" by (simp add: and_one_eq odd_iff_mod_2_eq_one bit_0 mod2_eq_if)
  then show ?thesis by (cases "bit c 0") (simp_all add: bit_minus_1_iff)
qed

lemma bit_crc_shift_top: "bit (crc_shift c) 31 \<longleftrightarrow> bit c 0"
proof -
  have "bit (0xedb88320 :: u32) 31" by simp
  moreover have "\<not> bit (drop_bit 1 c) 31"
    by (auto simp: bit_drop_bit_eq dest: bit_imp_le_length)
  ultimately show ?thesis
    by (simp add: crc_shift_def bit_xor_iff bit_and_iff bit_crc_mask)
qed

lemma crc_shift_inject: "crc_shift a = crc_shift b \<Longrightarrow> a = b"
proof (rule bit_word_eqI)
  fix n assume eq: "crc_shift a = crc_shift b" and "n < LENGTH(32)"
  from eq have b0: "bit a 0 \<longleftrightarrow> bit b 0" by (metis bit_crc_shift_top)
  then have "bit (- (a AND 1) :: u32) k = bit (- (b AND 1)) k" for k
    by (simp only: bit_crc_mask)
  then have "(0 - (a AND 1) :: u32) = 0 - (b AND 1)" unfolding diff_0 by (intro bit_word_eqI)
  with eq have "drop_bit 1 a = drop_bit 1 b"
    unfolding crc_shift_def by (metis bit.xor_left_self xor.commute)
  then have "bit a (Suc k) = bit b (Suc k)" for k
    by (metis bit_drop_bit_eq comp_apply plus_1_eq_Suc)
  with b0 show "bit a n = bit b n" by (cases n) simp_all
qed

lemma crc_shift_pow_inject: "(crc_shift ^^ n) a = (crc_shift ^^ n) b \<Longrightarrow> a = b"
  by (induction n) (auto dest: crc_shift_inject)

lemma crc_byte_inject:
  shows "crc_byte a x = crc_byte b x \<Longrightarrow> a = b" and "crc_byte a x = crc_byte a y \<Longrightarrow> x = y"
proof -
  assume "crc_byte a x = crc_byte b x"
  then have "a XOR ucast x = b XOR ucast x" unfolding crc_byte_def by (rule crc_shift_pow_inject)
  then show "a = b" by (metis bit.xor_left_self xor.commute)
next
  assume "crc_byte a x = crc_byte a y"
  then have "a XOR ucast x = a XOR ucast y" unfolding crc_byte_def by (rule crc_shift_pow_inject)
  then have "(ucast x :: u32) = ucast y" by (metis bit.xor_left_self)
  then have same: "bit (ucast x :: u32) n = bit (ucast y :: u32) n" for n by simp
  show "x = y"
  proof (rule bit_word_eqI)
    fix n assume "n < LENGTH(8)"
    then show "bit x n = bit y n"
      using same [of n] by (simp add: bit_unsigned_iff possible_bit_def)
  qed
qed

lemma foldl_crc_inject: "foldl crc_byte a bs = foldl crc_byte b bs \<Longrightarrow> a = b"
  by (induction bs arbitrary: a b) (auto dest: crc_byte_inject(1))

lemma crc32_single_byte:
  assumes "crc32 (pre @ x # post) = crc32 (pre @ y # post)"
  shows "x = y"
proof -
  from assms have "foldl crc_byte (crc_byte (foldl crc_byte (NOT 0) pre) x) post =
      foldl crc_byte (crc_byte (foldl crc_byte (NOT 0) pre) y) post"
    by (simp add: crc32_def)
  then show ?thesis using foldl_crc_inject crc_byte_inject(2) by blast
qed

section \<open>The contract of a frame checker\<close>

definition torn :: "(bytes \<Rightarrow> nat \<Rightarrow> 'e + 'f option) \<Rightarrow> bytes \<Rightarrow> bool" where
  "torn check tail \<longleftrightarrow> (\<forall>pre. check (pre @ tail) (length pre) = Inr None)"

locale framing =
  fixes frame :: "'f \<Rightarrow> bytes"
    and check :: "bytes \<Rightarrow> nat \<Rightarrow> 'e + 'f option"
    and valid :: "'f \<Rightarrow> bool"
  assumes frame_nonempty: "valid f \<Longrightarrow> frame f \<noteq> []"
    and check_complete: "valid f \<Longrightarrow> check (pre @ frame f @ rest) (length pre) = Inr (Some f)"
    and check_torn: "valid f \<Longrightarrow> strict_prefix tail (frame f) \<Longrightarrow> torn check tail"
    and check_sound: "offset \<le> length bytes \<Longrightarrow> check bytes offset = Inr (Some f) \<Longrightarrow>
      valid f \<and> prefix (frame f) (drop offset bytes)"
    and torn_Nil: "torn check []"
begin

lemma frame_inject:
  assumes "valid f" "valid g" "frame f @ xs = frame g @ ys"
  shows "f = g \<and> xs = ys"
proof -
  have "check (frame f @ xs) 0 = Inr (Some f)" "check (frame g @ ys) 0 = Inr (Some g)"
    using check_complete [OF assms(1), of "[]" xs] check_complete [OF assms(2), of "[]" ys]
    by simp_all
  with assms(3) have "f = g" by simp
  with assms(3) show ?thesis by simp
qed

lemma frame_not_torn:
  assumes "valid f" shows "\<not> torn check (frame f @ xs)"
proof
  assume "torn check (frame f @ xs)"
  then have "check (frame f @ xs) 0 = Inr None"
    by (simp add: torn_def) (metis append_Nil list.size(3))
  with check_complete [OF assms, of "[]" xs] show False by simp
qed

text \<open>A file has one reading: its frames and its torn tail are determined by its bytes.\<close>

lemma log_inject:
  assumes "list_all valid fs" "list_all valid gs" "torn check s" "torn check t"
    and "concat (map frame fs) @ s = concat (map frame gs) @ t"
  shows "fs = gs \<and> s = t"
  using assms
proof (induction fs arbitrary: gs)
  case Nil
  then show ?case using frame_not_torn by (cases gs) fastforce+
next
  case (Cons f fs)
  show ?case
  proof (cases gs)
    case Nil
    with Cons.prems frame_not_torn [of f] show ?thesis by auto
  next
    case (Cons g gs')
    with Cons.prems frame_inject [of f g] Cons.IH [of gs'] show ?thesis by auto
  qed
qed

text \<open>Cutting a log at any byte leaves the frames that lie before the cut and a torn tail.\<close>

lemma crash_prefix:
  assumes "list_all valid fs"
  shows "\<exists>k tail. take n (concat (map frame fs)) = concat (map frame (take k fs)) @ tail \<and>
           torn check tail \<and> (k < length fs \<longrightarrow> n < length (concat (map frame (take (Suc k) fs))))"
  using assms
proof (induction fs arbitrary: n)
  case Nil
  then show ?case using torn_Nil by auto
next
  case (Cons f fs)
  show ?case
  proof (cases "length (frame f) \<le> n")
    case True
    from Cons obtain k tail where
      "take (n - length (frame f)) (concat (map frame fs)) = concat (map frame (take k fs)) @ tail"
      "torn check tail"
      "k < length fs \<longrightarrow> n - length (frame f) < length (concat (map frame (take (Suc k) fs)))"
      by fastforce
    then show ?thesis using True by (intro exI [of _ "Suc k"] exI [of _ tail]) auto
  next
    case False
    then have "take n (frame f) \<noteq> frame f" by (metis linorder_not_le take_all_iff)
    then have "strict_prefix (take n (frame f)) (frame f)"
      by (simp add: strict_prefix_def take_is_prefix)
    with Cons.prems check_torn have "torn check (take n (frame f))" by auto
    then show ?thesis using False by (intro exI [of _ 0] exI [of _ "take n (frame f)"]) simp
  qed
qed

end

section \<open>The checker keeps the contract\<close>

definition frame_of :: "checked_frame \<Rightarrow> bytes" where
  "frame_of cf = frame_bytes_of (cf_version cf) (cf_payload cf)"

definition valid_frame :: "checked_frame \<Rightarrow> bool" where
  "valid_frame cf \<longleftrightarrow> version_supported (cf_version cf) \<and> length (cf_payload cf) \<le> MAX_PAYLOAD_LEN"

lemma length_frame_header [simp]: "length (frame_header v n) = 8"
  by (simp add: frame_header_def)

lemma length_MAGIC [simp]: "length MAGIC = 4"
  by (simp add: MAGIC_def)

lemma length_frame_bytes_of [simp]: "length (frame_bytes_of v p) = HEADER_LEN + length p"
  by (simp add: frame_bytes_of_def Let_def HEADER_LEN_def)

lemma length_frame_of [simp]: "length (frame_of cf) = frame_len_of cf"
  by (simp add: frame_of_def frame_len_of_def)

lemma if_eq_Inr:
  "(if c then Inl e else m) = Inr x \<longleftrightarrow> \<not> c \<and> m = Inr x"
  "(if c then Inr y else m) = Inr x \<longleftrightarrow> (if c then y = x else m = Inr x)"
  by simp_all

text \<open>Only the byte offset in an error depends on where the frame sits.\<close>

lemma frame_len_pos [simp]: "0 < frame_len_of cf"
  by (simp add: frame_len_of_def HEADER_LEN_def)

lemma check_frame_drop:
  "check_frame bytes offset = Inr x \<longleftrightarrow> check_frame (drop offset bytes) 0 = Inr x"
proof -
  have "drop (offset + HEADER_LEN) bytes = drop (0 + HEADER_LEN) (drop offset bytes)"
    by (simp add: add.commute)
  then show ?thesis
    unfolding check_frame_def Let_def by (simp only: if_eq_Inr drop_0 length_drop diff_zero)
qed

lemma check_frame_append: "check_frame (pre @ bs) (length pre) = Inr x \<longleftrightarrow> check_frame bs 0 = Inr x"
  using check_frame_drop [of "pre @ bs" "length pre" x] by simp

lemma le_word_header:
  "le_word (take 2 (frame_header v n)) = v"
  "le_word (drop 4 (frame_header v n)) = n"
  by (simp_all add: frame_header_def le_word_le_bytes)

text \<open>The header of a valid frame passes every header check, whatever of the payload follows.\<close>

lemma check_frame_header:
  assumes "valid_frame cf"
  shows "check_frame (pre @ take HEADER_LEN (frame_of cf) @ rest) (length pre) =
    (if length rest < length (cf_payload cf) then Inr None
     else if crc32 (take (length (cf_payload cf)) rest) \<noteq> crc32 (cf_payload cf)
     then Inl (Checksum (of_nat (length pre)))
     else Inr (Some \<lparr>cf_version = cf_version cf, cf_payload = take (length (cf_payload cf)) rest\<rparr>))"
proof -
  let ?v = "cf_version cf" and ?p = "cf_payload cf"
  let ?h = "frame_header ?v (of_nat (length ?p))"
  define H where "H = take HEADER_LEN (frame_of cf)"
  have H: "H = MAGIC @ ?h @ le_bytes 4 (crc32 ?h) @ le_bytes 4 (crc32 ?p)"
    by (simp add: H_def frame_of_def frame_bytes_of_def Let_def HEADER_LEN_def)
  have len: "length H = HEADER_LEN" by (simp add: H HEADER_LEN_def)
  have header: "take HEADER_LEN (drop (length pre) (pre @ H @ rest)) = H" by (simp add: len)
  have reserved: "?h ! 2 = 0" "?h ! 3 = 0"
    by (simp_all add: frame_header_def nth_append le_bytes_eval)
  have fields: "take 4 H = MAGIC" "crc32 (take 8 (drop 4 H)) = le_word (take 4 (drop 12 H))"
    "(le_word (take 2 (drop 4 H)) :: u16) = ?v" "le_word (take 4 (drop 16 H)) = crc32 ?p"
    "H ! 6 = 0" "H ! 7 = 0"
    by (simp_all add: H le_word_header le_word_le_bytes nth_append reserved)
  have "(le_word (take 4 (drop 8 H)) :: u32) = of_nat (length ?p)"
    by (simp add: H le_word_header)
  then have n: "unat (le_word (take 4 (drop 8 H)) :: u32) = length ?p"
    using assms by (simp add: valid_frame_def MAX_PAYLOAD_LEN_def unat_of_nat)
  have valid: "version_supported ?v" "\<not> length ?p > MAX_PAYLOAD_LEN"
    using assms by (simp_all add: valid_frame_def)
  have sizes: "\<not> length (pre @ H @ rest) - length pre < HEADER_LEN"
    "length (pre @ H @ rest) - length pre < HEADER_LEN + length ?p \<longleftrightarrow> length rest < length ?p"
    "drop (length pre + HEADER_LEN) (pre @ H @ rest) = rest"
    by (auto simp: len)
  show ?thesis
    unfolding H_def [symmetric] check_frame_def Let_def header fields n sizes
    by (simp only: valid sizes fields if_True if_False simp_thms)
qed

lemma frame_of_split: "frame_of cf = take HEADER_LEN (frame_of cf) @ cf_payload cf"
  by (simp add: frame_of_def frame_bytes_of_def Let_def HEADER_LEN_def)

lemma check_frame_complete:
  assumes "valid_frame cf" shows "check_frame (frame_of cf @ rest) 0 = Inr (Some cf)"
proof -
  have split: "frame_of cf @ rest = take HEADER_LEN (frame_of cf) @ cf_payload cf @ rest"
    using frame_of_split [of cf] by (metis append.assoc)
  show ?thesis unfolding split using check_frame_header [OF assms, of "[]"] by simp
qed

lemma check_frame_torn:
  assumes "valid_frame cf" "strict_prefix tail (frame_of cf)"
  shows "check_frame tail 0 = Inr None"
proof (cases "length tail < HEADER_LEN")
  case False
  from assms(2) obtain r where r: "frame_of cf = tail @ r" "r \<noteq> []"
    by (auto elim: strict_prefixE')
  with False have "take HEADER_LEN tail = take HEADER_LEN (frame_of cf)" by simp
  then have "tail = take HEADER_LEN (frame_of cf) @ drop HEADER_LEN tail"
    by (metis append_take_drop_id)
  moreover have "length tail < length (frame_of cf)" using r by (simp del: length_frame_of)
  then have "length (drop HEADER_LEN tail) < length (cf_payload cf)"
    using False by (simp add: frame_len_of_def)
  ultimately show ?thesis using check_frame_header [OF assms(1), of "[]"] by (metis append_Nil list.size(3))
qed (simp add: check_frame_def)

lemma drop_chunk: "drop i xs = take k (drop i xs) @ drop (i + k) xs"
  by (metis append_take_drop_id drop_drop add.commute)

lemma split_header:
  assumes "length H = 20"
  shows "H = take 4 H @ take 2 (drop 4 H) @ [H ! 6, H ! 7] @ take 4 (drop 8 H) @
      take 4 (drop 12 H) @ take 4 (drop 16 H)"
proof -
  have "H = take 4 H @ drop 4 H" by simp
  also have "drop 4 H = take 2 (drop 4 H) @ drop 6 H" using drop_chunk [of 4 H 2] by simp
  also have "drop 6 H = H ! 6 # H ! 7 # drop 8 H"
    using assms Cons_nth_drop_Suc [of 6 H] Cons_nth_drop_Suc [of 7 H] by simp
  also have "drop 8 H = take 4 (drop 8 H) @ drop 12 H" using drop_chunk [of 8 H 4] by simp
  also have "drop 12 H = take 4 (drop 12 H) @ drop 16 H" using drop_chunk [of 12 H 4] by simp
  also have "drop 16 H = take 4 (drop 16 H)" using assms by simp
  finally show ?thesis by (simp del: append_take_drop_id)
qed

lemma check_frame_sound:
  assumes "check_frame bs 0 = Inr (Some cf)"
  shows "valid_frame cf \<and> prefix (frame_of cf) bs"
proof -
  define H where "H = take HEADER_LEN bs"
  define n where "n = unat (le_word (take 4 (drop 8 H)) :: u32)"
  from assms have big: "\<not> length bs < HEADER_LEN"
    by (auto simp: check_frame_def)
  have sum: "take 4 H = MAGIC" "crc32 (take 8 (drop 4 H)) = le_word (take 4 (drop 12 H))"
    "version_supported (le_word (take 2 (drop 4 H)))" "H ! 6 = 0" "H ! 7 = 0" "n \<le> MAX_PAYLOAD_LEN"
    "HEADER_LEN + n \<le> length bs"
    "crc32 (take n (drop HEADER_LEN bs)) = le_word (take 4 (drop 16 H))"
    "cf = \<lparr>cf_version = le_word (take 2 (drop 4 H)), cf_payload = take n (drop HEADER_LEN bs)\<rparr>"
    using assms big unfolding check_frame_def Let_def H_def n_def
    by (simp_all only: if_eq_Inr drop_0 diff_zero add_0 if_False option.inject simp_thms
        split: if_splits) (simp_all add: not_less)
  have len: "length H = 20" using big by (simp add: H_def HEADER_LEN_def)
  have "of_nat n = (le_word (take 4 (drop 8 H)) :: u32)" by (simp add: n_def)
  then have n: "le_bytes 4 (of_nat n :: u32) = take 4 (drop 8 H)"
    by (simp add: le_bytes_le_word len)
  have v: "le_bytes 2 (le_word (take 2 (drop 4 H)) :: u16) = take 2 (drop 4 H)"
    by (simp add: le_bytes_le_word len)
  have eight: "take 8 (drop 4 H) = take 2 (drop 4 H) @ [H ! 6, H ! 7] @ take 4 (drop 8 H)"
    using arg_cong [OF split_header [OF len], of "\<lambda>h. take 8 (drop 4 h)"] by (simp add: len)
  with sum(4,5) have header: "frame_header (le_word (take 2 (drop 4 H))) (of_nat n) = take 8 (drop 4 H)"
    by (simp add: frame_header_def n v le_bytes_eval(1) [of 0])
  have "frame_of cf = MAGIC @ take 8 (drop 4 H) @ le_bytes 4 (crc32 (take 8 (drop 4 H))) @
      le_bytes 4 (crc32 (take n (drop HEADER_LEN bs))) @ take n (drop HEADER_LEN bs)"
    using sum(7) header by (simp add: sum(9) frame_of_def frame_bytes_of_def Let_def)
  also have "le_bytes 4 (crc32 (take 8 (drop 4 H))) = take 4 (drop 12 H)"
    unfolding sum(2) by (simp add: le_bytes_le_word len)
  also have "le_bytes 4 (crc32 (take n (drop HEADER_LEN bs))) = take 4 (drop 16 H)"
    unfolding sum(8) by (simp add: le_bytes_le_word len)
  also have "MAGIC @ take 8 (drop 4 H) @ take 4 (drop 12 H) @ take 4 (drop 16 H) @
      take n (drop HEADER_LEN bs) = H @ take n (drop HEADER_LEN bs)"
    using split_header [OF len] eight sum(1) by (metis append.assoc)
  also have "\<dots> = take (HEADER_LEN + n) bs" by (simp add: H_def take_add)
  finally show ?thesis using sum(3,6) by (simp add: sum(9) valid_frame_def take_is_prefix)
qed

interpretation frames: framing frame_of check_frame valid_frame
proof unfold_locales
  fix f pre rest assume "valid_frame f"
  then show "check_frame (pre @ frame_of f @ rest) (length pre) = Inr (Some f)"
    by (simp add: check_frame_append check_frame_complete)
  have "length (frame_of f) > 0" by (simp add: frame_len_of_def HEADER_LEN_def)
  then show "frame_of f \<noteq> []" by blast
next
  fix f tail assume "valid_frame f" "strict_prefix tail (frame_of f)"
  then show "torn check_frame tail"
    by (simp add: torn_def check_frame_append check_frame_torn)
next
  fix offset bytes f assume "check_frame bytes offset = Inr (Some f)"
  then show "valid_frame f \<and> prefix (frame_of f) (drop offset bytes)"
    using check_frame_drop check_frame_sound by blast
next
  show "torn check_frame []" by (simp add: torn_def check_frame_def HEADER_LEN_def)
qed

section \<open>A record does not depend on where its frame sits\<close>

definition relocatable :: "'a decoder \<Rightarrow> bool" where
  "relocatable d \<longleftrightarrow>
     (\<forall>c off x c'. d c = Inr (x, c') \<longrightarrow>
        cu_offset c' = cu_offset c \<and> d (c\<lparr>cu_offset := off\<rparr>) = Inr (x, c'\<lparr>cu_offset := off\<rparr>)) \<and>
     (\<forall>c e. d c = Inl e \<longrightarrow> (\<exists>reason. e = Malformed (cu_offset c) reason))"

lemma relocatable_then:
  assumes d: "relocatable d" and f: "\<And>x. relocatable (f x)"
  shows "relocatable (get_then d f)"
  unfolding relocatable_def
proof (intro conjI allI impI)
  fix c off y c' assume "get_then d f c = Inr (y, c')"
  then obtain x c1 where "d c = Inr (x, c1)" "f x c1 = Inr (y, c')"
    by (auto simp: get_then_def and_then_Inr_iff)
  then show "cu_offset c' = cu_offset c" "get_then d f (c\<lparr>cu_offset := off\<rparr>) = Inr (y, c'\<lparr>cu_offset := off\<rparr>)"
    using d f [of x] by (auto simp: relocatable_def get_then_def)
next
  fix c e assume "get_then d f c = Inl e"
  then show "\<exists>reason. e = Malformed (cu_offset c) reason"
    using d f by (cases "d c") (fastforce simp: relocatable_def get_then_def)+
qed

lemma relocatable_base:
  "relocatable (get_return x)" "relocatable (get_fail reason)" "relocatable (cursor_take n)"
  by (auto simp: relocatable_def get_return_def get_fail_def cursor_take_def
      split: option.splits if_splits)

lemma relocatable_branch:
  "(b \<Longrightarrow> relocatable d) \<Longrightarrow> (\<not> b \<Longrightarrow> relocatable e) \<Longrightarrow> relocatable (if b then d else e)"
  "relocatable d \<Longrightarrow> (\<And>x. relocatable (f x)) \<Longrightarrow> relocatable (case m of None \<Rightarrow> d | Some x \<Rightarrow> f x)"
  by (simp_all split: option.splits)

lemmas relocatable_intros = relocatable_then relocatable_base relocatable_branch

lemma relocatable_fields:
  "relocatable cursor_u8" "relocatable cursor_u16" "relocatable cursor_u32" "relocatable cursor_u64"
  "relocatable cursor_array_16" "relocatable cursor_array_32" "relocatable cursor_bytes"
  "relocatable cursor_optional_bytes" "relocatable cursor_optional_u64"
  unfolding cursor_u8_def cursor_u16_def cursor_u32_def cursor_u64_def cursor_array_16_def
    cursor_array_32_def cursor_bytes_def cursor_optional_bytes_def cursor_optional_u64_def
  by (intro relocatable_intros)+

lemma relocatable_composites:
  "relocatable (decode_strong_identity v)" "relocatable (decode_locator v)"
  "relocatable (decode_manifest b)" "relocatable (decode_sidecar t)" "relocatable (decode_state v)"
  "relocatable (decode_intent v t)"
  unfolding decode_strong_identity_def decode_locator_def decode_manifest_def decode_sidecar_def
    decode_state_def decode_intent_def check_intent_def
  by (intro relocatable_intros relocatable_fields)+

lemma relocatable_tagged: "relocatable (decode_tagged v)"
  unfolding decode_tagged_def decode_record_body_def decode_staging_metadata_def decode_backend_def
    decode_strategy_def decode_association_def decode_anchor_def check_metadata_def
    decode_commitment_def decode_rename_outcome_def decode_undo_outcome_def
  by (intro relocatable_intros relocatable_fields relocatable_composites)

text \<open>Every decoding error names the offset of the frame it was found in.\<close>

lemma decode_record_error:
  assumes "decode_record p off v = Inl e" shows "\<exists>reason. e = Malformed off reason"
proof (cases "decode_tagged v (cursor_new p off)")
  case (Inl e')
  then have "\<exists>reason. e' = Malformed off reason"
    using relocatable_tagged unfolding relocatable_def by (fastforce simp: cursor_new_def)
  with assms Inl show ?thesis by (simp add: decode_record_def)
qed (use assms in \<open>auto simp: decode_record_def split: prod.splits if_splits\<close>)

lemma decode_record_relocate:
  assumes "decode_record p off v = Inr r" shows "decode_record p off' v = Inr r"
proof -
  from assms obtain c where c: "decode_tagged v (cursor_new p off) = Inr (r, c)" "cursor_is_empty c"
    by (auto simp: decode_record_def and_then_Inr_iff split: if_splits)
  from c(1) relocatable_tagged have "decode_tagged v ((cursor_new p off)\<lparr>cu_offset := off'\<rparr>) =
      Inr (r, c\<lparr>cu_offset := off'\<rparr>)"
    unfolding relocatable_def by blast
  with c(2) show ?thesis by (simp add: decode_record_def cursor_new_def cursor_is_empty_def)
qed

section \<open>What the scan computes\<close>

text \<open>
  A committed frame decodes at any offset; \<open>record_of\<close> is the record it holds. \<open>scan_records\<close> and
  \<open>scan_spans\<close> are what the scan reports for the frames that start at an offset.
\<close>

definition decodes :: "checked_frame \<Rightarrow> bool" where
  "decodes cf \<longleftrightarrow> valid_frame cf \<and> (\<exists>r. decode_record (cf_payload cf) 0 (cf_version cf) = Inr r)"

definition record_of :: "checked_frame \<Rightarrow> seal_record" where
  "record_of cf = projr (decode_record (cf_payload cf) 0 (cf_version cf))"

definition versioned_at :: "nat \<Rightarrow> checked_frame \<Rightarrow> versioned_record" where
  "versioned_at off cf = \<lparr>vr_version = cf_version cf, vr_record = record_of cf,
     vr_frame = extent_new off (frame_len_of cf)\<rparr>"

fun scan_records :: "nat \<Rightarrow> checked_frame list \<Rightarrow> versioned_record list" where
  "scan_records off [] = []"
| "scan_records off (cf # cfs) = versioned_at off cf # scan_records (off + frame_len_of cf) cfs"

fun scan_spans :: "nat \<Rightarrow> checked_frame list \<Rightarrow> frame_span list" where
  "scan_spans off [] = []"
| "scan_spans off (cf # cfs) =
     \<lparr>fs_transaction = record_transaction (record_of cf), fs_start = off,
      fs_end = off + frame_len_of cf\<rparr> # scan_spans (off + frame_len_of cf) cfs"

definition log_bytes :: "checked_frame list \<Rightarrow> bytes" where
  "log_bytes cfs = concat (map frame_of cfs)"

fun versions_from :: "u16 option \<Rightarrow> checked_frame list \<Rightarrow> bool" where
  "versions_from prev [] = True"
| "versions_from prev (cf # cfs) =
     (\<not> version_regressed prev (cf_version cf) \<and> versions_from (Some (cf_version cf)) cfs)"

definition committed_log :: "checked_frame list \<Rightarrow> bool" where
  "committed_log cfs \<longleftrightarrow> list_all decodes cfs \<and> versions_from None cfs"

lemma log_bytes_simps [simp]:
  "log_bytes [] = []" "log_bytes (cf # cfs) = frame_of cf @ log_bytes cfs"
  "log_bytes (cfs @ cfs') = log_bytes cfs @ log_bytes cfs'"
  by (simp_all add: log_bytes_def)

lemma decodes_record: "decodes cf \<Longrightarrow> decode_record (cf_payload cf) off (cf_version cf) = Inr (record_of cf)"
  by (auto simp: decodes_def record_of_def intro: decode_record_relocate)

lemma parse_loop_log:
  assumes "list_all decodes cfs" "versions_from prev cfs" "torn check_frame tail"
  shows "parse_loop (pre @ log_bytes cfs @ tail) (length pre) prev recs spans =
    Inr \<lparr>pf_records = recs @ scan_records (length pre) cfs, pf_spans = spans @ scan_spans (length pre) cfs,
         pf_committed_len = length pre + length (log_bytes cfs)\<rparr>"
  using assms(1,2)
proof (induction cfs arbitrary: pre prev recs spans)
  case Nil
  from assms(3) have "check_frame (pre @ tail) (length pre) = Inr None" by (simp add: torn_def)
  then show ?case by (subst parse_loop.simps) simp
next
  case (Cons cf cfs)
  have ok: "decodes cf" "valid_frame cf" using Cons.prems(1) by (simp_all add: decodes_def)
  have check: "check_frame (pre @ frame_of cf @ log_bytes cfs @ tail) (length pre) = Inr (Some cf)"
    by (rule frames.check_complete [OF ok(2)])
  have "parse_loop ((pre @ frame_of cf) @ log_bytes cfs @ tail) (length (pre @ frame_of cf))
      (Some (cf_version cf)) (recs @ [versioned_at (length pre) cf])
      (spans @ [\<lparr>fs_transaction = record_transaction (record_of cf), fs_start = length pre,
        fs_end = length pre + frame_len_of cf\<rparr>]) =
    Inr \<lparr>pf_records = (recs @ [versioned_at (length pre) cf]) @ scan_records (length (pre @ frame_of cf)) cfs,
      pf_spans = (spans @ [\<lparr>fs_transaction = record_transaction (record_of cf), fs_start = length pre,
        fs_end = length pre + frame_len_of cf\<rparr>]) @ scan_spans (length (pre @ frame_of cf)) cfs,
      pf_committed_len = length (pre @ frame_of cf) + length (log_bytes cfs)\<rparr>"
    by (rule Cons.IH) (use Cons.prems in simp_all)
  then show ?case
    using check frames.frame_nonempty [OF ok(2)] decodes_record [OF ok(1)] Cons.prems(2)
    by (subst parse_loop.simps) (simp add: versioned_at_def add.assoc)
qed

lemma parse_frames_log:
  assumes "committed_log cfs" "torn check_frame tail"
  shows "parse_frames (log_bytes cfs @ tail) =
    Inr \<lparr>pf_records = scan_records 0 cfs, pf_spans = scan_spans 0 cfs,
         pf_committed_len = length (log_bytes cfs)\<rparr>"
  using parse_loop_log [of cfs None tail "[]" "[]" "[]"] assms
  by (simp add: parse_frames_def committed_log_def)

lemma torn_iff: "torn check_frame tail \<longleftrightarrow> check_frame tail 0 = Inr None"
  by (simp add: torn_def check_frame_append)

text \<open>A torn tail that is cut again is still torn.\<close>

lemma torn_take:
  assumes "torn check_frame tail" shows "torn check_frame (take m tail)"
proof (cases "length (take m tail) < HEADER_LEN")
  case True
  then show ?thesis by (simp add: torn_iff check_frame_def)
next
  case False
  then have header: "take HEADER_LEN (take m tail) = take HEADER_LEN tail"
    by (simp add: min_absorb1)
  have "check_frame tail 0 = Inr None" using assms by (simp add: torn_iff)
  then have "check_frame (take m tail) 0 = Inr None"
    unfolding check_frame_def Let_def drop_0 header using False by (simp add: min_less_iff_disj split: if_splits)
  then show ?thesis by (simp add: torn_iff)
qed

lemma parse_loop_sound:
  assumes "parse_loop bytes off prev recs spans = Inr pf" "off \<le> length bytes"
  shows "\<exists>cfs tail. drop off bytes = log_bytes cfs @ tail \<and> list_all decodes cfs \<and>
           versions_from prev cfs \<and> torn check_frame tail"
  using assms
proof (induction bytes off prev recs spans rule: parse_loop.induct)
  case (1 bytes off prev recs spans)
  show ?case
  proof (cases "off < length bytes")
    case False
    with 1(3) show ?thesis using frames.torn_Nil by (intro exI [of _ "[]"]) simp
  next
    case True
    with 1(2) obtain checked where checked: "check_frame bytes off = Inr checked"
      by (subst (asm) parse_loop.simps) (auto simp: and_then_Inr_iff)
    show ?thesis
    proof (cases checked)
      case None
      with checked have "torn check_frame (drop off bytes)"
        by (simp add: torn_iff flip: check_frame_drop)
      then show ?thesis by (rule_tac x = "[]" in exI) auto
    next
      case (Some cf)
      with checked have "valid_frame cf \<and> prefix (frame_of cf) (drop off bytes)"
        using frames.check_sound [OF 1(3)] by simp
      then obtain rest where rest: "valid_frame cf" "drop off bytes = frame_of cf @ rest"
        by (auto elim: prefixE)
      from 1(2) True checked Some obtain r where
        r: "decode_record (cf_payload cf) (of_nat off) (cf_version cf) = Inr r"
          "\<not> version_regressed prev (cf_version cf)"
        by (subst (asm) parse_loop.simps) (auto simp: and_then_Inr_iff split: if_splits)
      have len: "off + frame_len_of cf \<le> length bytes"
        using arg_cong [OF rest(2), of length] True by simp
      have "drop (off + frame_len_of cf) bytes = drop (length (frame_of cf)) (drop off bytes)"
        by (simp add: add.commute)
      then have after: "drop (off + frame_len_of cf) bytes = rest" by (simp only: rest(2) append_eq_conv_conj) simp
      from 1(2) True checked Some r have rec: "parse_loop bytes (off + frame_len_of cf)
          (Some (cf_version cf)) (recs @ [\<lparr>vr_version = cf_version cf, vr_record = r,
             vr_frame = extent_new off (frame_len_of cf)\<rparr>])
          (spans @ [\<lparr>fs_transaction = record_transaction r, fs_start = off,
             fs_end = off + frame_len_of cf\<rparr>]) = Inr pf"
        by (subst (asm) parse_loop.simps) simp
      obtain cfs tail where "rest = log_bytes cfs @ tail" "list_all decodes cfs"
        "versions_from (Some (cf_version cf)) cfs" "torn check_frame tail"
        using 1(1) [OF True checked Some r rec len] after by auto
      moreover have "decodes cf" using rest(1) r(1) by (auto simp: decodes_def intro: decode_record_relocate)
      ultimately show ?thesis using rest(2) r(2)
        by (intro exI [of _ "cf # cfs"] exI [of _ tail]) simp
    qed
  qed
qed

text \<open>The scan neither panics nor judges permission records: its errors are about frames and the
  order of their versions.\<close>

lemma parse_loop_error:
  assumes "parse_loop bytes off prev recs spans = Inl e"
  shows "e \<noteq> ReplayPanic"
  using assms
proof (induction bytes off prev recs spans rule: parse_loop.induct)
  case (1 bytes off prev recs spans)
  have check: "check_frame bytes off \<noteq> Inl ReplayPanic" by (simp add: check_frame_def Let_def)
  show ?case
  proof (cases "off < length bytes")
    case False
    with 1(2) show ?thesis by (subst (asm) parse_loop.simps) simp
  next
    case True
    show ?thesis
    proof (cases "check_frame bytes off")
      case (Inl e')
      with 1(2) True check show ?thesis by (subst (asm) parse_loop.simps) auto
    next
      case (Inr checked)
      show ?thesis
      proof (cases checked)
        case None
        with 1(2) True Inr show ?thesis by (subst (asm) parse_loop.simps) simp
      next
        case (Some cf)
        show ?thesis
        proof (cases "decode_record (cf_payload cf) (of_nat off) (cf_version cf)")
          case (Inl e')
          with 1(2) True Inr Some decode_record_error [OF Inl] show ?thesis
            by (subst (asm) parse_loop.simps) auto
        next
          case rec: (Inr r)
          then show ?thesis
            using 1(2) 1(1) [OF True Inr Some rec] True Inr Some
            by (subst (asm) parse_loop.simps) (auto split: if_splits)
        qed
      qed
    qed
  qed
qed

lemma parse_frames_no_panic: "parse_frames bytes \<noteq> Inl ReplayPanic"
  using parse_loop_error unfolding parse_frames_def by blast

text \<open>Scanning and logging are inverse: the accepted files are exactly the committed logs with a
  torn tail, and the scan reports exactly their frames.\<close>

lemma parse_frames_iff:
  "parse_frames bytes = Inr pf \<longleftrightarrow>
     (\<exists>cfs tail. bytes = log_bytes cfs @ tail \<and> committed_log cfs \<and> torn check_frame tail \<and>
        pf = \<lparr>pf_records = scan_records 0 cfs, pf_spans = scan_spans 0 cfs,
              pf_committed_len = length (log_bytes cfs)\<rparr>)"
  (is "?lhs \<longleftrightarrow> ?rhs")
proof
  assume ?lhs
  with parse_loop_sound [of bytes 0 None "[]" "[]" pf] obtain cfs tail where
    "bytes = log_bytes cfs @ tail" "committed_log cfs" "torn check_frame tail"
    by (auto simp: parse_frames_def committed_log_def)
  with \<open>?lhs\<close> parse_frames_log show ?rhs by fastforce
qed (use parse_frames_log in auto)

section \<open>Appending and cutting\<close>

lemma encode_frame_cases:
  assumes "encode_frame r = Inr f"
  obtains cf where "f = frame_of cf" "cf_version cf = VERSION" "encode_record r = Inr (cf_payload cf)"
    "valid_frame cf"
proof -
  from assms obtain p where p: "encode_record r = Inr p" "frame_payload VERSION p = Inr f"
    by (auto simp: encode_frame_def and_then_Inr_iff split: if_splits)
  then have "length p \<le> MAX_PAYLOAD_LEN" by (simp add: encode_record_Inr_iff)
  with p show thesis
    by (intro that [of "\<lparr>cf_version = VERSION, cf_payload = p\<rparr>"])
       (auto simp: frame_payload_def frame_of_def valid_frame_def version_supported_def
         MAX_PAYLOAD_LEN_def split: if_splits)
qed

lemma encoded_frame_decodes:
  assumes "encode_record r = Inr (cf_payload cf)" "cf_version cf = VERSION" "wf_record r" "valid_frame cf"
  shows "decodes cf" and "record_of cf = r"
  using assms decode_record_exact [of "cf_payload cf" 0 r]
  by (auto simp: decodes_def record_of_def valid_frame_def)

lemma versions_from_append:
  "versions_from prev (cfs @ [cf]) \<longleftrightarrow>
     versions_from prev cfs \<and> \<not> version_regressed (if cfs = [] then prev else Some (cf_version (last cfs))) (cf_version cf)"
  by (induction cfs arbitrary: prev) auto

lemma version_supported_le: "version_supported v \<Longrightarrow> v \<le> VERSION"
  by (auto simp: version_supported_def VERSION_def)

text \<open>A frame of the current version may follow any committed log.\<close>

lemma committed_log_snoc:
  assumes "committed_log cfs" "decodes cf" "cf_version cf = VERSION"
  shows "committed_log (cfs @ [cf])"
proof -
  have "cfs \<noteq> [] \<Longrightarrow> cf_version (last cfs) \<le> VERSION"
    using assms(1) by (auto simp: committed_log_def decodes_def valid_frame_def list_all_iff
        intro: version_supported_le)
  with assms show ?thesis
    by (auto simp: committed_log_def versions_from_append version_regressed_def)
qed

lemma versions_from_take: "versions_from prev cfs \<Longrightarrow> versions_from prev (take k cfs)"
proof (induction cfs arbitrary: prev k)
  case (Cons cf cfs)
  then show ?case by (cases k) auto
qed simp

lemma committed_log_take: "committed_log cfs \<Longrightarrow> committed_log (take k cfs)"
  by (auto simp: committed_log_def list_all_iff versions_from_take dest: in_set_takeD)

lemma length_log_take_Suc:
  "k < length cfs \<Longrightarrow> length (log_bytes (take (Suc k) cfs)) = length (log_bytes (take k cfs)) + frame_len_of (cfs ! k)"
  by (simp add: take_Suc_conv_app_nth)

section \<open>Reading one frame back\<close>

lemma extent_roundtrip:
  assumes "valid_frame cf" "length pre + frame_len_of cf \<le> MAX_WAL_LEN"
  shows "\<exists>e. extent_new (length pre) (frame_len_of cf) = Some e \<and>
             extent_of e (pre @ frame_of cf @ rest) = Some (frame_of cf)"
proof -
  let ?n = "frame_len_of cf"
  have n: "HEADER_LEN \<le> ?n" "?n \<le> HEADER_LEN + MAX_PAYLOAD_LEN" "0 < ?n"
    using assms(1) by (simp_all add: frame_len_of_def valid_frame_def HEADER_LEN_def)
  have small: "length pre < 2 ^ 32" "?n < 2 ^ 32" "length pre + ?n < 2 ^ 64"
    using assms(2) by (simp_all add: MAX_WAL_LEN_def)
  then have "unat (of_nat (length pre) :: u32) = length pre" "unat (of_nat ?n :: u32) = ?n"
    by (simp_all add: unat_of_nat)
  then show ?thesis
    using n small assms(2)
    by (auto simp: extent_new_def extent_of_def usize_checked_add_def)
qed

lemma decode_indexed_frame:
  assumes "decodes cf" "record_of cf = PermissionIntent t mid ev pre expd rv"
  shows "decode_indexed_intent (frame_of cf) t mid entry =
    Inr \<lparr>dp_mutation_id = mid, dp_phase = pe_phase entry, dp_evidence = ev, dp_pre_mode = pre,
         dp_expected_mode = expd, dp_reverses = rv, dp_application = pe_application entry\<rparr>"
proof -
  have "check_frame (frame_of cf) 0 = Inr (Some cf)"
    using check_frame_complete [of cf "[]"] assms(1) by (simp add: decodes_def)
  then show ?thesis
    using decodes_record [OF assms(1), of 0] assms(2)
    by (simp add: decode_indexed_intent_def frame_len_of_def)
qed

lemma read_framed_intent_at:
  assumes "committed_log (before @ cf # later)"
    and "record_of cf = PermissionIntent t mid ev pre expd rv"
    and "length (log_bytes (before @ [cf])) \<le> MAX_WAL_LEN"
    and "pe_frame entry = vr_frame (versioned_at (length (log_bytes before)) cf)"
  shows "read_framed_intent (log_bytes (before @ cf # later) @ tail) t' mid' entry =
      (if t' = t \<and> mid' = mid
       then Inr \<lparr>dp_mutation_id = mid, dp_phase = pe_phase entry, dp_evidence = ev, dp_pre_mode = pre,
                 dp_expected_mode = expd, dp_reverses = rv, dp_application = pe_application entry\<rparr>
       else Inl (PermissionMismatch mid' ''frame belongs to another mutation''))"
proof -
  have cf: "decodes cf" "valid_frame cf" using assms(1) by (auto simp: committed_log_def decodes_def)
  obtain e where e: "pe_frame entry = Some e"
    "extent_of e (log_bytes before @ frame_of cf @ log_bytes later @ tail) = Some (frame_of cf)"
    using extent_roundtrip [OF cf(2), of "log_bytes before"] assms(3,4)
    by (auto simp: versioned_at_def)
  have "check_frame (frame_of cf) 0 = Inr (Some cf)"
    using check_frame_complete [of cf "[]"] cf(2) by simp
  with e decodes_record [OF cf(1), of 0] assms(2) show ?thesis
    by (auto simp: read_framed_intent_def decode_indexed_intent_def frame_len_of_def)
qed

section \<open>Properties\<close>

text \<open>C19: Cutting a committed log at any byte, as a crash during an append does, still scans: the
  result is exactly the frames that were completely written before the cut, in order, with their
  byte ranges, and the committed length is where the last of them ends. No committed frame is lost
  and nothing of the torn frame is reported.\<close>

theorem torn_tail_scan:
  assumes "committed_log cfs"
  shows "\<exists>k. parse_frames (take n (log_bytes cfs)) =
      Inr \<lparr>pf_records = scan_records 0 (take k cfs), pf_spans = scan_spans 0 (take k cfs),
           pf_committed_len = length (log_bytes (take k cfs))\<rparr> \<and>
    (k < length cfs \<longrightarrow> n < length (log_bytes (take (Suc k) cfs)))"
proof -
  have "list_all valid_frame cfs"
    using assms by (auto simp: committed_log_def list_all_iff decodes_def)
  from frames.crash_prefix [OF this] obtain k tail where
    "take n (log_bytes cfs) = log_bytes (take k cfs) @ tail" "torn check_frame tail"
    "k < length cfs \<longrightarrow> n < length (log_bytes (take (Suc k) cfs))"
    unfolding log_bytes_def by metis
  then show ?thesis using parse_frames_log [OF committed_log_take [OF assms], of tail k] by auto
qed

definition sample_frame :: "transaction_state \<Rightarrow> checked_frame" where
  "sample_frame s = \<lparr>cf_version = VERSION, cf_payload = [1] @ replicate 16 7 @ [encode_state s]\<rparr>"

lemma cf_version_sample [simp]: "cf_version (sample_frame s) = VERSION"
  by (simp add: sample_frame_def)

lemma encode_sample:
  "encode_record (State (TransactionId (replicate 16 7)) s) = Inr (cf_payload (sample_frame s))"
  by (simp add: sample_frame_def encode_record_def MAX_PAYLOAD_LEN_def put_all.simps put_then_def
      put_raw_def put_u8_def put_tid_def)

lemma sample_frame_decodes:
  "decodes (sample_frame s)" "record_of (sample_frame s) = State (TransactionId (replicate 16 7)) s"
proof -
  have "valid_frame (sample_frame s)"
    by (simp add: sample_frame_def valid_frame_def version_supported_def MAX_PAYLOAD_LEN_def)
  moreover have "wf_record (State (TransactionId (replicate 16 7)) s)" by (simp add: wf_tid_def)
  ultimately show "decodes (sample_frame s)"
    "record_of (sample_frame s) = State (TransactionId (replicate 16 7)) s"
    using encoded_frame_decodes [OF encode_sample] by (simp_all add: sample_frame_def)
qed

theorem torn_tail_scan_witness:
  "\<exists>k. parse_frames (take 50 (log_bytes [sample_frame Prepared, sample_frame ParentSealIntent])) =
      Inr \<lparr>pf_records = scan_records 0 (take k [sample_frame Prepared, sample_frame ParentSealIntent]),
           pf_spans = scan_spans 0 (take k [sample_frame Prepared, sample_frame ParentSealIntent]),
           pf_committed_len =
             length (log_bytes (take k [sample_frame Prepared, sample_frame ParentSealIntent]))\<rparr> \<and>
    (k < length [sample_frame Prepared, sample_frame ParentSealIntent] \<longrightarrow>
     50 < length (log_bytes (take (Suc k) [sample_frame Prepared, sample_frame ParentSealIntent])))"
proof -
  have "committed_log [sample_frame Prepared, sample_frame ParentSealIntent]"
    by (simp add: committed_log_def sample_frame_decodes version_regressed_def)
  then show ?thesis by (rule torn_tail_scan)
qed

text \<open>One damaged payload byte in a committed frame is always detected: the checksum of the
  frame no longer matches, and the scan refuses the file at that frame instead of reporting a
  different record.\<close>

theorem damaged_payload_refused:
  assumes "valid_frame cf" and "cf_payload cf = xs @ x # ys" and "x \<noteq> y"
  shows "check_frame (pre @ take HEADER_LEN (frame_of cf) @ (xs @ y # ys) @ rest) (length pre) =
         Inl (Checksum (of_nat (length pre)))"
proof -
  have "crc32 (xs @ y # ys) \<noteq> crc32 (cf_payload cf)"
    using assms(2,3) crc32_single_byte by metis
  moreover have "length (cf_payload cf) = length (xs @ y # ys)" using assms(2) by simp
  ultimately show ?thesis
    using check_frame_header [OF assms(1), of pre "(xs @ y # ys) @ rest"] by simp
qed

theorem damaged_payload_refused_witness:
  "check_frame ([] @ take HEADER_LEN (frame_of (sample_frame Prepared)) @ (([1] @ replicate 16 7) @ 8 # []) @ [])
     (length ([] :: bytes)) = Inl (Checksum (of_nat (length ([] :: bytes))))"
proof -
  have "valid_frame (sample_frame Prepared)" using sample_frame_decodes by (simp add: decodes_def)
  then show ?thesis
    by (rule damaged_payload_refused [where x = 0]) (simp_all add: sample_frame_def)
qed

text \<open>An indexed permission intent is read back exactly. For every intent frame of a
  committed log no longer than \<open>MAX_WAL_LEN\<close>, the extent the scan records for it leads
  \<open>read_framed_intent\<close> to that very record, whatever follows it in the file; asking for it under
  another mutation id or transaction is refused.\<close>

theorem indexed_intent_read_back:
  assumes "committed_log (before @ cf # later)"
    and "record_of cf = PermissionIntent t mid ev pre expd rv"
    and "length (log_bytes (before @ [cf])) \<le> MAX_WAL_LEN"
    and "pe_frame entry = vr_frame (versioned_at (length (log_bytes before)) cf)"
  shows "read_framed_intent (log_bytes (before @ cf # later) @ tail) t' mid' entry =
      (if t' = t \<and> mid' = mid
       then Inr \<lparr>dp_mutation_id = mid, dp_phase = pe_phase entry, dp_evidence = ev, dp_pre_mode = pre,
                 dp_expected_mode = expd, dp_reverses = rv, dp_application = pe_application entry\<rparr>
       else Inl (PermissionMismatch mid' ''frame belongs to another mutation''))"
  by (rule read_framed_intent_at [OF assms])

definition sample_intent_frame :: checked_frame where
  "sample_intent_frame = \<lparr>cf_version = VERSION, cf_payload = sample_intent_payload\<rparr>"

lemma sample_intent_frame_decodes:
  "decodes sample_intent_frame" "record_of sample_intent_frame = sample_intent"
proof -
  have "valid_frame sample_intent_frame"
    by (simp add: sample_intent_frame_def valid_frame_def version_supported_def
        sample_intent_payload_def MAX_PAYLOAD_LEN_def)
  with encode_sample_intent wf_sample_intent show "decodes sample_intent_frame"
    "record_of sample_intent_frame = sample_intent"
    using encoded_frame_decodes [of sample_intent sample_intent_frame]
    by (simp_all add: sample_intent_frame_def)
qed

theorem indexed_intent_read_back_witness:
  "read_framed_intent (log_bytes ([] @ sample_intent_frame # []) @ [1, 2, 3])
     (TransactionId (replicate 16 7)) 5
     \<lparr>pe_frame = vr_frame (versioned_at (length (log_bytes [])) sample_intent_frame),
      pe_reverses = None, pe_phase = TreeSealIntent, pe_application = Applied\<rparr> =
   Inr \<lparr>dp_mutation_id = 5, dp_phase = TreeSealIntent, dp_evidence = sample_evidence,
        dp_pre_mode = 493, dp_expected_mode = 448, dp_reverses = None, dp_application = Applied\<rparr>"
proof -
  have log: "committed_log ([] @ sample_intent_frame # [])"
    by (simp add: committed_log_def sample_intent_frame_decodes version_regressed_def)
  have rec: "record_of sample_intent_frame =
      PermissionIntent (TransactionId (replicate 16 7)) 5 sample_evidence 493 448 None"
    by (simp add: sample_intent_frame_decodes sample_intent_def)
  have "length (log_bytes ([] @ [sample_intent_frame])) \<le> MAX_WAL_LEN"
    by (simp add: frame_len_of_def sample_intent_frame_def sample_intent_payload_def HEADER_LEN_def
        MAX_WAL_LEN_def)
  from indexed_intent_read_back [OF log rec this] show ?thesis by simp
qed

end
