(* ===== verification/Wal_Transitions.thy ===== *)
theory Wal_Transitions
  imports Wal_Types
begin

text \<open>
  The transaction state machine of \<open>seal/wal.rs\<close>: \<open>valid_transition\<close> and \<open>completed_phase\<close>, as
  a step relation, with what every run of it satisfies: it is acyclic, its terminal states are
  exactly the states with no outgoing edge, and the purge and undo protocols are entered only
  through a verified commit.
\<close>

section \<open>The transition table\<close>

definition valid_transition :: "transaction_state \<Rightarrow> transaction_state \<Rightarrow> bool" where
  "valid_transition from to \<longleftrightarrow>
     (from, to) \<in> set
       [(Prepared, ParentSealIntent),
        (ParentSealIntent, ParentSealed),
        (ParentSealed, TreeSealIntent),
        (TreeSealIntent, TreeSealed),
        (TreeSealed, RenameIntent),
        (RenameIntent, StagedUnverified),
        (StagedUnverified, StagedSealed),
        (StagedSealed, SourceParentRestoreIntent),
        (SourceParentRestoreIntent, SourceParentRestored),
        (SourceParentRestored, VerifiedCommitted),
        (VerifiedCommitted, UndoIntent), (VerifiedCommitted, Purgeable),
        (Purgeable, PurgeIntent),
        (PurgeIntent, PurgeOutcome),
        (PurgeOutcome, Purged),
        (UndoIntent, UndoModesRestored),
        (UndoModesRestored, UndoRenameIntent),
        (UndoRenameIntent, Restored), (UndoRenameIntent, UndoConflict),
        (StagedUnverified, RollbackIntent), (StagedSealed, RollbackIntent),
        (RollbackIntent, RolledBack)] \<or>
     (to = RestoreIntent \<and>
      from \<in> set [Prepared, ParentSealIntent, ParentSealed, TreeSealIntent, TreeSealed, RenameIntent]) \<or>
     (from, to) = (RestoreIntent, Restored) \<or>
     (to = Quarantined \<and>
      from \<in> set [StagedUnverified, StagedSealed, SourceParentRestoreIntent, SourceParentRestored,
                  RollbackIntent]) \<or>
     (to = RecoveryRequired \<and>
      from \<in> set [Prepared, ParentSealIntent, ParentSealed, TreeSealIntent, TreeSealed, RenameIntent,
                  StagedUnverified, StagedSealed, SourceParentRestoreIntent, SourceParentRestored,
                  RollbackIntent, RestoreIntent, Quarantined, UndoIntent, UndoModesRestored,
                  UndoRenameIntent, VerifiedCommitted, Purgeable, PurgeIntent])"

text \<open>The intent phase a transition completes, if it completes one.\<close>

definition completed_phase :: "transaction_state \<Rightarrow> transaction_state \<Rightarrow> transaction_state option" where
  "completed_phase from to =
     (if (from, to) \<in> set [(ParentSealIntent, ParentSealed), (TreeSealIntent, TreeSealed),
           (SourceParentRestoreIntent, SourceParentRestored), (UndoIntent, UndoModesRestored)]
      then Some from else None)"

section \<open>Runs\<close>

text \<open>A run is the list of states a transaction has been in, oldest first.\<close>

inductive run :: "transaction_state list \<Rightarrow> bool" where
  run_begin: "run [Prepared]"
| run_step: "run (h @ [s]) \<Longrightarrow> valid_transition s t \<Longrightarrow> run (h @ [s, t])"

inductive_cases run_NilE: "run []"

text \<open>How many more transitions a state can take at most.\<close>

fun steps_left :: "transaction_state \<Rightarrow> nat" where
  "steps_left Prepared = 14"
| "steps_left ParentSealIntent = 13"
| "steps_left ParentSealed = 12"
| "steps_left TreeSealIntent = 11"
| "steps_left TreeSealed = 10"
| "steps_left RenameIntent = 9"
| "steps_left StagedUnverified = 8"
| "steps_left StagedSealed = 7"
| "steps_left SourceParentRestoreIntent = 6"
| "steps_left SourceParentRestored = 5"
| "steps_left VerifiedCommitted = 4"
| "steps_left UndoIntent = 3"
| "steps_left UndoModesRestored = 2"
| "steps_left UndoRenameIntent = 1"
| "steps_left Purgeable = 3"
| "steps_left PurgeIntent = 2"
| "steps_left PurgeOutcome = 1"
| "steps_left RollbackIntent = 2"
| "steps_left RestoreIntent = 1"
| "steps_left Quarantined = 1"
| "steps_left UndoConflict = 0"
| "steps_left Purged = 0"
| "steps_left RolledBack = 0"
| "steps_left Restored = 0"
| "steps_left RecoveryRequired = 0"

lemma valid_transition_decreases: "valid_transition s t \<Longrightarrow> steps_left t < steps_left s"
  by (auto simp: valid_transition_def)

lemma steps_left_0_iff:
  "steps_left s = 0 \<longleftrightarrow> s \<in> {Purged, RolledBack, Restored, UndoConflict, RecoveryRequired}"
  by (cases s) simp_all

lemma valid_transition_exists: "steps_left s \<noteq> 0 \<Longrightarrow> \<exists>t. valid_transition s t"
  by (cases s) (auto simp: valid_transition_def)

lemma run_not_Nil: "run h \<Longrightarrow> h \<noteq> []"
  by (erule run.cases) simp_all

lemma run_length: "run h \<Longrightarrow> length h + steps_left (last h) \<le> 15"
proof (induction rule: run.induct)
  case (run_step h s t)
  with valid_transition_decreases [of s t] show ?case by simp
qed simp

lemma run_decreasing: "run h \<Longrightarrow> sorted_wrt (>) (map steps_left h)"
proof (induction rule: run.induct)
  case (run_step h s t)
  with valid_transition_decreases [of s t] show ?case by (auto simp: sorted_wrt_append)
qed simp

lemma run_distinct: "run h \<Longrightarrow> distinct h"
  using run_decreasing [of h] by (auto simp: sorted_wrt_map distinct_conv_nth sorted_wrt_iff_nth_less
      dest: less_imp_neq) (metis nat_neq_iff order_less_irrefl)

text \<open>A list of states is a run when it starts prepared and each step is valid.\<close>

fun steps_valid :: "transaction_state list \<Rightarrow> bool" where
  "steps_valid (s # t # h) = (valid_transition s t \<and> steps_valid (t # h))"
| "steps_valid _ = True"

lemma run_extend: "run (h @ [s]) \<Longrightarrow> steps_valid (s # k) \<Longrightarrow> run (h @ s # k)"
proof (induction k arbitrary: h s)
  case (Cons t k)
  then have "run ((h @ [s]) @ [t])" using run_step [of h s t] by simp
  with Cons.IH [of "h @ [s]" t] Cons.prems(2) show ?case by simp
qed simp

lemma run_from_list: "hd h = Prepared \<Longrightarrow> steps_valid h \<Longrightarrow> h \<noteq> [] \<Longrightarrow> run h"
  using run_extend [of "[]" Prepared "tl h"] run_begin by (cases h) simp_all

text \<open>The states on each side of a verified commit.\<close>

definition after_commit :: "transaction_state \<Rightarrow> bool" where
  "after_commit s \<longleftrightarrow>
     s \<in> {UndoIntent, UndoModesRestored, UndoRenameIntent, UndoConflict, Purgeable, PurgeIntent,
          PurgeOutcome, Purged}"

lemma after_commit_pred:
  "valid_transition s t \<Longrightarrow> after_commit t \<Longrightarrow> after_commit s \<or> s = VerifiedCommitted"
  by (auto simp: valid_transition_def after_commit_def)

lemma purge_pred:
  "valid_transition s PurgeIntent \<Longrightarrow> s = Purgeable"
  "valid_transition s PurgeOutcome \<Longrightarrow> s = PurgeIntent"
  "valid_transition s Purged \<Longrightarrow> s = PurgeOutcome"
  "valid_transition s Purgeable \<Longrightarrow> s = VerifiedCommitted"
  by (auto simp: valid_transition_def)

lemma run_commit:
  assumes "run h" shows "after_commit (last h) \<longrightarrow> VerifiedCommitted \<in> set h"
  using assms
proof (induction rule: run.induct)
  case (run_step h s t)
  then show ?case using after_commit_pred [of s t] by auto
qed (simp add: after_commit_def)

lemma run_purge:
  assumes "run h"
  shows "last h \<in> {PurgeIntent, PurgeOutcome, Purged} \<longrightarrow> {Purgeable, VerifiedCommitted} \<subseteq> set h"
    and "last h = Purgeable \<longrightarrow> VerifiedCommitted \<in> set h"
  using assms
proof (induction rule: run.induct)
  case (run_step h s t)
  { case 1 then show ?case using run_step purge_pred [of s] by auto
  next case 2 then show ?case using run_step purge_pred [of s] by auto }
qed simp_all

section \<open>Properties\<close>

text \<open>C29: The transaction state machine terminates. A transaction makes at most fourteen
  transitions, no state repeats, the states with no outgoing transition are exactly \<open>Purged\<close>,
  \<open>RolledBack\<close>, \<open>Restored\<close>, \<open>UndoConflict\<close> and \<open>RecoveryRequired\<close>, and every other state has
  one: no transaction can cycle or get stuck anywhere else.\<close>

theorem transitions_terminate:
  assumes "run h"
  shows "length h \<le> 15 \<and> distinct h \<and>
     ((\<nexists>t. valid_transition (last h) t) \<longleftrightarrow>
      last h \<in> {Purged, RolledBack, Restored, UndoConflict, RecoveryRequired})"
proof -
  have "(\<nexists>t. valid_transition (last h) t) \<longleftrightarrow> steps_left (last h) = 0"
    using valid_transition_exists valid_transition_decreases by fastforce
  then show ?thesis using run_length [OF assms] run_distinct [OF assms] steps_left_0_iff by simp
qed

theorem transitions_terminate_witness:
  "length [Prepared, RestoreIntent, Restored] \<le> 15 \<and> distinct [Prepared, RestoreIntent, Restored] \<and>
     ((\<nexists>t. valid_transition (last [Prepared, RestoreIntent, Restored]) t) \<longleftrightarrow>
      last [Prepared, RestoreIntent, Restored] \<in>
        {Purged, RolledBack, Restored, UndoConflict, RecoveryRequired})"
proof -
  have "run ([] @ [Prepared, RestoreIntent])"
    by (rule run_step [of "[]"]) (simp_all add: run_begin valid_transition_def)
  then have "run ([Prepared] @ [RestoreIntent, Restored])"
    by (intro run_step) (simp_all add: valid_transition_def)
  then show ?thesis using transitions_terminate [of "[Prepared, RestoreIntent, Restored]"] by simp
qed

text \<open>C33: No transaction is purged or undone that was not verified and committed first: a run that
  ends in a purge or undo state has passed \<open>VerifiedCommitted\<close>, and one whose purge has begun has
  also passed the explicit authorization \<open>Purgeable\<close>.\<close>

theorem purge_only_after_commit:
  assumes "run h"
  shows "(after_commit (last h) \<longrightarrow> VerifiedCommitted \<in> set h) \<and>
         (last h \<in> {PurgeIntent, PurgeOutcome, Purged} \<longrightarrow> Purgeable \<in> set h)"
  using run_commit [OF assms] run_purge [OF assms] by auto

theorem purge_only_after_commit_witness:
  "\<exists>h. run h \<and> last h = Purged \<and> VerifiedCommitted \<in> set h \<and> Purgeable \<in> set h"
proof -
  let ?h = "[Prepared, ParentSealIntent, ParentSealed, TreeSealIntent, TreeSealed, RenameIntent,
    StagedUnverified, StagedSealed, SourceParentRestoreIntent, SourceParentRestored,
    VerifiedCommitted, Purgeable, PurgeIntent, PurgeOutcome, Purged]"
  have "run ?h"
    by (intro run_from_list) (simp_all add: valid_transition_def)
  then show ?thesis using purge_only_after_commit [of ?h] by (auto simp: after_commit_def)
qed

end
