(* ===== verification/Wal_Ledger.thy ===== *)
theory Wal_Ledger
  imports Wal_Frames Wal_Transitions
begin

text \<open>
  The permission ledger (\<open>seal/wal/permission_ledger.rs\<close>): what append, replay and resume keep of a
  transaction's permission mutations, with the tallies that answer recovery's questions in constant
  time. The scans the tallies replaced are kept in \<open>seal/wal.rs\<close> as test oracles; they are the
  reference definitions here, and the tallies are proved to agree with them.
\<close>

section \<open>Tallies\<close>

text \<open>The \<open>u64\<close> counters count frames of a file of at most 64 MiB and cannot wrap; they are natural
  numbers.\<close>

record phase_tally =
  pt_recorded :: nat
  pt_completed :: nat

definition tally_default :: phase_tally where
  "tally_default = \<lparr>pt_recorded = 0, pt_completed = 0\<rparr>"

definition tally_is_complete :: "phase_tally \<Rightarrow> bool" where
  "tally_is_complete t \<longleftrightarrow> pt_completed t = pt_recorded t"

fun phase_accepts_resolution :: "transaction_state \<Rightarrow> permission_resolution \<Rightarrow> bool" where
  "phase_accepts_resolution phase ResolvedApplied = True"
| "phase_accepts_resolution phase ResolvedNotApplied =
     (phase = SourceParentRestoreIntent \<or> phase = UndoIntent)"

record seal_coverage =
  applied_parent_seals :: nat
  applied_tree_seals :: nat
  reversed_parent_seals :: nat
  restored_parent_seals :: nat
  reversed_tree_seals :: nat
  undone_tree_seals :: nat

definition coverage_default :: seal_coverage where
  "coverage_default = \<lparr>applied_parent_seals = 0, applied_tree_seals = 0, reversed_parent_seals = 0,
     restored_parent_seals = 0, reversed_tree_seals = 0, undone_tree_seals = 0\<rparr>"

definition record_applied_seal :: "transaction_state \<Rightarrow> seal_coverage \<Rightarrow> seal_coverage" where
  "record_applied_seal phase c =
     (if phase = ParentSealIntent then c\<lparr>applied_parent_seals := applied_parent_seals c + 1\<rparr>
      else if phase = TreeSealIntent then c\<lparr>applied_tree_seals := applied_tree_seals c + 1\<rparr>
      else c)"

definition record_applied_inverse ::
  "transaction_state \<Rightarrow> transaction_state \<Rightarrow> seal_coverage \<Rightarrow> seal_coverage" where
  "record_applied_inverse sealed_phase inverse_phase c =
     (if sealed_phase = ParentSealIntent then
        c\<lparr>reversed_parent_seals := reversed_parent_seals c + 1,
          restored_parent_seals := restored_parent_seals c +
            (if inverse_phase = SourceParentRestoreIntent then 1 else 0)\<rparr>
      else if sealed_phase = TreeSealIntent then
        c\<lparr>reversed_tree_seals := reversed_tree_seals c + 1,
          undone_tree_seals := undone_tree_seals c + (if inverse_phase = UndoIntent then 1 else 0)\<rparr>
      else c)"

definition every_applied_seal_is_reversed :: "seal_coverage \<Rightarrow> bool" where
  "every_applied_seal_is_reversed c \<longleftrightarrow>
     reversed_parent_seals c = applied_parent_seals c \<and> reversed_tree_seals c = applied_tree_seals c"

definition every_applied_parent_seal_is_restored :: "seal_coverage \<Rightarrow> bool" where
  "every_applied_parent_seal_is_restored c \<longleftrightarrow> restored_parent_seals c = applied_parent_seals c"

definition every_applied_tree_seal_is_undone :: "seal_coverage \<Rightarrow> bool" where
  "every_applied_tree_seal_is_undone c \<longleftrightarrow> undone_tree_seals c = applied_tree_seals c"

text \<open>The saturating subtractions of the source are subtractions of natural numbers.\<close>

definition active_seals :: "seal_coverage \<Rightarrow> nat" where
  "active_seals c =
     (applied_parent_seals c - reversed_parent_seals c) + (applied_tree_seals c - reversed_tree_seals c)"

record permission_workload =
  pw_active_seals :: nat
  pw_deepest_path_components :: u32
  pw_longest_path_bytes :: u32

section \<open>The ledger\<close>

record permission_ledger =
  lg_permissions :: "(u64, permission_entry) btree"
  lg_highest_mutation_id :: "u64 option"
  lg_recorded :: nat
  lg_resolved :: nat
  lg_active_inverses :: "u64 \<rightharpoonup> u64"
  lg_phases :: "transaction_state \<rightharpoonup> phase_tally"
  lg_coverage :: seal_coverage
  lg_deepest_path_components :: u32
  lg_longest_path_bytes :: u32

definition ledger_default :: permission_ledger where
  "ledger_default = \<lparr>lg_permissions = [], lg_highest_mutation_id = None, lg_recorded = 0,
     lg_resolved = 0, lg_active_inverses = Map.empty, lg_phases = Map.empty,
     lg_coverage = coverage_default, lg_deepest_path_components = 0, lg_longest_path_bytes = 0\<rparr>"

definition ledger_entry :: "permission_ledger \<Rightarrow> u64 \<Rightarrow> permission_entry option" where
  "ledger_entry l mid = map_of (lg_permissions l) mid"

text \<open>\<open>usize::try_into::<u32>().unwrap_or(u32::MAX)\<close>\<close>

definition u32_or_max :: "nat \<Rightarrow> u32" where
  "u32_or_max n = (if n < 2 ^ 32 then of_nat n else - 1)"

definition ledger_phase :: "permission_ledger \<Rightarrow> transaction_state \<Rightarrow> phase_tally" where
  "ledger_phase l phase = (case lg_phases l phase of None \<Rightarrow> tally_default | Some t \<Rightarrow> t)"

definition record_intent ::
  "durable_permission \<Rightarrow> frame_extent option \<Rightarrow> permission_ledger \<Rightarrow> permission_ledger" where
  "record_intent p frame l =
     (let mid = dp_mutation_id p;
          tally = ledger_phase l (dp_phase p);
          path = ev_relative_path (dp_evidence p)
      in l\<lparr>lg_highest_mutation_id :=
             Some (case lg_highest_mutation_id l of None \<Rightarrow> mid | Some held \<Rightarrow> max held mid),
           lg_phases := (lg_phases l)(dp_phase p \<mapsto> tally\<lparr>pt_recorded := pt_recorded tally + 1\<rparr>),
           lg_recorded := lg_recorded l + 1,
           lg_deepest_path_components :=
             max (lg_deepest_path_components l) (u32_or_max (length (path_components path))),
           lg_longest_path_bytes := max (lg_longest_path_bytes l) (u32_or_max (length path)),
           lg_active_inverses :=
             (case dp_reverses p of
                None \<Rightarrow> lg_active_inverses l
              | Some original \<Rightarrow> (lg_active_inverses l)(original \<mapsto> mid)),
           lg_permissions :=
             bt_insert mid \<lparr>pe_frame = frame, pe_reverses = dp_reverses p, pe_phase = dp_phase p,
               pe_application = ApplicationUnknown\<rparr> (lg_permissions l)\<rparr>)"

fun resolution_status :: "permission_resolution \<Rightarrow> application_status" where
  "resolution_status ResolvedApplied = Applied"
| "resolution_status ResolvedNotApplied = ConfirmedNotApplied"

text \<open>\<open>None\<close> is the panic of an \<open>expect\<close>: the intent, or the seal it reverses, is not in the ledger.\<close>

definition record_resolution ::
  "u64 \<Rightarrow> permission_resolution \<Rightarrow> permission_ledger \<Rightarrow> permission_ledger option" where
  "record_resolution mid resolution l =
     Option.bind (ledger_entry l mid) (\<lambda>entry.
       let phase = pe_phase entry;
           tally = ledger_phase l phase;
           permissions = bt_insert mid (entry\<lparr>pe_application := resolution_status resolution\<rparr>)
             (lg_permissions l);
           l' = l\<lparr>lg_permissions := permissions,
                  lg_resolved := lg_resolved l + 1,
                  lg_phases := (if phase_accepts_resolution phase resolution
                    then (lg_phases l)(phase \<mapsto> tally\<lparr>pt_completed := pt_completed tally + 1\<rparr>)
                    else lg_phases l)\<rparr>
       in case resolution of
            ResolvedApplied \<Rightarrow>
              let sealed = record_applied_seal phase (lg_coverage l)
              in (case pe_reverses entry of
                    None \<Rightarrow> Some (l'\<lparr>lg_coverage := sealed\<rparr>)
                  | Some original \<Rightarrow>
                      Option.bind (map_of permissions original) (\<lambda>seal.
                        Some (l'\<lparr>lg_coverage :=
                          record_applied_inverse (pe_phase seal) phase sealed\<rparr>)))
          | ResolvedNotApplied \<Rightarrow>
              (case pe_reverses entry of
                 None \<Rightarrow> Some l'
               | Some original \<Rightarrow>
                   Some (l'\<lparr>lg_active_inverses := (lg_active_inverses l)(original := None)\<rparr>)))"

definition has_unresolved :: "permission_ledger \<Rightarrow> bool" where
  "has_unresolved l \<longleftrightarrow> lg_resolved l \<noteq> lg_recorded l"

definition retains_active_seals :: "permission_ledger \<Rightarrow> bool" where
  "retains_active_seals l \<longleftrightarrow> \<not> every_applied_seal_is_reversed (lg_coverage l)"

definition ledger_workload :: "permission_ledger \<Rightarrow> permission_workload" where
  "ledger_workload l = \<lparr>pw_active_seals = active_seals (lg_coverage l),
     pw_deepest_path_components = lg_deepest_path_components l,
     pw_longest_path_bytes = lg_longest_path_bytes l\<rparr>"

section \<open>Decisions read off the ledger\<close>

definition staging_parent_strategy_is_recorded ::
  "staging_metadata option \<Rightarrow> permission_ledger option \<Rightarrow> bool" where
  "staging_parent_strategy_is_recorded metadata ledger =
     (case metadata of
        None \<Rightarrow> True
      | Some m \<Rightarrow>
          let parent = (case ledger of None \<Rightarrow> tally_default | Some l \<Rightarrow> ledger_phase l ParentSealIntent)
          in (case sm_source_parent_strategy m of
                PermissionSeal \<Rightarrow> pt_recorded parent \<noteq> 0 \<and> tally_is_complete parent
              | AlreadyExclusive _ \<Rightarrow> pt_recorded parent = 0))"

definition phase_completion_is_recorded ::
  "permission_ledger option \<Rightarrow> transaction_state \<Rightarrow> transaction_state \<Rightarrow> bool" where
  "phase_completion_is_recorded ledger from to =
     (case completed_phase from to of
        None \<Rightarrow> True
      | Some phase \<Rightarrow>
          (case ledger of None \<Rightarrow> True | Some l \<Rightarrow> tally_is_complete (ledger_phase l phase)))"

section \<open>The scans\<close>

text \<open>The oracles scan the permission records; what they read of a record is its mutation id and the
  fields an entry holds, so they are stated on the entries.\<close>

type_synonym permission_scan = "(u64 \<times> permission_entry) list"

definition all_applied_seals_have_applied_inverse :: "permission_scan \<Rightarrow> bool" where
  "all_applied_seals_have_applied_inverse ps =
     list_all (\<lambda>(mid, seal). pe_application seal \<noteq> Applied \<or>
       pe_phase seal \<notin> {ParentSealIntent, TreeSealIntent} \<or>
       list_ex (\<lambda>(_, inv). pe_application inv = Applied \<and> pe_reverses inv = Some mid) ps) ps"

definition all_applied_parent_seals_have_applied_inverse :: "permission_scan \<Rightarrow> bool" where
  "all_applied_parent_seals_have_applied_inverse ps =
     list_all (\<lambda>(mid, seal). pe_application seal \<noteq> Applied \<or> pe_phase seal \<noteq> ParentSealIntent \<or>
       list_ex (\<lambda>(_, inv). pe_application inv = Applied \<and> pe_phase inv = SourceParentRestoreIntent \<and>
         pe_reverses inv = Some mid) ps) ps"

definition all_applied_tree_seals_have_applied_inverse :: "permission_scan \<Rightarrow> bool" where
  "all_applied_tree_seals_have_applied_inverse ps =
     list_all (\<lambda>(mid, seal). pe_application seal \<noteq> Applied \<or> pe_phase seal \<noteq> TreeSealIntent \<or>
       list_ex (\<lambda>(_, inv). pe_application inv = Applied \<and> pe_phase inv = UndoIntent \<and>
         pe_reverses inv = Some mid) ps) ps"

definition active_permission_seals_by_scan :: "permission_scan \<Rightarrow> nat" where
  "active_permission_seals_by_scan ps =
     length (filter (\<lambda>(mid, seal). pe_application seal = Applied \<and> pe_reverses seal = None \<and>
       \<not> list_ex (\<lambda>(_, inv). pe_application inv = Applied \<and> pe_reverses inv = Some mid) ps) ps)"

definition phase_completion_is_valid ::
  "permission_scan \<Rightarrow> transaction_state \<Rightarrow> transaction_state \<Rightarrow> bool" where
  "phase_completion_is_valid ps from to =
     (case completed_phase from to of
        None \<Rightarrow> True
      | Some phase \<Rightarrow>
          list_all (\<lambda>(_, e). pe_phase e = phase \<longrightarrow>
            pe_application e = Applied \<or>
            (phase = SourceParentRestoreIntent \<or> phase = UndoIntent) \<and>
            pe_application e = ConfirmedNotApplied) ps)"

definition staging_parent_strategy_is_complete :: "staging_metadata option \<Rightarrow> permission_scan \<Rightarrow> bool" where
  "staging_parent_strategy_is_complete metadata ps =
     (case metadata of
        None \<Rightarrow> True
      | Some m \<Rightarrow>
          let parents = filter (\<lambda>(_, e). pe_phase e = ParentSealIntent) ps
          in (case sm_source_parent_strategy m of
                PermissionSeal \<Rightarrow> parents \<noteq> [] \<and> list_all (\<lambda>(_, e). pe_application e = Applied) parents
              | AlreadyExclusive _ \<Rightarrow> parents = []))"

section \<open>The invariant\<close>

definition seal_phase :: "transaction_state \<Rightarrow> bool" where
  "seal_phase p \<longleftrightarrow> p = ParentSealIntent \<or> p = TreeSealIntent"

definition inverse_phase :: "transaction_state \<Rightarrow> bool" where
  "inverse_phase p \<longleftrightarrow>
     p \<in> {RestoreIntent, SourceParentRestoreIntent, RollbackIntent, UndoIntent, Quarantined}"

type_synonym entries = "u64 \<rightharpoonup> permission_entry"

definition ledger_entries :: "permission_ledger \<Rightarrow> entries" where
  "ledger_entries l = map_of (lg_permissions l)"

text \<open>An inverse reverses a seal of a given phase; a resolution its phase accepts completes it.\<close>

definition reverses_in :: "entries \<Rightarrow> transaction_state \<Rightarrow> permission_entry \<Rightarrow> bool" where
  "reverses_in m phase e \<longleftrightarrow>
     (\<exists>orig seal. pe_reverses e = Some orig \<and> m orig = Some seal \<and> pe_phase seal = phase)"

definition entry_accepted :: "permission_entry \<Rightarrow> bool" where
  "entry_accepted e \<longleftrightarrow> pe_application e = Applied \<or>
     (pe_phase e = SourceParentRestoreIntent \<or> pe_phase e = UndoIntent) \<and>
     pe_application e = ConfirmedNotApplied"

definition tallies_ok :: "permission_ledger \<Rightarrow> bool" where
  "tallies_ok l \<longleftrightarrow>
     lg_recorded l = count_map (\<lambda>_ _. True) (ledger_entries l) \<and>
     lg_resolved l = count_map (\<lambda>_ e. pe_application e \<noteq> ApplicationUnknown) (ledger_entries l) \<and>
     (\<forall>p. pt_recorded (ledger_phase l p) = count_map (\<lambda>_ e. pe_phase e = p) (ledger_entries l)) \<and>
     (\<forall>p. pt_completed (ledger_phase l p) =
        count_map (\<lambda>_ e. pe_phase e = p \<and> entry_accepted e) (ledger_entries l))"

definition coverage_ok :: "permission_ledger \<Rightarrow> bool" where
  "coverage_ok l \<longleftrightarrow>
     applied_parent_seals (lg_coverage l) =
       count_map (\<lambda>_ e. pe_application e = Applied \<and> pe_phase e = ParentSealIntent) (ledger_entries l) \<and>
     applied_tree_seals (lg_coverage l) =
       count_map (\<lambda>_ e. pe_application e = Applied \<and> pe_phase e = TreeSealIntent) (ledger_entries l) \<and>
     reversed_parent_seals (lg_coverage l) =
       count_map (\<lambda>_ e. pe_application e = Applied \<and> reverses_in (ledger_entries l) ParentSealIntent e)
         (ledger_entries l) \<and>
     reversed_tree_seals (lg_coverage l) =
       count_map (\<lambda>_ e. pe_application e = Applied \<and> reverses_in (ledger_entries l) TreeSealIntent e)
         (ledger_entries l) \<and>
     restored_parent_seals (lg_coverage l) =
       count_map (\<lambda>_ e. pe_application e = Applied \<and> pe_phase e = SourceParentRestoreIntent \<and>
         reverses_in (ledger_entries l) ParentSealIntent e) (ledger_entries l) \<and>
     undone_tree_seals (lg_coverage l) =
       count_map (\<lambda>_ e. pe_application e = Applied \<and> pe_phase e = UndoIntent \<and>
         reverses_in (ledger_entries l) TreeSealIntent e) (ledger_entries l)"

definition entry_linked :: "entries \<Rightarrow> permission_entry \<Rightarrow> bool" where
  "entry_linked m e \<longleftrightarrow>
     (case pe_reverses e of
        None \<Rightarrow> seal_phase (pe_phase e)
      | Some orig \<Rightarrow> inverse_phase (pe_phase e) \<and>
          (\<exists>seal. m orig = Some seal \<and> pe_application seal = Applied \<and> pe_reverses seal = None))"

definition links_ok :: "permission_ledger \<Rightarrow> bool" where
  "links_ok l \<longleftrightarrow>
     (\<forall>k e. ledger_entries l k = Some e \<longrightarrow> entry_linked (ledger_entries l) e) \<and>
     (\<forall>orig i. lg_active_inverses l orig = Some i \<longleftrightarrow>
        (\<exists>e. ledger_entries l i = Some e \<and> pe_reverses e = Some orig \<and>
             pe_application e \<noteq> ConfirmedNotApplied))"

definition ledger_inv :: "permission_ledger \<Rightarrow> bool" where
  "ledger_inv l \<longleftrightarrow> bt_sorted (lg_permissions l) \<and> tallies_ok l \<and> coverage_ok l \<and> links_ok l"

text \<open>What append and replay check before an intent is recorded, as far as the ledger is concerned.\<close>

definition admissible :: "permission_ledger \<Rightarrow> durable_permission \<Rightarrow> bool" where
  "admissible l p \<longleftrightarrow>
     ledger_entry l (dp_mutation_id p) = None \<and>
     (case dp_reverses p of
        None \<Rightarrow> seal_phase (dp_phase p)
      | Some orig \<Rightarrow> inverse_phase (dp_phase p) \<and> lg_active_inverses l orig = None \<and>
          (\<exists>seal. ledger_entry l orig = Some seal \<and> pe_application seal = Applied \<and>
             pe_reverses seal = None))"

lemma ledger_entry_eq: "ledger_entry l = ledger_entries l"
  by (simp add: ledger_entry_def ledger_entries_def fun_eq_iff)

lemma finite_ledger_entries [simp]: "finite (dom (ledger_entries l))"
  by (simp add: ledger_entries_def finite_dom_map_of)

lemma ledger_default_inv: "ledger_inv ledger_default"
  by (simp add: ledger_inv_def ledger_default_def bt_sorted_def tallies_ok_def coverage_ok_def
      links_ok_def ledger_entries_def coverage_default_def ledger_phase_def tally_default_def)

lemma seal_not_inverse: "seal_phase p \<Longrightarrow> \<not> inverse_phase p"
  by (auto simp: seal_phase_def inverse_phase_def)

subsection \<open>Recording an intent\<close>

definition new_entry :: "durable_permission \<Rightarrow> frame_extent option \<Rightarrow> permission_entry" where
  "new_entry p frame = \<lparr>pe_frame = frame, pe_reverses = dp_reverses p, pe_phase = dp_phase p,
     pe_application = ApplicationUnknown\<rparr>"

lemma ledger_entries_record_intent:
  assumes "bt_sorted (lg_permissions l)"
  shows "ledger_entries (record_intent p frame l) =
           (ledger_entries l)(dp_mutation_id p \<mapsto> new_entry p frame)"
  using assms by (simp add: ledger_entries_def record_intent_def Let_def map_of_bt_insert new_entry_def)

lemma reverses_in_new:
  assumes "links_ok l" "ledger_entries l k = None" "ledger_entries l i = Some e"
  shows "reverses_in ((ledger_entries l)(k \<mapsto> v)) phase e = reverses_in (ledger_entries l) phase e"
proof -
  have linked: "entry_linked (ledger_entries l) e" using assms(1,3) by (simp add: links_ok_def)
  show ?thesis
  proof (cases "pe_reverses e")
    case (Some orig)
    with linked assms(2) have "orig \<noteq> k" by (auto simp: entry_linked_def)
    with Some show ?thesis by (simp add: reverses_in_def)
  qed (simp add: reverses_in_def)
qed

lemma tallies_record_intent:
  assumes "ledger_inv l" "admissible l p"
  shows "tallies_ok (record_intent p frame l)"
proof -
  let ?m = "ledger_entries l" and ?k = "dp_mutation_id p" and ?e = "new_entry p frame"
  have fresh: "?m ?k = None" using assms(2) by (simp add: admissible_def ledger_entry_eq)
  have m: "ledger_entries (record_intent p frame l) = ?m(?k \<mapsto> ?e)"
    using assms(1) by (simp add: ledger_inv_def ledger_entries_record_intent)
  have phases: "ledger_phase (record_intent p frame l) q =
      (if q = dp_phase p then (ledger_phase l q)\<lparr>pt_recorded := pt_recorded (ledger_phase l q) + 1\<rparr>
       else ledger_phase l q)" for q
    by (simp add: ledger_phase_def record_intent_def Let_def)
  have counters: "lg_recorded (record_intent p frame l) = lg_recorded l + 1"
    "lg_resolved (record_intent p frame l) = lg_resolved l"
    by (simp_all add: record_intent_def Let_def)
  note upd = count_map_new [of ?m ?k, OF finite_ledger_entries fresh]
  show ?thesis
    using assms(1) unfolding tallies_ok_def ledger_inv_def m
    by (simp add: upd phases counters new_entry_def entry_accepted_def)
qed

lemma coverage_record_intent:
  assumes "ledger_inv l" "admissible l p"
  shows "coverage_ok (record_intent p frame l)"
proof -
  let ?m = "ledger_entries l" and ?k = "dp_mutation_id p" and ?e = "new_entry p frame"
  have fresh: "?m ?k = None" using assms(2) by (simp add: admissible_def ledger_entry_eq)
  have links: "links_ok l" using assms(1) by (simp add: ledger_inv_def)
  have m: "ledger_entries (record_intent p frame l) = ?m(?k \<mapsto> ?e)"
    using assms(1) by (simp add: ledger_inv_def ledger_entries_record_intent)
  have same: "count_map (\<lambda>_ e. pe_application e = Applied \<and> Q e \<and> reverses_in (?m(?k \<mapsto> ?e)) ph e) ?m =
      count_map (\<lambda>_ e. pe_application e = Applied \<and> Q e \<and> reverses_in ?m ph e) ?m" for Q ph
    using reverses_in_new [OF links fresh] by (intro count_map_cong) auto
  have cov: "lg_coverage (record_intent p frame l) = lg_coverage l"
    by (simp add: record_intent_def Let_def)
  note upd = count_map_new [of ?m ?k, OF finite_ledger_entries fresh]
  show ?thesis
    using assms(1) same [of "\<lambda>_. True"] same unfolding coverage_ok_def ledger_inv_def m cov
    by (simp add: upd) (simp add: new_entry_def)
qed

lemma links_record_intent:
  assumes "ledger_inv l" "admissible l p"
  shows "links_ok (record_intent p frame l)"
proof -
  let ?m = "ledger_entries l" and ?k = "dp_mutation_id p" and ?e = "new_entry p frame"
  have fresh: "?m ?k = None" using assms(2) by (simp add: admissible_def ledger_entry_eq)
  have links: "links_ok l" using assms(1) by (simp add: ledger_inv_def)
  have m: "ledger_entries (record_intent p frame l) = ?m(?k \<mapsto> ?e)"
    using assms(1) by (simp add: ledger_inv_def ledger_entries_record_intent)
  have "entry_linked (?m(?k \<mapsto> ?e)) ?e"
    using assms(2) fresh
    by (auto simp: admissible_def ledger_entry_eq entry_linked_def new_entry_def split: option.splits)
  moreover have "entry_linked (?m(?k \<mapsto> ?e)) e" if "?m i = Some e" for i e
    using links that fresh by (fastforce simp: links_ok_def entry_linked_def split: option.splits)
  moreover have "lg_active_inverses (record_intent p frame l) orig = Some i \<longleftrightarrow>
      (\<exists>e. (?m(?k \<mapsto> ?e)) i = Some e \<and> pe_reverses e = Some orig \<and>
         pe_application e \<noteq> ConfirmedNotApplied)" for orig i
  proof -
    have active: "lg_active_inverses l orig = Some i \<longleftrightarrow>
      (\<exists>e. ?m i = Some e \<and> pe_reverses e = Some orig \<and> pe_application e \<noteq> ConfirmedNotApplied)"
      for orig i
      using links by (simp add: links_ok_def)
    show ?thesis
    proof (cases "dp_reverses p")
      case None
      then show ?thesis using active fresh by (auto simp: record_intent_def Let_def new_entry_def)
    next
      case (Some o')
      with assms(2) have "lg_active_inverses l o' = None" by (simp add: admissible_def)
      with active have "\<And>j e. ?m j = Some e \<Longrightarrow> pe_reverses e = Some o' \<Longrightarrow>
          pe_application e = ConfirmedNotApplied"
        by (metis option.distinct(1))
      then show ?thesis using active Some fresh by (auto simp: record_intent_def Let_def new_entry_def)
    qed
  qed
  ultimately show ?thesis unfolding links_ok_def m by (auto split: if_splits)
qed

lemma record_intent_inv: "ledger_inv l \<Longrightarrow> admissible l p \<Longrightarrow> ledger_inv (record_intent p frame l)"
  using tallies_record_intent coverage_record_intent links_record_intent
  by (simp add: ledger_inv_def) (simp add: record_intent_def Let_def bt_sorted_insert)

subsection \<open>Recording a resolution\<close>

definition resolved_entry :: "permission_resolution \<Rightarrow> permission_entry \<Rightarrow> permission_entry" where
  "resolved_entry r e = e\<lparr>pe_application := resolution_status r\<rparr>"

lemma resolved_entry_simps [simp]:
  "pe_phase (resolved_entry r e) = pe_phase e" "pe_reverses (resolved_entry r e) = pe_reverses e"
  "pe_frame (resolved_entry r e) = pe_frame e"
  "pe_application (resolved_entry r e) = resolution_status r"
  by (simp_all add: resolved_entry_def)

lemma resolution_status_known [simp]: "resolution_status r \<noteq> ApplicationUnknown"
  "ApplicationUnknown \<noteq> resolution_status r"
  by (cases r; simp)+

text \<open>What an applied resolution adds to the coverage.\<close>

definition coverage_after ::
  "entries \<Rightarrow> permission_resolution \<Rightarrow> permission_entry \<Rightarrow> seal_coverage \<Rightarrow> seal_coverage" where
  "coverage_after m r e c =
     (case r of
        ResolvedNotApplied \<Rightarrow> c
      | ResolvedApplied \<Rightarrow>
          (case pe_reverses e of
             None \<Rightarrow> record_applied_seal (pe_phase e) c
           | Some orig \<Rightarrow> record_applied_inverse (pe_phase (the (m orig))) (pe_phase e)
               (record_applied_seal (pe_phase e) c)))"

lemma record_resolution_fields:
  assumes inv: "ledger_inv l" and e: "ledger_entry l mid = Some e"
    and unknown: "pe_application e = ApplicationUnknown"
  obtains l' where "record_resolution mid r l = Some l'"
    "bt_sorted (lg_permissions l')"
    "ledger_entries l' = (ledger_entries l)(mid \<mapsto> resolved_entry r e)"
    "lg_recorded l' = lg_recorded l" "lg_resolved l' = lg_resolved l + 1"
    "\<And>p. ledger_phase l' p =
       (if p = pe_phase e \<and> phase_accepts_resolution p r
        then (ledger_phase l p)\<lparr>pt_completed := pt_completed (ledger_phase l p) + 1\<rparr>
        else ledger_phase l p)"
    "lg_coverage l' = coverage_after (ledger_entries l) r e (lg_coverage l)"
    "lg_active_inverses l' =
       (case r of ResolvedApplied \<Rightarrow> lg_active_inverses l
        | ResolvedNotApplied \<Rightarrow>
            (case pe_reverses e of None \<Rightarrow> lg_active_inverses l
             | Some orig \<Rightarrow> (lg_active_inverses l)(orig := None)))"
proof -
  have sorted: "bt_sorted (lg_permissions l)" and links: "links_ok l"
    using inv by (simp_all add: ledger_inv_def)
  have m: "map_of (lg_permissions l) = ledger_entries l" by (simp add: ledger_entries_def)
  have e': "ledger_entries l mid = Some e" using e by (simp add: ledger_entry_eq)
  have seal: "\<exists>seal. ledger_entries l orig = Some seal \<and> orig \<noteq> mid"
    if "pe_reverses e = Some orig" for orig
    using links e' that unknown by (fastforce simp: links_ok_def entry_linked_def)
  define A where "A = (case r of ResolvedApplied \<Rightarrow> lg_active_inverses l
        | ResolvedNotApplied \<Rightarrow>
            (case pe_reverses e of None \<Rightarrow> lg_active_inverses l
             | Some orig \<Rightarrow> (lg_active_inverses l)(orig := None)))"
  define H where "H = (if phase_accepts_resolution (pe_phase e) r
       then (lg_phases l)(pe_phase e \<mapsto>
         (ledger_phase l (pe_phase e))\<lparr>pt_completed := pt_completed (ledger_phase l (pe_phase e)) + 1\<rparr>)
       else lg_phases l)"
  define P where "P = bt_insert mid (resolved_entry r e) (lg_permissions l)"
  let ?l = "l\<lparr>lg_permissions := P, lg_resolved := lg_resolved l + 1, lg_phases := H,
    lg_coverage := coverage_after (ledger_entries l) r e (lg_coverage l), lg_active_inverses := A\<rparr>"
  have P: "map_of P = (ledger_entries l)(mid \<mapsto> resolved_entry r e)"
    using sorted by (simp add: P_def map_of_bt_insert m)
  have "record_resolution mid r l = Some ?l"
  proof (cases r)
    case ResolvedApplied
    show ?thesis
    proof (cases "pe_reverses e")
      case None
      then show ?thesis unfolding ResolvedApplied A_def H_def P_def
        by (cases l) (use e ResolvedApplied in \<open>simp add: record_resolution_def Let_def coverage_after_def resolved_entry_def\<close>)
    next
      case (Some orig)
      with seal obtain s where "ledger_entries l orig = Some s" "orig \<noteq> mid" by blast
      then have "map_of (bt_insert mid (e\<lparr>pe_application := Applied\<rparr>) (lg_permissions l)) orig = Some s"
        "the (ledger_entries l orig) = s"
        using P unfolding P_def ResolvedApplied resolved_entry_def by simp_all
      then show ?thesis unfolding ResolvedApplied A_def H_def P_def
        using e Some ResolvedApplied
        by (cases l) (simp add: record_resolution_def Let_def coverage_after_def resolved_entry_def)
    qed
  next
    case ResolvedNotApplied
    show ?thesis unfolding ResolvedNotApplied A_def H_def P_def
      by (cases l; cases "pe_reverses e")
         (use e ResolvedNotApplied in \<open>simp_all add: record_resolution_def Let_def coverage_after_def resolved_entry_def\<close>)
  qed
  moreover have "ledger_entries ?l = (ledger_entries l)(mid \<mapsto> resolved_entry r e)"
    unfolding P [symmetric] by (simp add: ledger_entries_def)
  moreover have "bt_sorted P" using sorted by (simp add: P_def bt_sorted_insert)
  moreover have "ledger_phase ?l p =
     (if p = pe_phase e \<and> phase_accepts_resolution p r
      then (ledger_phase l p)\<lparr>pt_completed := pt_completed (ledger_phase l p) + 1\<rparr>
      else ledger_phase l p)" for p
    by (simp add: ledger_phase_def H_def)
  ultimately show thesis by (intro that [of ?l]) (simp_all add: A_def)
qed

lemma record_resolution_facts:
  assumes inv: "ledger_inv l" and e: "ledger_entry l mid = Some e"
    and unknown: "pe_application e = ApplicationUnknown" and l': "record_resolution mid r l = Some l'"
  shows "bt_sorted (lg_permissions l')"
    "ledger_entries l' = (ledger_entries l)(mid \<mapsto> resolved_entry r e)"
    "lg_recorded l' = lg_recorded l" "lg_resolved l' = lg_resolved l + 1"
    "ledger_phase l' p =
       (if p = pe_phase e \<and> phase_accepts_resolution p r
        then (ledger_phase l p)\<lparr>pt_completed := pt_completed (ledger_phase l p) + 1\<rparr>
        else ledger_phase l p)"
    "lg_coverage l' = coverage_after (ledger_entries l) r e (lg_coverage l)"
    "lg_active_inverses l' =
       (case r of ResolvedApplied \<Rightarrow> lg_active_inverses l
        | ResolvedNotApplied \<Rightarrow>
            (case pe_reverses e of None \<Rightarrow> lg_active_inverses l
             | Some orig \<Rightarrow> (lg_active_inverses l)(orig := None)))"
proof -
  have "\<And>x. record_resolution mid r l = Some x \<Longrightarrow> x = l'" using l' by simp
  note unique = this
  show "bt_sorted (lg_permissions l')"
    "ledger_entries l' = (ledger_entries l)(mid \<mapsto> resolved_entry r e)"
    "lg_recorded l' = lg_recorded l" "lg_resolved l' = lg_resolved l + 1"
    "ledger_phase l' p =
       (if p = pe_phase e \<and> phase_accepts_resolution p r
        then (ledger_phase l p)\<lparr>pt_completed := pt_completed (ledger_phase l p) + 1\<rparr>
        else ledger_phase l p)"
    "lg_coverage l' = coverage_after (ledger_entries l) r e (lg_coverage l)"
    "lg_active_inverses l' =
       (case r of ResolvedApplied \<Rightarrow> lg_active_inverses l
        | ResolvedNotApplied \<Rightarrow>
            (case pe_reverses e of None \<Rightarrow> lg_active_inverses l
             | Some orig \<Rightarrow> (lg_active_inverses l)(orig := None)))"
    by (rule record_resolution_fields [OF inv e unknown, of r], drule unique, simp only:)+
qed

lemma reverses_in_resolved:
  "m mid = Some e \<Longrightarrow> reverses_in (m(mid \<mapsto> resolved_entry r e)) phase = reverses_in m phase"
  by (auto simp: reverses_in_def fun_eq_iff)

lemma entry_accepted_resolved:
  "entry_accepted (resolved_entry r e) \<longleftrightarrow> phase_accepts_resolution (pe_phase e) r"
  by (cases r) (simp_all add: entry_accepted_def)

lemma record_resolution_tallies:
  assumes inv: "ledger_inv l" and e: "ledger_entry l mid = Some e"
    and unknown: "pe_application e = ApplicationUnknown" and l': "record_resolution mid r l = Some l'"
  shows "tallies_ok l'"
proof -
  note upd = count_map_upd [of "ledger_entries l" mid e, OF finite_ledger_entries
      e [unfolded ledger_entry_eq], where v = "resolved_entry r e"]
  note facts = record_resolution_facts [OF assms]
  have "\<not> entry_accepted e" using unknown by (simp add: entry_accepted_def)
  then show ?thesis
    using inv unknown upd [of "\<lambda>_ _. True"] upd [of "\<lambda>_ e. pe_application e \<noteq> ApplicationUnknown"]
      upd [of "\<lambda>_ e. pe_phase e = p" for p] upd [of "\<lambda>_ e. pe_phase e = p \<and> entry_accepted e" for p]
    by (auto simp: tallies_ok_def ledger_inv_def entry_accepted_resolved facts)
qed

lemma coverage_after_simps:
  assumes "entry_linked m e"
  shows "applied_parent_seals (coverage_after m r e c) =
      applied_parent_seals c + of_bool (r = ResolvedApplied \<and> pe_phase e = ParentSealIntent)"
    "applied_tree_seals (coverage_after m r e c) =
      applied_tree_seals c + of_bool (r = ResolvedApplied \<and> pe_phase e = TreeSealIntent)"
    "reversed_parent_seals (coverage_after m r e c) =
      reversed_parent_seals c + of_bool (r = ResolvedApplied \<and> reverses_in m ParentSealIntent e)"
    "reversed_tree_seals (coverage_after m r e c) =
      reversed_tree_seals c + of_bool (r = ResolvedApplied \<and> reverses_in m TreeSealIntent e)"
    "restored_parent_seals (coverage_after m r e c) = restored_parent_seals c +
      of_bool (r = ResolvedApplied \<and> pe_phase e = SourceParentRestoreIntent \<and> reverses_in m ParentSealIntent e)"
    "undone_tree_seals (coverage_after m r e c) = undone_tree_seals c +
      of_bool (r = ResolvedApplied \<and> pe_phase e = UndoIntent \<and> reverses_in m TreeSealIntent e)"
  using assms
  by (cases r; cases "pe_reverses e";
      auto simp: coverage_after_def record_applied_seal_def record_applied_inverse_def reverses_in_def
        entry_linked_def)+

lemma record_resolution_coverage:
  assumes inv: "ledger_inv l" and e: "ledger_entry l mid = Some e"
    and unknown: "pe_application e = ApplicationUnknown" and l': "record_resolution mid r l = Some l'"
  shows "coverage_ok l'"
proof -
  have e': "ledger_entries l mid = Some e" using e by (simp add: ledger_entry_eq)
  have cov: "coverage_ok l" and linked: "entry_linked (ledger_entries l) e"
    using inv e' by (simp_all add: ledger_inv_def links_ok_def)
  note facts = record_resolution_facts [OF assms]
  have upd: "count_map (\<lambda>_ e. pe_application e = Applied \<and> Q e)
      ((ledger_entries l)(mid \<mapsto> resolved_entry r e)) =
    count_map (\<lambda>_ e. pe_application e = Applied \<and> Q e) (ledger_entries l) +
    of_bool (r = ResolvedApplied \<and> Q e)" if "Q (resolved_entry r e) = Q e" for Q
    using count_map_upd [of "ledger_entries l" mid e "\<lambda>_ e. pe_application e = Applied \<and> Q e"
        "resolved_entry r e"] e' unknown that
    by (cases r) simp_all
  have rev: "reverses_in m ph (resolved_entry r e) = reverses_in m ph e" for m ph
    by (simp add: reverses_in_def)
  show ?thesis
    using cov unfolding coverage_ok_def facts coverage_after_simps [OF linked]
      reverses_in_resolved [of "ledger_entries l" mid e, OF e']
    by (simp add: upd rev)
qed

lemma record_resolution_links:
  assumes inv: "ledger_inv l" and e: "ledger_entry l mid = Some e"
    and unknown: "pe_application e = ApplicationUnknown" and l': "record_resolution mid r l = Some l'"
  shows "links_ok l'"
proof -
  let ?m = "ledger_entries l"
  have e': "?m mid = Some e" using e by (simp add: ledger_entry_eq)
  have links: "links_ok l" using inv by (simp add: ledger_inv_def)
  note facts = record_resolution_facts [OF assms]
  have linked: "entry_linked ?m x \<Longrightarrow> entry_linked (?m(mid \<mapsto> resolved_entry r e)) x" for x
    using e' unknown by (auto simp: entry_linked_def split: option.splits)
  have "entry_linked ?m e" using links e' by (simp add: links_ok_def)
  from linked [OF this] have "entry_linked (?m(mid \<mapsto> resolved_entry r e)) (resolved_entry r e)"
    by (cases "pe_reverses e") (simp_all add: entry_linked_def)
  moreover have "lg_active_inverses l' orig = Some i \<longleftrightarrow>
      (\<exists>x. (?m(mid \<mapsto> resolved_entry r e)) i = Some x \<and> pe_reverses x = Some orig \<and>
         pe_application x \<noteq> ConfirmedNotApplied)" for orig i
  proof -
    have active: "lg_active_inverses l orig = Some i \<longleftrightarrow>
      (\<exists>x. ?m i = Some x \<and> pe_reverses x = Some orig \<and> pe_application x \<noteq> ConfirmedNotApplied)"
      for orig i using links by (simp add: links_ok_def)
    have held: "pe_reverses e = Some q \<Longrightarrow> lg_active_inverses l q = Some mid" for q
      using active [of q mid] e' unknown by auto
    show ?thesis
    proof (cases r)
      case ResolvedApplied
      then show ?thesis using active [of orig i] e' unknown by (auto simp: facts)
    next
      case ResolvedNotApplied
      show ?thesis
      proof (cases "pe_reverses e")
        case None
        then show ?thesis using active [of orig i] e' ResolvedNotApplied by (auto simp: facts)
      next
        case (Some q)
        then have mid: "\<And>j. lg_active_inverses l q = Some j \<longleftrightarrow> j = mid" using held by auto
        show ?thesis using active [of orig i] mid [of i] e' ResolvedNotApplied Some by (auto simp: facts)
      qed
    qed
  qed
  ultimately show ?thesis using linked links unfolding links_ok_def facts by (auto split: if_splits)
qed

lemma record_resolution_inv:
  assumes "ledger_inv l" "ledger_entry l mid = Some e" "pe_application e = ApplicationUnknown"
  shows "\<exists>l'. record_resolution mid r l = Some l' \<and> ledger_inv l'"
proof -
  obtain l' where l': "record_resolution mid r l = Some l'"
    using record_resolution_fields [OF assms] by blast
  with record_resolution_facts(1) [OF assms l'] record_resolution_tallies [OF assms l']
    record_resolution_coverage [OF assms l'] record_resolution_links [OF assms l']
  show ?thesis by (simp add: ledger_inv_def)
qed

section \<open>The tallies answer the scans\<close>

definition reversed_by :: "entries \<Rightarrow> (permission_entry \<Rightarrow> bool) \<Rightarrow> u64 \<Rightarrow> bool" where
  "reversed_by m R k \<longleftrightarrow>
     (\<exists>i e. m i = Some e \<and> pe_application e = Applied \<and> R e \<and> pe_reverses e = Some k)"

lemma original_applied:
  assumes "links_ok l" "ledger_entries l i = Some e" "pe_reverses e = Some k"
  shows "\<exists>seal. ledger_entries l k = Some seal \<and> pe_application seal = Applied \<and> pe_reverses seal = None"
proof -
  have "entry_linked (ledger_entries l) e" using assms by (simp add: links_ok_def)
  with assms(3) show ?thesis by (simp add: entry_linked_def)
qed

text \<open>Each applied seal has at most one live inverse, so applied inverses count reversed seals.\<close>

lemma inverse_count:
  assumes "links_ok l" "m = ledger_entries l"
  shows "count_map (\<lambda>_ e. pe_application e = Applied \<and> R e \<and> reverses_in m phase e) m =
    count_map (\<lambda>k s. pe_application s = Applied \<and> pe_phase s = phase \<and> reversed_by m R k) m"
proof -
  let ?I = "{i. \<exists>e. m i = Some e \<and> pe_application e = Applied \<and> R e \<and> reverses_in m phase e}"
  let ?S = "{k. \<exists>s. m k = Some s \<and> pe_application s = Applied \<and> pe_phase s = phase \<and> reversed_by m R k}"
  define f where "f i = the (pe_reverses (the (m i)))" for i
  have inj: "inj_on f ?I"
  proof (rule inj_onI)
    fix i j assume ij: "i \<in> ?I" "j \<in> ?I" "f i = f j"
    then obtain q where "pe_reverses (the (m i)) = Some q" "pe_reverses (the (m j)) = Some q"
      by (auto simp: f_def reverses_in_def)
    with ij assms have "lg_active_inverses l q = Some i" "lg_active_inverses l q = Some j"
      unfolding links_ok_def by auto
    then show "i = j" by simp
  qed
  have image: "f ` ?I = ?S"
  proof
    show "f ` ?I \<subseteq> ?S"
    proof
      fix k assume "k \<in> f ` ?I"
      then obtain i e where ie: "m i = Some e" "pe_application e = Applied" "R e" "reverses_in m phase e" "k = f i"
        by auto
      then obtain s where s: "pe_reverses e = Some k" "m k = Some s" "pe_phase s = phase"
        by (auto simp: f_def reverses_in_def)
      moreover have "pe_application s = Applied"
        using original_applied [OF assms(1), of i e k] assms(2) ie(1) s(1,2) by auto
      ultimately show "k \<in> ?S" using ie by (auto simp: reversed_by_def)
    qed
    show "?S \<subseteq> f ` ?I"
    proof
      fix k assume "k \<in> ?S"
      then obtain s i e where "m k = Some s" "pe_phase s = phase" "m i = Some e"
        "pe_application e = Applied" "R e" "pe_reverses e = Some k"
        by (auto simp: reversed_by_def)
      then have "i \<in> ?I" "f i = k" by (auto simp: reverses_in_def f_def)
      then show "k \<in> f ` ?I" by blast
    qed
  qed
  have "card ?I = card ?S" using card_image [OF inj] unfolding image by (rule sym)
  then show ?thesis by (simp only: count_map_def)
qed

lemma all_reversed_iff:
  assumes "links_ok l" "m = ledger_entries l"
  shows "count_map (\<lambda>_ e. pe_application e = Applied \<and> R e \<and> reverses_in m phase e) m =
         count_map (\<lambda>_ s. pe_application s = Applied \<and> pe_phase s = phase) m \<longleftrightarrow>
         (\<forall>k s. m k = Some s \<longrightarrow> pe_application s = Applied \<longrightarrow> pe_phase s = phase \<longrightarrow> reversed_by m R k)"
  unfolding inverse_count [OF assms]
  by (subst count_map_eq_iff) (auto simp: assms(2))

lemma list_ex_entries:
  "bt_sorted ps \<Longrightarrow> list_ex (\<lambda>(k, e). Q k e) ps \<longleftrightarrow> (\<exists>k e. map_of ps k = Some e \<and> Q k e)"
  using bt.entries_mem_iff [of ps] by (auto simp: list_ex_iff)

lemma list_all_entries:
  "bt_sorted ps \<Longrightarrow> list_all (\<lambda>(k, e). Q k e) ps \<longleftrightarrow> (\<forall>k e. map_of ps k = Some e \<longrightarrow> Q k e)"
  using bt.entries_mem_iff [of ps] by (fastforce simp: list_all_iff)

lemmas entries_scan = list_ex_entries list_all_entries

lemma coverage_answers:
  assumes "ledger_inv l"
  shows "every_applied_seal_is_reversed (lg_coverage l) \<longleftrightarrow>
      all_applied_seals_have_applied_inverse (lg_permissions l)"
    "every_applied_parent_seal_is_restored (lg_coverage l) \<longleftrightarrow>
      all_applied_parent_seals_have_applied_inverse (lg_permissions l)"
    "every_applied_tree_seal_is_undone (lg_coverage l) \<longleftrightarrow>
      all_applied_tree_seals_have_applied_inverse (lg_permissions l)"
proof -
  have sorted: "bt_sorted (lg_permissions l)" and cov: "coverage_ok l" and links: "links_ok l"
    using assms by (simp_all add: ledger_inv_def)
  note all = all_reversed_iff [OF links refl]
  note scan = entries_scan [OF sorted, folded ledger_entries_def]
  show "every_applied_seal_is_reversed (lg_coverage l) \<longleftrightarrow>
      all_applied_seals_have_applied_inverse (lg_permissions l)"
    using cov all [of "\<lambda>_. True" ParentSealIntent] all [of "\<lambda>_. True" TreeSealIntent]
    by (auto simp: every_applied_seal_is_reversed_def coverage_ok_def scan reversed_by_def
        all_applied_seals_have_applied_inverse_def)
  show "every_applied_parent_seal_is_restored (lg_coverage l) \<longleftrightarrow>
      all_applied_parent_seals_have_applied_inverse (lg_permissions l)"
    using cov all [of "\<lambda>e. pe_phase e = SourceParentRestoreIntent" ParentSealIntent]
    by (auto simp: every_applied_parent_seal_is_restored_def coverage_ok_def scan reversed_by_def
        all_applied_parent_seals_have_applied_inverse_def)
  show "every_applied_tree_seal_is_undone (lg_coverage l) \<longleftrightarrow>
      all_applied_tree_seals_have_applied_inverse (lg_permissions l)"
    using cov all [of "\<lambda>e. pe_phase e = UndoIntent" TreeSealIntent]
    by (auto simp: every_applied_tree_seal_is_undone_def coverage_ok_def scan reversed_by_def
        all_applied_tree_seals_have_applied_inverse_def)
qed

lemma active_seals_scan:
  assumes "ledger_inv l"
  shows "active_seals (lg_coverage l) = active_permission_seals_by_scan (lg_permissions l)"
proof -
  let ?m = "ledger_entries l"
  have sorted: "bt_sorted (lg_permissions l)" and cov: "coverage_ok l" and links: "links_ok l"
    using assms by (simp_all add: ledger_inv_def)
  let ?active = "\<lambda>ph. count_map (\<lambda>k s. (pe_application s = Applied \<and> pe_phase s = ph) \<and>
      \<not> reversed_by ?m (\<lambda>_. True) k) ?m"
  have part: "count_map (\<lambda>_ s. pe_application s = Applied \<and> pe_phase s = ph) ?m -
      count_map (\<lambda>_ e. pe_application e = Applied \<and> reverses_in ?m ph e) ?m = ?active ph" for ph
    using inverse_count [OF links refl, of "\<lambda>_. True" ph]
      count_map_split [of ?m "\<lambda>_ s. pe_application s = Applied \<and> pe_phase s = ph"
        "\<lambda>k _. reversed_by ?m (\<lambda>_. True) k"]
    by simp
  have seals: "pe_reverses s = None \<longleftrightarrow> pe_phase s = ParentSealIntent \<or> pe_phase s = TreeSealIntent"
    if "?m k = Some s" for k s
  proof -
    have "entry_linked ?m s" using links that by (simp add: links_ok_def)
    then show ?thesis
      using seal_not_inverse by (cases "pe_reverses s") (auto simp: entry_linked_def seal_phase_def)
  qed
  have "active_permission_seals_by_scan (lg_permissions l) =
      count_map (\<lambda>k s. pe_application s = Applied \<and> pe_reverses s = None \<and>
        \<not> reversed_by ?m (\<lambda>_. True) k) ?m"
    unfolding active_permission_seals_by_scan_def list_ex_entries [OF sorted]
    using count_map_filter [OF bt.entries_distinct [OF sorted], of "\<lambda>k s. pe_application s = Applied \<and>
        pe_reverses s = None \<and> \<not> reversed_by ?m (\<lambda>_. True) k"]
    by (simp add: reversed_by_def ledger_entries_def)
  also have "\<dots> = count_map (\<lambda>k s. (pe_application s = Applied \<and>
        (pe_phase s = ParentSealIntent \<or> pe_phase s = TreeSealIntent)) \<and>
        \<not> reversed_by ?m (\<lambda>_. True) k) ?m"
    using seals by (intro count_map_cong) auto
  also have "\<dots> = ?active ParentSealIntent + ?active TreeSealIntent"
    by (subst count_map_split [of _ _ "\<lambda>_ s. pe_phase s = ParentSealIntent"])
       (auto intro!: arg_cong2 [where f = plus] count_map_cong)
  finally show ?thesis
    using cov part by (simp add: active_seals_def coverage_ok_def)
qed

lemma unresolved_scan:
  assumes "ledger_inv l"
  shows "has_unresolved l \<longleftrightarrow>
    list_ex (\<lambda>(_, e). pe_application e = ApplicationUnknown) (lg_permissions l)"
proof -
  have sorted: "bt_sorted (lg_permissions l)" and tallies: "tallies_ok l"
    using assms by (simp_all add: ledger_inv_def)
  have "lg_resolved l = lg_recorded l \<longleftrightarrow>
      (\<forall>k e. ledger_entries l k = Some e \<longrightarrow> pe_application e \<noteq> ApplicationUnknown)"
    using tallies count_map_eq_iff [of "ledger_entries l"
        "\<lambda>_ e. pe_application e \<noteq> ApplicationUnknown" "\<lambda>_ _. True"]
    by (simp add: tallies_ok_def)
  then show ?thesis by (auto simp: has_unresolved_def list_ex_entries [OF sorted] ledger_entries_def)
qed

lemma phase_complete_scan:
  assumes "ledger_inv l"
  shows "tally_is_complete (ledger_phase l ph) \<longleftrightarrow>
    list_all (\<lambda>(_, e). pe_phase e = ph \<longrightarrow> entry_accepted e) (lg_permissions l)"
proof -
  have sorted: "bt_sorted (lg_permissions l)" and tallies: "tallies_ok l"
    using assms by (simp_all add: ledger_inv_def)
  have "tally_is_complete (ledger_phase l ph) \<longleftrightarrow>
      (\<forall>k e. ledger_entries l k = Some e \<longrightarrow> pe_phase e = ph \<longrightarrow> entry_accepted e)"
    using tallies count_map_eq_iff [of "ledger_entries l"
        "\<lambda>_ e. pe_phase e = ph \<and> entry_accepted e" "\<lambda>_ e. pe_phase e = ph"]
    by (auto simp: tallies_ok_def tally_is_complete_def)
  then show ?thesis by (simp add: list_all_entries [OF sorted] ledger_entries_def)
qed

lemma phase_recorded_scan:
  assumes "ledger_inv l"
  shows "pt_recorded (ledger_phase l ph) = 0 \<longleftrightarrow>
    filter (\<lambda>(_, e). pe_phase e = ph) (lg_permissions l) = []"
proof -
  have sorted: "bt_sorted (lg_permissions l)" and tallies: "tallies_ok l"
    using assms by (simp_all add: ledger_inv_def)
  then show ?thesis
    using count_map_filter [OF bt.entries_distinct [OF sorted], of "\<lambda>_ e. pe_phase e = ph"]
    by (simp add: tallies_ok_def ledger_entries_def flip: length_0_conv)
qed

lemma phase_completion_scan:
  "ledger_inv l \<Longrightarrow> phase_completion_is_recorded (Some l) from to \<longleftrightarrow>
     phase_completion_is_valid (lg_permissions l) from to"
  by (auto simp: phase_completion_is_recorded_def phase_completion_is_valid_def phase_complete_scan
      entry_accepted_def list_all_iff split: option.splits)

lemma parent_strategy_scan:
  assumes "ledger_inv l"
  shows "staging_parent_strategy_is_recorded md (Some l) \<longleftrightarrow>
     staging_parent_strategy_is_complete md (lg_permissions l)"
proof -
  have filter: "list_all (\<lambda>(_, e). pe_phase e = ParentSealIntent \<longrightarrow> entry_accepted e) ps \<longleftrightarrow>
      list_all (\<lambda>(_, e). pe_application e = Applied) (filter (\<lambda>(_, e). pe_phase e = ParentSealIntent) ps)"
    for ps
    by (induction ps) (auto simp: entry_accepted_def)
  show ?thesis
    using phase_complete_scan [OF assms, of ParentSealIntent]
      phase_recorded_scan [OF assms, of ParentSealIntent] filter [of "lg_permissions l"]
    by (simp add: staging_parent_strategy_is_recorded_def staging_parent_strategy_is_complete_def Let_def
        split: option.splits source_parent_strategy.splits)
qed

section \<open>Histories of a ledger\<close>

text \<open>
  Append and replay advance a ledger only after their checks passed. \<open>checks_pass\<close> says that every
  check of a sequence of updates passes when its turn comes; the contract of such a component is
  that checked updates neither panic nor leave the invariant.
\<close>

fun apply_all :: "('v \<Rightarrow> 's \<Rightarrow> 's option) \<Rightarrow> 'v list \<Rightarrow> 's \<Rightarrow> 's option" where
  "apply_all f [] s = Some s"
| "apply_all f (v # vs) s = Option.bind (f v s) (apply_all f vs)"

fun checks_pass :: "('v \<Rightarrow> 's \<Rightarrow> bool) \<Rightarrow> ('v \<Rightarrow> 's \<Rightarrow> 's option) \<Rightarrow> 'v list \<Rightarrow> 's \<Rightarrow> bool" where
  "checks_pass ok f [] s = True"
| "checks_pass ok f (v # vs) s =
     (ok v s \<and> (case f v s of None \<Rightarrow> True | Some s' \<Rightarrow> checks_pass ok f vs s'))"

locale checked_updates =
  fixes init :: 's
    and ok :: "'v \<Rightarrow> 's \<Rightarrow> bool"
    and update :: "'v \<Rightarrow> 's \<Rightarrow> 's option"
    and inv :: "'s \<Rightarrow> bool"
  assumes inv_init: "inv init"
    and update_ok: "inv s \<Longrightarrow> ok v s \<Longrightarrow> \<exists>s'. update v s = Some s' \<and> inv s'"
begin

lemma apply_all_from: "inv s \<Longrightarrow> checks_pass ok update vs s \<Longrightarrow> \<exists>s'. apply_all update vs s = Some s' \<and> inv s'"
proof (induction vs arbitrary: s)
  case (Cons v vs)
  with update_ok [of s v] obtain s' where "update v s = Some s'" "inv s'" by auto
  with Cons show ?case by auto
qed simp

lemma never_panics: "checks_pass ok update vs init \<Longrightarrow> \<exists>s. apply_all update vs init = Some s \<and> inv s"
  using apply_all_from inv_init by blast

end

datatype ledger_event =
  LedgerIntent durable_permission "frame_extent option"
  | LedgerResolution u64 permission_resolution

fun ledger_update :: "ledger_event \<Rightarrow> permission_ledger \<Rightarrow> permission_ledger option" where
  "ledger_update (LedgerIntent p frame) l = Some (record_intent p frame l)"
| "ledger_update (LedgerResolution mid r) l = record_resolution mid r l"

fun ledger_check :: "ledger_event \<Rightarrow> permission_ledger \<Rightarrow> bool" where
  "ledger_check (LedgerIntent p frame) l = admissible l p"
| "ledger_check (LedgerResolution mid r) l =
     (case ledger_entry l mid of None \<Rightarrow> False | Some e \<Rightarrow> pe_application e = ApplicationUnknown)"

interpretation ledger: checked_updates ledger_default ledger_check ledger_update ledger_inv
proof unfold_locales
  show "ledger_inv ledger_default" by (rule ledger_default_inv)
  fix l v assume "ledger_inv l" "ledger_check v l"
  then show "\<exists>l'. ledger_update v l = Some l' \<and> ledger_inv l'"
    by (cases v) (auto simp: record_intent_inv record_resolution_inv split: option.splits)
qed

text \<open>C28: The constant-time tallies of the permission ledger answer exactly what the scans over all
  records they replaced would answer. For every history of admitted intents and resolutions, no
  update panics, and in the resulting ledger the questions recovery asks agree with the scans:
  whether every applied seal is reversed, every applied parent seal restored, every applied tree
  seal undone, how many seals are still active, whether an intent is unresolved, whether a phase is
  complete, and whether the source-parent strategy is carried out.\<close>

theorem ledger_answers_scans:
  assumes "checks_pass ledger_check ledger_update history ledger_default"
  shows "\<exists>l. apply_all ledger_update history ledger_default = Some l \<and>
    every_applied_seal_is_reversed (lg_coverage l) =
      all_applied_seals_have_applied_inverse (lg_permissions l) \<and>
    every_applied_parent_seal_is_restored (lg_coverage l) =
      all_applied_parent_seals_have_applied_inverse (lg_permissions l) \<and>
    every_applied_tree_seal_is_undone (lg_coverage l) =
      all_applied_tree_seals_have_applied_inverse (lg_permissions l) \<and>
    active_seals (lg_coverage l) = active_permission_seals_by_scan (lg_permissions l) \<and>
    has_unresolved l =
      list_ex (\<lambda>(_, e). pe_application e = ApplicationUnknown) (lg_permissions l) \<and>
    phase_completion_is_recorded (Some l) from to =
      phase_completion_is_valid (lg_permissions l) from to \<and>
    staging_parent_strategy_is_recorded md (Some l) =
      staging_parent_strategy_is_complete md (lg_permissions l)"
proof -
  from ledger.never_panics [OF assms] obtain l where
    "apply_all ledger_update history ledger_default = Some l" "ledger_inv l" by blast
  then show ?thesis
    using coverage_answers active_seals_scan unresolved_scan phase_completion_scan parent_strategy_scan
    by blast
qed

definition sample_permission :: "u64 \<Rightarrow> transaction_state \<Rightarrow> u64 option \<Rightarrow> durable_permission" where
  "sample_permission mid phase rv = \<lparr>dp_mutation_id = mid, dp_phase = phase,
     dp_evidence = sample_evidence, dp_pre_mode = 493, dp_expected_mode = 448, dp_reverses = rv,
     dp_application = ApplicationUnknown\<rparr>"

definition sample_history :: "ledger_event list" where
  "sample_history =
     [LedgerIntent (sample_permission 1 ParentSealIntent None) None, LedgerResolution 1 ResolvedApplied,
      LedgerIntent (sample_permission 2 TreeSealIntent None) None, LedgerResolution 2 ResolvedApplied,
      LedgerIntent (sample_permission 3 SourceParentRestoreIntent (Some 1)) None,
      LedgerResolution 3 ResolvedApplied]"

theorem ledger_answers_scans_witness:
  "\<exists>l. apply_all ledger_update sample_history ledger_default = Some l \<and>
    every_applied_seal_is_reversed (lg_coverage l) =
      all_applied_seals_have_applied_inverse (lg_permissions l) \<and>
    active_seals (lg_coverage l) = active_permission_seals_by_scan (lg_permissions l)"
proof -
  have "checks_pass ledger_check ledger_update sample_history ledger_default"
    unfolding sample_history_def sample_permission_def
    by (simp add: admissible_def record_intent_def record_resolution_def Let_def ledger_default_def
        ledger_entry_def seal_phase_def inverse_phase_def)
  from ledger_answers_scans [OF this] show ?thesis by blast
qed

end
