(* ===== verification/Wal_Replay.thy ===== *)
theory Wal_Replay
  imports Wal_Ledger
begin

text \<open>
  Replay (\<open>replay_records\<close>, \<open>replay_and_repair\<close> of \<open>seal/wal.rs\<close>): the committed records of a WAL
  are folded, one at a time, into the state of each transaction. There is one definition per kind
  of record, in the order of the source's match. What replay accepts is what every invariant of a
  recovered transaction rests on.
\<close>

section \<open>Building a transaction\<close>

record replay_building =
  rb_state :: "transaction_state option"
  rb_staging_schema_version :: "u16 option"
  rb_ledger :: permission_ledger
  rb_staging :: "staging_metadata option"
  rb_tree_manifest :: "durable_tree_manifest option"
  rb_tree_sidecar :: "tree_sidecar_commitment option"
  rb_rename_outcome :: "durable_rename_outcome option"
  rb_undo_rename_outcome :: "durable_undo_rename_outcome option"
  rb_purge_removed_entries :: u64
  rb_purge_last_path :: "path option"

definition building_default :: replay_building where
  "building_default = \<lparr>rb_state = None, rb_staging_schema_version = None, rb_ledger = ledger_default,
     rb_staging = None, rb_tree_manifest = None, rb_tree_sidecar = None, rb_rename_outcome = None,
     rb_undo_rename_outcome = None, rb_purge_removed_entries = 0, rb_purge_last_path = None\<rparr>"

type_synonym replay_result = "replay_error + replay_building"

definition invalid :: "string \<Rightarrow> replay_error + 'a" where
  "invalid reason = Inl (InvalidHistory reason)"

text \<open>\<open>staging_schema_version.is_some_and(|version| version >= SIDECAR_VERSION)\<close>\<close>

definition sidecar_schema :: "replay_building \<Rightarrow> bool" where
  "sidecar_schema tx = (case rb_staging_schema_version tx of None \<Rightarrow> False | Some v \<Rightarrow> v \<ge> SIDECAR_VERSION)"

definition replay_staging_begin :: "u16 \<Rightarrow> staging_metadata \<Rightarrow> replay_building \<Rightarrow> replay_result" where
  "replay_staging_begin version metadata tx0 =
     (let tx = tx0\<lparr>rb_staging_schema_version := Some version\<rparr>
      in if rb_state tx \<noteq> None \<or> rb_staging tx \<noteq> None
         then invalid ''staging transaction has a duplicate or noninitial begin''
         else Inr (tx\<lparr>rb_state := Some Prepared, rb_staging := Some metadata\<rparr>))"

definition manifest_unordered :: "replay_building \<Rightarrow> bool" where
  "manifest_unordered tx \<longleftrightarrow>
     rb_state tx \<noteq> Some TreeSealIntent \<or> rb_tree_manifest tx \<noteq> None \<or> rb_tree_sidecar tx \<noteq> None \<or>
     has_unresolved (rb_ledger tx) \<or> \<not> tally_is_complete (ledger_phase (rb_ledger tx) TreeSealIntent)"

definition replay_manifest ::
  "u16 \<Rightarrow> durable_tree_manifest \<Rightarrow> replay_building \<Rightarrow> replay_result" where
  "replay_manifest version manifest tx =
     (if version \<ge> SIDECAR_VERSION \<or> sidecar_schema tx
      then invalid ''legacy tree manifest completion cannot complete a v12 transaction''
      else if tm_schema_version manifest \<notin> set [1, LEGACY_CONTENT_PROOF_MANIFEST_VERSION, CONTENT_PROOF_MANIFEST_VERSION]
      then invalid ''tree manifest uses an unsupported proof schema''
      else if manifest_unordered tx
      then invalid ''tree manifest is duplicate, unordered, or has unresolved permissions''
      else Inr (tx\<lparr>rb_tree_manifest := Some manifest\<rparr>))"

definition replay_sidecar ::
  "u16 \<Rightarrow> transaction_id \<Rightarrow> durable_tree_manifest \<Rightarrow> tree_sidecar_commitment \<Rightarrow> replay_building \<Rightarrow>
   replay_result" where
  "replay_sidecar version t manifest commitment tx =
     (if version < SIDECAR_VERSION \<or>
         (case rb_staging_schema_version tx of None \<Rightarrow> True | Some v \<Rightarrow> v < SIDECAR_VERSION) \<or>
         rb_staging tx = None \<or>
         tm_schema_version manifest \<noteq> CONTENT_PROOF_MANIFEST_VERSION \<or>
         sc_transaction commitment \<noteq> t \<or>
         sc_record_count commitment \<noteq> tm_entry_count manifest \<or>
         validate_tree_sidecar_commitment commitment \<noteq> Inr ()
      then invalid ''v12 tree completion has an invalid manifest or sidecar commitment''
      else if manifest_unordered tx
      then invalid ''tree completion is duplicate, unordered, or has unresolved permissions''
      else Inr (tx\<lparr>rb_tree_manifest := Some manifest, rb_tree_sidecar := Some commitment\<rparr>))"

definition replay_rename_intent :: "replay_building \<Rightarrow> replay_result" where
  "replay_rename_intent tx =
     (if rb_state tx \<noteq> Some TreeSealed \<or> rb_staging tx = None \<or> rb_tree_manifest tx = None \<or>
         (sidecar_schema tx \<and> rb_tree_sidecar tx = None)
      then invalid ''rename intent lacks staging metadata or a completed sidecar-bound tree''
      else Inr (tx\<lparr>rb_state := Some RenameIntent\<rparr>))"

definition replay_rename_outcome :: "durable_rename_outcome \<Rightarrow> replay_building \<Rightarrow> replay_result" where
  "replay_rename_outcome outcome tx =
     (if rb_state tx \<noteq> Some RenameIntent \<or> rb_rename_outcome tx \<noteq> None
      then invalid ''rename outcome is duplicate or outside rename intent''
      else case rb_staging tx of
        None \<Rightarrow> invalid ''rename outcome has no staging metadata''
      | Some metadata \<Rightarrow>
          if rename_outcome_identity outcome \<noteq> sm_root_identity metadata
          then invalid ''rename outcome identity differs from the bound root''
          else Inr (tx\<lparr>rb_rename_outcome := Some outcome\<rparr>))"

definition replay_purge_authorized :: "durable_purge_commitment \<Rightarrow> replay_building \<Rightarrow> replay_result" where
  "replay_purge_authorized commitment tx =
     (if rb_state tx \<noteq> Some VerifiedCommitted
      then invalid ''purge authorization is outside VerifiedCommitted''
      else case rb_staging tx of
        None \<Rightarrow> invalid ''purge authorization lacks staging metadata''
      | Some metadata \<Rightarrow>
          (case rb_tree_manifest tx of
             None \<Rightarrow> invalid ''purge authorization lacks a durable manifest''
           | Some manifest \<Rightarrow>
               if sm_production_association metadata = None \<or> \<not> has_content_proof manifest \<or>
                  \<not> purge_commitment_eq commitment (purge_commitment_exact metadata manifest)
               then invalid ''purge authorization does not bind the exact committed object''
               else Inr (tx\<lparr>rb_state := Some Purgeable\<rparr>)))"

definition replay_purge_claimed :: "durable_purge_commitment \<Rightarrow> replay_building \<Rightarrow> replay_result" where
  "replay_purge_claimed commitment tx =
     (case rb_staging tx of
        None \<Rightarrow> invalid ''purge claim lacks staging metadata''
      | Some metadata \<Rightarrow>
          (case rb_tree_manifest tx of
             None \<Rightarrow> invalid ''purge claim lacks a durable manifest''
           | Some manifest \<Rightarrow>
               if rb_state tx \<noteq> Some Purgeable \<or>
                  \<not> purge_commitment_eq commitment (purge_commitment_exact metadata manifest)
               then invalid ''purge claim is not bound to the exact authorized object''
               else Inr (tx\<lparr>rb_state := Some PurgeIntent\<rparr>)))"

definition replay_purge_progress :: "u16 \<Rightarrow> u64 \<Rightarrow> path \<Rightarrow> replay_building \<Rightarrow> replay_result" where
  "replay_purge_progress version removed last_path tx =
     (case rb_tree_manifest tx of
        None \<Rightarrow> invalid ''purge progress lacks a durable manifest''
      | Some manifest \<Rightarrow>
          let limit = tm_entry_count manifest;
              exact = (if version \<ge> 13
                then rb_purge_removed_entries tx = 0 \<and> removed = limit \<and> last_path = []
                else removed = sat_add (rb_purge_removed_entries tx) 1 \<and> removed \<le> limit \<and>
                     purge_progress_path_is_confined last_path)
          in if rb_state tx \<noteq> Some PurgeIntent \<or> \<not> exact
             then invalid ''purge progress is not exact, bounded, and monotonic''
             else Inr (tx\<lparr>rb_purge_removed_entries := removed, rb_purge_last_path := Some last_path\<rparr>))"

definition rename_transition_matches ::
  "durable_rename_outcome option \<Rightarrow> transaction_state \<Rightarrow> bool" where
  "rename_transition_matches outcome state =
     ((case outcome of
         Some (AppliedAndParentsSynced _) \<Rightarrow> state = StagedUnverified
       | Some (ConfirmedNotAppliedAtSource _) \<Rightarrow> state = RestoreIntent
       | None \<Rightarrow> False) \<or> state = RecoveryRequired)"

definition undo_transition_matches ::
  "durable_undo_rename_outcome option \<Rightarrow> transaction_state \<Rightarrow> bool" where
  "undo_transition_matches outcome state =
     ((case outcome of
         Some (UndoAppliedAndParentsSynced _) \<Rightarrow> state = Restored
       | Some (ConfirmedCollisionAtStaged _) \<Rightarrow> state = UndoConflict
       | None \<Rightarrow> False) \<or> state = RecoveryRequired)"

definition replay_state ::
  "u16 \<Rightarrow> transaction_state \<Rightarrow> replay_building \<Rightarrow> replay_result" where
  "replay_state version state tx =
     (case rb_state tx of
        None \<Rightarrow>
          if state \<noteq> Prepared then invalid ''transaction does not start prepared''
          else Inr (tx\<lparr>rb_state := Some state\<rparr>)
      | Some previous \<Rightarrow>
          if state = RenameIntent then invalid ''rename intent must use its explicit record''
          else if state = Purgeable
          then invalid ''purgeable must use its explicit authorization record''
          else if state = PurgeIntent \<and> version \<ge> 10
          then invalid ''purge intent must use its exact durable claim record''
          else if state = PurgeOutcome \<and> version \<ge> 10 \<and>
                  rb_purge_removed_entries tx \<noteq>
                    (case rb_tree_manifest tx of None \<Rightarrow> - 1 | Some m \<Rightarrow> tm_entry_count m)
          then invalid ''purge outcome precedes complete durable progress''
          else if state \<noteq> RecoveryRequired \<and> has_unresolved (rb_ledger tx)
          then invalid ''state advanced with an unresolved permission intent''
          else if \<not> phase_completion_is_recorded (Some (rb_ledger tx)) previous state
          then invalid ''seal phase contains a permission intent not durably applied''
          else if previous = ParentSealIntent \<and> state = ParentSealed \<and>
                  \<not> staging_parent_strategy_is_recorded (rb_staging tx) (Some (rb_ledger tx))
          then invalid ''source-parent strategy lacks its required durable proof''
          else if state = SourceParentRestored \<and>
                  \<not> every_applied_parent_seal_is_restored (lg_coverage (rb_ledger tx))
          then invalid ''source-parent restoration lacks applied inverses''
          else if (state = Restored \<or> state = RolledBack) \<and>
                  \<not> every_applied_seal_is_reversed (lg_coverage (rb_ledger tx))
          then invalid ''terminal restore lacks an applied inverse for an applied seal''
          else if previous = TreeSealIntent \<and> state = TreeSealed \<and>
                  (rb_tree_manifest tx = None \<or> (sidecar_schema tx \<and> rb_tree_sidecar tx = None))
          then invalid ''tree seal completed without its required manifest and sidecar''
          else if previous = RenameIntent \<and> \<not> rename_transition_matches (rb_rename_outcome tx) state
          then invalid ''rename transition lacks a matching durable outcome''
          else if previous = UndoRenameIntent \<and>
                  \<not> undo_transition_matches (rb_undo_rename_outcome tx) state
          then invalid ''undo terminal lacks a matching durable rename outcome''
          else if state = UndoModesRestored \<and>
                  \<not> every_applied_tree_seal_is_undone (lg_coverage (rb_ledger tx))
          then invalid ''verified undo mode restoration lacks applied tree inverses''
          else if \<not> valid_transition previous state then invalid ''invalid transaction transition''
          else Inr (tx\<lparr>rb_state := Some state\<rparr>))"

definition inverse_mismatch ::
  "permission_ledger \<Rightarrow> staging_metadata option \<Rightarrow> transaction_state \<Rightarrow> persistent_recovery_evidence \<Rightarrow>
   u32 \<Rightarrow> u32 \<Rightarrow> u64 \<Rightarrow> durable_permission \<Rightarrow> bool" where
  "inverse_mismatch ledger staging phase evidence pre expd original_id original \<longleftrightarrow>
     dp_application original \<noteq> Applied \<or>
     dp_reverses original \<noteq> None \<or>
     (phase = SourceParentRestoreIntent \<and> dp_phase original \<noteq> ParentSealIntent) \<or>
     (phase = UndoIntent \<and> dp_phase original \<noteq> TreeSealIntent) \<or>
     \<not> same_recovery_object (dp_evidence original) evidence \<or>
     (dp_phase original = ParentSealIntent \<and>
      (case staging of None \<Rightarrow> False | Some m \<Rightarrow> \<not> evidence_is_exact_source_parent evidence m)) \<or>
     pre \<noteq> dp_expected_mode original \<or>
     expd \<noteq> dp_pre_mode original \<or>
     lg_active_inverses ledger original_id \<noteq> None"

text \<open>
  How an earlier intent is read back is a parameter: replay reads it out of the bytes it replays,
  \<open>read_framed_intent frames\<close>.
\<close>

type_synonym intent_reader =
  "transaction_id \<Rightarrow> u64 \<Rightarrow> permission_entry \<Rightarrow> permission_read_error + durable_permission"

definition validate_replayed_inverse ::
  "permission_ledger \<Rightarrow> intent_reader \<Rightarrow> transaction_id \<Rightarrow> staging_metadata option \<Rightarrow> transaction_state \<Rightarrow>
   persistent_recovery_evidence \<Rightarrow> u32 \<Rightarrow> u32 \<Rightarrow> u64 option \<Rightarrow> replay_error + unit" where
  "validate_replayed_inverse ledger rd t staging phase evidence pre expd rv =
     (case rv of
        None \<Rightarrow>
          if phase = ParentSealIntent \<or> phase = TreeSealIntent then Inr ()
          else invalid ''seal and inverse permission intents are inconsistent with their phase''
      | Some original_id \<Rightarrow>
          if phase \<in> set [RestoreIntent, SourceParentRestoreIntent, RollbackIntent, UndoIntent, Quarantined]
          then (case ledger_entry ledger original_id of
                  None \<Rightarrow> invalid ''permission inverse references no mutation in its transaction''
                | Some entry \<Rightarrow>
                    (case rd t original_id entry of
                       Inl e \<Rightarrow> Inl (PermissionRecord e)
                     | Inr original \<Rightarrow>
                         if inverse_mismatch ledger staging phase evidence pre expd original_id original
                         then invalid ''permission inverse does not match its applied seal mutation''
                         else Inr ()))
          else invalid ''seal and inverse permission intents are inconsistent with their phase'')"

definition intent_phase :: "transaction_state \<Rightarrow> bool" where
  "intent_phase phase \<longleftrightarrow>
     phase \<in> set [ParentSealIntent, TreeSealIntent, RestoreIntent, SourceParentRestoreIntent,
                 RollbackIntent, UndoIntent, Quarantined]"

definition exact_v11_parent ::
  "u16 \<Rightarrow> transaction_state \<Rightarrow> persistent_recovery_evidence \<Rightarrow> u64 option \<Rightarrow> replay_building \<Rightarrow> bool" where
  "exact_v11_parent version phase evidence rv tx \<longleftrightarrow>
     version \<ge> 11 \<and>
     (case rb_staging_schema_version tx of None \<Rightarrow> False | Some v \<Rightarrow> v \<ge> 11) \<and>
     (case rb_staging tx of None \<Rightarrow> False | Some m \<Rightarrow> evidence_is_exact_source_parent evidence m) \<and>
     (case rv of
        None \<Rightarrow> phase = ParentSealIntent
      | Some original \<Rightarrow>
          (case ledger_entry (rb_ledger tx) original of
             None \<Rightarrow> False | Some entry \<Rightarrow> pe_phase entry = ParentSealIntent))"

definition replay_intent ::
  "intent_reader \<Rightarrow> transaction_id \<Rightarrow> u16 \<Rightarrow> frame_extent option \<Rightarrow> u64 \<Rightarrow> persistent_recovery_evidence \<Rightarrow>
   u32 \<Rightarrow> u32 \<Rightarrow> u64 option \<Rightarrow> replay_building \<Rightarrow> replay_result" where
  "replay_intent rd t version frame mid evidence pre expd rv tx =
     (case rb_state tx of
        None \<Rightarrow> invalid ''intent precedes prepared state''
      | Some phase \<Rightarrow>
          if \<not> intent_phase phase
          then invalid ''permission intent is outside a permission-intent phase''
          else if phase = TreeSealIntent \<and> rb_tree_manifest tx \<noteq> None
          then invalid ''tree permission membership changed after manifest completion''
          else if (case rb_staging tx of
                     None \<Rightarrow> False
                   | Some m \<Rightarrow> ev_filesystem_id evidence \<noteq> Some (sm_filesystem_id m) \<or>
                       ev_generation_or_btime evidence = None)
          then invalid ''staging permission lacks bound filesystem or strong incarnation''
          else if (case rb_staging tx of
                     None \<Rightarrow> False
                   | Some m \<Rightarrow> phase = ParentSealIntent \<and>
                       (sm_source_parent_strategy m \<noteq> PermissionSeal \<or>
                        \<not> evidence_is_exact_source_parent evidence m))
          then invalid ''parent seal evidence differs from the metadata-bound source parent''
          else if ev_relative_path evidence = [] \<and> \<not> exact_v11_parent version phase evidence rv tx
          then invalid ''empty permission evidence is not the exact v11 source parent''
          else if ledger_entry (rb_ledger tx) mid \<noteq> None
          then invalid ''duplicate permission intent''
          else and_then
            (validate_replayed_inverse (rb_ledger tx) rd t (rb_staging tx) phase evidence pre expd rv)
            (\<lambda>_. Inr (tx\<lparr>rb_ledger :=
               record_intent \<lparr>dp_mutation_id = mid, dp_phase = phase, dp_evidence = evidence,
                 dp_pre_mode = pre, dp_expected_mode = expd, dp_reverses = rv,
                 dp_application = ApplicationUnknown\<rparr> frame (rb_ledger tx)\<rparr>)))"

definition replay_undo_outcome :: "durable_undo_rename_outcome \<Rightarrow> replay_building \<Rightarrow> replay_result" where
  "replay_undo_outcome outcome tx =
     (if rb_state tx \<noteq> Some UndoRenameIntent \<or> rb_undo_rename_outcome tx \<noteq> None
      then invalid ''undo rename outcome is duplicate or outside undo rename intent''
      else case rb_staging tx of
        None \<Rightarrow> invalid ''undo rename outcome has no staging metadata''
      | Some metadata \<Rightarrow>
          if undo_outcome_identity outcome \<noteq> sm_root_identity metadata
          then invalid ''undo rename outcome identity differs from the bound root''
          else Inr (tx\<lparr>rb_undo_rename_outcome := Some outcome\<rparr>))"

definition resolve_replayed_permission ::
  "u64 \<Rightarrow> permission_resolution \<Rightarrow> replay_building \<Rightarrow> replay_result" where
  "resolve_replayed_permission mid resolution tx =
     (case ledger_entry (rb_ledger tx) mid of
        None \<Rightarrow> invalid ''permission resolution has no intent''
      | Some entry \<Rightarrow>
          if rb_state tx \<noteq> Some (pe_phase entry)
          then invalid ''permission resolution is outside its intent phase''
          else if pe_application entry \<noteq> ApplicationUnknown
          then invalid ''duplicate permission resolution''
          else case record_resolution mid resolution (rb_ledger tx) of
            None \<Rightarrow> Inl ReplayPanic
          | Some ledger \<Rightarrow> Inr (tx\<lparr>rb_ledger := ledger\<rparr>))"

fun replay_record ::
  "intent_reader \<Rightarrow> u16 \<Rightarrow> frame_extent option \<Rightarrow> seal_record \<Rightarrow> replay_building \<Rightarrow> replay_result" where
  "replay_record rd v frame (StagingBegin t m) tx = replay_staging_begin v m tx"
| "replay_record rd v frame (TreeManifestComplete t m) tx = replay_manifest v m tx"
| "replay_record rd v frame (TreeManifestSidecarComplete t m c) tx = replay_sidecar v t m c tx"
| "replay_record rd v frame (RenameIntentRecord t) tx = replay_rename_intent tx"
| "replay_record rd v frame (RenameOutcome t x) tx = replay_rename_outcome x tx"
| "replay_record rd v frame (PurgeAuthorized t c) tx = replay_purge_authorized c tx"
| "replay_record rd v frame (PurgeClaimed t c) tx = replay_purge_claimed c tx"
| "replay_record rd v frame (PurgeProgress t n p) tx = replay_purge_progress v n p tx"
| "replay_record rd v frame (State t s) tx = replay_state v s tx"
| "replay_record rd v frame (PermissionIntent t mid ev pre expd rv) tx =
     replay_intent rd t v frame mid ev pre expd rv tx"
| "replay_record rd v frame (UndoRenameOutcome t x) tx = replay_undo_outcome x tx"
| "replay_record rd v frame (PermissionApplied t mid) tx =
     resolve_replayed_permission mid ResolvedApplied tx"
| "replay_record rd v frame (PermissionNotApplied t mid) tx =
     resolve_replayed_permission mid ResolvedNotApplied tx"

section \<open>Folding the records\<close>

record replay_progress =
  rq_transactions :: "(transaction_id, replay_building) btree"
  rq_order :: "transaction_id list"

definition progress_default :: replay_progress where
  "progress_default = \<lparr>rq_transactions = [], rq_order = []\<rparr>"

definition building_of :: "replay_progress \<Rightarrow> transaction_id \<Rightarrow> replay_building" where
  "building_of q t = (case map_of (rq_transactions q) t of None \<Rightarrow> building_default | Some tx \<Rightarrow> tx)"

fun is_staging_begin :: "seal_record \<Rightarrow> bool" where
  "is_staging_begin (StagingBegin _ _) = True"
| "is_staging_begin _ = False"

definition replay_step :: "intent_reader \<Rightarrow> versioned_record \<Rightarrow> replay_progress \<Rightarrow> replay_error + replay_progress" where
  "replay_step rd vr q =
     (let t = record_transaction (vr_record vr)
      in and_then (replay_record rd (vr_version vr) (vr_frame vr) (vr_record vr) (building_of q t))
           (\<lambda>tx. Inr \<lparr>rq_transactions = bt_insert t tx (rq_transactions q),
                      rq_order = (if is_staging_begin (vr_record vr) then rq_order q @ [t] else rq_order q)\<rparr>))"

section \<open>The replay\<close>

record replayed_transaction =
  rt_id :: transaction_id
  rt_state :: transaction_state
  rt_staging_schema_version :: "u16 option"
  rt_permission_workload :: permission_workload
  rt_staging :: "staging_metadata option"
  rt_tree_manifest :: "durable_tree_manifest option"
  rt_tree_sidecar :: "tree_sidecar_commitment option"
  rt_rename_outcome :: "durable_rename_outcome option"
  rt_undo_rename_outcome :: "durable_undo_rename_outcome option"
  rt_purge_removed_entries :: u64
  rt_purge_last_path :: "path option"

record replay =
  rp_transactions :: "(transaction_id, replayed_transaction) btree"
  rp_transaction_order :: "transaction_id list"
  rp_tail_repair :: "nat option"
  rp_committed_len :: nat
  rp_frame_bytes :: "(transaction_id, nat) btree"
  rp_ledgers :: "(transaction_id, permission_ledger) btree"

definition finish_transaction ::
  "transaction_id \<Rightarrow> replay_building \<Rightarrow> replay_error + replayed_transaction" where
  "finish_transaction t tx =
     (case rb_state tx of
        None \<Rightarrow> invalid ''transaction has no state''
      | Some state \<Rightarrow>
          Inr \<lparr>rt_id = t, rt_state = state, rt_staging_schema_version = rb_staging_schema_version tx,
               rt_permission_workload = ledger_workload (rb_ledger tx), rt_staging = rb_staging tx,
               rt_tree_manifest = rb_tree_manifest tx, rt_tree_sidecar = rb_tree_sidecar tx,
               rt_rename_outcome = rb_rename_outcome tx,
               rt_undo_rename_outcome = rb_undo_rename_outcome tx,
               rt_purge_removed_entries = rb_purge_removed_entries tx,
               rt_purge_last_path = rb_purge_last_path tx\<rparr>)"

fun finish_all ::
  "(transaction_id, replay_building) btree \<Rightarrow> replay_error + (transaction_id, replayed_transaction) btree"
where
  "finish_all [] = Inr []"
| "finish_all ((t, tx) # rest) =
     and_then (finish_transaction t tx) (\<lambda>rt. and_then (finish_all rest) (\<lambda>more. Inr ((t, rt) # more)))"

definition complete_order :: "transaction_id list \<Rightarrow> transaction_id list \<Rightarrow> transaction_id list" where
  "complete_order order keys =
     (if length order \<noteq> length keys
      then fold (\<lambda>t acc. if t \<in> set acc then acc else acc @ [t]) keys order
      else order)"

definition replay_records :: "versioned_record list \<Rightarrow> bytes \<Rightarrow> replay_error + replay" where
  "replay_records records frames =
     and_then (fold_r (replay_step (read_framed_intent frames)) records progress_default) (\<lambda>q.
     and_then (finish_all (rq_transactions q)) (\<lambda>transactions.
     Inr \<lparr>rp_transactions = transactions,
          rp_transaction_order = complete_order (rq_order q) (map fst transactions),
          rp_tail_repair = None, rp_committed_len = 0, rp_frame_bytes = [],
          rp_ledgers = map (\<lambda>(t, tx). (t, rb_ledger tx)) (rq_transactions q)\<rparr>))"

definition frame_bytes :: "frame_span list \<Rightarrow> (transaction_id, nat) btree" where
  "frame_bytes spans =
     fold (\<lambda>span totals.
       bt_insert (fs_transaction span)
         ((case map_of totals (fs_transaction span) of None \<Rightarrow> 0 | Some n \<Rightarrow> n) + (fs_end span - fs_start span))
         totals) spans []"

text \<open>
  \<open>replay_and_repair\<close> on the bytes of the leased file; \<open>set_len\<close> is \<open>set_len\<close> followed by
  \<open>sync_all\<close>, and returns the file as it is afterwards.
\<close>

definition replay_and_repair ::
  "(nat \<Rightarrow> bytes \<Rightarrow> io_error + bytes) \<Rightarrow> bytes \<Rightarrow> replay_error + (replay \<times> bytes)" where
  "replay_and_repair set_len bytes =
     (if length bytes > MAX_WAL_LEN then Inl (TooLarge MAX_WAL_LEN)
      else and_then (parse_frames bytes) (\<lambda>parsed.
        and_then (replay_records (pf_records parsed) bytes) (\<lambda>replay.
          let replay = replay\<lparr>rp_frame_bytes := frame_bytes (pf_spans parsed)\<rparr>;
              committed = pf_committed_len parsed
          in if committed < length bytes
             then (case set_len committed bytes of
                     Inl e \<Rightarrow> Inl (ReplayIo e)
                   | Inr repaired \<Rightarrow>
                       Inr (replay\<lparr>rp_tail_repair := Some (length bytes - committed),
                                   rp_committed_len := committed\<rparr>, repaired))
             else Inr (replay\<lparr>rp_committed_len := committed\<rparr>, bytes))))"

end
