(* ===== verification/Wal_Replay_Inv.thy ===== *)
theory Wal_Replay_Inv
  imports Wal_Replay
begin

text \<open>
  What every accepted history guarantees about the transactions it replays to. \<open>building_inv\<close> is
  the invariant of one transaction under replay; each record that replay accepts preserves it.
\<close>

named_theorems replay_iffs \<open>when a record is accepted, and what it changes\<close>

section \<open>Accepted records\<close>

lemma invalid_neq [simp]: "invalid reason \<noteq> Inr x" "Inr x \<noteq> invalid reason"
  by (simp_all add: invalid_def)

lemma if_invalid [simp]: "(if c then invalid reason else m) = Inr x \<longleftrightarrow> \<not> c \<and> m = Inr x"
  by simp

lemma staging_begin_iff [replay_iffs]:
  "replay_staging_begin v m tx = Inr tx' \<longleftrightarrow>
     rb_state tx = None \<and> rb_staging tx = None \<and>
     tx' = tx\<lparr>rb_staging_schema_version := Some v, rb_state := Some Prepared, rb_staging := Some m\<rparr>"
  by (auto simp: replay_staging_begin_def Let_def)

lemma manifest_iff [replay_iffs]:
  "replay_manifest v m tx = Inr tx' \<longleftrightarrow>
     v < SIDECAR_VERSION \<and> \<not> sidecar_schema tx \<and>
     tm_schema_version m \<in> set [1, LEGACY_CONTENT_PROOF_MANIFEST_VERSION, CONTENT_PROOF_MANIFEST_VERSION] \<and>
     \<not> manifest_unordered tx \<and> tx' = tx\<lparr>rb_tree_manifest := Some m\<rparr>"
  by (auto simp: replay_manifest_def)

lemma sidecar_iff [replay_iffs]:
  "replay_sidecar v t m c tx = Inr tx' \<longleftrightarrow>
     v \<ge> SIDECAR_VERSION \<and> sidecar_schema tx \<and> rb_staging tx \<noteq> None \<and>
     tm_schema_version m = CONTENT_PROOF_MANIFEST_VERSION \<and> sc_transaction c = t \<and>
     sc_record_count c = tm_entry_count m \<and> validate_tree_sidecar_commitment c = Inr () \<and>
     \<not> manifest_unordered tx \<and> tx' = tx\<lparr>rb_tree_manifest := Some m, rb_tree_sidecar := Some c\<rparr>"
  by (auto simp: replay_sidecar_def sidecar_schema_def split: option.splits)

lemma rename_intent_iff [replay_iffs]:
  "replay_rename_intent tx = Inr tx' \<longleftrightarrow>
     rb_state tx = Some TreeSealed \<and> rb_staging tx \<noteq> None \<and> rb_tree_manifest tx \<noteq> None \<and>
     (sidecar_schema tx \<longrightarrow> rb_tree_sidecar tx \<noteq> None) \<and> tx' = tx\<lparr>rb_state := Some RenameIntent\<rparr>"
  by (auto simp: replay_rename_intent_def)

lemma rename_outcome_iff [replay_iffs]:
  "replay_rename_outcome x tx = Inr tx' \<longleftrightarrow>
     rb_state tx = Some RenameIntent \<and> rb_rename_outcome tx = None \<and>
     (\<exists>m. rb_staging tx = Some m \<and> rename_outcome_identity x = sm_root_identity m) \<and>
     tx' = tx\<lparr>rb_rename_outcome := Some x\<rparr>"
  by (auto simp: replay_rename_outcome_def split: option.splits)

lemma purge_authorized_iff [replay_iffs]:
  "replay_purge_authorized c tx = Inr tx' \<longleftrightarrow>
     rb_state tx = Some VerifiedCommitted \<and>
     (\<exists>m mf. rb_staging tx = Some m \<and> rb_tree_manifest tx = Some mf \<and>
        sm_production_association m \<noteq> None \<and> has_content_proof mf \<and>
        purge_commitment_eq c (purge_commitment_exact m mf)) \<and>
     tx' = tx\<lparr>rb_state := Some Purgeable\<rparr>"
  by (auto simp: replay_purge_authorized_def split: option.splits)

lemma purge_claimed_iff [replay_iffs]:
  "replay_purge_claimed c tx = Inr tx' \<longleftrightarrow>
     rb_state tx = Some Purgeable \<and>
     (\<exists>m mf. rb_staging tx = Some m \<and> rb_tree_manifest tx = Some mf \<and>
        purge_commitment_eq c (purge_commitment_exact m mf)) \<and>
     tx' = tx\<lparr>rb_state := Some PurgeIntent\<rparr>"
  by (auto simp: replay_purge_claimed_def split: option.splits)

lemma purge_progress_iff [replay_iffs]:
  "replay_purge_progress v n p tx = Inr tx' \<longleftrightarrow>
     rb_state tx = Some PurgeIntent \<and>
     (\<exists>mf. rb_tree_manifest tx = Some mf \<and>
        (if v \<ge> 13 then rb_purge_removed_entries tx = 0 \<and> n = tm_entry_count mf \<and> p = []
         else n = sat_add (rb_purge_removed_entries tx) 1 \<and> n \<le> tm_entry_count mf \<and>
              purge_progress_path_is_confined p)) \<and>
     tx' = tx\<lparr>rb_purge_removed_entries := n, rb_purge_last_path := Some p\<rparr>"
  by (cases "rb_tree_manifest tx") (auto simp: replay_purge_progress_def Let_def)

text \<open>The conditions under which a state record may follow the current state.\<close>

definition state_allowed :: "u16 \<Rightarrow> replay_building \<Rightarrow> transaction_state \<Rightarrow> transaction_state \<Rightarrow> bool" where
  "state_allowed version tx previous state \<longleftrightarrow>
     state \<noteq> RenameIntent \<and> state \<noteq> Purgeable \<and> (state = PurgeIntent \<longrightarrow> version < 10) \<and>
     (state = PurgeOutcome \<longrightarrow> version \<ge> 10 \<longrightarrow> rb_purge_removed_entries tx =
        (case rb_tree_manifest tx of None \<Rightarrow> - 1 | Some m \<Rightarrow> tm_entry_count m)) \<and>
     (state \<noteq> RecoveryRequired \<longrightarrow> \<not> has_unresolved (rb_ledger tx)) \<and>
     phase_completion_is_recorded (Some (rb_ledger tx)) previous state \<and>
     (previous = ParentSealIntent \<longrightarrow> state = ParentSealed \<longrightarrow>
        staging_parent_strategy_is_recorded (rb_staging tx) (Some (rb_ledger tx))) \<and>
     (state = SourceParentRestored \<longrightarrow> every_applied_parent_seal_is_restored (lg_coverage (rb_ledger tx))) \<and>
     (state = Restored \<or> state = RolledBack \<longrightarrow> every_applied_seal_is_reversed (lg_coverage (rb_ledger tx))) \<and>
     (previous = TreeSealIntent \<longrightarrow> state = TreeSealed \<longrightarrow>
        rb_tree_manifest tx \<noteq> None \<and> (sidecar_schema tx \<longrightarrow> rb_tree_sidecar tx \<noteq> None)) \<and>
     (previous = RenameIntent \<longrightarrow> rename_transition_matches (rb_rename_outcome tx) state) \<and>
     (previous = UndoRenameIntent \<longrightarrow> undo_transition_matches (rb_undo_rename_outcome tx) state) \<and>
     (state = UndoModesRestored \<longrightarrow> every_applied_tree_seal_is_undone (lg_coverage (rb_ledger tx))) \<and>
     valid_transition previous state"

lemma state_iff [replay_iffs]:
  "replay_state v s tx = Inr tx' \<longleftrightarrow>
     (case rb_state tx of None \<Rightarrow> s = Prepared | Some prev \<Rightarrow> state_allowed v tx prev s) \<and>
     tx' = tx\<lparr>rb_state := Some s\<rparr>"
proof (cases "rb_state tx")
  case None
  then show ?thesis by (auto simp: replay_state_def)
next
  case (Some prev)
  then show ?thesis
    by (simp only: replay_state_def state_allowed_def option.case if_invalid de_Morgan_conj not_le
        de_Morgan_disj not_not imp_conv_disj simp_thms disj_assoc conj_assoc sum.inject)
       (simp only: eq_commute [of tx'] simp_thms)
qed

lemma undo_outcome_iff [replay_iffs]:
  "replay_undo_outcome x tx = Inr tx' \<longleftrightarrow>
     rb_state tx = Some UndoRenameIntent \<and> rb_undo_rename_outcome tx = None \<and>
     (\<exists>m. rb_staging tx = Some m \<and> undo_outcome_identity x = sm_root_identity m) \<and>
     tx' = tx\<lparr>rb_undo_rename_outcome := Some x\<rparr>"
  by (auto simp: replay_undo_outcome_def split: option.splits)

lemma resolve_iff [replay_iffs]:
  "resolve_replayed_permission mid r tx = Inr tx' \<longleftrightarrow>
     (\<exists>e l. ledger_entry (rb_ledger tx) mid = Some e \<and> rb_state tx = Some (pe_phase e) \<and>
        pe_application e = ApplicationUnknown \<and> record_resolution mid r (rb_ledger tx) = Some l \<and>
        tx' = tx\<lparr>rb_ledger := l\<rparr>)"
  by (auto simp: resolve_replayed_permission_def split: option.splits)

lemma validate_inverse_iff:
  "validate_replayed_inverse l rd t staging phase ev pre expd rv = Inr () \<longleftrightarrow>
     (case rv of
        None \<Rightarrow> seal_phase phase
      | Some orig \<Rightarrow> inverse_phase phase \<and>
          (\<exists>e p. ledger_entry l orig = Some e \<and> rd t orig e = Inr p \<and>
             \<not> inverse_mismatch l staging phase ev pre expd orig p))"
  by (auto simp: validate_replayed_inverse_def seal_phase_def inverse_phase_def
      split: option.splits sum.splits)

definition intent_permission ::
  "u64 \<Rightarrow> transaction_state \<Rightarrow> persistent_recovery_evidence \<Rightarrow> u32 \<Rightarrow> u32 \<Rightarrow> u64 option \<Rightarrow> durable_permission"
where
  "intent_permission mid phase ev pre expd rv = \<lparr>dp_mutation_id = mid, dp_phase = phase,
     dp_evidence = ev, dp_pre_mode = pre, dp_expected_mode = expd, dp_reverses = rv,
     dp_application = ApplicationUnknown\<rparr>"

text \<open>The conditions on an intent that do not read the ledger's records back.\<close>

definition intent_allowed ::
  "u16 \<Rightarrow> u64 \<Rightarrow> persistent_recovery_evidence \<Rightarrow> u64 option \<Rightarrow> transaction_state \<Rightarrow> replay_building \<Rightarrow> bool"
where
  "intent_allowed version mid ev rv phase tx \<longleftrightarrow>
     intent_phase phase \<and> (phase = TreeSealIntent \<longrightarrow> rb_tree_manifest tx = None) \<and>
     (\<forall>m. rb_staging tx = Some m \<longrightarrow>
        ev_filesystem_id ev = Some (sm_filesystem_id m) \<and> ev_generation_or_btime ev \<noteq> None \<and>
        (phase = ParentSealIntent \<longrightarrow>
           sm_source_parent_strategy m = PermissionSeal \<and> evidence_is_exact_source_parent ev m)) \<and>
     (ev_relative_path ev = [] \<longrightarrow> exact_v11_parent version phase ev rv tx) \<and>
     ledger_entry (rb_ledger tx) mid = None"

lemma intent_iff [replay_iffs]:
  "replay_intent rd t v frame mid ev pre expd rv tx = Inr tx' \<longleftrightarrow>
     (\<exists>phase. rb_state tx = Some phase \<and> intent_allowed v mid ev rv phase tx \<and>
        validate_replayed_inverse (rb_ledger tx) rd t (rb_staging tx) phase ev pre expd rv = Inr () \<and>
        tx' = tx\<lparr>rb_ledger := record_intent (intent_permission mid phase ev pre expd rv) frame (rb_ledger tx)\<rparr>)"
proof (cases "rb_state tx")
  case None
  then show ?thesis by (simp add: replay_intent_def)
next
  case (Some phase)
  then show ?thesis
    by (cases "rb_staging tx")
       (auto simp: replay_intent_def intent_allowed_def and_then_Inr_iff intent_permission_def)
qed

section \<open>Readers\<close>

text \<open>A reader serves a ledger when it returns, for every entry, a record with that entry's phase,
  resolution and inverse binding.\<close>

definition reader_ok :: "intent_reader \<Rightarrow> transaction_id \<Rightarrow> permission_ledger \<Rightarrow> bool" where
  "reader_ok rd t l \<longleftrightarrow>
     (\<forall>mid e. ledger_entry l mid = Some e \<longrightarrow>
        (\<exists>ev pre expd. rd t mid e = Inr \<lparr>dp_mutation_id = mid, dp_phase = pe_phase e, dp_evidence = ev,
           dp_pre_mode = pre, dp_expected_mode = expd, dp_reverses = pe_reverses e,
           dp_application = pe_application e\<rparr>))"

lemma reader_okD:
  assumes "reader_ok rd t l" "ledger_entry l mid = Some e" "rd t mid e = Inr p"
  shows "dp_mutation_id p = mid" "dp_phase p = pe_phase e" "dp_application p = pe_application e"
    "dp_reverses p = pe_reverses e"
proof -
  from assms(1,2) obtain ev pre expd where "rd t mid e = Inr \<lparr>dp_mutation_id = mid,
      dp_phase = pe_phase e, dp_evidence = ev, dp_pre_mode = pre, dp_expected_mode = expd,
      dp_reverses = pe_reverses e, dp_application = pe_application e\<rparr>"
    unfolding reader_ok_def by blast
  with assms(3) show "dp_mutation_id p = mid" "dp_phase p = pe_phase e"
    "dp_application p = pe_application e" "dp_reverses p = pe_reverses e" by auto
qed

lemma accepted_intent_admissible:
  assumes "reader_ok rd t l" "ledger_entry l mid = None"
    and "validate_replayed_inverse l rd t staging phase ev pre expd rv = Inr ()"
  shows "admissible l (intent_permission mid phase ev pre expd rv)"
proof (cases rv)
  case None
  with assms show ?thesis by (simp add: validate_inverse_iff admissible_def intent_permission_def)
next
  case (Some orig)
  with assms(3) obtain e p where e: "inverse_phase phase" "ledger_entry l orig = Some e"
    "rd t orig e = Inr p" "\<not> inverse_mismatch l staging phase ev pre expd orig p"
    by (auto simp: validate_inverse_iff)
  from reader_okD [OF assms(1) e(2,3)] have "pe_application e = dp_application p"
    "pe_reverses e = dp_reverses p" by simp_all
  with e Some assms(2) show ?thesis
    by (auto simp: admissible_def intent_permission_def inverse_mismatch_def)
qed

section \<open>The invariant of a transaction\<close>

definition staged_state :: "transaction_state \<Rightarrow> bool" where
  "staged_state s \<longleftrightarrow>
     s \<in> {StagedUnverified, StagedSealed, SourceParentRestoreIntent, SourceParentRestored,
          VerifiedCommitted, UndoIntent, UndoModesRestored, UndoRenameIntent, UndoConflict, Purgeable,
          PurgeIntent, PurgeOutcome, Purged, RollbackIntent, RolledBack, Quarantined}"

definition committed_state :: "transaction_state \<Rightarrow> bool" where
  "committed_state s \<longleftrightarrow>
     s \<in> {SourceParentRestored, VerifiedCommitted, UndoIntent, UndoModesRestored, UndoRenameIntent,
          UndoConflict, Purgeable, PurgeIntent, PurgeOutcome, Purged}"

definition purge_state :: "transaction_state \<Rightarrow> bool" where
  "purge_state s \<longleftrightarrow> s \<in> {Purgeable, PurgeIntent, PurgeOutcome, Purged}"

definition sealing_state :: "transaction_state \<Rightarrow> bool" where
  "sealing_state s \<longleftrightarrow> s \<in> {Prepared, ParentSealIntent, ParentSealed, TreeSealIntent, TreeSealed}"

definition tree_bound :: "replay_building \<Rightarrow> bool" where
  "tree_bound tx \<longleftrightarrow> rb_staging tx \<noteq> None \<and> rb_tree_manifest tx \<noteq> None \<and>
     (sidecar_schema tx \<longrightarrow> rb_tree_sidecar tx \<noteq> None)"

text \<open>What the state of a transaction says about its other fields.\<close>

definition state_inv :: "replay_building \<Rightarrow> transaction_state \<Rightarrow> bool" where
  "state_inv tx s \<longleftrightarrow>
     (s \<in> {RenameIntent} \<or> staged_state s \<longrightarrow> tree_bound tx) \<and>
     (staged_state s \<longrightarrow> (\<exists>i. rb_rename_outcome tx = Some (AppliedAndParentsSynced i))) \<and>
     (committed_state s \<longrightarrow> every_applied_parent_seal_is_restored (lg_coverage (rb_ledger tx))) \<and>
     (s \<in> {UndoModesRestored, UndoRenameIntent, UndoConflict} \<longrightarrow>
        every_applied_tree_seal_is_undone (lg_coverage (rb_ledger tx))) \<and>
     (s \<in> {Restored, RolledBack} \<longrightarrow> every_applied_seal_is_reversed (lg_coverage (rb_ledger tx))) \<and>
     (purge_state s \<longrightarrow>
        (\<exists>m mf. rb_staging tx = Some m \<and> rb_tree_manifest tx = Some mf \<and>
           sm_production_association m \<noteq> None \<and> has_content_proof mf)) \<and>
     (\<not> intent_phase s \<and> s \<noteq> RecoveryRequired \<longrightarrow> \<not> has_unresolved (rb_ledger tx)) \<and>
     (sealing_state s \<longrightarrow> rb_rename_outcome tx = None) \<and>
     (s = RestoreIntent \<longrightarrow> (\<forall>i. rb_rename_outcome tx \<noteq> Some (AppliedAndParentsSynced i)))"

text \<open>What binds the recorded evidence to the transaction.\<close>

definition evidence_inv :: "transaction_id \<Rightarrow> replay_building \<Rightarrow> bool" where
  "evidence_inv t tx \<longleftrightarrow>
     (rb_staging tx \<noteq> None \<longleftrightarrow> rb_staging_schema_version tx \<noteq> None) \<and>
     (\<forall>x. rb_rename_outcome tx = Some x \<longrightarrow>
        (\<exists>m. rb_staging tx = Some m \<and> rename_outcome_identity x = sm_root_identity m)) \<and>
     (\<forall>x. rb_undo_rename_outcome tx = Some x \<longrightarrow>
        (\<exists>m. rb_staging tx = Some m \<and> undo_outcome_identity x = sm_root_identity m)) \<and>
     (\<forall>c. rb_tree_sidecar tx = Some c \<longrightarrow> sc_transaction c = t \<and>
        validate_tree_sidecar_commitment c = Inr () \<and>
        (\<exists>mf. rb_tree_manifest tx = Some mf \<and> tm_entry_count mf = sc_record_count c))"

definition building_inv :: "transaction_id \<Rightarrow> replay_building \<Rightarrow> bool" where
  "building_inv t tx \<longleftrightarrow>
     ledger_inv (rb_ledger tx) \<and> evidence_inv t tx \<and>
     (case rb_state tx of None \<Rightarrow> tx = building_default | Some s \<Rightarrow> state_inv tx s)"

lemma building_default_inv: "building_inv t building_default"
  by (simp add: building_inv_def building_default_def evidence_inv_def ledger_default_inv)

lemma building_invE:
  assumes "building_inv t tx"
  obtains "rb_state tx = None" "tx = building_default"
  | s where "rb_state tx = Some s" "state_inv tx s" "ledger_inv (rb_ledger tx)" "evidence_inv t tx"
  using assms by (cases "rb_state tx") (auto simp: building_inv_def)

subsection \<open>State records\<close>

lemma transition_preds:
  assumes "valid_transition s0 s"
  shows "staged_state s \<Longrightarrow> staged_state s0 \<or> s0 = RenameIntent \<and> s = StagedUnverified"
    "committed_state s \<Longrightarrow> committed_state s0 \<or> s = SourceParentRestored"
    "s \<in> {UndoModesRestored, UndoRenameIntent, UndoConflict} \<Longrightarrow>
       s0 \<in> {UndoModesRestored, UndoRenameIntent, UndoConflict} \<or> s = UndoModesRestored"
    "purge_state s \<Longrightarrow> purge_state s0 \<or> s = Purgeable" "sealing_state s \<Longrightarrow> sealing_state s0"
    "s = RestoreIntent \<Longrightarrow> sealing_state s0 \<or> s0 = RenameIntent"
  using assms
  by (auto simp: valid_transition_def staged_state_def committed_state_def purge_state_def
      sealing_state_def)

lemma state_update_simps [simp]:
  "tree_bound (tx\<lparr>rb_state := x\<rparr>) = tree_bound tx" "sidecar_schema (tx\<lparr>rb_state := x\<rparr>) = sidecar_schema tx"
  "evidence_inv t (tx\<lparr>rb_state := x\<rparr>) = evidence_inv t tx"
  by (simp_all add: tree_bound_def sidecar_schema_def evidence_inv_def)

lemma rename_matches_staged:
  "rename_transition_matches x StagedUnverified \<Longrightarrow> \<exists>i. x = Some (AppliedAndParentsSynced i)"
  by (auto simp: rename_transition_matches_def split: option.splits durable_rename_outcome.splits)

lemma rename_matches_restore:
  "rename_transition_matches x RestoreIntent \<Longrightarrow> x \<noteq> Some (AppliedAndParentsSynced i)"
  by (auto simp: rename_transition_matches_def)

lemma state_invD:
  assumes "state_inv tx s"
  shows "s = RenameIntent \<or> staged_state s \<Longrightarrow> tree_bound tx"
    "staged_state s \<Longrightarrow> \<exists>i. rb_rename_outcome tx = Some (AppliedAndParentsSynced i)"
    "committed_state s \<Longrightarrow> every_applied_parent_seal_is_restored (lg_coverage (rb_ledger tx))"
    "s \<in> {UndoModesRestored, UndoRenameIntent, UndoConflict} \<Longrightarrow>
       every_applied_tree_seal_is_undone (lg_coverage (rb_ledger tx))"
    "s \<in> {Restored, RolledBack} \<Longrightarrow> every_applied_seal_is_reversed (lg_coverage (rb_ledger tx))"
    "purge_state s \<Longrightarrow> \<exists>m mf. rb_staging tx = Some m \<and> rb_tree_manifest tx = Some mf \<and>
       sm_production_association m \<noteq> None \<and> has_content_proof mf"
    "\<not> intent_phase s \<Longrightarrow> s \<noteq> RecoveryRequired \<Longrightarrow> \<not> has_unresolved (rb_ledger tx)"
    "sealing_state s \<Longrightarrow> rb_rename_outcome tx = None"
    "s = RestoreIntent \<Longrightarrow> rb_rename_outcome tx \<noteq> Some (AppliedAndParentsSynced i)"
  using assms by (simp_all add: state_inv_def)

lemma state_allowedD:
  assumes "state_allowed v tx s0 s"
  shows "valid_transition s0 s" "s \<noteq> RenameIntent" "s \<noteq> Purgeable"
    "s0 = RenameIntent \<Longrightarrow> rename_transition_matches (rb_rename_outcome tx) s"
    "s = SourceParentRestored \<Longrightarrow> every_applied_parent_seal_is_restored (lg_coverage (rb_ledger tx))"
    "s = UndoModesRestored \<Longrightarrow> every_applied_tree_seal_is_undone (lg_coverage (rb_ledger tx))"
    "s \<in> {Restored, RolledBack} \<Longrightarrow> every_applied_seal_is_reversed (lg_coverage (rb_ledger tx))"
    "s \<noteq> RecoveryRequired \<Longrightarrow> \<not> has_unresolved (rb_ledger tx)"
  using assms by (auto simp: state_allowed_def)

lemma state_allowed_inv:
  assumes inv: "state_inv tx s0" and allowed: "state_allowed v tx s0 s"
  shows "state_inv (tx\<lparr>rb_state := Some s\<rparr>) s"
proof -
  note I = state_invD [OF inv] and A = state_allowedD [OF allowed]
  note preds = transition_preds [OF A(1)]
  have "s = RenameIntent \<or> staged_state s \<Longrightarrow> tree_bound tx" using preds(1) A(2) I(1) by blast
  moreover have "staged_state s \<Longrightarrow> \<exists>i. rb_rename_outcome tx = Some (AppliedAndParentsSynced i)"
    using preds(1) I(2) A(4) rename_matches_staged by metis
  moreover have "committed_state s \<Longrightarrow> every_applied_parent_seal_is_restored (lg_coverage (rb_ledger tx))"
    using preds(2) I(3) A(5) by blast
  moreover have "s \<in> {UndoModesRestored, UndoRenameIntent, UndoConflict} \<Longrightarrow>
      every_applied_tree_seal_is_undone (lg_coverage (rb_ledger tx))"
    using preds(3) I(4) A(6) by blast
  moreover have "purge_state s \<Longrightarrow> \<exists>m mf. rb_staging tx = Some m \<and> rb_tree_manifest tx = Some mf \<and>
      sm_production_association m \<noteq> None \<and> has_content_proof mf"
    using preds(4) A(3) I(6) by blast
  moreover have "sealing_state s \<Longrightarrow> rb_rename_outcome tx = None" using preds(5) I(8) by blast
  moreover have "s = RestoreIntent \<Longrightarrow> rb_rename_outcome tx \<noteq> Some (AppliedAndParentsSynced i)" for i
    using preds(6) I(8) A(4) rename_matches_restore by fastforce
  ultimately show ?thesis using A(7,8) unfolding state_inv_def by simp
qed

subsection \<open>Ledger records\<close>

lemma state_inv_ledger:
  assumes "state_inv tx s" "intent_phase s"
    and "every_applied_parent_seal_is_restored (lg_coverage (rb_ledger tx)) \<Longrightarrow> committed_state s \<Longrightarrow>
         every_applied_parent_seal_is_restored (lg_coverage l)"
  shows "state_inv (tx\<lparr>rb_ledger := l\<rparr>) s"
proof -
  have "s \<notin> {UndoModesRestored, UndoRenameIntent, UndoConflict}" "s \<notin> {Restored, RolledBack}"
    using assms(2) by (auto simp: intent_phase_def)
  moreover have "tree_bound (tx\<lparr>rb_ledger := l\<rparr>) = tree_bound tx"
    by (simp add: tree_bound_def sidecar_schema_def)
  ultimately show ?thesis
    using assms(1,3) assms(2) by (auto simp: state_inv_def)
qed

lemma coverage_record_intent_same: "lg_coverage (record_intent p f l) = lg_coverage l"
  by (simp add: record_intent_def Let_def)

text \<open>A resolution in a committed phase leaves the restored parents as they are.\<close>

lemma restored_after_resolution:
  assumes "ledger_inv l" "ledger_entry l mid = Some e" "pe_application e = ApplicationUnknown"
    and "record_resolution mid r l = Some l'" "committed_state (pe_phase e)"
    and "every_applied_parent_seal_is_restored (lg_coverage l)"
  shows "every_applied_parent_seal_is_restored (lg_coverage l')"
proof -
  have linked: "entry_linked (ledger_entries l) e"
    using assms(1,2) by (simp add: ledger_inv_def links_ok_def ledger_entry_eq)
  have "pe_phase e \<noteq> ParentSealIntent" "pe_phase e \<noteq> SourceParentRestoreIntent"
    using assms(5) by (auto simp: committed_state_def)
  then show ?thesis
    using assms(6) record_resolution_facts(6) [OF assms(1-4)] coverage_after_simps [OF linked]
    by (simp add: every_applied_parent_seal_is_restored_def)
qed

lemma evidence_inv_ledger [simp]: "evidence_inv t (tx\<lparr>rb_ledger := l\<rparr>) = evidence_inv t tx"
  by (simp add: evidence_inv_def)

lemma ledger_records_inv:
  assumes inv: "building_inv t tx" and rd: "reader_ok rd t (rb_ledger tx)"
  shows "replay_intent rd t v f mid ev pre expd rv tx = Inr tx' \<Longrightarrow> building_inv t tx'"
    and "resolve_replayed_permission mid r tx = Inr tx' \<Longrightarrow> building_inv t tx'"
proof -
  assume "replay_intent rd t v f mid ev pre expd rv tx = Inr tx'"
  then obtain phase where ph: "rb_state tx = Some phase" "intent_allowed v mid ev rv phase tx"
    "validate_replayed_inverse (rb_ledger tx) rd t (rb_staging tx) phase ev pre expd rv = Inr ()"
    "tx' = tx\<lparr>rb_ledger := record_intent (intent_permission mid phase ev pre expd rv) f (rb_ledger tx)\<rparr>"
    by (auto simp: replay_iffs)
  have "admissible (rb_ledger tx) (intent_permission mid phase ev pre expd rv)"
    using accepted_intent_admissible [OF rd _ ph(3)] ph(2) by (simp add: intent_allowed_def)
  then have "ledger_inv (rb_ledger tx')" using inv ph(4) by (simp add: building_inv_def record_intent_inv)
  then show "building_inv t tx'"
    using inv ph by (auto simp: building_inv_def intent_allowed_def coverage_record_intent_same
        intro!: state_inv_ledger)
next
  assume "resolve_replayed_permission mid r tx = Inr tx'"
  then obtain e l where e: "ledger_entry (rb_ledger tx) mid = Some e" "rb_state tx = Some (pe_phase e)"
    "pe_application e = ApplicationUnknown" "record_resolution mid r (rb_ledger tx) = Some l"
    "tx' = tx\<lparr>rb_ledger := l\<rparr>"
    by (auto simp: replay_iffs)
  have linv: "ledger_inv (rb_ledger tx)" using inv by (simp add: building_inv_def)
  from record_resolution_inv [OF linv e(1,3), of r] e(4) have "ledger_inv l" by simp
  moreover have "intent_phase (pe_phase e)"
  proof -
    have "entry_linked (ledger_entries (rb_ledger tx)) e"
      using linv e(1) by (simp add: ledger_inv_def links_ok_def ledger_entry_eq)
    then show ?thesis
      by (auto simp: entry_linked_def intent_phase_def seal_phase_def inverse_phase_def split: option.splits)
  qed
  ultimately show "building_inv t tx'"
    using inv e restored_after_resolution [OF linv e(1,3,4)]
    by (auto simp: building_inv_def intro!: state_inv_ledger)
qed


subsection \<open>The other records\<close>

lemmas state_sets = staged_state_def committed_state_def purge_state_def intent_phase_def
  sealing_state_def

lemma begin_records_inv:
  assumes inv: "building_inv t tx"
  shows "replay_staging_begin v m tx = Inr tx' \<Longrightarrow> building_inv t tx'"
    and "replay_state v s tx = Inr tx' \<Longrightarrow> building_inv t tx'"
proof -
  assume "replay_staging_begin v m tx = Inr tx'"
  with inv show "building_inv t tx'"
    by (auto simp: replay_iffs building_inv_def building_default_def evidence_inv_def state_inv_def
        state_sets ledger_default_def has_unresolved_def)
next
  assume acc: "replay_state v s tx = Inr tx'"
  show "building_inv t tx'"
  proof (cases "rb_state tx")
    case None
    with inv acc show ?thesis
      by (auto simp: replay_iffs building_inv_def building_default_def evidence_inv_def state_inv_def
          state_sets ledger_default_def has_unresolved_def)
  next
    case (Some s0)
    with inv acc show ?thesis
      by (auto simp: replay_iffs building_inv_def intro: state_allowed_inv)
  qed
qed

lemma tree_records_inv:
  assumes inv: "building_inv t tx"
  shows "replay_manifest v m tx = Inr tx' \<Longrightarrow> building_inv t tx'"
    and "replay_sidecar v t m c tx = Inr tx' \<Longrightarrow> building_inv t tx'"
  using inv
  by (auto simp: replay_iffs building_inv_def evidence_inv_def state_inv_def state_sets
      manifest_unordered_def)

lemma rename_records_inv:
  assumes inv: "building_inv t tx"
  shows "replay_rename_intent tx = Inr tx' \<Longrightarrow> building_inv t tx'"
    and "replay_rename_outcome x tx = Inr tx' \<Longrightarrow> building_inv t tx'"
    and "replay_undo_outcome y tx = Inr tx' \<Longrightarrow> building_inv t tx'"
  using inv
  by (auto simp: replay_iffs building_inv_def evidence_inv_def state_inv_def state_sets
      tree_bound_def sidecar_schema_def)

lemma purge_records_inv:
  assumes inv: "building_inv t tx"
  shows "replay_purge_authorized c tx = Inr tx' \<Longrightarrow> building_inv t tx'"
    and "replay_purge_claimed c tx = Inr tx' \<Longrightarrow> building_inv t tx'"
    and "replay_purge_progress v n p tx = Inr tx' \<Longrightarrow> building_inv t tx'"
  using inv
  by (auto simp: replay_iffs building_inv_def evidence_inv_def state_inv_def state_sets
      tree_bound_def sidecar_schema_def)

theorem replay_record_inv:
  assumes "replay_record rd v f r tx = Inr tx'" "building_inv (record_transaction r) tx"
    and "reader_ok rd (record_transaction r) (rb_ledger tx)"
  shows "building_inv (record_transaction r) tx'"
  using assms
  by (cases r) (auto dest: begin_records_inv tree_records_inv rename_records_inv purge_records_inv
      ledger_records_inv)

text \<open>Every accepted record leaves its transaction in a state.\<close>

lemma replay_record_state:
  assumes "replay_record rd v f r tx = Inr tx'" "building_inv (record_transaction r) tx"
  shows "rb_state tx' \<noteq> None"
  using assms
  by (cases r) (auto simp: replay_iffs building_inv_def manifest_unordered_def)

text \<open>Replay does not reach the \<open>expect\<close> of the ledger.\<close>

lemma invalid_no_panic [simp]: "invalid reason \<noteq> Inl ReplayPanic"
  by (simp add: invalid_def)

lemma if_invalid_panic [simp]:
  "(if c then invalid reason else m) = Inl ReplayPanic \<longleftrightarrow> \<not> c \<and> m = Inl ReplayPanic"
  by simp

lemma and_then_no_panic:
  "m \<noteq> Inl ReplayPanic \<Longrightarrow> and_then m (\<lambda>_. Inr x) \<noteq> Inl ReplayPanic"
  by (cases m) (simp_all add: and_then_def)

lemma validate_inverse_no_panic:
  "validate_replayed_inverse l rd t staging phase ev pre expd rv \<noteq> Inl ReplayPanic"
  by (simp add: validate_replayed_inverse_def split: option.split sum.split)

lemma replay_record_no_panic:
  assumes "building_inv (record_transaction r) tx"
  shows "replay_record rd v f r tx \<noteq> Inl ReplayPanic"
proof -
  have "resolve_replayed_permission mid res tx \<noteq> Inl ReplayPanic" for mid res
  proof -
    have "ledger_inv (rb_ledger tx)" using assms by (simp add: building_inv_def)
    then show ?thesis
      using record_resolution_inv [of "rb_ledger tx" mid _ res]
      by (auto simp: resolve_replayed_permission_def invalid_def split: option.splits)
  qed
  then show ?thesis
    by (cases r)
       (simp_all add: replay_staging_begin_def replay_manifest_def replay_sidecar_def
        replay_rename_intent_def replay_rename_outcome_def replay_purge_authorized_def
        replay_purge_claimed_def replay_purge_progress_def replay_state_def replay_intent_def
        validate_inverse_no_panic replay_undo_outcome_def Let_def and_then_no_panic
        split: option.split)
qed

end
