(* ===== verification/Wal_Replay_Index.thy ===== *)
theory Wal_Replay_Index
  imports Wal_Replay_Inv
begin

text \<open>
  Replay keeps no permission record: a ledger entry holds the extent of the frame its intent was
  written as, and a record that is needed again is read out of the bytes. Here replay over the
  bytes is shown to be replay over resident records, and the invariant of a transaction to hold of
  everything replay returns.
\<close>

section \<open>The records a log holds\<close>

fun intent_of :: "transaction_id \<Rightarrow> u64 \<Rightarrow> seal_record \<Rightarrow> bool" where
  "intent_of t mid (PermissionIntent t' mid' ev pre expd rv) = (t' = t \<and> mid' = mid)"
| "intent_of t mid _ = False"

fun record_reverses :: "seal_record \<Rightarrow> u64 option" where
  "record_reverses (PermissionIntent t mid ev pre expd rv) = rv"
| "record_reverses _ = None"

definition find_intent :: "versioned_record list \<Rightarrow> transaction_id \<Rightarrow> u64 \<Rightarrow> versioned_record option" where
  "find_intent vrs t mid = List.find (\<lambda>vr. intent_of t mid (vr_record vr)) vrs"

text \<open>The permission record of an intent under the phase and resolution an entry holds.\<close>

fun permission_of :: "seal_record \<Rightarrow> permission_entry \<Rightarrow> permission_read_error + durable_permission" where
  "permission_of (PermissionIntent t mid ev pre expd rv) e =
     Inr \<lparr>dp_mutation_id = mid, dp_phase = pe_phase e, dp_evidence = ev, dp_pre_mode = pre,
          dp_expected_mode = expd, dp_reverses = rv, dp_application = pe_application e\<rparr>"
| "permission_of _ e = Inl (PermissionMismatch 0 [])"

text \<open>The abstract reader: all records are resident, and an intent is looked up by its ids.\<close>

definition resident :: "versioned_record list \<Rightarrow> intent_reader" where
  "resident vrs t mid e =
     (case find_intent vrs t mid of
        None \<Rightarrow> Inl (PermissionMismatch mid [])
      | Some vr \<Rightarrow> permission_of (vr_record vr) e)"

lemma find_intent_Nil [simp]: "find_intent [] t mid = None"
  by (simp add: find_intent_def)

lemma find_intent_append:
  "find_intent (xs @ ys) t mid = (case find_intent xs t mid of None \<Rightarrow> find_intent ys t mid | Some x \<Rightarrow> Some x)"
  by (induction xs) (simp_all add: find_intent_def)

lemma find_intent_single:
  "find_intent [vr] t mid = (if intent_of t mid (vr_record vr) then Some vr else None)"
  by (simp add: find_intent_def)

lemma find_intent_SomeD:
  "find_intent vrs t mid = Some vr \<Longrightarrow> vr \<in> set vrs \<and> intent_of t mid (vr_record vr)"
  by (auto simp: find_intent_def find_Some_iff in_set_conv_nth)

lemma intent_of_iff:
  "intent_of t mid r \<longleftrightarrow> (\<exists>ev pre expd rv. r = PermissionIntent t mid ev pre expd rv)"
  by (cases r) auto

lemma intent_of_transaction: "intent_of t mid r \<Longrightarrow> record_transaction r = t"
  by (cases r) auto

text \<open>A reader serves a log when it finds every intent of it by the extent of its frame.\<close>

definition serves :: "intent_reader \<Rightarrow> versioned_record list \<Rightarrow> bool" where
  "serves rd vrs \<longleftrightarrow>
     (\<forall>t mid e vr. find_intent vrs t mid = Some vr \<longrightarrow> pe_frame e = vr_frame vr \<longrightarrow>
        rd t mid e = permission_of (vr_record vr) e)"

lemma resident_serves: "serves (resident vrs) vrs"
  by (simp add: serves_def resident_def)

lemma scan_records_split:
  assumes "vr \<in> set (scan_records off cfs)"
  obtains before cf later where "cfs = before @ cf # later"
    "vr = versioned_at (off + length (log_bytes before)) cf"
proof -
  have "\<exists>before cf later. cfs = before @ cf # later \<and>
      vr = versioned_at (off + length (log_bytes before)) cf"
    using assms
  proof (induction cfs arbitrary: off)
    case (Cons cf cfs)
    show ?case
    proof (cases "vr = versioned_at off cf")
      case True
      then show ?thesis by (intro exI [of _ "[]"]) simp
    next
      case False
      with Cons.prems Cons.IH [of "off + frame_len_of cf"] obtain before cf' later where
        "cfs = before @ cf' # later"
        "vr = versioned_at (off + frame_len_of cf + length (log_bytes before)) cf'" by auto
      then show ?thesis by (intro exI [of _ "cf # before"]) (simp add: add.assoc)
    qed
  qed simp
  then show thesis using that by blast
qed

lemma framed_serves:
  assumes "committed_log cfs" "length (log_bytes cfs) \<le> MAX_WAL_LEN"
  shows "serves (read_framed_intent (log_bytes cfs @ tail)) (scan_records 0 cfs)"
  unfolding serves_def
proof (intro allI impI)
  fix t mid vr and e :: permission_entry
  assume f: "find_intent (scan_records 0 cfs) t mid = Some vr" and e: "pe_frame e = vr_frame vr"
  from find_intent_SomeD [OF f] obtain ev pre expd rv where
    mem: "vr \<in> set (scan_records 0 cfs)" and r: "vr_record vr = PermissionIntent t mid ev pre expd rv"
    by (auto simp: intent_of_iff)
  from mem obtain before cf later where split: "cfs = before @ cf # later"
    "vr = versioned_at (length (log_bytes before)) cf" by (auto elim: scan_records_split)
  have "record_of cf = PermissionIntent t mid ev pre expd rv"
    using r split(2) by (simp add: versioned_at_def)
  then show "read_framed_intent (log_bytes cfs @ tail) t mid e = permission_of (vr_record vr) e"
    using read_framed_intent_at [of before cf later t mid ev pre expd rv e tail t mid] assms e split r
    by simp
qed

section \<open>The index of a ledger\<close>

definition entry_index :: "permission_ledger \<Rightarrow> u64 \<Rightarrow> (frame_extent option \<times> u64 option) option" where
  "entry_index l mid = map_option (\<lambda>e. (pe_frame e, pe_reverses e)) (ledger_entry l mid)"

definition indexed :: "versioned_record list \<Rightarrow> transaction_id \<Rightarrow> permission_ledger \<Rightarrow> bool" where
  "indexed vrs t l \<longleftrightarrow>
     (\<forall>mid. entry_index l mid =
        map_option (\<lambda>vr. (vr_frame vr, record_reverses (vr_record vr))) (find_intent vrs t mid))"

lemma entry_index_None: "entry_index l mid = None \<longleftrightarrow> ledger_entry l mid = None"
  by (simp add: entry_index_def)

text \<open>Only an intent adds to the index, and it adds itself.\<close>

lemma replay_record_index:
  assumes "replay_record rd v f r tx = Inr tx'" "building_inv t tx"
  shows "entry_index (rb_ledger tx') mid =
    (if intent_of (record_transaction r) mid r then Some (f, record_reverses r)
     else entry_index (rb_ledger tx) mid) \<and>
    (intent_of (record_transaction r) mid r \<longrightarrow> entry_index (rb_ledger tx) mid = None)"
proof -
  have inv: "ledger_inv (rb_ledger tx)" using assms(2) by (simp add: building_inv_def)
  have res: "entry_index l' k = entry_index (rb_ledger tx) k"
    if "ledger_entry (rb_ledger tx) m = Some e" "pe_application e = ApplicationUnknown"
      "record_resolution m res (rb_ledger tx) = Some l'" for m e res l' k
    using record_resolution_facts(2) [OF inv that] that(1)
    by (simp add: entry_index_def ledger_entry_eq)
  have new: "entry_index (record_intent p f l) k =
      (if dp_mutation_id p = k then Some (f, dp_reverses p) else entry_index l k)"
    if "ledger_inv l" for p l k
    using that by (simp add: entry_index_def ledger_entry_eq ledger_inv_def
        ledger_entries_record_intent new_entry_def)
  show ?thesis
  proof (cases r)
    case PermissionIntent
    with assms(1) new [OF inv] show ?thesis
      by (auto simp: replay_iffs intent_permission_def intent_allowed_def entry_index_None)
  next
    case PermissionApplied
    with assms(1) res show ?thesis by (fastforce simp: replay_iffs)
  next
    case PermissionNotApplied
    with assms(1) res show ?thesis by (fastforce simp: replay_iffs)
  qed (use assms(1) in \<open>auto simp: replay_iffs\<close>)
qed

lemma indexed_step:
  assumes "indexed vrs t l" and "record_transaction (vr_record vr) = t"
    and "\<And>mid. entry_index l' mid =
      (if intent_of t mid (vr_record vr) then Some (vr_frame vr, record_reverses (vr_record vr))
       else entry_index l mid) \<and> (intent_of t mid (vr_record vr) \<longrightarrow> entry_index l mid = None)"
  shows "indexed (vrs @ [vr]) t l'"
  using assms unfolding indexed_def
  by (auto simp: find_intent_append find_intent_single split: option.splits)

lemma indexed_other:
  assumes "indexed vrs t l" "record_transaction (vr_record vr) \<noteq> t"
  shows "indexed (vrs @ [vr]) t l"
  using assms intent_of_transaction unfolding indexed_def
  by (auto simp: find_intent_append find_intent_single split: option.splits)

text \<open>A served, indexed ledger can read all its records, and what it reads does not depend on the
  reader.\<close>

lemma served_entry:
  assumes "serves rd (vrs @ rest)" "indexed vrs t l" "ledger_entry l mid = Some e"
  obtains vr where "find_intent vrs t mid = Some vr" "rd t mid e = permission_of (vr_record vr) e"
    "pe_reverses e = record_reverses (vr_record vr)"
proof -
  from assms(2) have "entry_index l mid = map_option (\<lambda>vr. (vr_frame vr, record_reverses (vr_record vr)))
      (find_intent vrs t mid)" by (simp add: indexed_def)
  with assms(3) obtain vr where vr: "find_intent vrs t mid = Some vr" "pe_frame e = vr_frame vr"
    "pe_reverses e = record_reverses (vr_record vr)"
    by (cases "find_intent vrs t mid") (auto simp: entry_index_def)
  with assms(1) have "rd t mid e = permission_of (vr_record vr) e"
    by (simp add: serves_def find_intent_append)
  with vr show thesis using that by blast
qed

lemma served_reader_ok:
  assumes "serves rd (vrs @ rest)" "indexed vrs t l"
  shows "reader_ok rd t l"
  unfolding reader_ok_def
proof (intro allI impI)
  fix mid e assume "ledger_entry l mid = Some e"
  then obtain vr where vr: "find_intent vrs t mid = Some vr" "rd t mid e = permission_of (vr_record vr) e"
    "pe_reverses e = record_reverses (vr_record vr)" using served_entry [OF assms] by metis
  from find_intent_SomeD [OF vr(1)] vr(2,3)
  show "\<exists>ev pre expd. rd t mid e = Inr \<lparr>dp_mutation_id = mid, dp_phase = pe_phase e,
      dp_evidence = ev, dp_pre_mode = pre, dp_expected_mode = expd, dp_reverses = pe_reverses e,
      dp_application = pe_application e\<rparr>"
    by (auto simp: intent_of_iff)
qed

lemma served_same:
  assumes "serves rd (vrs @ rest)" "serves rd' (vrs @ rest')" "indexed vrs t (rb_ledger tx)"
    and "record_transaction r = t"
  shows "replay_record rd v f r tx = replay_record rd' v f r tx"
proof -
  have "rd t mid e = rd' t mid e" if "ledger_entry (rb_ledger tx) mid = Some e" for mid e
    using served_entry [OF assms(1,3) that] served_entry [OF assms(2,3) that] by (metis option.inject)
  then have "validate_replayed_inverse (rb_ledger tx) rd t staging phase ev pre expd rv =
      validate_replayed_inverse (rb_ledger tx) rd' t staging phase ev pre expd rv"
    for staging phase ev pre expd rv
    by (auto simp: validate_replayed_inverse_def split: option.splits)
  then have "replay_intent rd t v f mid ev pre expd rv tx = replay_intent rd' t v f mid ev pre expd rv tx"
    for mid ev pre expd rv
    by (cases "rb_state tx") (simp_all only: replay_intent_def option.case)
  then show ?thesis using assms(4) by (cases r) simp_all
qed

section \<open>The invariant of a replay\<close>

definition progress_inv :: "versioned_record list \<Rightarrow> replay_progress \<Rightarrow> bool" where
  "progress_inv vrs q \<longleftrightarrow>
     bt_sorted (rq_transactions q) \<and>
     (\<forall>t. building_inv t (building_of q t) \<and> indexed vrs t (rb_ledger (building_of q t))) \<and>
     (\<forall>t tx. map_of (rq_transactions q) t = Some tx \<longrightarrow> rb_state tx \<noteq> None)"

lemma progress_default_inv: "progress_inv [] progress_default"
proof -
  have "entry_index (rb_ledger building_default) mid = None" for mid
    by (simp add: entry_index_def building_default_def ledger_default_def ledger_entry_def)
  then show ?thesis
    by (simp add: progress_inv_def progress_default_def building_of_def building_default_inv indexed_def
        bt_sorted_def)
qed

lemma building_of_insert:
  assumes "bt_sorted (rq_transactions q)"
  shows "building_of \<lparr>rq_transactions = bt_insert t tx (rq_transactions q), rq_order = ord\<rparr> t' =
    (if t' = t then tx else building_of q t')"
  using assms by (simp add: building_of_def map_of_bt_insert)

lemma replay_step_inv:
  assumes "replay_step rd vr q = Inr q'" "progress_inv vrs q" "serves rd (vrs @ rest)"
  shows "progress_inv (vrs @ [vr]) q'"
proof -
  define t where "t = record_transaction (vr_record vr)"
  from assms(1) obtain tx ord where tx:
    "replay_record rd (vr_version vr) (vr_frame vr) (vr_record vr) (building_of q t) = Inr tx"
    "q' = \<lparr>rq_transactions = bt_insert t tx (rq_transactions q), rq_order = ord\<rparr>"
    by (auto simp: replay_step_def Let_def and_then_Inr_iff t_def)
  have inv: "bt_sorted (rq_transactions q)" "building_inv t' (building_of q t')"
    "indexed vrs t' (rb_ledger (building_of q t'))" for t'
    using assms(2) by (simp_all add: progress_inv_def)
  have "building_inv t tx" "rb_state tx \<noteq> None"
    using replay_record_inv [OF tx(1)] replay_record_state [OF tx(1)] inv(2)
      served_reader_ok [OF assms(3) inv(3)] by (simp_all add: t_def)
  moreover have "indexed (vrs @ [vr]) t (rb_ledger tx)"
    using indexed_step [OF inv(3)] replay_record_index [OF tx(1) inv(2)] by (simp add: t_def)
  moreover have "indexed (vrs @ [vr]) t' (rb_ledger (building_of q t'))" if "t' \<noteq> t" for t'
    using indexed_other [OF inv(3)] that by (simp add: t_def)
  ultimately show ?thesis
    using inv assms(2) tx(2)
    by (auto simp: progress_inv_def building_of_insert bt_sorted_insert map_of_bt_insert)
qed

lemma fold_replay_inv:
  assumes "fold_r (replay_step rd) vrs' q = Inr q'" "progress_inv vrs q" "serves rd (vrs @ vrs' @ rest)"
  shows "progress_inv (vrs @ vrs') q'"
  using assms
proof (induction vrs' arbitrary: vrs q)
  case (Cons vr vrs')
  from Cons.prems(1) obtain q1 where q1: "replay_step rd vr q = Inr q1"
    "fold_r (replay_step rd) vrs' q1 = Inr q'" by (auto simp: and_then_Inr_iff)
  have "progress_inv (vrs @ [vr]) q1"
    using replay_step_inv [OF q1(1) Cons.prems(2)] Cons.prems(3) by simp
  then show ?case using Cons.IH [OF q1(2), of "vrs @ [vr]"] Cons.prems(3) by simp
qed simp

lemma fold_replay_same:
  assumes "progress_inv vrs q" "serves rd (vrs @ vrs' @ rest)" "serves rd' (vrs @ vrs' @ rest')"
  shows "fold_r (replay_step rd) vrs' q = fold_r (replay_step rd') vrs' q"
  using assms
proof (induction vrs' arbitrary: vrs q)
  case (Cons vr vrs')
  have "indexed vrs t (rb_ledger (building_of q t))" for t
    using Cons.prems(1) by (simp add: progress_inv_def)
  then have step: "replay_step rd vr q = replay_step rd' vr q"
    unfolding replay_step_def Let_def
    by (subst served_same [OF Cons.prems(2,3)]) simp_all
  show ?case
  proof (cases "replay_step rd vr q")
    case (Inr q1)
    then have "progress_inv (vrs @ [vr]) q1"
      using replay_step_inv Cons.prems(1,2) by blast
    with Cons.IH [of "vrs @ [vr]" q1] Cons.prems(2,3) Inr step show ?thesis by simp
  qed (use step in simp)
qed simp

lemma fold_replay_no_panic:
  assumes "progress_inv vrs q" "serves rd (vrs @ vrs' @ rest)"
  shows "fold_r (replay_step rd) vrs' q \<noteq> Inl ReplayPanic"
  using assms
proof (induction vrs' arbitrary: vrs q)
  case (Cons vr vrs')
  show ?case
  proof (cases "replay_step rd vr q")
    case (Inl e)
    have "e \<noteq> ReplayPanic"
      using replay_record_no_panic [of "vr_record vr"] Cons.prems(1) Inl
      by (auto simp: replay_step_def Let_def and_then_def progress_inv_def split: sum.splits)
    with Inl show ?thesis by simp
  next
    case (Inr q1)
    then have "progress_inv (vrs @ [vr]) q1" using replay_step_inv Cons.prems by blast
    with Cons.IH [of "vrs @ [vr]" q1] Cons.prems(2) Inr show ?thesis by simp
  qed
qed simp

section \<open>Finishing a replay\<close>

definition finished :: "transaction_id \<Rightarrow> replay_building \<Rightarrow> replayed_transaction" where
  "finished t tx = \<lparr>rt_id = t, rt_state = the (rb_state tx),
     rt_staging_schema_version = rb_staging_schema_version tx,
     rt_permission_workload = ledger_workload (rb_ledger tx), rt_staging = rb_staging tx,
     rt_tree_manifest = rb_tree_manifest tx, rt_tree_sidecar = rb_tree_sidecar tx,
     rt_rename_outcome = rb_rename_outcome tx, rt_undo_rename_outcome = rb_undo_rename_outcome tx,
     rt_purge_removed_entries = rb_purge_removed_entries tx, rt_purge_last_path = rb_purge_last_path tx\<rparr>"

lemma finish_all_eq:
  "(\<forall>(t, tx) \<in> set m. rb_state tx \<noteq> None) \<Longrightarrow> finish_all m = Inr (map (\<lambda>(t, tx). (t, finished t tx)) m)"
  by (induction m) (auto simp: finish_transaction_def finished_def)

lemma progress_inv_states:
  assumes "progress_inv vrs q"
  shows "\<forall>(t, tx) \<in> set (rq_transactions q). rb_state tx \<noteq> None"
proof -
  have "distinct (map fst (rq_transactions q))"
    using assms by (simp add: progress_inv_def bt_sorted_def strict_sorted_iff)
  then show ?thesis using assms by (auto simp: progress_inv_def)
qed

text \<open>What a replay returns for the transactions it built.\<close>

definition replay_of :: "replay_progress \<Rightarrow> replay" where
  "replay_of q = \<lparr>rp_transactions = map (\<lambda>(t, tx). (t, finished t tx)) (rq_transactions q),
     rp_transaction_order = complete_order (rq_order q) (map fst (rq_transactions q)),
     rp_tail_repair = None, rp_committed_len = 0, rp_frame_bytes = [],
     rp_ledgers = map (\<lambda>(t, tx). (t, rb_ledger tx)) (rq_transactions q)\<rparr>"

lemma map_of_map_values: "map_of (map (\<lambda>(k, v). (k, f k v)) m) k = map_option (f k) (map_of m k)"
  by (induction m) auto

definition replay_with :: "intent_reader \<Rightarrow> versioned_record list \<Rightarrow> replay_error + replay" where
  "replay_with rd vrs =
     and_then (fold_r (replay_step rd) vrs progress_default) (\<lambda>q. Inr (replay_of q))"

text \<open>Every transaction a served replay built has a state: collecting them cannot fail.\<close>

lemma replay_records_eq:
  assumes "serves (read_framed_intent frames) (vrs @ rest)"
  shows "replay_records vrs frames = replay_with (read_framed_intent frames) vrs"
proof (cases "fold_r (replay_step (read_framed_intent frames)) vrs progress_default")
  case (Inr q)
  then have "progress_inv vrs q"
    using fold_replay_inv [of "read_framed_intent frames" vrs progress_default q "[]" rest]
      progress_default_inv assms by simp
  with Inr show ?thesis
    by (simp add: replay_records_def replay_with_def finish_all_eq [OF progress_inv_states] replay_of_def
        comp_def case_prod_unfold)
qed (simp add: replay_records_def replay_with_def)

lemma replay_records_resident:
  assumes "committed_log cfs" "length (log_bytes cfs) \<le> MAX_WAL_LEN"
  shows "replay_records (scan_records 0 cfs) (log_bytes cfs @ tail) =
         replay_with (resident (scan_records 0 cfs)) (scan_records 0 cfs)"
proof -
  have s: "serves (read_framed_intent (log_bytes cfs @ tail)) (scan_records 0 cfs @ [])"
    using framed_serves [OF assms] by simp
  have "replay_with (read_framed_intent (log_bytes cfs @ tail)) (scan_records 0 cfs) =
      replay_with (resident (scan_records 0 cfs)) (scan_records 0 cfs)"
    using fold_replay_same [OF progress_default_inv, of "read_framed_intent (log_bytes cfs @ tail)"
        "scan_records 0 cfs" "[]" "resident (scan_records 0 cfs)" "[]"] s
      resident_serves [of "scan_records 0 cfs"]
    by (simp add: replay_with_def)
  with replay_records_eq [OF s] show ?thesis by simp
qed

text \<open>An accepted file is a committed log with a torn tail, and its transactions satisfy the
  invariant.\<close>

lemma replay_and_repair_cases:
  assumes "replay_and_repair set_len bytes = Inr (rp, file)"
  obtains cfs tail q where "bytes = log_bytes cfs @ tail" "committed_log cfs" "torn check_frame tail"
    "length bytes \<le> MAX_WAL_LEN"
    "fold_r (replay_step (resident (scan_records 0 cfs))) (scan_records 0 cfs) progress_default = Inr q"
    "progress_inv (scan_records 0 cfs) q"
    "rp = (replay_of q)\<lparr>rp_frame_bytes := frame_bytes (scan_spans 0 cfs),
       rp_tail_repair := (if tail = [] then None else Some (length tail)),
       rp_committed_len := length (log_bytes cfs)\<rparr>"
    "if tail = [] then file = bytes else set_len (length (log_bytes cfs)) bytes = Inr file"
proof -
  from assms obtain pf where len: "length bytes \<le> MAX_WAL_LEN" and pf: "parse_frames bytes = Inr pf"
    by (auto simp: replay_and_repair_def and_then_Inr_iff split: if_splits)
  then obtain cfs tail where log: "bytes = log_bytes cfs @ tail" "committed_log cfs"
    "torn check_frame tail" "pf = \<lparr>pf_records = scan_records 0 cfs, pf_spans = scan_spans 0 cfs,
       pf_committed_len = length (log_bytes cfs)\<rparr>"
    by (auto simp: parse_frames_iff)
  have replay: "replay_records (scan_records 0 cfs) bytes =
      replay_with (resident (scan_records 0 cfs)) (scan_records 0 cfs)"
    using replay_records_resident [OF log(2), of tail] len log(1) by simp
  from assms len pf obtain rp0 where "replay_records (scan_records 0 cfs) bytes = Inr rp0"
    by (auto simp: replay_and_repair_def and_then_Inr_iff log(4))
  moreover from this replay obtain q where
    "replay_with (resident (scan_records 0 cfs)) (scan_records 0 cfs) = Inr (replay_of q)"
    "fold_r (replay_step (resident (scan_records 0 cfs))) (scan_records 0 cfs) progress_default = Inr q"
    unfolding replay_with_def by (metis and_then_Inr_iff)
  ultimately obtain q where
    q: "fold_r (replay_step (resident (scan_records 0 cfs))) (scan_records 0 cfs) progress_default = Inr q"
    "replay_records (scan_records 0 cfs) bytes = Inr (replay_of q)"
    using replay by auto
  have "progress_inv (scan_records 0 cfs) q"
    using fold_replay_inv [OF q(1) progress_default_inv, of "[]"] resident_serves by simp
  moreover have "rp = (replay_of q)\<lparr>rp_frame_bytes := frame_bytes (scan_spans 0 cfs),
       rp_tail_repair := (if tail = [] then None else Some (length tail)),
       rp_committed_len := length (log_bytes cfs)\<rparr>"
    "if tail = [] then file = bytes else set_len (length (log_bytes cfs)) bytes = Inr file"
    using assms len pf q(2) log(1,4)
    by (auto simp: replay_and_repair_def Let_def replay_of_def split: if_splits sum.splits)
  ultimately show thesis using that log len q(1) by blast
qed

section \<open>Cut files\<close>

text \<open>A file that holds the first frames of an accepted log, and torn bytes after them, is accepted
  again and replays to the state after those frames.\<close>

lemma scan_records_take: "scan_records off (take k cfs) = take k (scan_records off cfs)"
proof (induction cfs arbitrary: off k)
  case (Cons cf cfs)
  then show ?case by (cases k) simp_all
qed simp

lemma scan_spans_nth:
  "k < length cfs \<Longrightarrow> fs_end (scan_spans off cfs ! k) = off + length (log_bytes (take (Suc k) cfs))"
proof (induction cfs arbitrary: off k)
  case (Cons cf cfs)
  then show ?case by (cases k) (simp_all add: add.assoc)
qed simp

lemma length_scan_records [simp]: "length (scan_records off cfs) = length cfs"
  by (induction cfs arbitrary: off) simp_all

lemma fold_r_take: "fold_r f xs s = Inr t \<Longrightarrow> \<exists>u. fold_r f (take k xs) s = Inr u"
  by (cases "fold_r f (take k xs) s") (use fold_r_append [of f "take k xs" "drop k xs" s] in simp_all)

lemma replay_prefix:
  assumes "committed_log cfs" "length (log_bytes cfs @ tail) \<le> MAX_WAL_LEN"
    and "fold_r (replay_step (resident (scan_records 0 cfs))) (scan_records 0 cfs) progress_default = Inr q"
  shows "\<exists>q'. replay_records (scan_records 0 (take k cfs)) (log_bytes (take k cfs) @ tail') = Inr (replay_of q') \<and>
    replay_records (take k (scan_records 0 cfs)) (log_bytes cfs @ tail) = Inr (replay_of q')"
proof -
  let ?vrs = "scan_records 0 cfs" and ?rest = "drop k (scan_records 0 cfs)"
  have logs: "length (log_bytes cfs) \<le> MAX_WAL_LEN" "length (log_bytes (take k cfs)) \<le> MAX_WAL_LEN"
    using assms(2) log_bytes_simps(3) [of "take k cfs" "drop k cfs"] by simp_all
  have split: "?vrs = take k ?vrs @ ?rest" by simp
  have serve: "serves (resident ?vrs) (take k ?vrs @ ?rest)"
    "serves (read_framed_intent (log_bytes cfs @ tail)) (take k ?vrs @ ?rest)"
    "serves (read_framed_intent (log_bytes (take k cfs) @ tail')) (take k ?vrs @ [])"
    using resident_serves [of ?vrs] framed_serves [OF assms(1) logs(1), of tail]
      framed_serves [OF committed_log_take [OF assms(1)] logs(2), of tail']
    by (simp_all add: scan_records_take)
  obtain q' where q': "fold_r (replay_step (resident ?vrs)) (take k ?vrs) progress_default = Inr q'"
    using fold_r_take [OF assms(3)] by blast
  have same: "fold_r (replay_step rd) (take k ?vrs) progress_default = Inr q'"
    if "serves rd (take k ?vrs @ rest)" for rd rest
    using fold_replay_same [OF progress_default_inv, of rd "take k ?vrs" rest "resident ?vrs" ?rest]
      that serve(1) q' by simp
  show ?thesis
    using replay_records_eq [OF serve(2)] replay_records_eq [OF serve(3)] same [OF serve(2)]
      same [OF serve(3)]
    by (auto simp: replay_with_def scan_records_take)
qed

lemma replay_and_repair_log:
  assumes "committed_log cfs" "torn check_frame tail" "length (log_bytes cfs @ tail) \<le> MAX_WAL_LEN"
    and "replay_records (scan_records 0 cfs) (log_bytes cfs @ tail) = Inr (replay_of q)"
    and "\<And>n b. set_len n b = Inr (take n b)"
  shows "replay_and_repair set_len (log_bytes cfs @ tail) =
    Inr ((replay_of q)\<lparr>rp_frame_bytes := frame_bytes (scan_spans 0 cfs),
       rp_tail_repair := (if tail = [] then None else Some (length tail)),
       rp_committed_len := length (log_bytes cfs)\<rparr>, log_bytes cfs)"
  using assms parse_frames_log [OF assms(1,2)]
  by (auto simp: replay_and_repair_def Let_def replay_of_def)

lemma cut_log:
  assumes "committed_log cfs" "torn check_frame tail"
  obtains k tail' where "take n (log_bytes cfs @ tail) = log_bytes (take k cfs) @ tail'"
    "torn check_frame tail'" "k < length cfs \<longrightarrow> n < length (log_bytes (take (Suc k) cfs))"
    "log_bytes (take k cfs) = take (length (log_bytes (take k cfs))) (log_bytes cfs @ tail)"
proof (cases "n \<le> length (log_bytes cfs)")
  case True
  have "list_all valid_frame cfs"
    using assms(1) by (auto simp: committed_log_def list_all_iff decodes_def)
  from frames.crash_prefix [OF this] obtain k tail' where
    "take n (log_bytes cfs) = log_bytes (take k cfs) @ tail'" "torn check_frame tail'"
    "k < length cfs \<longrightarrow> n < length (log_bytes (take (Suc k) cfs))"
    unfolding log_bytes_def by metis
  moreover have "log_bytes cfs = log_bytes (take k cfs) @ log_bytes (drop k cfs)"
    by (metis append_take_drop_id log_bytes_simps(3))
  ultimately show thesis using True by (intro that [of k tail']) auto
next
  case False
  then show thesis
    using that [of "length cfs" "take (n - length (log_bytes cfs)) tail"] torn_take [OF assms(2)] by simp
qed

section \<open>What a replayed state says\<close>

lemma replayed_state_facts:
  assumes "replay_and_repair set_len bytes = Inr (rp, file)"
    and "map_of (rp_transactions rp) t = Some rt"
  shows "\<exists>l. map_of (rp_ledgers rp) t = Some l \<and>
    (staged_state (rt_state rt) \<longrightarrow>
       (\<exists>m mf. rt_staging rt = Some m \<and> rt_tree_manifest rt = Some mf \<and>
          rt_rename_outcome rt = Some (AppliedAndParentsSynced (sm_root_identity m)))) \<and>
    (committed_state (rt_state rt) \<longrightarrow> all_applied_parent_seals_have_applied_inverse (lg_permissions l)) \<and>
    (purge_state (rt_state rt) \<longrightarrow>
       (\<exists>m mf. rt_staging rt = Some m \<and> rt_tree_manifest rt = Some mf \<and>
          sm_production_association m \<noteq> None \<and> has_content_proof mf)) \<and>
    (rt_state rt \<in> {Restored, RolledBack} \<longrightarrow> all_applied_seals_have_applied_inverse (lg_permissions l)) \<and>
    (\<not> intent_phase (rt_state rt) \<and> rt_state rt \<noteq> RecoveryRequired \<longrightarrow>
       list_all (\<lambda>(_, e). pe_application e \<noteq> ApplicationUnknown) (lg_permissions l)) \<and>
    pw_active_seals (rt_permission_workload rt) = active_permission_seals_by_scan (lg_permissions l)"
proof -
  from assms(1) obtain vrs q where q: "progress_inv vrs q"
    "rp_transactions rp = map (\<lambda>(t, tx). (t, finished t tx)) (rq_transactions q)"
    "rp_ledgers rp = map (\<lambda>(t, tx). (t, rb_ledger tx)) (rq_transactions q)"
    by (rule replay_and_repair_cases) (simp add: replay_of_def)
  from assms(2) obtain tx where tx: "map_of (rq_transactions q) t = Some tx" "rt = finished t tx"
    by (auto simp: q(2) map_of_map_values)
  have built: "building_inv t tx" "rb_state tx \<noteq> None"
    using q(1) tx(1) by (auto simp: progress_inv_def building_of_def split: option.splits)
  then obtain s where s: "rb_state tx = Some s" "state_inv tx s" "ledger_inv (rb_ledger tx)"
    "evidence_inv t tx"
    by (auto elim: building_invE)
  note inv = state_invD [OF s(2)] and scans = coverage_answers [OF s(3)]
  have renamed: "\<exists>m mf. rb_staging tx = Some m \<and> rb_tree_manifest tx = Some mf \<and>
      rb_rename_outcome tx = Some (AppliedAndParentsSynced (sm_root_identity m))" if "staged_state s"
    using inv(1,2) that s(4) by (auto simp: tree_bound_def evidence_inv_def)
  have "list_all (\<lambda>(_, e). pe_application e \<noteq> ApplicationUnknown) (lg_permissions (rb_ledger tx))"
    if "\<not> has_unresolved (rb_ledger tx)"
    using that unresolved_scan [OF s(3)] by (auto simp: list_all_iff list_ex_iff)
  moreover have "map_of (rp_ledgers rp) t = Some (rb_ledger tx)"
    by (simp add: q(3) map_of_map_values [where f = "\<lambda>_ tx. rb_ledger tx"] tx(1))
  moreover have "rt_state rt = s" "rt_staging rt = rb_staging tx" "rt_tree_manifest rt = rb_tree_manifest tx"
    "rt_rename_outcome rt = rb_rename_outcome tx"
    "pw_active_seals (rt_permission_workload rt) =
       active_permission_seals_by_scan (lg_permissions (rb_ledger tx))"
    using tx(2) s(1) active_seals_scan [OF s(3)] by (simp_all add: finished_def ledger_workload_def)
  ultimately show ?thesis using renamed inv(3,5,6,7) unfolding scans by simp
qed

end
