(* ===== verification/Wal_Replay_Spec.thy ===== *)
theory Wal_Replay_Spec
  imports Wal_Replay_Index
begin

text \<open>
  The abstract specification of replay: every transaction is rebuilt from its own records alone,
  in their order, whatever is interleaved with them and wherever their frames lie. The positions
  of frames are forgotten by \<open>erase\<close>; replay commutes with it.
\<close>

section \<open>Forgetting where frames lie\<close>

definition erase_entry :: "permission_entry \<Rightarrow> permission_entry" where
  "erase_entry e = e\<lparr>pe_frame := None\<rparr>"

definition erase_ledger :: "permission_ledger \<Rightarrow> permission_ledger" where
  "erase_ledger l = l\<lparr>lg_permissions := map (\<lambda>(k, e). (k, erase_entry e)) (lg_permissions l)\<rparr>"

definition erase :: "replay_building \<Rightarrow> replay_building" where
  "erase tx = tx\<lparr>rb_ledger := erase_ledger (rb_ledger tx)\<rparr>"

lemma erase_entry_simps [simp]:
  "pe_phase (erase_entry e) = pe_phase e" "pe_application (erase_entry e) = pe_application e"
  "pe_reverses (erase_entry e) = pe_reverses e" "pe_frame (erase_entry e) = None"
  "erase_entry (erase_entry e) = erase_entry e"
  by (simp_all add: erase_entry_def)

lemma erase_ledger_simps [simp]:
  "ledger_entry (erase_ledger l) mid = map_option erase_entry (ledger_entry l mid)"
  "lg_coverage (erase_ledger l) = lg_coverage l" "lg_active_inverses (erase_ledger l) = lg_active_inverses l"
  "has_unresolved (erase_ledger l) = has_unresolved l" "ledger_phase (erase_ledger l) = ledger_phase l"
  "ledger_workload (erase_ledger l) = ledger_workload l"
  by (simp_all add: erase_ledger_def ledger_entry_def has_unresolved_def ledger_phase_def
      ledger_workload_def map_of_map_values [where f = "\<lambda>_ e. erase_entry e"] fun_eq_iff)

lemma erase_simps [simp]:
  "rb_state (erase tx) = rb_state tx" "rb_staging_schema_version (erase tx) = rb_staging_schema_version tx"
  "rb_ledger (erase tx) = erase_ledger (rb_ledger tx)" "rb_staging (erase tx) = rb_staging tx"
  "rb_tree_manifest (erase tx) = rb_tree_manifest tx" "rb_tree_sidecar (erase tx) = rb_tree_sidecar tx"
  "rb_rename_outcome (erase tx) = rb_rename_outcome tx"
  "rb_undo_rename_outcome (erase tx) = rb_undo_rename_outcome tx"
  "rb_purge_removed_entries (erase tx) = rb_purge_removed_entries tx"
  "rb_purge_last_path (erase tx) = rb_purge_last_path tx"
  by (simp_all add: erase_def)

lemma erase_decisions [simp]:
  "sidecar_schema (erase tx) = sidecar_schema tx" "manifest_unordered (erase tx) = manifest_unordered tx"
  "phase_completion_is_recorded (Some (erase_ledger l)) a b = phase_completion_is_recorded (Some l) a b"
  "staging_parent_strategy_is_recorded md (Some (erase_ledger l)) =
     staging_parent_strategy_is_recorded md (Some l)"
  "exact_v11_parent v phase ev rv (erase tx) = exact_v11_parent v phase ev rv tx"
  by (simp_all add: sidecar_schema_def manifest_unordered_def phase_completion_is_recorded_def
      staging_parent_strategy_is_recorded_def exact_v11_parent_def split: option.split)

lemma erase_bt_insert:
  "bt_insert k (erase_entry x) (map (\<lambda>(k, e). (k, erase_entry e)) m) =
     map (\<lambda>(k, e). (k, erase_entry e)) (bt_insert k x m)"
  by (induction m) auto

lemma erase_entry_application: "(erase_entry e)\<lparr>pe_application := a\<rparr> = erase_entry (e\<lparr>pe_application := a\<rparr>)"
  by (simp add: erase_entry_def)

lemma erase_entry_make:
  "erase_entry \<lparr>pe_frame = f, pe_reverses = rv, pe_phase = ph, pe_application = ap\<rparr> =
     \<lparr>pe_frame = None, pe_reverses = rv, pe_phase = ph, pe_application = ap\<rparr>"
  by (simp add: erase_entry_def)

lemma erase_record_intent:
  "erase_ledger (record_intent p f l) = record_intent p None (erase_ledger l)"
  by (cases "dp_reverses p")
     (simp_all add: record_intent_def Let_def erase_ledger_def ledger_phase_def erase_entry_make
       flip: erase_bt_insert)

lemma erase_record_resolution:
  "map_option erase_ledger (record_resolution mid r l) = record_resolution mid r (erase_ledger l)"
proof (cases "ledger_entry l mid")
  case (Some entry)
  define P where "P = bt_insert mid (entry\<lparr>pe_application := resolution_status r\<rparr>) (lg_permissions l)"
  have P: "bt_insert mid ((erase_entry entry)\<lparr>pe_application := resolution_status r\<rparr>)
      (lg_permissions (erase_ledger l)) = map (\<lambda>(k, e). (k, erase_entry e)) P"
    by (simp add: P_def erase_entry_application erase_ledger_def erase_bt_insert)
  have Q: "map_of (map (\<lambda>(k, e). (k, erase_entry e)) P) k = map_option erase_entry (map_of P k)" for k
    by (rule map_of_map_values [where f = "\<lambda>_ e. erase_entry e"])
  show ?thesis
    unfolding record_resolution_def Let_def erase_ledger_simps Some option.map bind.bind_lunit
      erase_entry_simps P P_def [symmetric] Q
    by (cases r; cases "pe_reverses entry"; cases "map_of P (the (pe_reverses entry))")
       (simp_all add: erase_ledger_def)
qed (simp add: record_resolution_def)

section \<open>Replay commutes with forgetting\<close>

definition position_free :: "intent_reader \<Rightarrow> bool" where
  "position_free rd \<longleftrightarrow> (\<forall>t mid e. rd t mid (erase_entry e) = rd t mid e)"

abbreviation erased :: "replay_result \<Rightarrow> replay_result" where
  "erased m \<equiv> map_sum id erase m"

lemma erased_invalid [simp]: "erased (invalid reason) = invalid reason"
  by (simp add: invalid_def)

lemma erased_if: "erased (if c then m else n) = (if c then erased m else erased n)"
  by simp

lemma erase_updates:
  "erase (tx\<lparr>rb_state := a\<rparr>) = (erase tx)\<lparr>rb_state := a\<rparr>"
  "erase (tx\<lparr>rb_staging_schema_version := v\<rparr>) = (erase tx)\<lparr>rb_staging_schema_version := v\<rparr>"
  "erase (tx\<lparr>rb_staging := b\<rparr>) = (erase tx)\<lparr>rb_staging := b\<rparr>"
  "erase (tx\<lparr>rb_tree_manifest := c\<rparr>) = (erase tx)\<lparr>rb_tree_manifest := c\<rparr>"
  "erase (tx\<lparr>rb_tree_sidecar := d\<rparr>) = (erase tx)\<lparr>rb_tree_sidecar := d\<rparr>"
  "erase (tx\<lparr>rb_rename_outcome := e\<rparr>) = (erase tx)\<lparr>rb_rename_outcome := e\<rparr>"
  "erase (tx\<lparr>rb_undo_rename_outcome := g\<rparr>) = (erase tx)\<lparr>rb_undo_rename_outcome := g\<rparr>"
  "erase (tx\<lparr>rb_purge_removed_entries := n\<rparr>) = (erase tx)\<lparr>rb_purge_removed_entries := n\<rparr>"
  "erase (tx\<lparr>rb_purge_last_path := p\<rparr>) = (erase tx)\<lparr>rb_purge_last_path := p\<rparr>"
  "erase (tx\<lparr>rb_ledger := l\<rparr>) = (erase tx)\<lparr>rb_ledger := erase_ledger l\<rparr>"
  by (simp_all add: erase_def)

lemma erased_records:
  "erased (replay_staging_begin v m tx) = replay_staging_begin v m (erase tx)"
  "erased (replay_manifest v mf tx) = replay_manifest v mf (erase tx)"
  "erased (replay_sidecar v t mf c tx) = replay_sidecar v t mf c (erase tx)"
  "erased (replay_rename_intent tx) = replay_rename_intent (erase tx)"
  "erased (replay_rename_outcome x tx) = replay_rename_outcome x (erase tx)"
  "erased (replay_purge_authorized pc tx) = replay_purge_authorized pc (erase tx)"
  "erased (replay_purge_claimed pc tx) = replay_purge_claimed pc (erase tx)"
  "erased (replay_undo_outcome y tx) = replay_undo_outcome y (erase tx)"
  by (simp_all add: replay_staging_begin_def replay_manifest_def replay_sidecar_def
      replay_rename_intent_def replay_rename_outcome_def replay_purge_authorized_def
      replay_purge_claimed_def replay_undo_outcome_def Let_def erase_updates split: option.split)

lemma erased_progress: "erased (replay_purge_progress v n p tx) = replay_purge_progress v n p (erase tx)"
  by (cases "rb_tree_manifest tx") (auto simp: replay_purge_progress_def Let_def erase_updates)

lemma erased_state: "erased (replay_state v s tx) = replay_state v s (erase tx)"
  by (cases "rb_state tx")
     (simp_all only: replay_state_def option.case erased_if erased_invalid erase_simps erase_updates
       erase_ledger_simps erase_decisions map_sum.simps)

lemma erased_resolve:
  "erased (resolve_replayed_permission mid r tx) = resolve_replayed_permission mid r (erase tx)"
  by (simp add: resolve_replayed_permission_def erase_updates flip: erase_record_resolution
      split: option.split)

lemma inverse_mismatch_erase [simp]:
  "inverse_mismatch (erase_ledger l) staging phase ev pre expd orig p =
   inverse_mismatch l staging phase ev pre expd orig p"
  by (simp add: inverse_mismatch_def)

lemma validate_inverse_erase:
  assumes "position_free rd"
  shows "validate_replayed_inverse (erase_ledger l) rd t staging phase ev pre expd rv =
         validate_replayed_inverse l rd t staging phase ev pre expd rv"
  using assms
  by (simp add: validate_replayed_inverse_def position_free_def split: option.split sum.split)

lemma erased_intent:
  assumes "position_free rd"
  shows "erased (replay_intent rd t v f mid ev pre expd rv tx) =
         replay_intent rd t v None mid ev pre expd rv (erase tx)"
proof (cases "rb_state tx")
  case (Some phase)
  have inner: "erased (and_then m (\<lambda>_. Inr (tx\<lparr>rb_ledger := record_intent p f l\<rparr>))) =
      and_then m (\<lambda>_. Inr ((erase tx)\<lparr>rb_ledger := record_intent p None (erase_ledger l)\<rparr>))"
    for m :: "replay_error + unit" and p l
    by (cases m) (simp_all add: erase_updates erase_record_intent)
  show ?thesis
    using Some
    by (simp only: replay_intent_def option.case erased_if erased_invalid erase_simps
        erase_ledger_simps erase_decisions inner validate_inverse_erase [OF assms] option.map_disc_iff)
qed (simp add: replay_intent_def)

lemma erased_record:
  assumes "position_free rd"
  shows "erased (replay_record rd v f r tx) = replay_record rd v None r (erase tx)"
  by (cases r) (simp_all add: erased_records erased_progress erased_state erased_resolve
      erased_intent [OF assms])

section \<open>One transaction at a time\<close>

text \<open>The history of a transaction is what its records say, in their order. \<open>rebuild\<close> replays a
  history on its own; \<open>transaction_of\<close> is the abstract specification of a replayed transaction.\<close>

definition history :: "transaction_id \<Rightarrow> versioned_record list \<Rightarrow> (u16 \<times> seal_record) list" where
  "history t vrs = map (\<lambda>vr. (vr_version vr, vr_record vr)) (filter (\<lambda>vr. record_transaction (vr_record vr) = t) vrs)"

definition history_reader :: "(u16 \<times> seal_record) list \<Rightarrow> intent_reader" where
  "history_reader h t mid e =
     (case List.find (\<lambda>(_, r). intent_of t mid r) h of
        None \<Rightarrow> Inl (PermissionMismatch mid [])
      | Some (_, r) \<Rightarrow> permission_of r e)"

definition rebuild_from ::
  "intent_reader \<Rightarrow> (u16 \<times> seal_record) list \<Rightarrow> replay_building \<Rightarrow> replay_result" where
  "rebuild_from rd h tx = fold_r (\<lambda>(v, r). replay_record rd v None r) h tx"

definition rebuild :: "(u16 \<times> seal_record) list \<Rightarrow> replay_result" where
  "rebuild h = rebuild_from (history_reader h) h building_default"

definition transaction_of ::
  "transaction_id \<Rightarrow> (u16 \<times> seal_record) list \<Rightarrow> replayed_transaction option" where
  "transaction_of t h =
     (if h = [] then None
      else case rebuild h of Inl _ \<Rightarrow> None | Inr tx \<Rightarrow> Some (finished t tx))"

lemma history_simps [simp]:
  "history t [] = []"
  "history t (vr # vrs) = (if record_transaction (vr_record vr) = t
     then (vr_version vr, vr_record vr) # history t vrs else history t vrs)"
  by (simp_all add: history_def)

lemma history_records: "(v, r) \<in> set (history t vrs) \<Longrightarrow> record_transaction r = t"
  by (auto simp: history_def)

lemma resident_history: "resident vrs t mid e = history_reader (history t vrs) t mid e"
proof -
  have "map_option vr_record (find_intent vrs t mid) =
      map_option snd (List.find (\<lambda>(_, r). intent_of t mid r) (history t vrs))"
    by (induction vrs) (auto simp: find_intent_def dest: intent_of_transaction)
  then show ?thesis
    by (auto simp: resident_def history_reader_def split: option.splits)
qed

lemma permission_of_erase [simp]: "permission_of r (erase_entry e) = permission_of r e"
  by (cases r) simp_all

lemma position_free_readers: "position_free (resident vrs)" "position_free (history_reader h)"
  by (simp_all add: position_free_def resident_def history_reader_def split: option.split prod.split)

lemma building_of_step:
  assumes "replay_step rd vr q = Inr q'" "bt_sorted (rq_transactions q)"
  shows "bt_sorted (rq_transactions q')" and "t \<noteq> record_transaction (vr_record vr) \<Longrightarrow> building_of q' t = building_of q t"
    and "replay_record rd (vr_version vr) (vr_frame vr) (vr_record vr)
      (building_of q (record_transaction (vr_record vr))) =
        Inr (building_of q' (record_transaction (vr_record vr)))"
    and "dom (map_of (rq_transactions q')) =
      insert (record_transaction (vr_record vr)) (dom (map_of (rq_transactions q)))"
  using assms
  by (auto simp: replay_step_def Let_def and_then_Inr_iff building_of_insert bt_sorted_insert
      map_of_bt_insert)

lemma fold_independent:
  assumes "fold_r (replay_step rd) vrs q = Inr q'" "position_free rd" "bt_sorted (rq_transactions q)"
  shows "rebuild_from rd (history t vrs) (erase (building_of q t)) = Inr (erase (building_of q' t)) \<and>
    bt_sorted (rq_transactions q') \<and>
    dom (map_of (rq_transactions q')) = dom (map_of (rq_transactions q)) \<union> {t. history t vrs \<noteq> []}"
  using assms(1,3)
proof (induction vrs arbitrary: q)
  case Nil
  then show ?case by (simp add: rebuild_from_def)
next
  case (Cons vr vrs)
  from Cons.prems(1) obtain q1 where q1: "replay_step rd vr q = Inr q1"
    "fold_r (replay_step rd) vrs q1 = Inr q'" by (auto simp: and_then_Inr_iff)
  note step = building_of_step [OF q1(1) Cons.prems(2)]
  note IH = Cons.IH [OF q1(2) step(1)]
  show ?case
  proof (cases "record_transaction (vr_record vr) = t")
    case True
    have "replay_record rd (vr_version vr) None (vr_record vr) (erase (building_of q t)) =
        Inr (erase (building_of q1 t))"
      using step(3) True erased_record [OF assms(2), of "vr_version vr" "vr_frame vr" "vr_record vr"
          "building_of q t"] by simp
    then show ?thesis using IH True step(4) by (auto simp: rebuild_from_def)
  next
    case False
    then show ?thesis using IH step(2) [of t] step(4) by auto
  qed
qed

text \<open>When every history rebuilds, the interleaved records replay.\<close>

lemma fold_rebuilds:
  assumes "\<And>t. \<exists>tx. rebuild_from rd (history t vrs) (erase (building_of q t)) = Inr tx"
    and "position_free rd" "bt_sorted (rq_transactions q)"
  shows "\<exists>q'. fold_r (replay_step rd) vrs q = Inr q'"
  using assms(1,3)
proof (induction vrs arbitrary: q)
  case (Cons vr vrs)
  let ?t = "record_transaction (vr_record vr)"
  from Cons.prems(1) [of ?t] obtain tx where tx:
    "replay_record rd (vr_version vr) None (vr_record vr) (erase (building_of q ?t)) = Inr tx"
    by (auto simp: rebuild_from_def and_then_Inr_iff)
  with erased_record [OF assms(2), of "vr_version vr" "vr_frame vr" "vr_record vr" "building_of q ?t"]
  obtain tx0 where "replay_record rd (vr_version vr) (vr_frame vr) (vr_record vr) (building_of q ?t) = Inr tx0"
    by (cases "replay_record rd (vr_version vr) (vr_frame vr) (vr_record vr) (building_of q ?t)") simp_all
  then obtain q1 where q1: "replay_step rd vr q = Inr q1" by (simp add: replay_step_def Let_def)
  note step = building_of_step [OF this Cons.prems(2)]
  have "\<exists>tx. rebuild_from rd (history t vrs) (erase (building_of q1 t)) = Inr tx" for t
  proof (cases "?t = t")
    case True
    have "tx = erase (building_of q1 t)"
      using step(3) tx True erased_record [OF assms(2), of "vr_version vr" "vr_frame vr" "vr_record vr"
          "building_of q ?t"] by simp
    with Cons.prems(1) [of t] tx True show ?thesis by (auto simp: rebuild_from_def and_then_Inr_iff)
  next
    case False
    then show ?thesis using Cons.prems(1) [of t] step(2) [of t] by auto
  qed
  from Cons.IH [OF this step(1)] q1 show ?case by simp
qed simp

lemma replay_record_reader:
  assumes "\<And>mid e. rd (record_transaction r) mid e = rd' (record_transaction r) mid e"
  shows "replay_record rd v f r tx = replay_record rd' v f r tx"
proof (cases r)
  case (PermissionIntent t mid ev pre expd rv)
  with assms have rd: "rd t = rd' t" by (simp add: fun_eq_iff)
  have "replay_intent rd t v f mid ev pre expd rv tx = replay_intent rd' t v f mid ev pre expd rv tx"
    unfolding replay_intent_def validate_replayed_inverse_def rd by (rule refl)
  with PermissionIntent show ?thesis by simp
qed simp_all

lemma rebuild_resident:
  "rebuild_from (resident vrs) (history t vrs) building_default = rebuild (history t vrs)"
  unfolding rebuild_def rebuild_from_def
proof (rule fold_r_cong_list, clarify)
  fix v r tx assume "(v, r) \<in> set (history t vrs)"
  then have "record_transaction r = t" by (rule history_records)
  then show "replay_record (resident vrs) v None r tx = replay_record (history_reader (history t vrs)) v None r tx"
    by (intro replay_record_reader) (simp add: resident_history)
qed

lemma erase_default [simp]: "erase building_default = building_default"
  by (simp add: erase_def building_default_def erase_ledger_def ledger_default_def)

lemma building_of_default [simp]: "building_of progress_default t = building_default"
  "bt_sorted ([] :: ('k::linorder, 'v) btree)" "rq_transactions progress_default = []"
  by (simp_all add: building_of_def progress_default_def bt_sorted_def)

lemma finished_erase: "finished t (erase tx) = finished t tx"
  by (simp add: finished_def)

lemma replay_with_spec:
  assumes "replay_with (resident vrs) vrs = Inr rp"
  shows "bt_sorted (rp_transactions rp)" and "map_of (rp_transactions rp) t = transaction_of t (history t vrs)"
proof -
  from assms obtain q where q: "fold_r (replay_step (resident vrs)) vrs progress_default = Inr q"
    "rp = replay_of q" by (auto simp: replay_with_def and_then_Inr_iff)
  note indep = fold_independent [OF q(1) position_free_readers(1), simplified, of t]
  have "map fst (rp_transactions rp) = map fst (rq_transactions q)"
    by (simp add: q(2) replay_of_def case_prod_unfold)
  with indep show "bt_sorted (rp_transactions rp)" by (simp add: bt_sorted_def)
  have r: "rebuild (history t vrs) = Inr (erase (building_of q t))"
    using indep rebuild_resident by simp
  have "map_of (rq_transactions q) t = (if history t vrs = [] then None else Some (building_of q t))"
  proof -
    have "t \<in> dom (map_of (rq_transactions q)) \<longleftrightarrow> history t vrs \<noteq> []" using indep by simp
    then show ?thesis by (auto simp: building_of_def domIff split: option.splits)
  qed
  then show "map_of (rp_transactions rp) t = transaction_of t (history t vrs)"
    by (simp add: q(2) replay_of_def map_of_map_values transaction_of_def r finished_erase)
qed

lemma replay_with_accepts:
  "(\<exists>rp. replay_with (resident vrs) vrs = Inr rp) \<longleftrightarrow> (\<forall>t. \<exists>tx. rebuild (history t vrs) = Inr tx)"
proof
  assume "\<exists>rp. replay_with (resident vrs) vrs = Inr rp"
  then obtain q where "fold_r (replay_step (resident vrs)) vrs progress_default = Inr q"
    by (auto simp: replay_with_def and_then_Inr_iff)
  from fold_independent [OF this position_free_readers(1)]
  show "\<forall>t. \<exists>tx. rebuild (history t vrs) = Inr tx" by (auto simp flip: rebuild_resident)
next
  assume all: "\<forall>t. \<exists>tx. rebuild (history t vrs) = Inr tx"
  have "\<exists>q. fold_r (replay_step (resident vrs)) vrs progress_default = Inr q"
    by (rule fold_rebuilds) (use all in \<open>simp_all add: rebuild_resident position_free_readers\<close>)
  then show "\<exists>rp. replay_with (resident vrs) vrs = Inr rp" by (auto simp: replay_with_def)
qed

text \<open>Two logs whose transactions have the same histories replay to the same transactions.\<close>

lemma replay_with_same_histories:
  assumes "replay_with (resident vrs) vrs = Inr rp" "\<And>t. history t vrs' = history t vrs"
  shows "\<exists>rp'. replay_with (resident vrs') vrs' = Inr rp' \<and> rp_transactions rp' = rp_transactions rp"
proof -
  from assms replay_with_accepts obtain rp' where rp': "replay_with (resident vrs') vrs' = Inr rp'"
    by metis
  have "rp_transactions rp' = rp_transactions rp"
    using replay_with_spec [OF assms(1)] replay_with_spec [OF rp'] assms(2)
    by (intro bt.extensional) simp_all
  with rp' show ?thesis by blast
qed

end
