(* ===== verification/Wal_Replay_Props.thy ===== *)
theory Wal_Replay_Props
  imports Wal_Replay_Spec
begin

text \<open>
  The properties of replay, over the lemmas of \<open>Wal_Replay_Index\<close> and \<open>Wal_Replay_Spec\<close>, and a
  concrete WAL on which they are instantiated: a parent directory is sealed, the seal is given back
  by an inverse that replay checks against the record it reads out of the file, and the transaction
  ends restored.
\<close>

section \<open>A concrete file\<close>

definition sample_id :: transaction_id where
  "sample_id = TransactionId (replicate 16 7)"

definition sample_records :: "seal_record list" where
  "sample_records =
     [State sample_id Prepared, State sample_id ParentSealIntent,
      PermissionIntent sample_id 5 sample_evidence 493 448 None, PermissionApplied sample_id 5,
      State sample_id RestoreIntent,
      PermissionIntent sample_id 6 (sample_evidence\<lparr>ev_expected_mode := 493\<rparr>) 448 493 (Some 5),
      PermissionApplied sample_id 6, State sample_id Restored]"

definition frame_for :: "seal_record \<Rightarrow> checked_frame" where
  "frame_for r = \<lparr>cf_version = VERSION, cf_payload = projr (encode_record r)\<rparr>"

definition log_of :: "seal_record list \<Rightarrow> checked_frame list" where
  "log_of rs = map frame_for rs"

abbreviation truncating :: "nat \<Rightarrow> bytes \<Rightarrow> io_error + bytes" where
  "truncating n b \<equiv> Inr (take n b)"

lemma frame_for_decodes:
  assumes "wf_record r" "encode_record r = Inr p"
  shows "decodes (frame_for r)" "record_of (frame_for r) = r" "cf_version (frame_for r) = VERSION"
    "length (cf_payload (frame_for r)) = length p"
proof -
  have "valid_frame (frame_for r)"
    using assms(2) encode_record_Inr_iff [of r p]
    by (simp add: frame_for_def valid_frame_def version_supported_def)
  then show "decodes (frame_for r)" "record_of (frame_for r) = r"
    using encoded_frame_decodes [of r "frame_for r"] assms by (simp_all add: frame_for_def)
qed (simp_all add: frame_for_def assms(2))

lemma sample_encodes:
  assumes "r \<in> set sample_records"
  shows "wf_record r" "\<exists>p. encode_record r = Inr p \<and> length p < 200"
proof -
  show "wf_record r"
    using assms
    by (auto simp: sample_records_def sample_id_def sample_evidence_def wf_tid_def wf_evidence_def
        is_confined_relative_path_def path_components_def is_absolute_def seg_components_def slash_def
        dot_def)
  show "\<exists>p. encode_record r = Inr p \<and> length p < 200"
    using assms
    by (auto simp: sample_records_def sample_id_def sample_evidence_def encode_record_def
        MAX_PAYLOAD_LEN_def put_all.simps put_then_def put_raw_def put_u8_def put_u32_def put_u64_def
        put_tid_def put_bytes_def)
qed

lemma log_of_committed:
  assumes "set rs \<subseteq> set sample_records"
  shows "committed_log (log_of rs)" "length (log_bytes (log_of rs)) \<le> 220 * length rs"
    "history t (scan_records off (log_of rs)) =
       map (Pair VERSION) (filter (\<lambda>r. record_transaction r = t) rs)"
proof -
  have ok: "decodes (frame_for r) \<and> record_of (frame_for r) = r \<and> cf_version (frame_for r) = VERSION \<and>
      length (cf_payload (frame_for r)) < 200" if "r \<in> set sample_records" for r
    using frame_for_decodes [OF sample_encodes(1) [OF that]] sample_encodes(2) [OF that] by auto
  have "versions_from prev (log_of rs)" if "prev = None \<or> prev = Some VERSION" for prev
    using assms ok that by (induction rs arbitrary: prev) (auto simp: log_of_def version_regressed_def)
  then show "committed_log (log_of rs)"
    using assms ok by (auto simp: committed_log_def log_of_def list_all_iff)
  show "length (log_bytes (log_of rs)) \<le> 220 * length rs"
    using assms ok by (induction rs) (force simp: log_of_def frame_len_of_def HEADER_LEN_def)+
  show "history t (scan_records off (log_of rs)) =
      map (Pair VERSION) (filter (\<lambda>r. record_transaction r = t) rs)"
    using assms ok by (induction rs arbitrary: off) (auto simp: log_of_def versioned_at_def)
qed

lemmas replay_eval = rebuild_def rebuild_from_def history_reader_def sample_records_def
  building_default_def ledger_default_def coverage_default_def replay_state_def replay_intent_def
  resolve_replayed_permission_def record_intent_def record_resolution_def Let_def ledger_entry_def
  ledger_phase_def tally_default_def tally_is_complete_def has_unresolved_def intent_phase_def
  validate_replayed_inverse_def inverse_mismatch_def same_recovery_object_def
  phase_completion_is_recorded_def completed_phase_def valid_transition_def
  every_applied_seal_is_reversed_def record_applied_seal_def record_applied_inverse_def
  sample_evidence_def u32_or_max_def path_components_def is_absolute_def seg_components_def slash_def
  dot_def

text \<open>The transaction as replay returns it: in state \<open>s\<close>, with \<open>n\<close> active seals.\<close>

definition sample_rt :: "transaction_state \<Rightarrow> nat \<Rightarrow> replayed_transaction" where
  "sample_rt s n = \<lparr>rt_id = sample_id, rt_state = s, rt_staging_schema_version = None,
     rt_permission_workload = \<lparr>pw_active_seals = n, pw_deepest_path_components = 1, pw_longest_path_bytes = 1\<rparr>,
     rt_staging = None, rt_tree_manifest = None, rt_tree_sidecar = None, rt_rename_outcome = None,
     rt_undo_rename_outcome = None, rt_purge_removed_entries = 0, rt_purge_last_path = None\<rparr>"

lemma sample_transactions:
  "transaction_of sample_id (map (Pair VERSION) sample_records) = Some (sample_rt Restored 0)"
  "transaction_of sample_id (map (Pair VERSION) (take 5 sample_records)) = Some (sample_rt RestoreIntent 1)"
  by (simp_all add: transaction_of_def finished_def ledger_workload_def active_seals_def sample_rt_def replay_eval)

definition sample_file :: "nat \<Rightarrow> bytes" where
  "sample_file k = log_bytes (log_of (take k sample_records))"

lemma sample_log_facts:
  "committed_log (log_of (take k sample_records))" "length (sample_file k @ [1, 2, 3]) \<le> MAX_WAL_LEN"
  "torn check_frame [1, 2, 3]"
proof -
  note log = log_of_committed [OF set_take_subset [of k sample_records]]
  show "committed_log (log_of (take k sample_records))" by (rule log(1))
  have "length (take k sample_records) \<le> 8" by (simp add: sample_records_def)
  with log(2) show "length (sample_file k @ [1, 2, 3]) \<le> MAX_WAL_LEN"
    by (simp add: sample_file_def MAX_WAL_LEN_def)
  show "torn check_frame [1, 2, 3]" by (simp add: torn_iff check_frame_def HEADER_LEN_def)
qed

text \<open>The file with torn bytes after its frames replays.\<close>

lemma sample_replays_at:
  assumes "transaction_of sample_id (map (Pair VERSION) (take k sample_records)) = Some rt"
  obtains rp where "replay_and_repair truncating (sample_file k @ [1, 2, 3]) = Inr (rp, sample_file k)"
    "map_of (rp_transactions rp) sample_id = Some rt"
proof -
  let ?log = "log_of (take k sample_records)" and ?vrs = "scan_records 0 (log_of (take k sample_records))"
  have "record_transaction r = sample_id" if "r \<in> set sample_records" for r
    using that by (auto simp: sample_records_def)
  then have "filter (\<lambda>r. record_transaction r = t) (take k sample_records) =
      (if t = sample_id then take k sample_records else [])" for t
    by (auto simp: filter_id_conv filter_empty_conv dest: in_set_takeD)
  then have history: "history t ?vrs = (if t = sample_id then map (Pair VERSION) (take k sample_records) else [])"
    for t using log_of_committed(3) [OF set_take_subset [of k sample_records]] by simp
  have "\<exists>tx. rebuild (history t ?vrs) = Inr tx" for t
    using assms by (auto simp: history transaction_of_def rebuild_def rebuild_from_def split: sum.splits if_splits)
  then obtain q where q: "replay_with (resident ?vrs) ?vrs = Inr (replay_of q)"
    using replay_with_accepts [of ?vrs] by (auto simp: replay_with_def and_then_Inr_iff)
  have len: "length (log_bytes ?log @ [1, 2, 3]) \<le> MAX_WAL_LEN"
    using sample_log_facts(2) by (simp add: sample_file_def)
  then have "replay_records ?vrs (log_bytes ?log @ [1, 2, 3]) = Inr (replay_of q)"
    using replay_records_resident [OF sample_log_facts(1)] q by simp
  from replay_and_repair_log [OF sample_log_facts(1,3) len this, of truncating]
  show thesis
    using that replay_with_spec(2) [OF q, of sample_id] assms by (simp add: sample_file_def history)
qed

lemma sample_replays:
  obtains rp where "replay_and_repair truncating (sample_file 8 @ [1, 2, 3]) = Inr (rp, sample_file 8)"
    "map_of (rp_transactions rp) sample_id = Some (sample_rt Restored 0)"
  by (rule sample_replays_at [of 8]) (use sample_transactions(1) in \<open>simp_all add: sample_records_def\<close>)

section \<open>Properties\<close>

text \<open>C8: Replaying bytes is replaying records. Replay keeps only the extent of each intent's
  frame and reads the record back out of the file when a later inverse has to be checked against
  it; for every committed log of admissible length, whatever torn bytes follow it, this computes
  exactly what a replay with all its records resident computes, errors included.\<close>

theorem replay_refines_resident:
  assumes "committed_log cfs" and "length (log_bytes cfs) \<le> MAX_WAL_LEN"
  shows "replay_records (scan_records 0 cfs) (log_bytes cfs @ tail) =
         replay_with (resident (scan_records 0 cfs)) (scan_records 0 cfs)"
  using assms by (rule replay_records_resident)

theorem replay_refines_resident_witness:
  "replay_records (scan_records 0 (log_of (take 8 sample_records))) (sample_file 8 @ [1, 2, 3]) =
   replay_with (resident (scan_records 0 (log_of (take 8 sample_records))))
     (scan_records 0 (log_of (take 8 sample_records)))"
  unfolding sample_file_def
  by (rule replay_refines_resident [OF sample_log_facts(1)])
     (use sample_log_facts(2) [of 8] in \<open>simp add: sample_file_def\<close>)

text \<open>C36: Replay does not panic: on no file does it reach the \<open>expect\<close> of the permission ledger,
  and the length limit is the first thing it checks.\<close>

theorem replay_never_panics:
  "replay_and_repair set_len bytes \<noteq> Inl ReplayPanic \<and>
   (MAX_WAL_LEN < length bytes \<longrightarrow> replay_and_repair set_len bytes = Inl (TooLarge MAX_WAL_LEN))"
proof -
  have "replay_and_repair set_len bytes \<noteq> Inl ReplayPanic" if len: "length bytes \<le> MAX_WAL_LEN"
  proof (cases "parse_frames bytes")
    case (Inl e)
    then show ?thesis using parse_frames_no_panic [of bytes] len by (simp add: replay_and_repair_def)
  next
    case (Inr pf)
    then obtain cfs tail where log: "bytes = log_bytes cfs @ tail" "committed_log cfs"
      "pf_records pf = scan_records 0 cfs" by (auto simp: parse_frames_iff)
    have "replay_with (resident (scan_records 0 cfs)) (scan_records 0 cfs) \<noteq> Inl ReplayPanic"
      using fold_replay_no_panic [OF progress_default_inv, of "resident (scan_records 0 cfs)"
          "scan_records 0 cfs" "[]"] resident_serves [of "scan_records 0 cfs"]
      by (auto simp: replay_with_def and_then_def split: sum.splits)
    then have "replay_records (pf_records pf) bytes \<noteq> Inl ReplayPanic"
      using replay_records_resident [OF log(2), of tail] log len by simp
    with Inr len show ?thesis
      by (cases "replay_records (pf_records pf) bytes")
         (auto simp: replay_and_repair_def Let_def split: sum.splits)
  qed
  then show ?thesis by (auto simp: replay_and_repair_def)
qed

theorem replay_never_panics_witness:
  "replay_and_repair truncating (replicate (Suc MAX_WAL_LEN) 0) = Inl (TooLarge MAX_WAL_LEN)"
  using replay_never_panics [of truncating "replicate (Suc MAX_WAL_LEN) 0"] by simp

text \<open>C1: What a replayed transaction's state says about it can be relied on. A transaction that is
  committed, being undone or being purged has a bound tree that was renamed into staging under the
  identity recorded before the rename, and every applied source-parent seal is restored; one that
  may be purged, or is, carries the production association and a manifest with a content proof; one
  restored or rolled back has no applied seal left without an applied inverse; and outside the
  permission phases no intent is left unresolved.\<close>

theorem replayed_states_are_justified:
  assumes "replay_and_repair set_len bytes = Inr (rp, file)"
    and "map_of (rp_transactions rp) t = Some rt"
  shows "\<exists>l. map_of (rp_ledgers rp) t = Some l \<and>
    (staged_state (rt_state rt) \<longrightarrow>
       (\<exists>m mf. rt_staging rt = Some m \<and> rt_tree_manifest rt = Some mf \<and>
          rt_rename_outcome rt = Some (AppliedAndParentsSynced (sm_root_identity m)))) \<and>
    (committed_state (rt_state rt) \<longrightarrow> all_applied_parent_seals_have_applied_inverse (lg_permissions l)) \<and>
    (purge_state (rt_state rt) \<longrightarrow>
       (\<exists>m mf. rt_staging rt = Some m \<and> rt_tree_manifest rt = Some mf \<and>
          sm_production_association m \<noteq> None \<and> has_content_proof mf)) \<and>
    (rt_state rt \<in> {Restored, RolledBack} \<longrightarrow> all_applied_seals_have_applied_inverse (lg_permissions l)) \<and>
    (\<not> intent_phase (rt_state rt) \<and> rt_state rt \<noteq> RecoveryRequired \<longrightarrow>
       list_all (\<lambda>(_, e). pe_application e \<noteq> ApplicationUnknown) (lg_permissions l)) \<and>
    pw_active_seals (rt_permission_workload rt) = active_permission_seals_by_scan (lg_permissions l)"
  by (rule replayed_state_facts [OF assms])

theorem replayed_states_are_justified_witness:
  "\<exists>rp l. replay_and_repair truncating (sample_file 8 @ [1, 2, 3]) = Inr (rp, sample_file 8) \<and>
     map_of (rp_ledgers rp) sample_id = Some l \<and> all_applied_seals_have_applied_inverse (lg_permissions l) \<and>
     list_all (\<lambda>(_, e). pe_application e \<noteq> ApplicationUnknown) (lg_permissions l)"
proof -
  obtain rp where rp: "replay_and_repair truncating (sample_file 8 @ [1, 2, 3]) = Inr (rp, sample_file 8)"
    "map_of (rp_transactions rp) sample_id = Some (sample_rt Restored 0)" by (rule sample_replays)
  from replayed_states_are_justified [OF rp] rp(1) show ?thesis
    by (auto simp: sample_rt_def intent_phase_def)
qed

text \<open>C5: Recovery survives a crash at any byte. When a file replays, every prefix of it replays
  too. Let \<open>k\<close> count the frames that end within the prefix: the file is truncated to exactly the end
  of the \<open>k\<close>th frame, the repair reports exactly the bytes cut off, and transactions, order and
  ledgers are those the first \<open>k\<close> records build. \<open>set_len\<close> is assumed to truncate.\<close>

theorem replay_survives_crash:
  assumes truncates: "\<And>n b. set_len n b = Inr (take n b)"
    and "replay_and_repair set_len bytes = Inr (rp, file)"
    and "parse_frames bytes = Inr pf"
  shows "\<exists>k rp' r. replay_and_repair set_len (take n bytes) = Inr (rp', take (rp_committed_len rp') bytes) \<and>
    k \<le> length (pf_records pf) \<and> (k < length (pf_records pf) \<longrightarrow> n < fs_end (pf_spans pf ! k)) \<and>
    rp_committed_len rp' = (if k = 0 then 0 else fs_end (pf_spans pf ! (k - 1))) \<and> rp_committed_len rp' \<le> n \<and>
    rp_tail_repair rp' = (if min (length bytes) n = rp_committed_len rp' then None
      else Some (min (length bytes) n - rp_committed_len rp')) \<and>
    replay_records (take k (pf_records pf)) bytes = Inr r \<and> rp_transactions rp' = rp_transactions r \<and>
    rp_transaction_order rp' = rp_transaction_order r \<and> rp_ledgers rp' = rp_ledgers r"
proof -
  from assms(2) obtain cfs tail q where log: "bytes = log_bytes cfs @ tail" "committed_log cfs"
    "torn check_frame tail" "length bytes \<le> MAX_WAL_LEN"
    "fold_r (replay_step (resident (scan_records 0 cfs))) (scan_records 0 cfs) progress_default = Inr q"
    by (rule replay_and_repair_cases) blast
  from cut_log [OF log(2,3), of n] obtain j tail' where
    j: "take n bytes = log_bytes (take j cfs) @ tail'" "torn check_frame tail'"
      "j < length cfs \<longrightarrow> n < length (log_bytes (take (Suc j) cfs))"
      "log_bytes (take j cfs) = take (length (log_bytes (take j cfs))) bytes"
    unfolding log(1) by metis
  define k where "k = min j (length cfs)"
  have same: "take j cfs = take k cfs" by (simp add: k_def min_def)
  have k_le: "k \<le> length cfs" "k < length cfs \<longrightarrow> k = j" by (auto simp: k_def)
  note prefix_facts = j(1) [unfolded same] j(4) [unfolded same]
  have k: "take n bytes = log_bytes (take k cfs) @ tail'" "torn check_frame tail'" "k \<le> length cfs"
      "k < length cfs \<longrightarrow> n < length (log_bytes (take (Suc k) cfs))"
      "log_bytes (take k cfs) = take (length (log_bytes (take k cfs))) bytes"
    using prefix_facts k_le j(2,3) by blast+
  from replay_prefix [OF log(2) _ log(5), of tail k tail'] log(1,4) obtain q' where
    q': "replay_records (scan_records 0 (take k cfs)) (log_bytes (take k cfs) @ tail') = Inr (replay_of q')"
      "replay_records (take k (scan_records 0 cfs)) bytes = Inr (replay_of q')" by auto
  have small: "length (log_bytes (take k cfs) @ tail') \<le> MAX_WAL_LEN" "length (log_bytes (take k cfs)) \<le> n"
      "min (length bytes) n = length (log_bytes (take k cfs)) + length tail'"
    using arg_cong [OF k(1), of length] log(4) by simp_all
  have pf: "pf_records pf = scan_records 0 cfs" "pf_spans pf = scan_spans 0 cfs"
    using parse_frames_log [OF log(2,3)] assms(3) log(1) by auto
  have frame_end: "length (log_bytes (take k cfs)) = (if k = 0 then 0 else fs_end (scan_spans 0 cfs ! (k - 1)))"
    using scan_spans_nth [of "k - 1" cfs 0] k(3) by auto
  let ?rp = "(replay_of q')\<lparr>rp_frame_bytes := frame_bytes (scan_spans 0 (take k cfs)),
    rp_tail_repair := (if tail' = [] then None else Some (length tail')), rp_committed_len := length (log_bytes (take k cfs))\<rparr>"
  have "replay_and_repair set_len (take n bytes) = Inr (?rp, take (rp_committed_len ?rp) bytes)"
    using replay_and_repair_log [OF committed_log_take [OF log(2)] k(2) small(1) q'(1) truncates] k(1,5) by simp
  moreover have "rp_tail_repair ?rp = (if min (length bytes) n = rp_committed_len ?rp then None
      else Some (min (length bytes) n - rp_committed_len ?rp))" unfolding small(3) by simp
  ultimately show ?thesis
    using q'(2) k(3,4) small(2) frame_end scan_spans_nth [of k cfs 0] unfolding pf
    by (intro exI [of _ k] exI [of _ ?rp] exI [of _ "replay_of q'"]) simp
qed

theorem replay_survives_crash_witness:
  "\<exists>rp pf. parse_frames (sample_file 8 @ [1, 2, 3]) = Inr pf \<and> replay_and_repair truncating (take 50 (sample_file 8 @ [1, 2, 3])) =
      Inr (rp, take (rp_committed_len rp) (sample_file 8 @ [1, 2, 3])) \<and> rp_committed_len rp \<le> 50 \<and>
      (rp_committed_len rp = 0 \<or> (\<exists>j < length (pf_records pf). rp_committed_len rp = fs_end (pf_spans pf ! j)))"
proof -
  obtain rp where rp: "replay_and_repair truncating (sample_file 8 @ [1, 2, 3]) = Inr (rp, sample_file 8)"
    by (rule sample_replays)
  obtain pf where pf: "parse_frames (sample_file 8 @ [1, 2, 3]) = Inr pf"
    using parse_frames_log [OF sample_log_facts(1,3)] by (auto simp: sample_file_def)
  from replay_survives_crash [OF refl rp pf, of 50] obtain k rp' where
    k: "replay_and_repair truncating (take 50 (sample_file 8 @ [1, 2, 3])) =
        Inr (rp', take (rp_committed_len rp') (sample_file 8 @ [1, 2, 3]))" "k \<le> length (pf_records pf)"
      "rp_committed_len rp' = (if k = 0 then 0 else fs_end (pf_spans pf ! (k - 1)))" "rp_committed_len rp' \<le> 50" by blast
  have "rp_committed_len rp' = 0 \<or> (\<exists>j < length (pf_records pf). rp_committed_len rp' = fs_end (pf_spans pf ! j))"
    using k(2) by (cases k) (auto simp: k(3) intro!: exI [of _ "k - 1"])
  with pf k(1,4) show ?thesis by blast
qed

text \<open>Repair settles: replaying the repaired file gives the same transactions, order, ledgers
  and length again, with nothing left to repair and the file unchanged.\<close>

theorem repair_settles:
  assumes truncates: "\<And>n b. set_len n b = Inr (take n b)"
    and "replay_and_repair set_len bytes = Inr (rp, file)"
  shows "replay_and_repair set_len file = Inr (rp\<lparr>rp_tail_repair := None\<rparr>, file)"
proof -
  from assms(2) obtain cfs tail q where log: "bytes = log_bytes cfs @ tail" "committed_log cfs"
    "length bytes \<le> MAX_WAL_LEN"
    "fold_r (replay_step (resident (scan_records 0 cfs))) (scan_records 0 cfs) progress_default = Inr q"
    "rp = (replay_of q)\<lparr>rp_frame_bytes := frame_bytes (scan_spans 0 cfs),
       rp_tail_repair := (if tail = [] then None else Some (length tail)),
       rp_committed_len := length (log_bytes cfs)\<rparr>"
    "if tail = [] then file = bytes else set_len (length (log_bytes cfs)) bytes = Inr file"
    by (rule replay_and_repair_cases) blast
  have fl: "file = log_bytes cfs @ []" using log(1,6) truncates by (auto split: if_splits)
  have len: "length (log_bytes cfs) \<le> MAX_WAL_LEN" using log(1,3) by simp
  have "replay_records (scan_records 0 cfs) (log_bytes cfs @ []) = Inr (replay_of q)"
    using replay_records_resident [OF log(2) len, of "[]"] log(4) by (simp add: replay_with_def)
  from replay_and_repair_log [OF log(2) frames.torn_Nil _ this truncates] len show ?thesis
    by (simp add: fl log(5))
qed

theorem repair_settles_witness:
  "\<exists>rp. replay_and_repair truncating (sample_file 8) = Inr (rp\<lparr>rp_tail_repair := None\<rparr>, sample_file 8)"
proof -
  obtain rp where "replay_and_repair truncating (sample_file 8 @ [1, 2, 3]) = Inr (rp, sample_file 8)"
    by (rule sample_replays)
  from repair_settles [OF refl this] show ?thesis by blast
qed

text \<open>C9: Replay is a function of the histories. A committed log is accepted exactly when every
  transaction's own records, replayed alone, are accepted; every transaction of the result is then
  the one its own history rebuilds, no transaction is missing and none is invented. Interleaving
  transactions, and moving their frames in the file, changes nothing.\<close>

theorem replay_is_per_transaction:
  assumes "committed_log cfs" and "length (log_bytes cfs) \<le> MAX_WAL_LEN"
  shows "((\<exists>rp. replay_records (scan_records 0 cfs) (log_bytes cfs) = Inr rp) \<longleftrightarrow>
           (\<forall>t. \<exists>tx. rebuild (history t (scan_records 0 cfs)) = Inr tx)) \<and>
    (\<forall>rp t. replay_records (scan_records 0 cfs) (log_bytes cfs) = Inr rp \<longrightarrow>
       map_of (rp_transactions rp) t = transaction_of t (history t (scan_records 0 cfs)))"
  using replay_records_resident [OF assms, of "[]"] replay_with_accepts replay_with_spec(2)
  by auto

theorem replay_is_per_transaction_witness:
  "\<exists>rp. replay_records (scan_records 0 (log_of (take 8 sample_records))) (sample_file 8) = Inr rp \<and>
     map_of (rp_transactions rp) sample_id =
       transaction_of sample_id (history sample_id (scan_records 0 (log_of (take 8 sample_records))))"
proof -
  let ?log = "log_of (take 8 sample_records)"
  have len: "length (log_bytes ?log) \<le> MAX_WAL_LEN"
    using sample_log_facts(2) [of 8] by (simp add: sample_file_def)
  have "take 8 sample_records = sample_records" by (simp add: sample_records_def)
  moreover have "rebuild (map (Pair VERSION) (filter (\<lambda>r. record_transaction r = t) sample_records)) \<noteq> Inl e" for t e
  proof (cases "t = sample_id")
    case True
    then show ?thesis
      using sample_transactions(1) by (auto simp: transaction_of_def sample_records_def split: sum.splits)
  next
    case False
    then show ?thesis by (auto simp: sample_records_def rebuild_def rebuild_from_def)
  qed
  ultimately have "\<exists>tx. rebuild (history t (scan_records 0 ?log)) = Inr tx" for t
    using log_of_committed(3) [of sample_records] by (metis subset_refl sum.exhaust)
  with replay_is_per_transaction [OF sample_log_facts(1) len] show ?thesis
    unfolding sample_file_def by blast
qed

end
