(* ===== verification/Wal_Compaction.thy ===== *)
theory Wal_Compaction
  imports Wal_Replay_Props
begin

text \<open>
  Compaction (\<open>plan_compaction\<close>, \<open>compaction_entry_replays_to\<close> of \<open>seal/wal.rs\<close>): a lease may
  replace its WAL by the frames of the transactions that still matter. The theorems say that a
  planned compaction always passes its own proof, that it keeps every surviving transaction
  exactly, and that it never drops a member of a group with something left to undo.
\<close>

section \<open>What is dropped\<close>

definition COMPACTION_MIN_RECLAIMED_BYTES :: nat where
  "COMPACTION_MIN_RECLAIMED_BYTES = 1024 * 1024"

definition COMPACTION_MIN_RECLAIMED_SHARE :: nat where
  "COMPACTION_MIN_RECLAIMED_SHARE = 4"

definition COMPACTION_PRESSURE_LEN :: nat where
  "COMPACTION_PRESSURE_LEN = MAX_WAL_LEN div 4 * 3"

definition compaction_drops_state :: "transaction_state \<Rightarrow> bool" where
  "compaction_drops_state s \<longleftrightarrow> s \<in> {Purged, Restored, RolledBack}"

definition reclamation_group :: "replayed_transaction \<Rightarrow> bytes option" where
  "reclamation_group rt =
     Option.bind (rt_staging rt) (\<lambda>m. Option.bind (sm_production_association m) (\<lambda>a.
       Some (reclamation_id a)))"

definition unfinished_groups :: "replay \<Rightarrow> bytes list" where
  "unfinished_groups rp =
     List.map_filter (\<lambda>(_, rt). if compaction_drops_state (rt_state rt) then None else reclamation_group rt)
       (rp_transactions rp)"

definition compaction_dropped_transactions :: "replay \<Rightarrow> transaction_id list" where
  "compaction_dropped_transactions rp =
     map fst (filter (\<lambda>(_, rt). compaction_drops_state (rt_state rt) \<and>
       (case reclamation_group rt of None \<Rightarrow> True | Some g \<Rightarrow> g \<notin> set (unfinished_groups rp)))
       (rp_transactions rp))"

definition compaction_is_worthwhile :: "nat \<Rightarrow> nat \<Rightarrow> bool" where
  "compaction_is_worthwhile reclaimed committed =
     (if committed \<ge> COMPACTION_PRESSURE_LEN then reclaimed > 0
      else reclaimed \<ge> COMPACTION_MIN_RECLAIMED_BYTES \<and>
           min (reclaimed * COMPACTION_MIN_RECLAIMED_SHARE) (2 ^ 64 - 1) \<ge> committed)"

definition compaction_reclaim :: "replay \<Rightarrow> transaction_id list \<Rightarrow> nat" where
  "compaction_reclaim rp dropped =
     (let reclaimed = sum_list (List.map_filter (map_of (rp_frame_bytes rp)) dropped)
      in if compaction_is_worthwhile reclaimed (rp_committed_len rp) then reclaimed else 0)"

section \<open>The plan\<close>

record measured_frames =
  mf_reclaimed :: nat
  mf_committed :: nat

record compaction_plan =
  cp_bytes :: bytes
  cp_surviving :: "(transaction_id, transaction_state) btree"

definition compaction_measure :: "parsed_frames \<Rightarrow> transaction_id list \<Rightarrow> measured_frames" where
  "compaction_measure parsed dropped =
     \<lparr>mf_reclaimed = sum_list (map (\<lambda>s. fs_end s - fs_start s)
        (filter (\<lambda>s. fs_transaction s \<in> set dropped) (pf_spans parsed))),
      mf_committed = pf_committed_len parsed\<rparr>"

definition compaction_surviving_bytes :: "bytes \<Rightarrow> parsed_frames \<Rightarrow> transaction_id list \<Rightarrow> bytes" where
  "compaction_surviving_bytes bytes parsed dropped =
     concat (map (\<lambda>s. take (fs_end s - fs_start s) (drop (fs_start s) bytes))
       (filter (\<lambda>s. fs_transaction s \<notin> set dropped) (pf_spans parsed)))"

definition plan_compaction_from ::
  "bytes \<Rightarrow> replay \<Rightarrow> transaction_id list \<Rightarrow> replay_error + compaction_plan option" where
  "plan_compaction_from bytes rp dropped =
     and_then (parse_frames bytes) (\<lambda>parsed.
       let measured = compaction_measure parsed dropped
       in if mf_reclaimed measured = 0 \<or>
             \<not> compaction_is_worthwhile (mf_reclaimed measured) (mf_committed measured)
          then Inr None
          else Inr (Some \<lparr>cp_bytes = compaction_surviving_bytes bytes parsed dropped,
                 cp_surviving = map (\<lambda>(t, rt). (t, rt_state rt))
                   (filter (\<lambda>(t, _). t \<notin> set dropped) (rp_transactions rp))\<rparr>))"

text \<open>\<open>bytes\<close> is what the leased file holds.\<close>

definition plan_compaction :: "replay option \<Rightarrow> bytes \<Rightarrow> replay_error + compaction_plan option" where
  "plan_compaction session bytes =
     (case session of
        None \<Rightarrow> Inr None
      | Some rp \<Rightarrow>
          let dropped = compaction_dropped_transactions rp
          in if compaction_reclaim rp dropped = 0 then Inr None
             else if length bytes > MAX_WAL_LEN then Inl (TooLarge MAX_WAL_LEN)
             else plan_compaction_from bytes rp dropped)"

text \<open>\<open>len\<close> is the size \<open>fstat\<close> reports of the entry, \<open>content\<close> what \<open>pread\<close> finds in it.\<close>

definition compaction_entry_replays_to ::
  "nat \<Rightarrow> bytes \<Rightarrow> (transaction_id, transaction_state) btree \<Rightarrow> replay_error + unit" where
  "compaction_entry_replays_to len content surviving =
     (if len > MAX_WAL_LEN then Inl (TooLarge MAX_WAL_LEN)
      else if length content < len
      then Inl (Malformed (of_nat (length content)) ''compaction entry is shorter than its own size'')
      else let bytes = take len content in
        and_then (parse_frames bytes) (\<lambda>parsed.
          if pf_committed_len parsed \<noteq> length bytes
          then Inl (Malformed (of_nat (pf_committed_len parsed)) ''compaction entry ends in a partial frame'')
          else and_then (replay_records (pf_records parsed) bytes) (\<lambda>replayed.
            if map (\<lambda>(t, rt). (t, rt_state rt)) (rp_transactions replayed) \<noteq> surviving
            then Inl (InvalidHistory ''compaction entry does not replay to the surviving transactions'')
            else Inr ())))"

section \<open>The surviving frames\<close>

definition survives :: "transaction_id list \<Rightarrow> checked_frame \<Rightarrow> bool" where
  "survives dropped cf \<longleftrightarrow> record_transaction (record_of cf) \<notin> set dropped"

lemma surviving_bytes_log:
  assumes "list_all valid_frame cfs"
  shows "compaction_surviving_bytes (pre @ log_bytes cfs @ rest)
      \<lparr>pf_records = recs, pf_spans = scan_spans (length pre) cfs, pf_committed_len = n\<rparr> dropped =
    log_bytes (filter (survives dropped) cfs)"
  using assms
proof (induction cfs arbitrary: pre)
  case (Cons cf cfs)
  from Cons.IH [of "pre @ frame_of cf"] Cons.prems show ?case
    by (simp add: compaction_surviving_bytes_def survives_def)
qed (simp add: compaction_surviving_bytes_def)

lemma versions_from_filter:
  assumes "versions_from prev cfs" shows "versions_from prev (filter P cfs)"
proof -
  have weaken: "versions_from prev xs" if "versions_from (Some v) xs" "\<not> version_regressed prev v" for prev v xs
    using that by (cases xs) (auto simp: version_regressed_def split: option.splits)
  show ?thesis
    using assms
  proof (induction cfs arbitrary: prev)
    case (Cons cf cfs)
    then show ?case using weaken by auto
  qed simp
qed

lemma committed_log_filter: "committed_log cfs \<Longrightarrow> committed_log (filter P cfs)"
  by (auto simp: committed_log_def list_all_iff versions_from_filter)

lemma history_scan:
  "history t (scan_records off cfs) =
     map (\<lambda>cf. (cf_version cf, record_of cf)) (filter (\<lambda>cf. record_transaction (record_of cf) = t) cfs)"
  by (induction cfs arbitrary: off) (simp_all add: versioned_at_def)

lemma history_survivors:
  "history t (scan_records 0 (filter (survives dropped) cfs)) =
     (if t \<in> set dropped then [] else history t (scan_records 0 cfs))"
  unfolding history_scan survives_def by (auto simp: filter_empty_conv intro!: arg_cong [of _ _ "map _"] filter_cong)

lemma rebuild_Nil [simp]: "rebuild [] = Inr building_default"
  by (simp add: rebuild_def rebuild_from_def)

lemma bt_sorted_filter: "bt_sorted m \<Longrightarrow> bt_sorted (filter P m)"
  unfolding bt_sorted_def by (induction m) auto

lemma map_of_filter_keys:
  "map_of (filter (\<lambda>(k, _). k \<notin> S) m) k = (if k \<in> S then None else map_of m k)"
  by (induction m) auto

text \<open>Replaying the surviving frames gives the surviving transactions, unchanged.\<close>

lemma replay_survivors:
  fixes dropped :: "transaction_id list"
  assumes "replay_with (resident (scan_records 0 cfs)) (scan_records 0 cfs) = Inr rp"
  defines "cfs' \<equiv> filter (survives dropped) cfs"
  shows "\<exists>rp'. replay_with (resident (scan_records 0 cfs')) (scan_records 0 cfs') = Inr rp' \<and>
    rp_transactions rp' = filter (\<lambda>(t, _). t \<notin> set dropped) (rp_transactions rp)"
proof -
  have "\<forall>t. \<exists>tx. rebuild (history t (scan_records 0 cfs)) = Inr tx"
    using assms(1) replay_with_accepts by blast
  then have "\<forall>t. \<exists>tx. rebuild (history t (scan_records 0 cfs')) = Inr tx"
    by (simp add: cfs'_def history_survivors)
  then obtain rp' where rp': "replay_with (resident (scan_records 0 cfs')) (scan_records 0 cfs') = Inr rp'"
    using replay_with_accepts by blast
  have "rp_transactions rp' = filter (\<lambda>(t, _). t \<notin> set dropped) (rp_transactions rp)"
    using replay_with_spec [OF assms(1)] replay_with_spec [OF rp']
    by (intro bt.extensional bt_sorted_filter)
       (simp_all add: map_of_filter_keys cfs'_def history_survivors transaction_of_def)
  with rp' show ?thesis by blast
qed

section \<open>The two measurements agree\<close>

definition span_len :: "frame_span \<Rightarrow> nat" where
  "span_len s = fs_end s - fs_start s"

definition span_total :: "transaction_id \<Rightarrow> frame_span list \<Rightarrow> nat" where
  "span_total t spans = sum_list (map span_len (filter (\<lambda>s. fs_transaction s = t) spans))"

lemma frame_bytes_snoc:
  "frame_bytes (spans @ [s]) = bt_insert (fs_transaction s)
     ((case map_of (frame_bytes spans) (fs_transaction s) of None \<Rightarrow> 0 | Some n \<Rightarrow> n) + span_len s)
     (frame_bytes spans)"
  by (simp add: frame_bytes_def span_len_def)

lemma frame_bytes_total:
  "bt_sorted (frame_bytes spans) \<and>
   map_of (frame_bytes spans) t =
     (if t \<in> fs_transaction ` set spans then Some (span_total t spans) else None)"
proof (induction spans arbitrary: t rule: rev_induct)
  case Nil
  then show ?case by (simp add: frame_bytes_def bt_sorted_def)
next
  case (snoc s spans)
  have "span_total t spans = 0" if "t \<notin> fs_transaction ` set spans" for t
    using that by (auto simp: span_total_def filter_empty_conv)
  then show ?case
    using snoc [of t] snoc [of "fs_transaction s"]
    by (auto simp: frame_bytes_snoc map_of_bt_insert bt_sorted_insert span_total_def)
qed

lemma sum_dropped_totals:
  assumes "distinct dropped"
  shows "sum_list (map (\<lambda>t. span_total t spans) dropped) =
    sum_list (map span_len (filter (\<lambda>s. fs_transaction s \<in> set dropped) spans))"
proof (induction spans)
  case (Cons s spans)
  have single: "sum_list (map (\<lambda>t. if fs_transaction s = t then n else 0) dropped) =
      (if fs_transaction s \<in> set dropped then n else 0)" for n :: nat
    using assms by (induction dropped) auto
  have "span_total t (s # spans) = (if fs_transaction s = t then span_len s else 0) + span_total t spans" for t
    by (simp add: span_total_def)
  with Cons single [of "span_len s"] show ?case by (simp add: sum_list_addf)
qed (simp add: span_total_def)

lemma measured_reclaim:
  assumes "distinct dropped"
  shows "sum_list (List.map_filter (map_of (frame_bytes spans)) dropped) =
    mf_reclaimed (compaction_measure \<lparr>pf_records = recs, pf_spans = spans, pf_committed_len = n\<rparr> dropped)"
proof -
  have "span_total t spans = 0" if "t \<notin> fs_transaction ` set spans" for t
    using that by (auto simp: span_total_def filter_empty_conv)
  then have "sum_list (List.map_filter (map_of (frame_bytes spans)) dropped) =
      sum_list (map (\<lambda>t. span_total t spans) dropped)"
    using frame_bytes_total [of spans] by (induction dropped) (auto simp: List.map_filter_def)
  then show ?thesis
    using sum_dropped_totals [OF assms, of spans]
    by (simp add: compaction_measure_def span_len_def [abs_def])
qed

lemma dropped_distinct: "bt_sorted (rp_transactions rp) \<Longrightarrow> distinct (compaction_dropped_transactions rp)"
  using bt.entries_distinct [of "rp_transactions rp"]
  by (simp add: compaction_dropped_transactions_def distinct_map_filter)

lemma surviving_length:
  "length (log_bytes (filter (survives dropped) cfs)) +
     mf_reclaimed (compaction_measure \<lparr>pf_records = recs, pf_spans = scan_spans off cfs, pf_committed_len = n\<rparr> dropped) =
   length (log_bytes cfs)"
  by (induction cfs arbitrary: off) (simp_all add: compaction_measure_def survives_def)

section \<open>A replayed file\<close>

text \<open>What replay established of the file it leaves behind.\<close>

lemma replayed_file:
  assumes truncates: "\<And>n b. set_len n b = Inr (take n b)"
    and "replay_and_repair set_len bytes = Inr (rp, file)"
  obtains cfs q where "file = log_bytes cfs" "committed_log cfs" "length file \<le> MAX_WAL_LEN"
    "replay_with (resident (scan_records 0 cfs)) (scan_records 0 cfs) = Inr (replay_of q)"
    "rp_transactions rp = rp_transactions (replay_of q)" "rp_committed_len rp = length file"
    "rp_frame_bytes rp = frame_bytes (scan_spans 0 cfs)"
    "parse_frames file = Inr \<lparr>pf_records = scan_records 0 cfs, pf_spans = scan_spans 0 cfs,
       pf_committed_len = length file\<rparr>"
proof -
  from assms(2) obtain cfs tail q where log: "bytes = log_bytes cfs @ tail" "committed_log cfs"
    "length bytes \<le> MAX_WAL_LEN"
    "fold_r (replay_step (resident (scan_records 0 cfs))) (scan_records 0 cfs) progress_default = Inr q"
    "rp = (replay_of q)\<lparr>rp_frame_bytes := frame_bytes (scan_spans 0 cfs),
       rp_tail_repair := (if tail = [] then None else Some (length tail)),
       rp_committed_len := length (log_bytes cfs)\<rparr>"
    "if tail = [] then file = bytes else set_len (length (log_bytes cfs)) bytes = Inr file"
    by (rule replay_and_repair_cases) blast
  moreover have "file = log_bytes cfs" using log(1,6) truncates by (auto split: if_splits)
  ultimately show thesis
    using that [of cfs q] parse_frames_log [OF log(2) frames.torn_Nil] by (simp add: replay_with_def)
qed

lemma surviving_file:
  assumes "committed_log cfs"
  shows "compaction_surviving_bytes (log_bytes cfs)
      \<lparr>pf_records = scan_records 0 cfs, pf_spans = scan_spans 0 cfs, pf_committed_len = n\<rparr> dropped =
    log_bytes (filter (survives dropped) cfs)"
  using surviving_bytes_log [of cfs "[]" "[]"] assms
  by (auto simp: committed_log_def list_all_iff decodes_def)

lemma in_map_filter: "y \<in> set (List.map_filter f xs) \<longleftrightarrow> (\<exists>x \<in> set xs. f x = Some y)"
  by (induction xs) (auto simp: List.map_filter_simps split: option.splits)

lemma in_dropped_iff:
  assumes "bt_sorted (rp_transactions rp)"
  shows "t \<in> set (compaction_dropped_transactions rp) \<longleftrightarrow>
    (\<exists>rt. map_of (rp_transactions rp) t = Some rt \<and> compaction_drops_state (rt_state rt) \<and>
       (\<forall>t' rt'. map_of (rp_transactions rp) t' = Some rt' \<and> reclamation_group rt' \<noteq> None \<and>
          reclamation_group rt' = reclamation_group rt \<longrightarrow> compaction_drops_state (rt_state rt')))"
proof -
  have mem: "(k, v) \<in> set (rp_transactions rp) \<longleftrightarrow> map_of (rp_transactions rp) k = Some v" for k v
    using bt.entries_mem_iff [OF assms] by simp
  have bex: "(\<exists>x \<in> set (rp_transactions rp). P x) \<longleftrightarrow>
      (\<exists>k v. map_of (rp_transactions rp) k = Some v \<and> P (k, v))" for P
    using mem by (metis surj_pair)
  have "g \<in> set (unfinished_groups rp) \<longleftrightarrow>
      (\<exists>t' rt'. map_of (rp_transactions rp) t' = Some rt' \<and> \<not> compaction_drops_state (rt_state rt') \<and>
         reclamation_group rt' = Some g)" for g
    unfolding unfinished_groups_def in_map_filter bex by simp meson
  then have "(case reclamation_group rt of None \<Rightarrow> True | Some g \<Rightarrow> g \<notin> set (unfinished_groups rp)) \<longleftrightarrow>
      (\<forall>t' rt'. map_of (rp_transactions rp) t' = Some rt' \<and> reclamation_group rt' \<noteq> None \<and>
         reclamation_group rt' = reclamation_group rt \<longrightarrow> compaction_drops_state (rt_state rt'))" for rt
    by (cases "reclamation_group rt") auto
  moreover have "t \<in> set (compaction_dropped_transactions rp) \<longleftrightarrow>
      (\<exists>rt. map_of (rp_transactions rp) t = Some rt \<and> compaction_drops_state (rt_state rt) \<and>
         (case reclamation_group rt of None \<Rightarrow> True | Some g \<Rightarrow> g \<notin> set (unfinished_groups rp)))"
    by (auto simp: compaction_dropped_transactions_def image_iff Bex_def mem)
  ultimately show ?thesis by simp
qed

section \<open>Properties\<close>

text \<open>C6: Compaction loses nothing that survives. For the file of a completed replay and any set of
  transactions to drop, the surviving frames copied out of the file pass the check that guards the
  replacement of the live WAL, and replay, with nothing to repair, to exactly the transactions that
  were not dropped, every field of them unchanged.\<close>

theorem compaction_keeps_survivors:
  assumes truncates: "\<And>n b. set_len n b = Inr (take n b)"
    and "replay_and_repair set_len bytes = Inr (rp, file)"
    and "parse_frames file = Inr parsed"
  shows "let kept = compaction_surviving_bytes file parsed dropped;
             surviving = filter (\<lambda>(t, _). t \<notin> set dropped) (rp_transactions rp)
         in compaction_entry_replays_to (length kept) kept (map (\<lambda>(t, rt). (t, rt_state rt)) surviving) = Inr () \<and>
            (\<exists>rp'. replay_and_repair set_len kept = Inr (rp', kept) \<and>
               rp_tail_repair rp' = None \<and> rp_transactions rp' = surviving)"
proof -
  obtain cfs q where c: "file = log_bytes cfs" "committed_log cfs" "length file \<le> MAX_WAL_LEN"
    "replay_with (resident (scan_records 0 cfs)) (scan_records 0 cfs) = Inr (replay_of q)"
    "rp_transactions rp = rp_transactions (replay_of q)"
    "parsed = \<lparr>pf_records = scan_records 0 cfs, pf_spans = scan_spans 0 cfs, pf_committed_len = length file\<rparr>"
    by (rule replayed_file [OF assms(1,2)]) (use assms(3) in auto)
  define kept where "kept = filter (survives dropped) cfs"
  have log: "committed_log kept" "length (log_bytes kept @ []) \<le> MAX_WAL_LEN"
    using committed_log_filter [OF c(2)] c(1,3) surviving_length [of dropped cfs "[]" 0 0]
    by (simp_all add: kept_def)
  from replay_survivors [OF c(4), of dropped] obtain q' where
    q': "fold_r (replay_step (resident (scan_records 0 kept))) (scan_records 0 kept) progress_default = Inr q'"
    "rp_transactions (replay_of q') = filter (\<lambda>(t, _). t \<notin> set dropped) (rp_transactions rp)"
    by (auto simp: replay_with_def and_then_Inr_iff kept_def c(5))
  have rr: "replay_records (scan_records 0 kept) (log_bytes kept @ []) = Inr (replay_of q')"
    using replay_records_resident [OF log(1), of "[]"] log(2) q'(1) by (simp add: replay_with_def)
  have "compaction_surviving_bytes file parsed dropped = log_bytes kept"
    using surviving_file [OF c(2)] by (simp add: c(1,6) kept_def)
  then show ?thesis
    using log(2) rr parse_frames_log [OF log(1) frames.torn_Nil] q'(2)
      replay_and_repair_log [OF log(1) frames.torn_Nil log(2) rr truncates]
    by (simp add: compaction_entry_replays_to_def Let_def)
qed

theorem compaction_keeps_survivors_witness:
  "\<exists>parsed rp'. parse_frames (sample_file 8) = Inr parsed \<and>
     replay_and_repair truncating (compaction_surviving_bytes (sample_file 8) parsed [sample_id]) =
       Inr (rp', compaction_surviving_bytes (sample_file 8) parsed [sample_id]) \<and>
     map_of (rp_transactions rp') sample_id = None"
proof -
  obtain rp where rp: "replay_and_repair truncating (sample_file 8 @ [1, 2, 3]) = Inr (rp, sample_file 8)"
    by (rule sample_replays)
  obtain parsed where parsed: "parse_frames (sample_file 8) = Inr parsed"
    by (rule replayed_file [OF refl rp]) blast
  from compaction_keeps_survivors [OF refl rp parsed, of "[sample_id]"] parsed show ?thesis
    by (auto simp: Let_def map_of_eq_None_iff)
qed


text \<open>C35: The plan is exact. On the file of a completed replay, planning never fails; the cheap
  measurement of the replay and the authoritative one over the parsed file agree, so a plan is made
  exactly when the first says it is worthwhile; and the planned file is shorter than the committed
  one by exactly the bytes announced as reclaimed.\<close>

theorem compaction_plan_exact:
  assumes truncates: "\<And>n b. set_len n b = Inr (take n b)"
    and "replay_and_repair set_len bytes = Inr (rp, file)"
    and "parse_frames file = Inr parsed"
  shows "let dropped = compaction_dropped_transactions rp;
             kept = compaction_surviving_bytes file parsed dropped
         in plan_compaction (Some rp) file = Inr (if compaction_reclaim rp dropped = 0 then None
              else Some \<lparr>cp_bytes = kept, cp_surviving = map (\<lambda>(t, rt). (t, rt_state rt))
                     (filter (\<lambda>(t, _). t \<notin> set dropped) (rp_transactions rp))\<rparr>) \<and>
            (compaction_reclaim rp dropped \<noteq> 0 \<longrightarrow>
               length kept + compaction_reclaim rp dropped = rp_committed_len rp)"
proof -
  define dropped where "dropped = compaction_dropped_transactions rp"
  obtain cfs q where c: "file = log_bytes cfs" "committed_log cfs" "length file \<le> MAX_WAL_LEN"
    "replay_with (resident (scan_records 0 cfs)) (scan_records 0 cfs) = Inr (replay_of q)"
    "rp_transactions rp = rp_transactions (replay_of q)" "rp_committed_len rp = length file"
    "rp_frame_bytes rp = frame_bytes (scan_spans 0 cfs)"
    "parsed = \<lparr>pf_records = scan_records 0 cfs, pf_spans = scan_spans 0 cfs, pf_committed_len = length file\<rparr>"
    by (rule replayed_file [OF assms(1,2)]) (use assms(3) in auto)
  have "distinct dropped"
    unfolding dropped_def using replay_with_spec(1) [OF c(4)] c(5) dropped_distinct by simp
  from measured_reclaim [OF this, of "scan_spans 0 cfs" "scan_records 0 cfs" "length file"] have measure:
    "compaction_reclaim rp dropped =
       (if compaction_is_worthwhile (mf_reclaimed (compaction_measure parsed dropped)) (length file)
        then mf_reclaimed (compaction_measure parsed dropped) else 0)"
    by (simp add: compaction_reclaim_def c(6-8))
  have "mf_committed (compaction_measure parsed dropped) = length file"
    by (simp add: compaction_measure_def c(8))
  then have "plan_compaction (Some rp) file = Inr (if compaction_reclaim rp dropped = 0 then None
      else Some \<lparr>cp_bytes = compaction_surviving_bytes file parsed dropped,
        cp_surviving = map (\<lambda>(t, rt). (t, rt_state rt))
          (filter (\<lambda>(t, _). t \<notin> set dropped) (rp_transactions rp))\<rparr>)"
    using c(3) measure assms(3)
    by (auto simp: plan_compaction_def plan_compaction_from_def dropped_def [symmetric] Let_def)
  moreover have "length (compaction_surviving_bytes file parsed dropped) + compaction_reclaim rp dropped =
      rp_committed_len rp" if "compaction_reclaim rp dropped \<noteq> 0"
    using that measure surviving_length [of dropped cfs "scan_records 0 cfs" 0 "length file"]
      surviving_file [OF c(2), of "length file" dropped]
    by (simp add: c(1,6,8) split: if_splits)
  ultimately show ?thesis by (simp add: Let_def dropped_def)
qed

theorem compaction_plan_exact_witness:
  "\<exists>rp plan. replay_and_repair truncating (sample_file 8 @ [1, 2, 3]) = Inr (rp, sample_file 8) \<and>
     plan_compaction (Some rp) (sample_file 8) = Inr plan"
proof -
  obtain rp where rp: "replay_and_repair truncating (sample_file 8 @ [1, 2, 3]) = Inr (rp, sample_file 8)"
    by (rule sample_replays)
  obtain parsed where parsed: "parse_frames (sample_file 8) = Inr parsed"
    by (rule replayed_file [OF refl rp]) blast
  from compaction_plan_exact [OF refl rp parsed] rp show ?thesis by (auto simp: Let_def)
qed


text \<open>C34: Compaction drops settled groups only. A transaction is dropped exactly when it is purged,
  restored or rolled back and every transaction of its reclamation group, if it has one, is too; so
  no member of a group with something left to undo or purge ever loses its frames.\<close>

theorem compaction_drops_settled_groups:
  assumes "replay_and_repair set_len bytes = Inr (rp, file)"
  shows "t \<in> set (compaction_dropped_transactions rp) \<longleftrightarrow>
    (\<exists>rt. map_of (rp_transactions rp) t = Some rt \<and> rt_state rt \<in> {Purged, Restored, RolledBack} \<and>
       (\<forall>t' rt'. map_of (rp_transactions rp) t' = Some rt' \<and> reclamation_group rt' \<noteq> None \<and>
          reclamation_group rt' = reclamation_group rt \<longrightarrow> rt_state rt' \<in> {Purged, Restored, RolledBack}))"
proof -
  from assms have "bt_sorted (rp_transactions rp)"
  proof (rule replay_and_repair_cases)
    fix cfs tail q
    assume q: "progress_inv (scan_records 0 cfs) q" "rp = (replay_of q)\<lparr>rp_frame_bytes :=
      frame_bytes (scan_spans 0 cfs), rp_tail_repair := (if tail = [] then None else Some (length tail)),
      rp_committed_len := length (log_bytes cfs)\<rparr>"
    then have "map fst (rp_transactions rp) = map fst (rq_transactions q)"
      by (simp add: replay_of_def case_prod_unfold)
    with q(1) show ?thesis by (simp add: progress_inv_def bt_sorted_def)
  qed
  from in_dropped_iff [OF this, of t] show ?thesis by (simp add: compaction_drops_state_def)
qed

theorem compaction_drops_settled_groups_witness:
  "\<exists>rp. replay_and_repair truncating (sample_file 8 @ [1, 2, 3]) = Inr (rp, sample_file 8) \<and>
     sample_id \<in> set (compaction_dropped_transactions rp)"
proof -
  obtain rp where rp: "replay_and_repair truncating (sample_file 8 @ [1, 2, 3]) = Inr (rp, sample_file 8)"
    "map_of (rp_transactions rp) sample_id = Some (sample_rt Restored 0)" by (rule sample_replays)
  with compaction_drops_settled_groups [OF rp(1), of sample_id] show ?thesis
    by (auto simp: sample_rt_def reclamation_group_def)
qed


end
