(* ===== verification/Wal_Recovery.thy ===== *)
theory Wal_Recovery
  imports Wal_Replay_Props "HOL-Library.Multiset"
begin

text \<open>
  Recovery decisions (\<open>decide_recovery\<close>, \<open>AppliedTreeSealModes\<close> and \<open>permission_records\<close> of
  \<open>seal/wal.rs\<close>): what startup recovery has to do for a replayed transaction. Deciding is pure;
  whether the persistent identity of an object can be reestablished is a parameter.
\<close>

section \<open>Work\<close>

datatype recovery_identity = Reestablished | Insufficient

datatype recovery_required_reason =
  InsufficientPersistentIdentity
  | RenameOutcomeUnknown
  | RecordedRecoveryRequired
  | LegacySchemaMissingMountIdentity u16
  | InterruptedPurge

datatype recovery_work =
  NoWork
  | RestoreBeforeRename transaction_id "durable_permission list"
  | VerifyOrQuarantineAfterRename transaction_id "durable_permission list"
  | RestoreSourceParentAfterRename transaction_id "durable_permission list"
  | RestoreQuarantinedSeals transaction_id "durable_permission list"
  | ResolveUncertainPermissions transaction_id "durable_permission list"
  | PreserveCommittedSeal transaction_id transaction_state
  | PreserveQuarantine transaction_id
  | FinalizeVerifiedCommit transaction_id
  | ResumeVerifiedUndo transaction_id "durable_permission list"
  | FinalizeVerifiedUndo transaction_id durable_undo_rename_outcome
  | PreserveUndoConflict transaction_id
  | FinalizePurge transaction_id
  | WorkRecoveryRequired transaction_id recovery_required_reason

definition quarantined_transaction_retains_active_permission_seals :: "replayed_transaction \<Rightarrow> bool" where
  "quarantined_transaction_retains_active_permission_seals tx \<longleftrightarrow>
     rt_state tx = Quarantined \<and> pw_active_seals (rt_permission_workload tx) > 0"

definition staging_recovery_needs_mount_authority :: "replayed_transaction \<Rightarrow> bool" where
  "staging_recovery_needs_mount_authority tx =
     (if rt_state tx \<in> {VerifiedCommitted, Restored, RolledBack, Purged, Purgeable, PurgeOutcome,
           UndoConflict, RecoveryRequired} then False
      else if rt_state tx = Quarantined then quarantined_transaction_retains_active_permission_seals tx
      else True)"

definition path_depth :: "durable_permission \<Rightarrow> nat" where
  "path_depth p = length (path_components (ev_relative_path (dp_evidence p)))"

text \<open>The stable sort by descending depth and ascending mutation id.\<close>

definition sort_permissions_deepest_first :: "durable_permission list \<Rightarrow> durable_permission list" where
  "sort_permissions_deepest_first = sort_key (\<lambda>p. (- int (path_depth p), dp_mutation_id p))"

definition reversed_ids :: "durable_permission list \<Rightarrow> u64 list" where
  "reversed_ids records =
     List.map_filter (\<lambda>p. if dp_application p = Applied then dp_reverses p else None) records"

definition is_active :: "durable_permission list \<Rightarrow> durable_permission \<Rightarrow> bool" where
  "is_active records p \<longleftrightarrow>
     dp_application p = Applied \<and> dp_reverses p = None \<and> dp_mutation_id p \<notin> set (reversed_ids records)"

definition active_permissions :: "durable_permission list \<Rightarrow> durable_permission list" where
  "active_permissions records = filter (is_active records) records"

text \<open>\<open>None\<close> is the \<open>unreachable!\<close> of a rename intent without an outcome.\<close>

definition decide_from_records ::
  "replayed_transaction \<Rightarrow> durable_permission list \<Rightarrow> (persistent_recovery_evidence \<Rightarrow> recovery_identity) \<Rightarrow>
   recovery_work option" where
  "decide_from_records tx records identity =
     (let uncertain = filter (\<lambda>p. dp_application p = ApplicationUnknown) records in
      if uncertain \<noteq> [] then Some (ResolveUncertainPermissions (rt_id tx) uncertain)
      else if rt_state tx = UndoRenameIntent
      then (case rt_undo_rename_outcome tx of
              Some outcome \<Rightarrow> Some (FinalizeVerifiedUndo (rt_id tx) outcome)
            | None \<Rightarrow> Some (WorkRecoveryRequired (rt_id tx) RenameOutcomeUnknown))
      else if rt_state tx = UndoIntent \<or> rt_state tx = UndoModesRestored
      then Some (ResumeVerifiedUndo (rt_id tx) (sort_permissions_deepest_first records))
      else if rt_state tx = Quarantined
      then (if active_permissions records = [] then Some (PreserveQuarantine (rt_id tx))
            else Some (RestoreQuarantinedSeals (rt_id tx)
                   (sort_permissions_deepest_first (active_permissions records))))
      else if rt_state tx = RenameIntent \<and> rt_rename_outcome tx = None
      then Some (WorkRecoveryRequired (rt_id tx) RenameOutcomeUnknown)
      else if list_ex (\<lambda>p. identity (dp_evidence p) = Insufficient) (active_permissions records)
      then Some (WorkRecoveryRequired (rt_id tx) InsufficientPersistentIdentity)
      else if rt_state tx = RenameIntent
      then (case rt_rename_outcome tx of
              Some (AppliedAndParentsSynced _) \<Rightarrow>
                Some (VerifyOrQuarantineAfterRename (rt_id tx) (active_permissions records))
            | Some (ConfirmedNotAppliedAtSource _) \<Rightarrow>
                Some (RestoreBeforeRename (rt_id tx)
                  (sort_permissions_deepest_first (active_permissions records)))
            | None \<Rightarrow> None)
      else if rt_state tx = StagedSealed \<or> rt_state tx = SourceParentRestoreIntent
      then Some (RestoreSourceParentAfterRename (rt_id tx)
             (filter (\<lambda>p. dp_phase p = ParentSealIntent) (active_permissions records)))
      else if rt_state tx = SourceParentRestored then Some (FinalizeVerifiedCommit (rt_id tx))
      else if rt_state tx = StagedUnverified \<or> rt_state tx = RollbackIntent
      then Some (VerifyOrQuarantineAfterRename (rt_id tx) (active_permissions records))
      else Some (RestoreBeforeRename (rt_id tx)
             (sort_permissions_deepest_first (active_permissions records))))"

text \<open>\<open>records\<close> is the result of the closure that reads the permission records.\<close>

definition decide_recovery ::
  "replayed_transaction \<Rightarrow> permission_read_error + durable_permission list \<Rightarrow>
   (persistent_recovery_evidence \<Rightarrow> recovery_identity) \<Rightarrow> permission_read_error + recovery_work option" where
  "decide_recovery tx records identity =
     (if (case rt_staging_schema_version tx of None \<Rightarrow> False | Some v \<Rightarrow> v \<le> 3) \<and>
         staging_recovery_needs_mount_authority tx
      then Inr (Some (WorkRecoveryRequired (rt_id tx)
             (LegacySchemaMissingMountIdentity (the (rt_staging_schema_version tx)))))
      else if rt_state tx = PurgeOutcome then Inr (Some (FinalizePurge (rt_id tx)))
      else if rt_state tx = PurgeIntent
      then Inr (Some (WorkRecoveryRequired (rt_id tx) InterruptedPurge))
      else if rt_state tx = RecoveryRequired
      then Inr (Some (WorkRecoveryRequired (rt_id tx) RecordedRecoveryRequired))
      else if rt_state tx = VerifiedCommitted \<or> rt_state tx = Purgeable \<or> rt_state tx = Purged
      then Inr (Some (PreserveCommittedSeal (rt_id tx) (rt_state tx)))
      else if rt_state tx = UndoConflict then Inr (Some (PreserveUndoConflict (rt_id tx)))
      else if rt_state tx = Restored \<or> rt_state tx = RolledBack then Inr (Some NoWork)
      else and_then records (\<lambda>rs. Inr (decide_from_records tx rs identity)))"

section \<open>Reading the records of a ledger\<close>

fun read_records ::
  "intent_reader \<Rightarrow> transaction_id \<Rightarrow> (u64 \<times> permission_entry) list \<Rightarrow>
   permission_read_error + durable_permission list" where
  "read_records rd t [] = Inr []"
| "read_records rd t ((mid, e) # es) =
     and_then (rd t mid e) (\<lambda>p. and_then (read_records rd t es) (\<lambda>ps. Inr (p # ps)))"

definition permission_records ::
  "intent_reader \<Rightarrow> transaction_id \<Rightarrow> permission_ledger option \<Rightarrow>
   permission_read_error + durable_permission list" where
  "permission_records rd t l = (case l of None \<Rightarrow> Inr [] | Some l \<Rightarrow> read_records rd t (lg_permissions l))"

section \<open>The index of the applied tree seals\<close>

record applied_tree_seal =
  ts_device :: u64
  ts_inode :: u64
  ts_incarnation :: "u64 option"
  ts_pre_mode :: u32
  ts_expected_mode :: u32

text \<open>The index is keyed by paths, which are equal when their components are.\<close>

type_synonym applied_tree_seal_modes = "path_component list \<rightharpoonup> applied_tree_seal list"

definition is_tree_seal :: "durable_permission \<Rightarrow> bool" where
  "is_tree_seal p \<longleftrightarrow>
     \<not> (dp_phase p \<noteq> TreeSealIntent \<or> dp_application p \<noteq> Applied \<or> dp_reverses p \<noteq> None \<or>
        ev_expected_mode (dp_evidence p) \<noteq> dp_expected_mode p)"

definition tree_seal_of :: "durable_permission \<Rightarrow> applied_tree_seal" where
  "tree_seal_of p = \<lparr>ts_device = ev_device (dp_evidence p), ts_inode = ev_inode (dp_evidence p),
     ts_incarnation = ev_generation_or_btime (dp_evidence p), ts_pre_mode = dp_pre_mode p,
     ts_expected_mode = dp_expected_mode p\<rparr>"

definition index_permission ::
  "durable_permission \<Rightarrow> applied_tree_seal_modes \<Rightarrow> applied_tree_seal_modes" where
  "index_permission p by_path =
     (if \<not> is_tree_seal p then by_path
      else let key = path_components (ev_relative_path (dp_evidence p))
           in by_path(key \<mapsto> (case by_path key of None \<Rightarrow> [] | Some seals \<Rightarrow> seals) @ [tree_seal_of p]))"

definition from_permissions :: "durable_permission list \<Rightarrow> applied_tree_seal_modes" where
  "from_permissions ps = fold index_permission ps Map.empty"

text \<open>The loop of both queries: one match is the answer, a second one makes it \<open>None\<close>.\<close>

fun unique_match :: "u32 option \<Rightarrow> u32 list \<Rightarrow> u32 option" where
  "unique_match matched [] = matched"
| "unique_match matched (m # ms) = (if matched \<noteq> None then None else unique_match (Some m) ms)"

definition seal_matches :: "u64 \<Rightarrow> u64 \<Rightarrow> u64 \<Rightarrow> u32 \<Rightarrow> applied_tree_seal \<Rightarrow> bool" where
  "seal_matches device inode incarnation pre_mode s \<longleftrightarrow>
     ts_device s = device \<and> ts_inode s = inode \<and> ts_incarnation s = Some incarnation \<and> ts_pre_mode s = pre_mode"

definition seal_mode :: "applied_tree_seal_modes \<Rightarrow> path \<Rightarrow> u64 \<Rightarrow> u64 \<Rightarrow> u64 \<Rightarrow> u32 \<Rightarrow> u32 option" where
  "seal_mode by_path relative_path device inode incarnation pre_mode =
     Option.bind (by_path (path_components relative_path)) (\<lambda>seals.
       unique_match None (map ts_expected_mode (filter (seal_matches device inode incarnation pre_mode) seals)))"

definition mode_by_scan ::
  "durable_permission list \<Rightarrow> path \<Rightarrow> u64 \<Rightarrow> u64 \<Rightarrow> u64 \<Rightarrow> u32 \<Rightarrow> u32 option" where
  "mode_by_scan ps relative_path device inode incarnation pre_mode =
     unique_match None (map dp_expected_mode (filter (\<lambda>p.
       \<not> (dp_phase p \<noteq> TreeSealIntent \<or> dp_application p \<noteq> Applied \<or> dp_reverses p \<noteq> None \<or>
          \<not> path_eq (ev_relative_path (dp_evidence p)) relative_path \<or>
          ev_device (dp_evidence p) \<noteq> device \<or> ev_inode (dp_evidence p) \<noteq> inode \<or>
          ev_generation_or_btime (dp_evidence p) \<noteq> Some incarnation \<or> dp_pre_mode p \<noteq> pre_mode \<or>
          ev_expected_mode (dp_evidence p) \<noteq> dp_expected_mode p)) ps))"

section \<open>Facts about decisions\<close>

lemma in_reversed_ids:
  "i \<in> set (reversed_ids records) \<longleftrightarrow>
     (\<exists>p \<in> set records. dp_application p = Applied \<and> dp_reverses p = Some i)"
  unfolding reversed_ids_def
  by (induction records) (auto simp: List.map_filter_simps split: option.splits)

lemma sort_deepest_mset [simp]: "mset (sort_permissions_deepest_first ps) = mset ps"
  by (simp add: sort_permissions_deepest_first_def)

lemma set_sort_deepest [simp]: "set (sort_permissions_deepest_first ps) = set ps"
  by (simp add: sort_permissions_deepest_first_def)

lemma sort_deepest_order:
  assumes "i < j" "j < length (sort_permissions_deepest_first ps)"
  shows "path_depth (sort_permissions_deepest_first ps ! j) \<le> path_depth (sort_permissions_deepest_first ps ! i)"
proof -
  let ?k = "\<lambda>p. (- int (path_depth p), dp_mutation_id p)"
  have "sorted (map ?k (sort_permissions_deepest_first ps))"
    by (simp add: sort_permissions_deepest_first_def)
  with assms have "?k (sort_permissions_deepest_first ps ! i) \<le> ?k (sort_permissions_deepest_first ps ! j)"
    by (simp add: sorted_iff_nth_mono_less)
  then show ?thesis by (auto simp: less_eq_prod_def)
qed

lemma decide_from_records_total: "decide_from_records tx records identity \<noteq> None"
  by (auto simp: decide_from_records_def Let_def split: option.splits durable_rename_outcome.splits)

lemma decide_recovery_total: "\<exists>work. decide_recovery tx (Inr records) identity = Inr (Some work)"
proof -
  obtain work where "decide_from_records tx records identity = Some work"
    using decide_from_records_total by blast
  then show ?thesis by (simp add: decide_recovery_def)
qed

text \<open>The entries of a ledger and the records read for them say the same.\<close>

definition record_of_entry :: "u64 \<times> permission_entry \<Rightarrow> durable_permission \<Rightarrow> bool" where
  "record_of_entry ke p \<longleftrightarrow> dp_mutation_id p = fst ke \<and> dp_phase p = pe_phase (snd ke) \<and>
     dp_application p = pe_application (snd ke) \<and> dp_reverses p = pe_reverses (snd ke)"

lemma read_records_ok:
  assumes "\<And>mid e. (mid, e) \<in> set es \<Longrightarrow> \<exists>p. rd t mid e = Inr p \<and> record_of_entry (mid, e) p"
  shows "\<exists>ps. read_records rd t es = Inr ps \<and> list_all2 record_of_entry es ps"
  using assms
proof (induction es)
  case (Cons x es)
  obtain mid e where x: "x = (mid, e)" by (cases x)
  from Cons.prems [of mid e] x obtain p where "rd t mid e = Inr p" "record_of_entry (mid, e) p" by auto
  moreover from Cons obtain ps where "read_records rd t es = Inr ps" "list_all2 record_of_entry es ps" by auto
  ultimately show ?case by (auto simp: x)
qed simp

lemma count_active:
  assumes "list_all2 record_of_entry es ps"
  shows "length (active_permissions ps) = active_permission_seals_by_scan es"
proof -
  have ex: "list_ex (\<lambda>(_, e). pe_application e = Applied \<and> pe_reverses e = Some i) es \<longleftrightarrow>
      (\<exists>p \<in> set ps. dp_application p = Applied \<and> dp_reverses p = Some i)" for i
    using assms by (induction rule: list_all2_induct) (auto simp: record_of_entry_def)
  have "length (filter (\<lambda>p. dp_application p = Applied \<and> dp_reverses p = None \<and> dp_mutation_id p \<notin> R) ps) =
      length (filter (\<lambda>(k, e). pe_application e = Applied \<and> pe_reverses e = None \<and> k \<notin> R) es)" for R
    using assms by (induction rule: list_all2_induct) (auto simp: record_of_entry_def)
  from this [of "set (reversed_ids ps)"] show ?thesis
    unfolding active_permissions_def is_active_def active_permission_seals_by_scan_def ex in_reversed_ids
    by simp
qed

text \<open>Every record of a replayed transaction can be read back out of the repaired file.\<close>

lemma replayed_records:
  assumes truncates: "\<And>n b. set_len n b = Inr (take n b)"
    and "replay_and_repair set_len bytes = Inr (rp, file)"
    and "map_of (rp_transactions rp) t = Some rt"
  obtains l ps where "map_of (rp_ledgers rp) t = Some l" "ledger_inv l"
    "permission_records (read_framed_intent file) t (Some l) = Inr ps"
    "list_all2 record_of_entry (lg_permissions l) ps"
    "length (active_permissions ps) = pw_active_seals (rt_permission_workload rt)" "rt_id rt = t"
proof -
  from assms(2) obtain cfs tail q where log: "bytes = log_bytes cfs @ tail" "committed_log cfs"
    "length bytes \<le> MAX_WAL_LEN" "progress_inv (scan_records 0 cfs) q"
    "rp = (replay_of q)\<lparr>rp_frame_bytes := frame_bytes (scan_spans 0 cfs),
       rp_tail_repair := (if tail = [] then None else Some (length tail)),
       rp_committed_len := length (log_bytes cfs)\<rparr>"
    "if tail = [] then file = bytes else set_len (length (log_bytes cfs)) bytes = Inr file"
    by (rule replay_and_repair_cases) blast
  have fl: "file = log_bytes cfs @ []" using log(1,6) truncates by (auto split: if_splits)
  from assms(3) log(5) obtain tx where tx: "map_of (rq_transactions q) t = Some tx" "rt = finished t tx"
    by (auto simp: replay_of_def map_of_map_values)
  have inv: "ledger_inv (rb_ledger tx)" "indexed (scan_records 0 cfs) t (rb_ledger tx)"
  proof -
    have "building_of q t = tx" using tx(1) by (simp add: building_of_def)
    with log(4) show "ledger_inv (rb_ledger tx)" "indexed (scan_records 0 cfs) t (rb_ledger tx)"
      by (auto simp: progress_inv_def building_inv_def)
  qed
  have "serves (read_framed_intent file) (scan_records 0 cfs @ [])"
    using framed_serves [OF log(2), of "[]"] log(1,3) fl by simp
  from served_reader_ok [OF this inv(2)] have ok: "reader_ok (read_framed_intent file) t (rb_ledger tx)" .
  have sorted: "bt_sorted (lg_permissions (rb_ledger tx))" using inv(1) by (simp add: ledger_inv_def)
  have "\<exists>p. read_framed_intent file t mid e = Inr p \<and> record_of_entry (mid, e) p"
    if "(mid, e) \<in> set (lg_permissions (rb_ledger tx))" for mid e
    using ok that bt.entries_mem_iff [OF sorted, of mid e]
    by (force simp: reader_ok_def ledger_entry_def record_of_entry_def)
  from read_records_ok [of "lg_permissions (rb_ledger tx)" "read_framed_intent file" t, OF this] obtain ps where
    ps: "read_records (read_framed_intent file) t (lg_permissions (rb_ledger tx)) = Inr ps"
    "list_all2 record_of_entry (lg_permissions (rb_ledger tx)) ps" by blast
  have "length (active_permissions ps) = pw_active_seals (rt_permission_workload rt)"
    using count_active [OF ps(2)] active_seals_scan [OF inv(1)]
    by (simp add: tx(2) finished_def ledger_workload_def)
  moreover have "map_of (rp_ledgers rp) t = Some (rb_ledger tx)"
    using tx(1) by (simp add: log(5) replay_of_def map_of_map_values [where f = "\<lambda>_ tx. rb_ledger tx"])
  ultimately show thesis
    using that [of "rb_ledger tx" ps] inv(1) ps tx(2) by (simp add: permission_records_def finished_def)
qed

section \<open>The index answers the scan\<close>

lemma from_permissions_snoc: "from_permissions (ps @ [p]) = index_permission p (from_permissions ps)"
  by (simp add: from_permissions_def)

lemma from_permissions_eq:
  "(case from_permissions ps key of None \<Rightarrow> [] | Some seals \<Rightarrow> seals) =
     map tree_seal_of (filter (\<lambda>p. is_tree_seal p \<and> path_components (ev_relative_path (dp_evidence p)) = key) ps)"
proof (induction ps rule: rev_induct)
  case Nil
  then show ?case by (simp add: from_permissions_def)
next
  case (snoc p ps)
  then show ?case
    by (auto simp: from_permissions_snoc index_permission_def Let_def)
qed

definition sample_seal :: "u64 \<Rightarrow> path \<Rightarrow> durable_permission" where
  "sample_seal mid p = \<lparr>dp_mutation_id = mid, dp_phase = TreeSealIntent,
     dp_evidence = sample_evidence\<lparr>ev_relative_path := p\<rparr>, dp_pre_mode = 493, dp_expected_mode = 448,
     dp_reverses = None, dp_application = Applied\<rparr>"

section \<open>Properties\<close>

text \<open>C7: Recovery knows exactly what to give back. For every replayed transaction all permission
  records can be read back out of the file, and the decision over them never reaches the
  unreachable arm. When it is to restore, verify or unquarantine, the work lists exactly the
  applied seals no applied inverse has reversed, as many as the ledger counted; when nothing is to
  be done, none is left.\<close>

theorem recovery_restores_active_seals:
  assumes truncates: "\<And>n b. set_len n b = Inr (take n b)"
    and "replay_and_repair set_len bytes = Inr (rp, file)"
    and "map_of (rp_transactions rp) t = Some rt"
  shows "\<exists>ps work. permission_records (read_framed_intent file) t (map_of (rp_ledgers rp) t) = Inr ps \<and>
    decide_recovery rt (Inr ps) identity = Inr (Some work) \<and>
    (\<forall>t' work_ps. work \<in> {RestoreBeforeRename t' work_ps, VerifyOrQuarantineAfterRename t' work_ps,
         RestoreQuarantinedSeals t' work_ps} \<longrightarrow>
       t' = t \<and> mset work_ps = mset (active_permissions ps) \<and>
       length work_ps = pw_active_seals (rt_permission_workload rt)) \<and>
    (work = NoWork \<longrightarrow> active_permissions ps = [])"
proof -
  obtain l ps where r: "map_of (rp_ledgers rp) t = Some l" "ledger_inv l"
    "permission_records (read_framed_intent file) t (Some l) = Inr ps"
    "length (active_permissions ps) = pw_active_seals (rt_permission_workload rt)" "rt_id rt = t"
    by (rule replayed_records [OF assms]) blast
  obtain work where work: "decide_recovery rt (Inr ps) identity = Inr (Some work)"
    using decide_recovery_total by blast
  have restores: "t' = t \<and> mset work_ps = mset (active_permissions ps)"
    if "work \<in> {RestoreBeforeRename t' work_ps, VerifyOrQuarantineAfterRename t' work_ps,
         RestoreQuarantinedSeals t' work_ps}" for t' work_ps
    using work that r(5)
    by (auto simp: decide_recovery_def decide_from_records_def Let_def
        split: if_splits option.splits durable_rename_outcome.splits)
  have "rt_state rt \<in> {Restored, RolledBack}" if "work = NoWork"
    using work that
    by (auto simp: decide_recovery_def decide_from_records_def Let_def
        split: if_splits option.splits durable_rename_outcome.splits)
  moreover have "pw_active_seals (rt_permission_workload rt) = 0" if "rt_state rt \<in> {Restored, RolledBack}"
    using replayed_state_facts [OF assms(2,3)] that r(1)
    by (auto simp: active_seals_scan [OF r(2), symmetric] coverage_answers [OF r(2), symmetric]
        active_seals_def every_applied_seal_is_reversed_def)
  ultimately have "work = NoWork \<Longrightarrow> active_permissions ps = []" using r(4) by simp
  then show ?thesis using r work restores by (metis mset_eq_length)
qed

text \<open>Cut after the fifth record, the sample transaction has one seal to give back.\<close>

lemma sample_cut_replays:
  obtains rp where "replay_and_repair truncating (sample_file 5 @ [1, 2, 3]) = Inr (rp, sample_file 5)"
    "map_of (rp_transactions rp) sample_id = Some (sample_rt RestoreIntent 1)"
  by (rule sample_replays_at [OF sample_transactions(2)])

theorem recovery_restores_active_seals_witness:
  "\<exists>rp ps work. replay_and_repair truncating (sample_file 5 @ [1, 2, 3]) = Inr (rp, sample_file 5) \<and>
     permission_records (read_framed_intent (sample_file 5)) sample_id (map_of (rp_ledgers rp) sample_id) = Inr ps \<and>
     decide_recovery (sample_rt RestoreIntent 1) (Inr ps) (\<lambda>_. Reestablished) = Inr (Some work) \<and>
     (\<forall>t work_ps. work = RestoreBeforeRename t work_ps \<longrightarrow> length work_ps = 1)"
proof -
  obtain rp where rp: "replay_and_repair truncating (sample_file 5 @ [1, 2, 3]) = Inr (rp, sample_file 5)"
    "map_of (rp_transactions rp) sample_id = Some (sample_rt RestoreIntent 1)" by (rule sample_cut_replays)
  have "pw_active_seals (rt_permission_workload (sample_rt RestoreIntent 1)) = 1" by (simp add: sample_rt_def)
  with recovery_restores_active_seals [OF refl rp, of "\<lambda>_. Reestablished"] rp(1) show ?thesis by auto
qed

text \<open>C13: Recovery never guesses the side of a rename. It restores before the rename only when no
  record says the rename was applied, and verifies after the rename only when the durable outcome
  says it was, under the identity bound before; when a rename or a purge was under way and its
  outcome is not recorded, it does neither and asks for recovery.\<close>

theorem rename_side_follows_record:
  assumes "replay_and_repair set_len bytes = Inr (rp, file)"
    and "map_of (rp_transactions rp) t = Some rt"
    and "decide_recovery rt records identity = Inr (Some work)"
  shows "(\<forall>t' ps. work = RestoreBeforeRename t' ps \<longrightarrow>
            (\<forall>i. rt_rename_outcome rt \<noteq> Some (AppliedAndParentsSynced i))) \<and>
         (\<forall>t' ps. work \<in> {VerifyOrQuarantineAfterRename t' ps, RestoreSourceParentAfterRename t' ps} \<longrightarrow>
            (\<exists>m. rt_staging rt = Some m \<and>
               rt_rename_outcome rt = Some (AppliedAndParentsSynced (sm_root_identity m)))) \<and>
         (rt_state rt = PurgeIntent \<longrightarrow> (\<exists>reason. work = WorkRecoveryRequired (rt_id rt) reason)) \<and>
         (rt_state rt = RenameIntent \<and> rt_rename_outcome rt = None \<longrightarrow>
            (\<exists>reason. work = WorkRecoveryRequired (rt_id rt) reason) \<or>
            (\<exists>ps. work = ResolveUncertainPermissions (rt_id rt) ps))"
proof -
  from assms(1) obtain vrs q where q: "progress_inv vrs q"
    "rp_transactions rp = map (\<lambda>(t, tx). (t, finished t tx)) (rq_transactions q)"
    by (rule replay_and_repair_cases) (simp add: replay_of_def)
  from assms(2) obtain tx where tx: "map_of (rq_transactions q) t = Some tx" "rt = finished t tx"
    by (auto simp: q(2) map_of_map_values)
  have "building_of q t = tx" using tx(1) by (simp add: building_of_def)
  then have "building_inv t tx" "rb_state tx \<noteq> None"
    using q(1) tx(1) by (auto simp: progress_inv_def)
  then obtain s where s: "rb_state tx = Some s" "state_inv tx s" "evidence_inv t tx"
    by (auto elim: building_invE)
  note inv = state_invD [OF s(2)]
  have rt: "rt_state rt = s" "rt_rename_outcome rt = rb_rename_outcome tx" "rt_staging rt = rb_staging tx"
    using tx(2) s(1) by (simp_all add: finished_def)
  have applied: "\<exists>m. rb_staging tx = Some m \<and>
      rb_rename_outcome tx = Some (AppliedAndParentsSynced (sm_root_identity m))"
    if "\<exists>i. rb_rename_outcome tx = Some (AppliedAndParentsSynced i)"
    using that s(3) by (auto simp: evidence_inv_def)
  note decision = assms(3) [unfolded decide_recovery_def decide_from_records_def Let_def]
  have before: "rb_rename_outcome tx \<noteq> Some (AppliedAndParentsSynced i)"
    if "work = RestoreBeforeRename t' ps" for t' ps i
  proof -
    have "s = RenameIntent \<longrightarrow> (\<exists>j. rb_rename_outcome tx = Some (ConfirmedNotAppliedAtSource j))"
      "s \<notin> {UndoRenameIntent, UndoIntent, UndoModesRestored, Quarantined, StagedSealed, UndoConflict,
         SourceParentRestoreIntent, SourceParentRestored, StagedUnverified, RollbackIntent, PurgeOutcome,
         PurgeIntent, RecoveryRequired, VerifiedCommitted, Purgeable, Purged, Restored, RolledBack}"
      using decision that
      by (auto simp: rt and_then_Inr_iff split: if_splits option.splits durable_rename_outcome.splits)
    then show ?thesis using inv(8) inv(9) by (cases s) (auto simp: sealing_state_def)
  qed
  have after: "\<exists>i. rb_rename_outcome tx = Some (AppliedAndParentsSynced i)"
    if "work \<in> {VerifyOrQuarantineAfterRename t' ps, RestoreSourceParentAfterRename t' ps}" for t' ps
  proof -
    have "s = RenameIntent \<and> (\<exists>i. rb_rename_outcome tx = Some (AppliedAndParentsSynced i)) \<or>
        s \<in> {StagedSealed, SourceParentRestoreIntent, StagedUnverified, RollbackIntent}"
      using decision that
      by (auto simp: rt and_then_Inr_iff split: if_splits option.splits durable_rename_outcome.splits)
    then show ?thesis using inv(2) by (auto simp: staged_state_def)
  qed
  have "rt_state rt = PurgeIntent \<Longrightarrow> \<exists>reason. work = WorkRecoveryRequired (rt_id rt) reason"
    "rt_state rt = RenameIntent \<Longrightarrow> rt_rename_outcome rt = None \<Longrightarrow>
       (\<exists>reason. work = WorkRecoveryRequired (rt_id rt) reason) \<or>
       (\<exists>ps. work = ResolveUncertainPermissions (rt_id rt) ps)"
    using decision by (auto simp: and_then_Inr_iff split: if_splits)
  then show ?thesis using before applied [OF after] unfolding rt(2,3) by blast
qed

theorem rename_side_follows_record_witness:
  "decide_recovery (sample_rt RestoreIntent 1) (Inr [sample_seal 5 [97]]) (\<lambda>_. Reestablished) =
     Inr (Some (RestoreBeforeRename sample_id [sample_seal 5 [97]])) \<and>
   (\<forall>i. rt_rename_outcome (sample_rt RestoreIntent 1) \<noteq> Some (AppliedAndParentsSynced i))"
proof -
  obtain rp where rp: "replay_and_repair truncating (sample_file 5 @ [1, 2, 3]) = Inr (rp, sample_file 5)"
    "map_of (rp_transactions rp) sample_id = Some (sample_rt RestoreIntent 1)" by (rule sample_cut_replays)
  have d: "decide_recovery (sample_rt RestoreIntent 1) (Inr [sample_seal 5 [97]]) (\<lambda>_. Reestablished) =
      Inr (Some (RestoreBeforeRename sample_id [sample_seal 5 [97]]))"
    by (simp add: decide_recovery_def decide_from_records_def sample_rt_def sample_seal_def Let_def
        active_permissions_def is_active_def reversed_ids_def List.map_filter_simps
        sort_permissions_deepest_first_def)
  from rename_side_follows_record [OF rp d] d show ?thesis by blast
qed


text \<open>Seals are restored deepest first: in every list of restore, unquarantine or undo work, no
  object comes before one that lies beneath it.\<close>

theorem recovery_restores_deepest_first:
  assumes "decide_recovery rt records identity = Inr (Some work)"
    and "work \<in> {RestoreBeforeRename t ps, RestoreQuarantinedSeals t ps, ResumeVerifiedUndo t ps}"
    and "i < j" and "j < length ps"
  shows "\<not> strict_prefix (path_components (ev_relative_path (dp_evidence (ps ! i))))
                        (path_components (ev_relative_path (dp_evidence (ps ! j))))"
proof -
  have "\<exists>qs. ps = sort_permissions_deepest_first qs"
    using assms(1,2)
    by (auto simp: decide_recovery_def decide_from_records_def Let_def and_then_Inr_iff
        split: if_splits option.splits durable_rename_outcome.splits)
  then have "path_depth (ps ! j) \<le> path_depth (ps ! i)" using sort_deepest_order assms(3,4) by blast
  then show ?thesis using prefix_length_less by (fastforce simp: path_depth_def)
qed

theorem recovery_restores_deepest_first_witness:
  "\<exists>ps. decide_recovery (sample_rt TreeSealed 2)
        (Inr [sample_seal 1 [97], sample_seal 2 [97, 47, 98]]) (\<lambda>_. Reestablished) =
      Inr (Some (RestoreBeforeRename sample_id ps)) \<and> length ps = 2 \<and>
    \<not> strict_prefix (path_components (ev_relative_path (dp_evidence (ps ! 0))))
                    (path_components (ev_relative_path (dp_evidence (ps ! 1))))"
proof -
  let ?rs = "[sample_seal 1 [97], sample_seal 2 [97, 47, 98]]"
  have active: "active_permissions ?rs = ?rs"
    by (simp add: active_permissions_def is_active_def reversed_ids_def sample_seal_def List.map_filter_simps)
  have d: "decide_recovery (sample_rt TreeSealed 2) (Inr ?rs)
      (\<lambda>_. Reestablished) = Inr (Some (RestoreBeforeRename sample_id (sort_permissions_deepest_first ?rs)))"
    by (simp add: decide_recovery_def decide_from_records_def sample_rt_def Let_def
        active) (simp add: sample_seal_def)
  have len: "length (sort_permissions_deepest_first ?rs) = 2" by (simp add: sort_permissions_deepest_first_def)
  from recovery_restores_deepest_first [OF d, of sample_id "sort_permissions_deepest_first ?rs" 0 1] d len
  show ?thesis by auto
qed

text \<open>The index over the applied tree seals answers every query exactly as the scan over all
  permissions it replaced: the unique match, and nothing when there is none or more than one.\<close>

theorem seal_index_answers_scan:
  "seal_mode (from_permissions ps) relative_path device inode incarnation pre_mode =
   mode_by_scan ps relative_path device inode incarnation pre_mode"
proof -
  let ?key = "path_components relative_path"
  let ?seals = "case from_permissions ps ?key of None \<Rightarrow> [] | Some seals \<Rightarrow> seals"
  have "seal_mode (from_permissions ps) relative_path device inode incarnation pre_mode =
      unique_match None (map ts_expected_mode (filter (seal_matches device inode incarnation pre_mode) ?seals))"
    by (cases "from_permissions ps ?key") (simp_all add: seal_mode_def)
  also have "map ts_expected_mode (filter (seal_matches device inode incarnation pre_mode) ?seals) =
      map dp_expected_mode (filter (\<lambda>p. seal_matches device inode incarnation pre_mode (tree_seal_of p) \<and>
        is_tree_seal p \<and> path_components (ev_relative_path (dp_evidence p)) = ?key) ps)"
    unfolding from_permissions_eq by (simp add: filter_map comp_def conj_commute tree_seal_of_def)
  also have "\<dots> = map dp_expected_mode (filter (\<lambda>p.
       \<not> (dp_phase p \<noteq> TreeSealIntent \<or> dp_application p \<noteq> Applied \<or> dp_reverses p \<noteq> None \<or>
          \<not> path_eq (ev_relative_path (dp_evidence p)) relative_path \<or>
          ev_device (dp_evidence p) \<noteq> device \<or> ev_inode (dp_evidence p) \<noteq> inode \<or>
          ev_generation_or_btime (dp_evidence p) \<noteq> Some incarnation \<or> dp_pre_mode p \<noteq> pre_mode \<or>
          ev_expected_mode (dp_evidence p) \<noteq> dp_expected_mode p)) ps)"
    by (intro arg_cong [of _ _ "map dp_expected_mode"] filter_cong)
       (auto simp: seal_matches_def tree_seal_of_def is_tree_seal_def path_eq_def)
  finally show ?thesis by (simp only: mode_by_scan_def)
qed

end
