(* ===== verification/Wal_Writer.thy ===== *)
theory Wal_Writer
  imports Wal_Recovery "HOL-Library.AList"
begin

text \<open>
  The writer (\<open>SealWal\<close> of \<open>seal/wal.rs\<close>): an append-only log on one leased file, with the state
  of every transaction resident. Every operation validates, appends one frame, and only then
  updates its maps. The file is part of the state; what the operating system does with one append
  is an argument of the operation. Hash maps are association lists, whose order nothing observes.
\<close>

section \<open>State and errors\<close>

datatype append_error =
  AppendIo io_error
  | Poisoned
  | InvalidState string
  | FrameFailed frame_error
  | TotalSize nat

text \<open>What happens to one frame: written and synced, written in part, or written and not synced.\<close>

datatype append_io = Durable | ShortWrite nat io_error | SyncFailed io_error

record seal_wal =
  wl_writer :: bytes
  wl_poisoned :: bool
  wl_deferring :: bool
  wl_synced_len :: nat
  wl_states :: "(transaction_id \<times> transaction_state) list"
  wl_staging_schema_versions :: "(transaction_id \<times> u16) list"
  wl_ledgers :: "(transaction_id \<times> permission_ledger) list"
  wl_staging :: "(transaction_id \<times> staging_metadata) list"
  wl_manifests :: "(transaction_id \<times> durable_tree_manifest) list"
  wl_sidecars :: "(transaction_id \<times> tree_sidecar_commitment) list"
  wl_rename_outcomes :: "(transaction_id \<times> durable_rename_outcome) list"
  wl_undo_rename_outcomes :: "(transaction_id \<times> durable_undo_rename_outcome) list"
  wl_purge_progress :: "(transaction_id \<times> u64 \<times> path) list"
  wl_transaction_order :: "transaction_id list"
  wl_committed_len :: nat
  wl_max_wal_len :: nat

type_synonym ('e, 'a) wal_op_result = "('e + 'a) \<times> seal_wal"
type_synonym 'a wal_result = "(append_error, 'a) wal_op_result"

definition from_validated :: "bytes \<Rightarrow> nat \<Rightarrow> nat \<Rightarrow> seal_wal" where
  "from_validated writer committed_len max_wal_len =
     \<lparr>wl_writer = writer, wl_poisoned = False, wl_deferring = False, wl_synced_len = committed_len,
      wl_states = [], wl_staging_schema_versions = [], wl_ledgers = [], wl_staging = [],
      wl_manifests = [], wl_sidecars = [], wl_rename_outcomes = [], wl_undo_rename_outcomes = [],
      wl_purge_progress = [], wl_transaction_order = [], wl_committed_len = committed_len,
      wl_max_wal_len = max_wal_len\<rparr>"

section \<open>Appending\<close>

definition append_at ::
  "append_io \<Rightarrow> seal_record \<Rightarrow> bool \<Rightarrow> seal_wal \<Rightarrow> frame_extent wal_result" where
  "append_at io record sync w =
     (if wl_poisoned w then (Inl Poisoned, w)
      else case encode_frame record of
        Inl e \<Rightarrow> (Inl (FrameFailed e), w)
      | Inr frame \<Rightarrow>
          (case usize_checked_add (wl_committed_len w) (length frame) of
             None \<Rightarrow> (Inl (TotalSize (wl_max_wal_len w)), w)
           | Some next_len \<Rightarrow>
               if next_len > wl_max_wal_len w then (Inl (TotalSize (wl_max_wal_len w)), w)
               else case extent_new (wl_committed_len w) (length frame) of
                 None \<Rightarrow> (Inl (TotalSize (wl_max_wal_len w)), w)
               | Some extent \<Rightarrow>
                   (let written = (Inr extent, w\<lparr>wl_writer := wl_writer w @ frame, wl_committed_len := next_len,
                          wl_synced_len := (if sync then next_len else wl_synced_len w)\<rparr>)
                    in case io of
                         Durable \<Rightarrow> written
                       | ShortWrite n e \<Rightarrow>
                           (Inl (AppendIo e), w\<lparr>wl_writer := wl_writer w @ take n frame, wl_poisoned := True\<rparr>)
                       | SyncFailed e \<Rightarrow>
                           if sync
                           then (Inl (AppendIo e), w\<lparr>wl_writer := wl_writer w @ frame, wl_poisoned := True\<rparr>)
                           else written)))"

definition append_synced_at :: "append_io \<Rightarrow> seal_record \<Rightarrow> seal_wal \<Rightarrow> frame_extent wal_result" where
  "append_synced_at io record = append_at io record True"

text \<open>The \<open>?\<close> after an append: the error ends the operation, success updates the maps.\<close>

definition and_update :: "'a wal_result \<Rightarrow> (seal_wal \<Rightarrow> seal_wal) \<Rightarrow> unit wal_result" where
  "and_update m f = (case fst m of Inl e \<Rightarrow> (Inl e, snd m) | Inr _ \<Rightarrow> (Inr (), f (snd m)))"

definition append_synced :: "append_io \<Rightarrow> seal_record \<Rightarrow> seal_wal \<Rightarrow> unit wal_result" where
  "append_synced io record w = and_update (append_synced_at io record w) id"

definition append_deferred :: "append_io \<Rightarrow> seal_record \<Rightarrow> seal_wal \<Rightarrow> unit wal_result" where
  "append_deferred io record w = and_update (append_at io record False w) id"

text \<open>\<open>synced\<close> is the result of the sync. A body that panics is \<open>None\<close>, and so is the whole.\<close>

definition settle :: "io_error + unit \<Rightarrow> seal_wal \<Rightarrow> unit wal_result" where
  "settle synced w =
     (if wl_synced_len w = wl_committed_len w then (Inr (), w)
      else if wl_poisoned w then (Inl Poisoned, w)
      else case synced of
        Inl e \<Rightarrow> (Inl (AppendIo e), w\<lparr>wl_poisoned := True\<rparr>)
      | Inr _ \<Rightarrow> (Inr (), w\<lparr>wl_synced_len := wl_committed_len w\<rparr>))"

definition with_deferred_applied ::
  "io_error + unit \<Rightarrow> (seal_wal \<Rightarrow> ('a \<times> seal_wal) option) \<Rightarrow> seal_wal \<Rightarrow>
   (('a \<times> (append_error + unit)) \<times> seal_wal) option" where
  "with_deferred_applied synced body w =
     (let outer = wl_deferring w
      in Option.bind (body (w\<lparr>wl_deferring := True\<rparr>)) (\<lambda>(result, w1).
           let w2 = w1\<lparr>wl_deferring := outer\<rparr>;
               (settled, w3) = (if outer then (Inr (), w2) else settle synced w2)
           in Some ((result, settled), w3)))"

section \<open>Resuming\<close>

text \<open>\<open>if let Some(value) = value { map.insert(id, value) }\<close>\<close>

definition insert_some :: "'k \<Rightarrow> 'v option \<Rightarrow> ('k \<times> 'v) list \<Rightarrow> ('k \<times> 'v) list" where
  "insert_some k v m = (case v of None \<Rightarrow> m | Some x \<Rightarrow> AList.update k x m)"

definition resume_transaction :: "replay \<Rightarrow> transaction_id \<Rightarrow> seal_wal \<Rightarrow> append_error + seal_wal" where
  "resume_transaction rp tid w =
     (case map_of (rp_transactions rp) tid of
        None \<Rightarrow> Inl (InvalidState ''replay transaction order is inconsistent'')
      | Some tx \<Rightarrow>
          let t = rt_id tx
          in Inr (w\<lparr>wl_transaction_order := wl_transaction_order w @ [t],
               wl_states := AList.update t (rt_state tx) (wl_states w),
               wl_staging_schema_versions :=
                 insert_some t (rt_staging_schema_version tx) (wl_staging_schema_versions w),
               wl_staging := insert_some t (rt_staging tx) (wl_staging w),
               wl_manifests := insert_some t (rt_tree_manifest tx) (wl_manifests w),
               wl_sidecars := insert_some t (rt_tree_sidecar tx) (wl_sidecars w),
               wl_rename_outcomes := insert_some t (rt_rename_outcome tx) (wl_rename_outcomes w),
               wl_undo_rename_outcomes :=
                 insert_some t (rt_undo_rename_outcome tx) (wl_undo_rename_outcomes w),
               wl_purge_progress := (if rt_purge_removed_entries tx \<noteq> 0
                 then AList.update t (rt_purge_removed_entries tx,
                        case rt_purge_last_path tx of None \<Rightarrow> [] | Some p \<Rightarrow> p) (wl_purge_progress w)
                 else wl_purge_progress w),
               wl_ledgers := AList.update t
                 (case map_of (rp_ledgers rp) t of None \<Rightarrow> ledger_default | Some l \<Rightarrow> l) (wl_ledgers w)\<rparr>))"

text \<open>\<open>resume\<close> on a leased file; the limit of a resumed WAL is \<open>MAX_WAL_LEN\<close>.\<close>

definition resume :: "bytes \<Rightarrow> replay \<Rightarrow> append_error + seal_wal" where
  "resume writer rp =
     (if length writer \<noteq> rp_committed_len rp \<or> length writer > MAX_WAL_LEN
      then Inl (InvalidState ''writer length does not match validated replay'')
      else fold_r (resume_transaction rp) (rp_transaction_order rp)
             (from_validated writer (length writer) MAX_WAL_LEN))"

section \<open>Beginning\<close>

definition begin_transaction :: "append_io \<Rightarrow> transaction_id \<Rightarrow> seal_wal \<Rightarrow> unit wal_result" where
  "begin_transaction io t w =
     (if map_of (wl_states w) t \<noteq> None then (Inl (InvalidState ''transaction already exists''), w)
      else and_update (append_synced io (State t Prepared) w) (\<lambda>w.
        w\<lparr>wl_states := AList.update t Prepared (wl_states w),
          wl_transaction_order := wl_transaction_order w @ [t]\<rparr>))"

definition begin_staging ::
  "append_io \<Rightarrow> transaction_id \<Rightarrow> staging_metadata \<Rightarrow> seal_wal \<Rightarrow> unit wal_result" where
  "begin_staging io t metadata w =
     (if map_of (wl_states w) t \<noteq> None then (Inl (InvalidState ''transaction already exists''), w)
      else if \<not> invariants_hold metadata
      then (Inl (InvalidState ''staging metadata invariants are invalid''), w)
      else if sm_production_association metadata \<noteq> None \<and> sm_recovery_anchor metadata = None
      then (Inl (InvalidState ''v11+ production staging metadata requires a recovery anchor''), w)
      else and_update (append_synced io (StagingBegin t metadata) w) (\<lambda>w.
        w\<lparr>wl_states := AList.update t Prepared (wl_states w),
          wl_transaction_order := wl_transaction_order w @ [t],
          wl_staging := AList.update t metadata (wl_staging w),
          wl_staging_schema_versions := AList.update t VERSION (wl_staging_schema_versions w)\<rparr>))"

section \<open>Questions\<close>

definition binds_sidecar :: "seal_wal \<Rightarrow> transaction_id \<Rightarrow> bool" where
  "binds_sidecar w t =
     (case map_of (wl_staging_schema_versions w) t of None \<Rightarrow> False | Some v \<Rightarrow> v \<ge> SIDECAR_VERSION)"

definition streams_v3 :: "seal_wal \<Rightarrow> transaction_id \<Rightarrow> u16 \<Rightarrow> bool" where
  "streams_v3 w t schema_version \<longleftrightarrow> schema_version = CONTENT_PROOF_MANIFEST_VERSION \<and> binds_sidecar w t"

definition purge_removed :: "seal_wal \<Rightarrow> transaction_id \<Rightarrow> u64" where
  "purge_removed w t = (case map_of (wl_purge_progress w) t of None \<Rightarrow> 0 | Some (n, _) \<Rightarrow> n)"

definition recovery_snapshot :: "seal_wal \<Rightarrow> transaction_id \<Rightarrow> replayed_transaction option" where
  "recovery_snapshot w t =
     Option.bind (map_of (wl_states w) t) (\<lambda>state.
       Some \<lparr>rt_id = t, rt_state = state,
         rt_staging_schema_version = map_of (wl_staging_schema_versions w) t,
         rt_permission_workload = (case map_of (wl_ledgers w) t of
           None \<Rightarrow> \<lparr>pw_active_seals = 0, pw_deepest_path_components = 0, pw_longest_path_bytes = 0\<rparr>
         | Some l \<Rightarrow> ledger_workload l),
         rt_staging = map_of (wl_staging w) t, rt_tree_manifest = map_of (wl_manifests w) t,
         rt_tree_sidecar = map_of (wl_sidecars w) t, rt_rename_outcome = map_of (wl_rename_outcomes w) t,
         rt_undo_rename_outcome = map_of (wl_undo_rename_outcomes w) t,
         rt_purge_removed_entries = purge_removed w t,
         rt_purge_last_path = map_option snd (map_of (wl_purge_progress w) t)\<rparr>)"

definition recovery_snapshots :: "seal_wal \<Rightarrow> replayed_transaction list" where
  "recovery_snapshots w = List.map_filter (recovery_snapshot w) (wl_transaction_order w)"

definition read_permission_record :: "seal_wal \<Rightarrow> intent_reader" where
  "read_permission_record w = read_framed_intent (wl_writer w)"

definition next_recovery_mutation_id :: "seal_wal \<Rightarrow> transaction_id \<Rightarrow> u64 option" where
  "next_recovery_mutation_id w t =
     (case Option.bind (map_of (wl_ledgers w) t) lg_highest_mutation_id of
        None \<Rightarrow> Some 0 | Some i \<Rightarrow> checked_add64 i 1)"

definition can_begin_staging_transaction :: "seal_wal \<Rightarrow> bool" where
  "can_begin_staging_transaction w \<longleftrightarrow>
     \<not> wl_poisoned w \<and>
     list_all (\<lambda>(t, state).
       state \<in> {VerifiedCommitted, Purgeable, Purged, Restored, UndoConflict, RolledBack} \<or>
       state = Quarantined \<and>
         (case map_of (wl_ledgers w) t of None \<Rightarrow> True | Some l \<Rightarrow> \<not> retains_active_seals l)) (wl_states w)"

section \<open>Transitions\<close>

definition invalid_op :: "string \<Rightarrow> seal_wal \<Rightarrow> unit wal_result" where
  "invalid_op reason w = (Inl (InvalidState reason), w)"

definition transition_inner ::
  "append_io \<Rightarrow> transaction_id \<Rightarrow> transaction_state \<Rightarrow> seal_wal \<Rightarrow> unit wal_result" where
  "transition_inner io t next_state w =
     (case map_of (wl_states w) t of
        None \<Rightarrow> invalid_op ''transaction has not begun'' w
      | Some current \<Rightarrow>
          let ledger = map_of (wl_ledgers w) t;
              coverage = (case ledger of None \<Rightarrow> coverage_default | Some l \<Rightarrow> lg_coverage l)
          in
          if next_state = RenameIntent
          then invalid_op ''rename intent requires its explicit durable record'' w
          else if next_state = Purgeable
          then invalid_op ''purgeable requires its explicit proof-gated durable record'' w
          else if next_state \<noteq> RecoveryRequired \<and> (case ledger of None \<Rightarrow> False | Some l \<Rightarrow> has_unresolved l)
          then invalid_op ''transaction has an unresolved permission intent'' w
          else if \<not> phase_completion_is_recorded ledger current next_state
          then invalid_op ''seal phase contains a permission intent not durably applied'' w
          else if current = ParentSealIntent \<and> next_state = ParentSealed \<and>
                  \<not> staging_parent_strategy_is_recorded (map_of (wl_staging w) t) ledger
          then invalid_op ''source-parent strategy lacks its required durable proof'' w
          else if next_state = SourceParentRestored \<and> \<not> every_applied_parent_seal_is_restored coverage
          then invalid_op ''source-parent restoration requires applied inverses'' w
          else if (next_state = Restored \<or> next_state = RolledBack) \<and> \<not> every_applied_seal_is_reversed coverage
          then invalid_op ''terminal restore requires an applied inverse for every applied seal'' w
          else if next_state = UndoModesRestored \<and> \<not> every_applied_tree_seal_is_undone coverage
          then invalid_op ''verified undo requires every committed tree seal inverse'' w
          else if current = UndoRenameIntent \<and>
                  \<not> undo_transition_matches (map_of (wl_undo_rename_outcomes w) t) next_state
          then invalid_op ''undo terminal lacks a matching durable rename outcome'' w
          else if current = TreeSealIntent \<and> next_state = TreeSealed \<and>
                  (map_of (wl_manifests w) t = None \<or>
                   (binds_sidecar w t \<and> map_of (wl_sidecars w) t = None))
          then invalid_op ''tree seal completion requires a durable manifest and v12 sidecar binding'' w
          else if current = RenameIntent \<and>
                  \<not> rename_transition_matches (map_of (wl_rename_outcomes w) t) next_state
          then invalid_op ''rename transition lacks a matching durable outcome'' w
          else if \<not> valid_transition current next_state
          then invalid_op ''invalid transaction transition'' w
          else and_update (append_synced io (State t next_state) w)
                 (\<lambda>w. w\<lparr>wl_states := AList.update t next_state (wl_states w)\<rparr>))"

definition transition ::
  "append_io \<Rightarrow> transaction_id \<Rightarrow> transaction_state \<Rightarrow> seal_wal \<Rightarrow> unit wal_result" where
  "transition io t next_state w =
     (if map_of (wl_staging w) t \<noteq> None
      then invalid_op ''staging transitions require the high-level engine'' w
      else transition_inner io t next_state w)"

definition transition_staging ::
  "append_io \<Rightarrow> transaction_id \<Rightarrow> transaction_state \<Rightarrow> seal_wal \<Rightarrow> unit wal_result" where
  "transition_staging io t next_state w =
     (if map_of (wl_staging w) t = None then invalid_op ''transaction is not staged'' w
      else transition_inner io t next_state w)"

definition transition_staging_foundation ::
  "append_io \<Rightarrow> transaction_id \<Rightarrow> transaction_state \<Rightarrow> seal_wal \<Rightarrow> unit wal_result" where
  "transition_staging_foundation io t next_state w =
     (if next_state \<notin> set [ParentSealIntent, ParentSealed, TreeSealIntent, TreeSealed,
           StagedUnverified, RestoreIntent, Restored, Quarantined, RecoveryRequired]
      then invalid_op ''staging state requires an unavailable authority proof'' w
      else transition_staging io t next_state w)"

definition transition_recovery_required ::
  "append_io \<Rightarrow> transaction_id \<Rightarrow> seal_wal \<Rightarrow> unit wal_result" where
  "transition_recovery_required io t w = transition_inner io t RecoveryRequired w"

text \<open>The proof-consuming transitions: the proof names the transaction.\<close>

definition record_staged_sealed :: "append_io \<Rightarrow> transaction_id \<Rightarrow> seal_wal \<Rightarrow> unit wal_result" where
  "record_staged_sealed io t = transition_staging io t StagedSealed"

definition record_source_parent_restore_intent ::
  "append_io \<Rightarrow> transaction_id \<Rightarrow> seal_wal \<Rightarrow> unit wal_result" where
  "record_source_parent_restore_intent io t = transition_staging io t SourceParentRestoreIntent"

definition record_source_parent_restored :: "append_io \<Rightarrow> transaction_id \<Rightarrow> seal_wal \<Rightarrow> unit wal_result" where
  "record_source_parent_restored io t = transition_staging io t SourceParentRestored"

definition record_verified_committed :: "append_io \<Rightarrow> transaction_id \<Rightarrow> seal_wal \<Rightarrow> unit wal_result" where
  "record_verified_committed io t = transition_staging io t VerifiedCommitted"

definition record_verified_undo_intent :: "append_io \<Rightarrow> transaction_id \<Rightarrow> seal_wal \<Rightarrow> unit wal_result" where
  "record_verified_undo_intent io t = transition_staging io t UndoIntent"

definition record_undo_modes_restored :: "append_io \<Rightarrow> transaction_id \<Rightarrow> seal_wal \<Rightarrow> unit wal_result" where
  "record_undo_modes_restored io t = transition_staging io t UndoModesRestored"

definition record_undo_rename_intent :: "append_io \<Rightarrow> transaction_id \<Rightarrow> seal_wal \<Rightarrow> unit wal_result" where
  "record_undo_rename_intent io t = transition_staging io t UndoRenameIntent"

definition record_purged :: "append_io \<Rightarrow> transaction_id \<Rightarrow> seal_wal \<Rightarrow> unit wal_result" where
  "record_purged io t = transition_staging io t Purged"

definition record_undo_terminal ::
  "append_io \<Rightarrow> transaction_id \<Rightarrow> transaction_state \<Rightarrow> seal_wal \<Rightarrow> unit wal_result" where
  "record_undo_terminal io t state w =
     (if state \<noteq> Restored \<and> state \<noteq> UndoConflict then invalid_op ''invalid verified undo terminal'' w
      else transition_staging io t state w)"


section \<open>Purging\<close>

definition record_purgeable ::
  "append_io \<Rightarrow> transaction_id \<Rightarrow> durable_tree_manifest \<Rightarrow> seal_wal \<Rightarrow> unit wal_result" where
  "record_purgeable io t proof_manifest w =
     (if map_of (wl_states w) t \<noteq> Some VerifiedCommitted
      then invalid_op ''purge admission requires VerifiedCommitted'' w
      else case map_of (wl_staging w) t of
        None \<Rightarrow> invalid_op ''purge admission lacks staging metadata'' w
      | Some metadata \<Rightarrow>
          if sm_production_association metadata = None
          then invalid_op ''purge admission requires a production association'' w
          else case map_of (wl_manifests w) t of
            None \<Rightarrow> invalid_op ''purge admission lacks a durable manifest'' w
          | Some manifest \<Rightarrow>
              if \<not> has_content_proof manifest \<or> manifest \<noteq> proof_manifest
              then invalid_op ''purge admission proof differs from the committed content manifest'' w
              else and_update
                (append_synced io (PurgeAuthorized t (purge_commitment_exact metadata manifest)) w)
                (\<lambda>w. w\<lparr>wl_states := AList.update t Purgeable (wl_states w)\<rparr>))"

definition record_purge_intent :: "append_io \<Rightarrow> transaction_id \<Rightarrow> seal_wal \<Rightarrow> unit wal_result" where
  "record_purge_intent io t w =
     (if map_of (wl_states w) t \<noteq> Some Purgeable then invalid_op ''purge claim requires Purgeable'' w
      else case map_of (wl_staging w) t of
        None \<Rightarrow> invalid_op ''purge claim lacks staging metadata'' w
      | Some metadata \<Rightarrow>
          (case map_of (wl_manifests w) t of
             None \<Rightarrow> invalid_op ''purge claim lacks durable manifest'' w
           | Some manifest \<Rightarrow>
               and_update (append_synced io (PurgeClaimed t (purge_commitment_exact metadata manifest)) w)
                 (\<lambda>w. w\<lparr>wl_states := AList.update t PurgeIntent (wl_states w)\<rparr>)))"

definition record_purge_removed ::
  "append_io \<Rightarrow> transaction_id \<Rightarrow> u64 \<Rightarrow> seal_wal \<Rightarrow> unit wal_result" where
  "record_purge_removed io t removed_entries w =
     (if map_of (wl_states w) t \<noteq> Some PurgeIntent
      then invalid_op ''purge progress requires PurgeIntent'' w
      else case map_of (wl_manifests w) t of
        None \<Rightarrow> invalid_op ''purge progress lacks durable manifest'' w
      | Some manifest \<Rightarrow>
          if map_of (wl_purge_progress w) t \<noteq> None \<or> removed_entries \<noteq> tm_entry_count manifest
          then invalid_op ''purge progress is recorded once, for the whole tree'' w
          else and_update (append_synced io (PurgeProgress t removed_entries []) w)
            (\<lambda>w. w\<lparr>wl_purge_progress := AList.update t (removed_entries, []) (wl_purge_progress w)\<rparr>))"

definition record_purge_outcome :: "append_io \<Rightarrow> transaction_id \<Rightarrow> seal_wal \<Rightarrow> unit wal_result" where
  "record_purge_outcome io t w =
     (case map_of (wl_manifests w) t of
        None \<Rightarrow> invalid_op ''purge outcome lacks durable manifest'' w
      | Some manifest \<Rightarrow>
          if purge_removed w t \<noteq> tm_entry_count manifest
          then invalid_op ''purge outcome precedes complete durable progress'' w
          else transition_staging io t PurgeOutcome w)"

section \<open>Renames and the tree manifest\<close>

definition record_undo_rename_outcome ::
  "append_io \<Rightarrow> transaction_id \<Rightarrow> durable_undo_rename_outcome \<Rightarrow> seal_wal \<Rightarrow> unit wal_result" where
  "record_undo_rename_outcome io t outcome w =
     (if map_of (wl_states w) t \<noteq> Some UndoRenameIntent \<or> map_of (wl_undo_rename_outcomes w) t \<noteq> None
      then invalid_op ''undo rename outcome is duplicate or outside undo rename intent'' w
      else case map_of (wl_staging w) t of
        None \<Rightarrow> invalid_op ''undo transaction lacks staging metadata'' w
      | Some metadata \<Rightarrow>
          if undo_outcome_identity outcome \<noteq> sm_root_identity metadata
          then invalid_op ''undo rename outcome identity differs from the bound root'' w
          else and_update (append_synced io (UndoRenameOutcome t outcome) w)
            (\<lambda>w. w\<lparr>wl_undo_rename_outcomes := AList.update t outcome (wl_undo_rename_outcomes w)\<rparr>))"

definition complete_tree_manifest_with_sidecar ::
  "append_io \<Rightarrow> transaction_id \<Rightarrow> durable_tree_manifest \<Rightarrow> tree_sidecar_commitment \<Rightarrow> seal_wal \<Rightarrow>
   unit wal_result" where
  "complete_tree_manifest_with_sidecar io t manifest commitment w =
     (if map_of (wl_states w) t \<noteq> Some TreeSealIntent
      then invalid_op ''tree manifest is outside tree seal intent'' w
      else if \<not> binds_sidecar w t \<or> map_of (wl_staging w) t = None
      then invalid_op ''v12 sidecar completion requires v12 staging metadata'' w
      else if tm_schema_version manifest \<noteq> CONTENT_PROOF_MANIFEST_VERSION
      then invalid_op ''v12 tree manifest lacks the current content-proof schema'' w
      else if sc_transaction commitment \<noteq> t
      then invalid_op ''sidecar commitment belongs to a different transaction'' w
      else if sc_record_count commitment \<noteq> tm_entry_count manifest
      then invalid_op ''sidecar record count differs from the tree manifest'' w
      else case validate_tree_sidecar_commitment commitment of
        Inl reason \<Rightarrow> invalid_op reason w
      | Inr _ \<Rightarrow>
          let ledger = map_of (wl_ledgers w) t
          in if map_of (wl_manifests w) t \<noteq> None \<or> map_of (wl_sidecars w) t \<noteq> None \<or>
                (case ledger of None \<Rightarrow> False | Some l \<Rightarrow> has_unresolved l) \<or>
                (case ledger of None \<Rightarrow> False
                 | Some l \<Rightarrow> \<not> tally_is_complete (ledger_phase l TreeSealIntent))
             then invalid_op ''tree completion is duplicate or permission work is unresolved'' w
             else and_update (append_synced io (TreeManifestSidecarComplete t manifest commitment) w)
               (\<lambda>w. w\<lparr>wl_manifests := AList.update t manifest (wl_manifests w),
                      wl_sidecars := AList.update t commitment (wl_sidecars w)\<rparr>))"

definition record_rename_intent :: "append_io \<Rightarrow> transaction_id \<Rightarrow> seal_wal \<Rightarrow> unit wal_result" where
  "record_rename_intent io t w =
     (if map_of (wl_states w) t \<noteq> Some TreeSealed \<or> map_of (wl_staging w) t = None \<or>
         map_of (wl_manifests w) t = None \<or> (binds_sidecar w t \<and> map_of (wl_sidecars w) t = None)
      then invalid_op ''rename intent requires staging metadata and a complete v12 sidecar-bound tree'' w
      else and_update (append_synced io (RenameIntentRecord t) w)
        (\<lambda>w. w\<lparr>wl_states := AList.update t RenameIntent (wl_states w)\<rparr>))"

definition record_rename_outcome ::
  "append_io \<Rightarrow> transaction_id \<Rightarrow> durable_rename_outcome \<Rightarrow> seal_wal \<Rightarrow> unit wal_result" where
  "record_rename_outcome io t outcome w =
     (if map_of (wl_states w) t \<noteq> Some RenameIntent \<or> map_of (wl_rename_outcomes w) t \<noteq> None
      then invalid_op ''rename outcome is outside a unique rename intent'' w
      else case map_of (wl_staging w) t of
        None \<Rightarrow> invalid_op ''transaction is not staged'' w
      | Some metadata \<Rightarrow>
          if rename_outcome_identity outcome \<noteq> sm_root_identity metadata
          then invalid_op ''rename outcome does not bind the staged root identity'' w
          else and_update (append_synced io (RenameOutcome t outcome) w)
            (\<lambda>w. w\<lparr>wl_rename_outcomes := AList.update t outcome (wl_rename_outcomes w)\<rparr>))"

text \<open>The two proof-consuming writers; the proof carries the identity.\<close>

definition record_applied_synced_rename ::
  "append_io \<Rightarrow> transaction_id \<Rightarrow> strong_object_identity \<Rightarrow> seal_wal \<Rightarrow> unit wal_result" where
  "record_applied_synced_rename io t identity = record_rename_outcome io t (AppliedAndParentsSynced identity)"

definition record_confirmed_not_applied_rename ::
  "append_io \<Rightarrow> transaction_id \<Rightarrow> strong_object_identity \<Rightarrow> seal_wal \<Rightarrow> unit wal_result" where
  "record_confirmed_not_applied_rename io t identity =
     record_rename_outcome io t (ConfirmedNotAppliedAtSource identity)"

section \<open>Permission mutations\<close>

datatype mutation_append_error =
  IntentWal append_error
  | Mutation io_error
  | AppliedWal append_error bool
  | MutationPermissionRecord permission_read_error

datatype resolve_error =
  NotUnresolved
  | WrongPhase
  | Recovery io_error
  | ResolveWal append_error
  | ResolvePermissionRecord permission_read_error

definition wal_ledger :: "seal_wal \<Rightarrow> transaction_id \<Rightarrow> permission_ledger" where
  "wal_ledger w t = (case map_of (wl_ledgers w) t of None \<Rightarrow> ledger_default | Some l \<Rightarrow> l)"

definition refuse_intent :: "string \<Rightarrow> mutation_append_error + 'a" where
  "refuse_intent reason = Inl (IntentWal (InvalidState reason))"

text \<open>The seal an inverse reverses is read back out of its own frame.\<close>

definition check_inverse ::
  "seal_wal \<Rightarrow> transaction_state \<Rightarrow> permission_intent \<Rightarrow> mutation_append_error + unit" where
  "check_inverse w phase i =
     (let t = pi_transaction i
      in case pi_reverses i of
           None \<Rightarrow>
             if phase = ParentSealIntent \<or> phase = TreeSealIntent then Inr ()
             else refuse_intent ''seal and inverse permission intents are inconsistent with their phase''
         | Some original_id \<Rightarrow>
             if phase \<in> set [RestoreIntent, SourceParentRestoreIntent, RollbackIntent, UndoIntent, Quarantined]
             then (case Option.bind (map_of (wl_ledgers w) t) (\<lambda>l. ledger_entry l original_id) of
                     None \<Rightarrow> refuse_intent ''permission inverse references no durable mutation''
                   | Some entry \<Rightarrow>
                       (case read_permission_record w t original_id entry of
                          Inl e \<Rightarrow> Inl (MutationPermissionRecord e)
                        | Inr original \<Rightarrow>
                            if dp_application original \<noteq> Applied \<or>
                               dp_phase original \<notin> set [ParentSealIntent, TreeSealIntent] \<or>
                               (phase = SourceParentRestoreIntent \<and> dp_phase original \<noteq> ParentSealIntent) \<or>
                               (phase = UndoIntent \<and> dp_phase original \<noteq> TreeSealIntent) \<or>
                               \<not> same_recovery_object (dp_evidence original) (pi_evidence i) \<or>
                               (dp_phase original = ParentSealIntent \<and>
                                (case map_of (wl_staging w) t of None \<Rightarrow> False
                                 | Some m \<Rightarrow> \<not> evidence_is_exact_source_parent (pi_evidence i) m)) \<or>
                               pi_pre_mode i \<noteq> dp_expected_mode original \<or>
                               pi_expected_mode i \<noteq> dp_pre_mode original \<or>
                               (case map_of (wl_ledgers w) t of None \<Rightarrow> False
                                | Some l \<Rightarrow> lg_active_inverses l original_id \<noteq> None)
                            then refuse_intent ''permission inverse does not match its applied seal mutation''
                            else Inr ()))
             else refuse_intent ''seal and inverse permission intents are inconsistent with their phase'')"

text \<open>Everything \<open>apply_permission_mutation_inner\<close> refuses before it writes; the result is the phase.\<close>

definition check_intent_append ::
  "seal_wal \<Rightarrow> permission_intent \<Rightarrow> mutation_append_error + transaction_state" where
  "check_intent_append w i =
     (let t = pi_transaction i; ev = pi_evidence i
      in case map_of (wl_states w) t of
           None \<Rightarrow> refuse_intent ''permission mutation is outside an intent phase''
         | Some phase \<Rightarrow>
             if \<not> intent_phase phase
             then refuse_intent ''permission mutation is outside an intent phase''
             else if phase = TreeSealIntent \<and> map_of (wl_manifests w) t \<noteq> None
             then refuse_intent ''tree permission membership is frozen by the manifest''
             else if (case map_of (wl_staging w) t of None \<Rightarrow> False
                      | Some m \<Rightarrow> ev_filesystem_id ev \<noteq> Some (sm_filesystem_id m) \<or>
                          ev_generation_or_btime ev = None)
             then refuse_intent
               ''staging permission evidence lacks the bound filesystem or strong incarnation''
             else if (case map_of (wl_staging w) t of None \<Rightarrow> False
                      | Some m \<Rightarrow> phase = ParentSealIntent \<and>
                          (sm_source_parent_strategy m \<noteq> PermissionSeal \<or>
                           \<not> evidence_is_exact_source_parent ev m))
             then refuse_intent ''parent seal evidence is not the exact metadata-bound source parent''
             else if pi_expected_mode i \<noteq> ev_expected_mode ev \<or> pi_pre_mode i AND NOT 4095 \<noteq> 0 \<or>
                     pi_expected_mode i AND NOT 4095 \<noteq> 0
             then refuse_intent ''permission modes are invalid or inconsistent with recovery evidence''
             else and_then (check_inverse w phase i) (\<lambda>_.
               if (case map_of (wl_ledgers w) t of None \<Rightarrow> False
                   | Some l \<Rightarrow> ledger_entry l (pi_mutation_id i) \<noteq> None)
               then refuse_intent ''duplicate permission mutation id''
               else Inr phase))"

definition ledger_insert :: "transaction_id \<Rightarrow> permission_ledger \<Rightarrow> seal_wal \<Rightarrow> seal_wal" where
  "ledger_insert t l w = w\<lparr>wl_ledgers := AList.update t l (wl_ledgers w)\<rparr>"

text \<open>
  \<open>record_resolution\<close> panics only when the ledger lacks the intent or its original; \<open>None\<close> is that
  panic.
\<close>

definition record_resolved ::
  "transaction_id \<Rightarrow> u64 \<Rightarrow> permission_resolution \<Rightarrow> seal_wal \<Rightarrow> seal_wal option" where
  "record_resolved t mid r w =
     map_option (\<lambda>l. ledger_insert t l w) (record_resolution mid r (wal_ledger w t))"

text \<open>
  \<open>io\<close> is what happens to the intent's frame, \<open>mutate\<close> the result of the closure and \<open>io'\<close> what happens
  to the applied frame.
\<close>

definition apply_permission_mutation_inner ::
  "append_io \<Rightarrow> io_error + unit \<Rightarrow> append_io \<Rightarrow> permission_intent \<Rightarrow> bool \<Rightarrow> seal_wal \<Rightarrow>
   (mutation_append_error, unit) wal_op_result option" where
  "apply_permission_mutation_inner io mutate io' i defer_applied w =
     (case check_intent_append w i of
        Inl e \<Rightarrow> Some (Inl e, w)
      | Inr phase \<Rightarrow>
          (let t = pi_transaction i; mid = pi_mutation_id i
           in case append_synced_at io (intent_record i) w of
                (Inl e, w1) \<Rightarrow> Some (Inl (IntentWal e), w1)
              | (Inr frame, w1) \<Rightarrow>
                  let w2 = ledger_insert t
                        (record_intent \<lparr>dp_mutation_id = mid, dp_phase = phase,
                           dp_evidence = pi_evidence i, dp_pre_mode = pi_pre_mode i,
                           dp_expected_mode = pi_expected_mode i, dp_reverses = pi_reverses i,
                           dp_application = ApplicationUnknown\<rparr> (Some frame) (wal_ledger w1 t)) w1
                  in case mutate of
                       Inl e \<Rightarrow> Some (Inl (Mutation e), w2)
                     | Inr _ \<Rightarrow>
                         (case (if defer_applied \<and> wl_deferring w2
                                then append_deferred io' (PermissionApplied t mid) w2
                                else append_synced io' (PermissionApplied t mid) w2) of
                            (Inl e, w3) \<Rightarrow> Some (Inl (AppliedWal e True), w3)
                          | (Inr _, w3) \<Rightarrow>
                              map_option (Pair (Inr ())) (record_resolved t mid ResolvedApplied w3))))"

definition refuse_mutation ::
  "string \<Rightarrow> seal_wal \<Rightarrow> (mutation_append_error, unit) wal_op_result option" where
  "refuse_mutation reason w = Some (refuse_intent reason, w)"

definition apply_permission_mutation ::
  "append_io \<Rightarrow> io_error + unit \<Rightarrow> append_io \<Rightarrow> permission_intent \<Rightarrow> seal_wal \<Rightarrow>
   (mutation_append_error, unit) wal_op_result option" where
  "apply_permission_mutation io mutate io' i w =
     (if map_of (wl_staging w) (pi_transaction i) \<noteq> None
      then refuse_mutation ''staging permission mutation requires the high-level engine'' w
      else apply_permission_mutation_inner io mutate io' i False w)"

definition apply_staging_permission_mutation ::
  "append_io \<Rightarrow> io_error + unit \<Rightarrow> append_io \<Rightarrow> permission_intent \<Rightarrow> seal_wal \<Rightarrow>
   (mutation_append_error, unit) wal_op_result option" where
  "apply_staging_permission_mutation io mutate io' i w =
     (if map_of (wl_staging w) (pi_transaction i) = None
      then refuse_mutation ''transaction is not staged'' w
      else apply_permission_mutation_inner io mutate io' i False w)"

definition apply_deferred_mutation ::
  "append_io \<Rightarrow> io_error + unit \<Rightarrow> append_io \<Rightarrow> permission_intent \<Rightarrow> seal_wal \<Rightarrow>
   (mutation_append_error, unit) wal_op_result option" where
  "apply_deferred_mutation io mutate io' i w =
     (if map_of (wl_staging w) (pi_transaction i) = None
      then refuse_mutation ''transaction is not staged'' w
      else apply_permission_mutation_inner io mutate io' i True w)"

section \<open>Resolving an intent\<close>

definition resolution_record :: "transaction_id \<Rightarrow> u64 \<Rightarrow> permission_resolution \<Rightarrow> seal_record" where
  "resolution_record t mid r =
     (case r of ResolvedApplied \<Rightarrow> PermissionApplied t mid | ResolvedNotApplied \<Rightarrow> PermissionNotApplied t mid)"

definition resolve_unresolved_permission_inner ::
  "append_io \<Rightarrow> (durable_permission \<Rightarrow> io_error + permission_resolution) \<Rightarrow> transaction_id \<Rightarrow> u64 \<Rightarrow>
   seal_wal \<Rightarrow> (resolve_error, permission_resolution) wal_op_result option" where
  "resolve_unresolved_permission_inner io probe t mid w =
     (case Option.bind (map_of (wl_ledgers w) t) (\<lambda>l. ledger_entry l mid) of
        None \<Rightarrow> Some (Inl NotUnresolved, w)
      | Some entry \<Rightarrow>
          if pe_application entry \<noteq> ApplicationUnknown then Some (Inl NotUnresolved, w)
          else if map_of (wl_states w) t \<noteq> Some (pe_phase entry) then Some (Inl WrongPhase, w)
          else case read_permission_record w t mid entry of
            Inl e \<Rightarrow> Some (Inl (ResolvePermissionRecord e), w)
          | Inr permission \<Rightarrow>
              (case probe permission of
                 Inl e \<Rightarrow> Some (Inl (Recovery e), w)
               | Inr resolution \<Rightarrow>
                   (case append_synced io (resolution_record t mid resolution) w of
                      (Inl e, w1) \<Rightarrow> Some (Inl (ResolveWal e), w1)
                    | (Inr _, w1) \<Rightarrow>
                        map_option (Pair (Inr resolution)) (record_resolved t mid resolution w1))))"

definition resolve_unresolved_permission ::
  "append_io \<Rightarrow> (durable_permission \<Rightarrow> io_error + permission_resolution) \<Rightarrow> transaction_id \<Rightarrow> u64 \<Rightarrow>
   seal_wal \<Rightarrow> (resolve_error, permission_resolution) wal_op_result option" where
  "resolve_unresolved_permission io probe t mid w =
     (if map_of (wl_staging w) t \<noteq> None then Some (Inl WrongPhase, w)
      else resolve_unresolved_permission_inner io probe t mid w)"

definition resolve_staging_permission ::
  "append_io \<Rightarrow> (durable_permission \<Rightarrow> io_error + permission_resolution) \<Rightarrow> transaction_id \<Rightarrow> u64 \<Rightarrow>
   seal_wal \<Rightarrow> (resolve_error, permission_resolution) wal_op_result option" where
  "resolve_staging_permission io probe t mid w =
     (if map_of (wl_staging w) t = None then Some (Inl WrongPhase, w)
      else resolve_unresolved_permission_inner io probe t mid w)"

end
