(* ===== verification/Wal_Typed.thy ===== *)
theory Wal_Typed
  imports Wal_Replay_Index
begin

text \<open>
  What the source's types give of every decoded value, whatever the version of its frame: ids of 16
  bytes, digests of 32, UTF-8 strings and validated locators. Replay keeps it, so the values a
  writer resumes from are well formed without a hypothesis.
\<close>

section \<open>Values a decoder yields\<close>

definition yields :: "'a decoder \<Rightarrow> ('a \<Rightarrow> bool) \<Rightarrow> bool" where
  "yields d P \<longleftrightarrow> (\<forall>c x c'. d c = Inr (x, c') \<longrightarrow> P x)"

lemma yields_any: "yields d (\<lambda>_. True)"
  by (simp add: yields_def)

lemma yields_then: "yields d Q \<Longrightarrow> (\<And>x. Q x \<Longrightarrow> yields (f x) P) \<Longrightarrow> yields (get_then d f) P"
  by (fastforce simp: yields_def get_then_def and_then_Inr_iff)

lemma yields_skip: "(\<And>x. yields (f x) P) \<Longrightarrow> yields (get_then d f) P"
  by (rule yields_then [OF yields_any])

lemma yields_return: "P x \<Longrightarrow> yields (get_return x) P"
  by (simp add: yields_def get_return_def)

lemma yields_fail: "yields (get_fail reason) P"
  by (simp add: yields_def get_fail_def)

lemma yields_if: "(b \<Longrightarrow> yields d P) \<Longrightarrow> (\<not> b \<Longrightarrow> yields e P) \<Longrightarrow> yields (if b then d else e) P"
  by simp

lemma yields_case_option:
  "(m = None \<Longrightarrow> yields d P) \<Longrightarrow> (\<And>x. m = Some x \<Longrightarrow> yields (f x) P) \<Longrightarrow>
   yields (case m of None \<Rightarrow> d | Some x \<Rightarrow> f x) P"
  by (cases m) simp_all

lemma yields_take: "yields (cursor_take n) (\<lambda>bs. length bs = n)"
  by (auto simp: yields_def cursor_take_def usize_checked_add_def split: if_splits)

lemmas yields_ends = yields_if yields_fail yields_case_option yields_return

lemma yields_locator: "yields (decode_locator v) wf_locator"
  unfolding decode_locator_def
  by (intro yields_skip yields_ends) (simp add: wf_locator_def locator_new_Some_iff)

lemma yields_strategy: "yields (decode_strategy v) ok_strategy"
  unfolding decode_strategy_def
  by (intro yields_skip yields_if yields_fail yields_return yields_then [OF yields_locator]) simp_all

lemma yields_association: "yields (decode_association v) ok_association"
  unfolding decode_association_def
  by (intro yields_skip yields_ends)
     (auto simp: ok_association_def production_association_new_def split: if_splits)

lemma yields_metadata: "yields (decode_staging_metadata v) wf_metadata"
proof -
  have ok: "wf_metadata m" if "wf_locator (sm_source_parent m)" "wf_locator (sm_destination_parent m)"
    "ok_strategy (sm_source_parent_strategy m)" "ok_association (sm_production_association m)" for m
    using that by (auto simp: wf_metadata_def ok_association_def split: source_parent_strategy.split option.split)
  show ?thesis
    unfolding decode_staging_metadata_def check_metadata_def
    by (rule yields_then [OF yields_locator], rule yields_skip, rule yields_skip, rule yields_skip,
        rule yields_then [OF yields_locator], rule yields_skip, rule yields_skip, rule yields_skip,
        rule yields_then [OF yields_strategy], rule yields_then [OF yields_association], rule yields_skip,
        intro yields_if yields_fail yields_return, rule ok) simp_all
qed

lemma yields_manifest: "yields (decode_manifest b) wf_manifest"
  unfolding decode_manifest_def cursor_array_32_def
  by (intro yields_skip yields_then [OF yields_take] yields_return) (simp add: wf_manifest_def)

section \<open>Decoded records\<close>

fun typed_record :: "seal_record \<Rightarrow> bool" where
  "typed_record (StagingBegin t m) = (wf_tid t \<and> wf_metadata m)"
| "typed_record (TreeManifestComplete t m) = (wf_tid t \<and> wf_manifest m)"
| "typed_record (TreeManifestSidecarComplete t m c) = (wf_tid t \<and> wf_manifest m)"
| "typed_record r = wf_tid (record_transaction r)"

lemma typed_record_tid: "typed_record r \<Longrightarrow> wf_tid (record_transaction r)"
  by (cases r) simp_all

lemma yields_intent: "wf_tid t \<Longrightarrow> yields (decode_intent v t) typed_record"
  unfolding decode_intent_def check_intent_def
  by (intro yields_skip yields_ends) simp_all

lemma yields_body: "wf_tid t \<Longrightarrow> yields (decode_record_body v tag t) typed_record"
  unfolding decode_record_body_def
  by (intro yields_if yields_fail yields_intent yields_then [OF yields_metadata]
      yields_then [OF yields_manifest] yields_skip yields_return) simp_all

lemma yields_tagged: "yields (decode_tagged v) typed_record"
  unfolding decode_tagged_def cursor_array_16_def
  by (intro yields_skip yields_then [OF yields_take] yields_body) (simp add: wf_tid_def)

lemma decoded_typed: "decode_record p off v = Inr r \<Longrightarrow> typed_record r"
  using yields_tagged [of v] by (auto simp: decode_record_def and_then_Inr_iff yields_def split: if_splits)

lemma scan_typed: "committed_log cfs \<Longrightarrow> vr \<in> set (scan_records off cfs) \<Longrightarrow> typed_record (vr_record vr)"
  by (elim scan_records_split)
     (auto simp: committed_log_def versioned_at_def decodes_def record_of_def intro: decoded_typed)

section \<open>Replayed transactions\<close>

definition typed_building :: "transaction_id \<Rightarrow> replay_building \<Rightarrow> bool" where
  "typed_building t tx \<longleftrightarrow>
     (rb_state tx \<noteq> None \<longrightarrow> wf_tid t) \<and> (\<forall>m. rb_staging tx = Some m \<longrightarrow> wf_metadata m) \<and>
     (\<forall>m. rb_tree_manifest tx = Some m \<longrightarrow> wf_manifest m)"

lemma replay_record_typed:
  assumes "replay_record rd v f r tx = Inr tx'" "typed_building (record_transaction r) tx" "typed_record r"
  shows "typed_building (record_transaction r) tx'"
  using assms by (cases r) (auto simp: replay_iffs typed_building_def)

lemma fold_replay_typed:
  assumes "fold_r (replay_step rd) vrs q = Inr q'" "bt_sorted (rq_transactions q)"
    and "\<And>t. typed_building t (building_of q t)" "\<And>vr. vr \<in> set vrs \<Longrightarrow> typed_record (vr_record vr)"
  shows "typed_building t (building_of q' t)"
  using assms
proof (induction vrs arbitrary: q)
  case (Cons vr vrs)
  let ?t = "record_transaction (vr_record vr)"
  from Cons.prems(1) obtain tx ord where tx:
    "replay_record rd (vr_version vr) (vr_frame vr) (vr_record vr) (building_of q ?t) = Inr tx"
    "fold_r (replay_step rd) vrs \<lparr>rq_transactions = bt_insert ?t tx (rq_transactions q), rq_order = ord\<rparr> = Inr q'"
    using that by (auto simp: and_then_Inr_iff replay_step_def [of rd vr q] Let_def)
  have "typed_building ?t tx"
    using replay_record_typed [OF tx(1)] Cons.prems(3,4) by simp
  then show ?case
    using Cons.IH [OF tx(2)] Cons.prems(2-4) by (simp add: building_of_insert bt_sorted_insert)
qed simp

end
