(* ===== verification/Wal_Agreement.thy ===== *)
theory Wal_Agreement
  imports Wal_Writer Wal_Typed
begin

text \<open>
  The writer and replay agree. The maps a \<open>SealWal\<close> keeps are what replay builds from its file, and
  every frame an operation appends is one replay accepts: the simulation of the writer by replay,
  operation by operation, under any outcome of the file system.
\<close>

section \<open>The writer's view of a transaction\<close>

definition view :: "seal_wal \<Rightarrow> transaction_id \<Rightarrow> replay_building" where
  "view w t = \<lparr>rb_state = map_of (wl_states w) t,
     rb_staging_schema_version = map_of (wl_staging_schema_versions w) t, rb_ledger = wal_ledger w t,
     rb_staging = map_of (wl_staging w) t, rb_tree_manifest = map_of (wl_manifests w) t,
     rb_tree_sidecar = map_of (wl_sidecars w) t, rb_rename_outcome = map_of (wl_rename_outcomes w) t,
     rb_undo_rename_outcome = map_of (wl_undo_rename_outcomes w) t,
     rb_purge_removed_entries = purge_removed w t,
     rb_purge_last_path = map_option snd (map_of (wl_purge_progress w) t)\<rparr>"

lemma view_fields [simp]:
  "rb_state (view w t) = map_of (wl_states w) t"
  "rb_staging_schema_version (view w t) = map_of (wl_staging_schema_versions w) t"
  "rb_ledger (view w t) = wal_ledger w t" "rb_staging (view w t) = map_of (wl_staging w) t"
  "rb_tree_manifest (view w t) = map_of (wl_manifests w) t"
  "rb_tree_sidecar (view w t) = map_of (wl_sidecars w) t"
  "rb_rename_outcome (view w t) = map_of (wl_rename_outcomes w) t"
  "rb_undo_rename_outcome (view w t) = map_of (wl_undo_rename_outcomes w) t"
  "rb_purge_removed_entries (view w t) = purge_removed w t"
  by (simp_all add: view_def)

text \<open>The path of the last purge frame is kept, and read by nothing.\<close>

definition forget :: "replay_building \<Rightarrow> replay_building" where
  "forget tx = tx\<lparr>rb_purge_last_path := None\<rparr>"

lemma forget_eq_iff: "forget a = forget b \<longleftrightarrow> (\<exists>p. b = a\<lparr>rb_purge_last_path := p\<rparr>)"
proof
  assume "forget a = forget b"
  then have "b = a\<lparr>rb_purge_last_path := rb_purge_last_path b\<rparr>"
    unfolding forget_def by (metis replay_building.surjective replay_building.update_convs(10))
  then show "\<exists>p. b = a\<lparr>rb_purge_last_path := p\<rparr>" by blast
qed (auto simp: forget_def)

lemma sidecar_schema_path [simp]:
  "sidecar_schema (a\<lparr>rb_purge_last_path := p\<rparr>) = sidecar_schema a"
  "manifest_unordered (a\<lparr>rb_purge_last_path := p\<rparr>) = manifest_unordered a"
  "state_allowed v (a\<lparr>rb_purge_last_path := p\<rparr>) = state_allowed v a"
  "intent_allowed v mid ev rv phase (a\<lparr>rb_purge_last_path := p\<rparr>) = intent_allowed v mid ev rv phase a"
  by (simp_all add: fun_eq_iff sidecar_schema_def manifest_unordered_def state_allowed_def
      intent_allowed_def exact_v11_parent_def
      cong: option.case_cong)

lemma inv_path [simp]:
  "state_inv (a\<lparr>rb_purge_last_path := p\<rparr>) s = state_inv a s"
  "evidence_inv t (a\<lparr>rb_purge_last_path := p\<rparr>) = evidence_inv t a"
  by (simp_all add: state_inv_def tree_bound_def evidence_inv_def)

lemma replay_record_forget:
  assumes "replay_record rd v f r a = Inr a'" "forget a = forget b"
  shows "\<exists>b'. replay_record rd v f r b = Inr b' \<and> forget b' = forget a'"
proof -
  from assms(2) obtain p where b: "b = a\<lparr>rb_purge_last_path := p\<rparr>" by (auto simp: forget_eq_iff)
  show ?thesis
    using assms(1) by (cases r) (auto simp: b replay_iffs forget_def cong: option.case_cong)
qed


section \<open>Logs that replay\<close>

definition replays :: "checked_frame list \<Rightarrow> replay_progress \<Rightarrow> bool" where
  "replays cfs q \<longleftrightarrow> committed_log cfs \<and> length (log_bytes cfs) \<le> MAX_WAL_LEN \<and>
     fold_r (replay_step (resident (scan_records 0 cfs))) (scan_records 0 cfs) progress_default = Inr q"

lemma replays_inv: "replays cfs q \<Longrightarrow> progress_inv (scan_records 0 cfs) q"
  using fold_replay_inv [OF _ progress_default_inv, of "resident (scan_records 0 cfs)" _ q "[]"]
    resident_serves by (simp add: replays_def)

lemma scan_records_append:
  "scan_records off (cfs @ cfs') = scan_records off cfs @ scan_records (off + length (log_bytes cfs)) cfs'"
  by (induction cfs arbitrary: off) (simp_all add: add.assoc)

lemma replays_snoc:
  assumes "replays cfs q" "decodes cf" "cf_version cf = VERSION"
    and "length (log_bytes (cfs @ [cf])) \<le> MAX_WAL_LEN"
    and "replay_record (read_framed_intent (log_bytes cfs @ tail)) VERSION
      (extent_new (length (log_bytes cfs)) (frame_len_of cf)) (record_of cf)
      (building_of q (record_transaction (record_of cf))) = Inr tx"
  obtains q' where "replays (cfs @ [cf]) q'"
    "\<And>t. building_of q' t = (if t = record_transaction (record_of cf) then tx else building_of q t)"
proof -
  let ?vrs = "scan_records 0 cfs" and ?vr = "versioned_at (length (log_bytes cfs)) cf"
  let ?rd = "resident (scan_records 0 (cfs @ [cf]))"
  have log: "committed_log (cfs @ [cf])"
    using assms(1-3) committed_log_snoc by (simp add: replays_def)
  have vrs: "scan_records 0 (cfs @ [cf]) = ?vrs @ [?vr]" by (simp add: scan_records_append)
  note inv = replays_inv [OF assms(1)]
  have serves: "serves ?rd (?vrs @ [?vr])" "serves (read_framed_intent (log_bytes cfs @ tail)) (?vrs @ [])"
    using resident_serves framed_serves assms(1) vrs by (simp_all add: replays_def)
  have "fold_r (replay_step ?rd) ?vrs progress_default = Inr q"
    using fold_replay_same [OF progress_default_inv, of ?rd ?vrs "[?vr]" "resident ?vrs" "[]"] serves(1)
      resident_serves [of ?vrs] assms(1) by (simp add: replays_def)
  moreover have "replay_record ?rd VERSION (vr_frame ?vr) (record_of cf)
      (building_of q (record_transaction (record_of cf))) = Inr tx"
    using served_same [OF serves, of _ "building_of q (record_transaction (record_of cf))" "record_of cf"]
      inv assms(5) by (simp add: progress_inv_def versioned_at_def)
  then obtain q' where q': "replay_step ?rd ?vr q = Inr q'"
    "rq_transactions q' = bt_insert (record_transaction (record_of cf)) tx (rq_transactions q)"
    by (auto simp: replay_step_def Let_def versioned_at_def assms(3))
  ultimately have "replays (cfs @ [cf]) q'"
    using log assms(4) vrs by (simp add: replays_def fold_r_append)
  moreover have "building_of q' t = (if t = record_transaction (record_of cf) then tx else building_of q t)" for t
    using q'(2) inv by (simp add: building_of_def map_of_bt_insert progress_inv_def)
  ultimately show thesis using that by blast
qed

section \<open>The invariant of a writer\<close>

definition agrees :: "seal_wal \<Rightarrow> replay_progress \<Rightarrow> bool" where
  "agrees w q \<longleftrightarrow> (\<forall>t. forget (building_of q t) = forget (view w t))"

fun is_applied :: "seal_record \<Rightarrow> bool" where
  "is_applied (PermissionApplied _ _) = True"
| "is_applied _ = False"

text \<open>The last sync carried all frames, or all but one that says a mutation was applied.\<close>

definition synced_to :: "checked_frame list \<Rightarrow> nat \<Rightarrow> bool" where
  "synced_to cfs n \<longleftrightarrow>
     n = length (log_bytes cfs) \<or>
     (\<exists>before cf. cfs = before @ [cf] \<and> is_applied (record_of cf) \<and> n = length (log_bytes before))"

text \<open>What the file holds: the log, and after a failed append a part of one more frame.\<close>

definition file_holds :: "seal_wal \<Rightarrow> checked_frame list \<Rightarrow> bool" where
  "file_holds w cfs \<longleftrightarrow>
     wl_writer w = log_bytes cfs \<or>
     wl_poisoned w \<and> (\<exists>cf q n. replays (cfs @ [cf]) q \<and> wl_writer w = log_bytes cfs @ take n (frame_of cf))"

definition wal_log :: "seal_wal \<Rightarrow> checked_frame list \<Rightarrow> replay_progress \<Rightarrow> bool" where
  "wal_log w cfs q \<longleftrightarrow>
     replays cfs q \<and> agrees w q \<and> file_holds w cfs \<and>
     wl_committed_len w = length (log_bytes cfs) \<and> synced_to cfs (wl_synced_len w) \<and>
     wl_max_wal_len w \<le> MAX_WAL_LEN"

definition wal_inv :: "seal_wal \<Rightarrow> bool" where
  "wal_inv w \<longleftrightarrow> (\<exists>cfs q. wal_log w cfs q)"

section \<open>Appending one frame\<close>

lemma file_holds_tail: "file_holds w cfs \<Longrightarrow> \<exists>tail. wl_writer w = log_bytes cfs @ tail"
  by (auto simp: file_holds_def)

text \<open>The maps of two writers are the same.\<close>

definition same_core :: "seal_wal \<Rightarrow> seal_wal \<Rightarrow> bool" where
  "same_core w w' \<longleftrightarrow>
     wl_writer w' = wl_writer w \<and> wl_poisoned w' = wl_poisoned w \<and> wl_synced_len w' = wl_synced_len w \<and>
     wl_committed_len w' = wl_committed_len w \<and> wl_max_wal_len w' = wl_max_wal_len w"

lemma view_core [simp]:
  "view (w\<lparr>wl_writer := b\<rparr>) = view w" "view (w\<lparr>wl_poisoned := p\<rparr>) = view w"
  "view (w\<lparr>wl_committed_len := n\<rparr>) = view w" "view (w\<lparr>wl_synced_len := n\<rparr>) = view w"
  "view (w\<lparr>wl_deferring := d\<rparr>) = view w"
  by (simp_all add: fun_eq_iff view_def wal_ledger_def purge_removed_def)

lemma append_poisoned: "wl_poisoned w \<Longrightarrow> append_at io r sync w = (Inl Poisoned, w)"
  by (simp add: append_at_def)

text \<open>
  The simulation step: if replay accepts the record on the writer's view, then whatever the file
  system does the invariant holds after the append, and after a durable one it holds of every writer
  whose maps are what replay made of the view.
\<close>

lemma append_keeps:
  assumes inv: "wal_inv w" and wf: "wf_record r"
    and acc: "\<And>f. replay_record (read_framed_intent (wl_writer w)) VERSION f r
      (view w (record_transaction r)) = Inr (b f)"
    and sync: "sync \<or> is_applied r \<and> wl_synced_len w = wl_committed_len w"
  shows "\<exists>x w1. append_at io r sync w = (x, w1) \<and> wl_deferring w1 = wl_deferring w \<and>
    view w1 = view w \<and> (sync \<and> isl x = False \<longrightarrow> wl_synced_len w1 = wl_committed_len w1) \<and>
    (case x of Inl _ \<Rightarrow> wal_inv w1
     | Inr ext \<Rightarrow> \<forall>w2. same_core w1 w2 \<and>
         (\<forall>t. forget (view w2 t) = forget (if t = record_transaction r then b (Some ext) else view w t)) \<longrightarrow>
         wal_inv w2)"
proof -
  let ?t = "record_transaction r"
  from inv obtain cfs q where log: "wal_log w cfs q" by (auto simp: wal_inv_def)
  then have rp: "replays cfs q" and ag: "agrees w q" and fl: "file_holds w cfs"
    and len: "wl_committed_len w = length (log_bytes cfs)" and syn: "synced_to cfs (wl_synced_len w)"
    and mx: "wl_max_wal_len w \<le> MAX_WAL_LEN" by (simp_all add: wal_log_def)
  show ?thesis
  proof (cases "wl_poisoned w \<or> (\<forall>f. encode_frame r \<noteq> Inr f \<or>
      (case usize_checked_add (wl_committed_len w) (length f) of None \<Rightarrow> True
       | Some n \<Rightarrow> n > wl_max_wal_len w \<or> extent_new (wl_committed_len w) (length f) = None))")
    case True
    then have "\<exists>e. append_at io r sync w = (Inl e, w)"
      by (cases "encode_frame r") (auto simp: append_at_def split: option.splits)
    then show ?thesis using inv by auto
  next
    case False
    then obtain f n ext where f: "\<not> wl_poisoned w" "encode_frame r = Inr f"
      "usize_checked_add (wl_committed_len w) (length f) = Some n" "n \<le> wl_max_wal_len w"
      "extent_new (wl_committed_len w) (length f) = Some ext"
      by (auto split: option.splits)
    then have n: "n = length (log_bytes cfs) + length f"
      by (auto simp: usize_checked_add_def len split: if_splits)
    from f(2) obtain cf where cf: "f = frame_of cf" "cf_version cf = VERSION"
      "encode_record r = Inr (cf_payload cf)" "valid_frame cf" by (rule encode_frame_cases)
    note dec = encoded_frame_decodes [OF cf(3,2) wf cf(4)]
    have wr: "wl_writer w = log_bytes cfs" using fl f(1) by (simp add: file_holds_def)
    have "forget (view w ?t) = forget (building_of q ?t)" using ag by (simp add: agrees_def)
    from replay_record_forget [OF acc [of "Some ext"] this] obtain tx where tx:
      "replay_record (read_framed_intent (log_bytes cfs)) VERSION (Some ext) r (building_of q ?t) = Inr tx"
      "forget tx = forget (b (Some ext))" by (auto simp: wr)
    obtain q' where q': "replays (cfs @ [cf]) q'"
      "\<And>t. building_of q' t = (if t = ?t then tx else building_of q t)"
      using replays_snoc [OF rp dec(1) cf(2), of "[]" tx] tx(1) f(4,5) n mx cf(1) len dec(2) by auto
    let ?w1 = "w\<lparr>wl_writer := wl_writer w @ f, wl_committed_len := n,
      wl_synced_len := (if sync then n else wl_synced_len w)\<rparr>"
    have torn: "wal_inv (w\<lparr>wl_writer := wl_writer w @ take k f, wl_poisoned := True\<rparr>)" for k
      unfolding wal_inv_def wal_log_def
      using rp ag len syn mx q'(1) cf(1) wr
      by (intro exI [of _ cfs] exI [of _ q]) (auto simp: agrees_def file_holds_def)
    have good: "wal_inv w2" if "same_core ?w1 w2"
      "\<forall>t. forget (view w2 t) = forget (if t = ?t then b (Some ext) else view w t)" for w2
    proof -
      have "synced_to (cfs @ [cf]) (wl_synced_len w2)"
        using that(1) sync n cf(1) len dec(2) syn by (auto simp: same_core_def synced_to_def)
      moreover have "agrees w2 q'"
        using that(2) q'(2) tx(2) ag by (simp add: agrees_def)
      ultimately show ?thesis
        unfolding wal_inv_def wal_log_def using that(1) q'(1) n cf(1) wr mx f(4)
        by (intro exI [of _ "cfs @ [cf]"] exI [of _ q']) (auto simp: same_core_def file_holds_def)
    qed
    have ap: "append_at io r sync w =
      (case io of Durable \<Rightarrow> (Inr ext, ?w1)
       | ShortWrite k e \<Rightarrow> (Inl (AppendIo e), w\<lparr>wl_writer := wl_writer w @ take k f, wl_poisoned := True\<rparr>)
       | SyncFailed e \<Rightarrow> if sync then (Inl (AppendIo e), w\<lparr>wl_writer := wl_writer w @ take (length f) f,
           wl_poisoned := True\<rparr>) else (Inr ext, ?w1))"
      using f by (simp add: append_at_def Let_def not_less split: append_io.split)
    show ?thesis
      using torn torn [of "length f"] good unfolding ap by (cases io) simp_all
  qed
qed


lemma replays_typed:
  assumes "replays cfs q" shows "typed_building t (building_of q t)"
proof (rule fold_replay_typed)
  show "fold_r (replay_step (resident (scan_records 0 cfs))) (scan_records 0 cfs) progress_default = Inr q"
    using assms by (simp add: replays_def)
  show "typed_record (vr_record vr)" if "vr \<in> set (scan_records 0 cfs)" for vr
    using assms that scan_typed [of cfs vr 0] by (simp add: replays_def)
qed (simp_all add: progress_default_def bt_sorted_def building_of_def building_default_def typed_building_def)

text \<open>What replay says of every transaction holds of the writer's maps.\<close>

lemma forget_fields:
  assumes "forget a = forget b"
  shows "rb_state a = rb_state b" "rb_staging a = rb_staging b" "rb_tree_manifest a = rb_tree_manifest b"
    "rb_ledger a = rb_ledger b" "rb_staging_schema_version a = rb_staging_schema_version b"
    "rb_purge_removed_entries a = rb_purge_removed_entries b" "rb_tree_sidecar a = rb_tree_sidecar b"
    "rb_rename_outcome a = rb_rename_outcome b" "rb_undo_rename_outcome a = rb_undo_rename_outcome b"
  using assms by (auto simp: forget_eq_iff)

lemma view_facts:
  assumes "wal_inv w"
  shows "typed_building t (view w t)" "ledger_inv (wal_ledger w t)"
    "reader_ok (read_permission_record w) t (wal_ledger w t)"
    "map_of (wl_states w) t = None \<Longrightarrow> forget (view w t) = building_default"
    "map_of (wl_states w) t = Some s \<Longrightarrow> state_inv (view w t) s \<and> evidence_inv t (view w t)"
proof -
  from assms obtain cfs q where log: "replays cfs q" "agrees w q" "file_holds w cfs"
    by (auto simp: wal_inv_def wal_log_def)
  have same: "forget (building_of q t) = forget (view w t)" using log(2) by (simp add: agrees_def)
  note fields = forget_fields [OF same]
  show "typed_building t (view w t)"
    using replays_typed [OF log(1), of t] fields(1-3) by (simp add: typed_building_def)
  have ledger: "rb_ledger (building_of q t) = wal_ledger w t" using fields(4) by (simp add: view_def)
  have inv: "building_inv t (building_of q t)" using replays_inv [OF log(1)] by (simp add: progress_inv_def)
  then show "ledger_inv (wal_ledger w t)" by (simp add: building_inv_def flip: ledger)
  obtain p where p: "view w t = (building_of q t)\<lparr>rb_purge_last_path := p\<rparr>"
    using same by (auto simp: forget_eq_iff)
  show "forget (view w t) = building_default" if "map_of (wl_states w) t = None"
    using inv that fields(1) same
    by (auto simp: building_inv_def view_def building_default_def forget_def)
  show "state_inv (view w t) s \<and> evidence_inv t (view w t)" if "map_of (wl_states w) t = Some s"
  proof -
    have "rb_state (building_of q t) = Some s" using fields(1) that by (simp add: view_def)
    with inv show ?thesis by (simp add: building_inv_def p)
  qed
  obtain tail where "wl_writer w = log_bytes cfs @ tail" using file_holds_tail [OF log(3)] by blast
  then have "serves (read_framed_intent (wl_writer w)) (scan_records 0 cfs @ [])"
    using framed_serves log(1) by (simp add: replays_def)
  moreover have "indexed (scan_records 0 cfs) t (wal_ledger w t)"
    using replays_inv [OF log(1)] by (simp add: progress_inv_def flip: ledger)
  ultimately show "reader_ok (read_permission_record w) t (wal_ledger w t)"
    using served_reader_ok [of "read_framed_intent (wl_writer w)" "scan_records 0 cfs" "[]"]
    by (simp add: read_permission_record_def [abs_def])
qed

section \<open>Operations that append one frame\<close>

definition keeps :: "seal_wal \<Rightarrow> 'x \<times> seal_wal \<Rightarrow> bool" where
  "keeps w res \<longleftrightarrow> wal_inv (snd res) \<and> wl_deferring (snd res) = wl_deferring w"

lemma keeps_same [simp]: "keeps w (x, w) \<longleftrightarrow> wal_inv w"
  by (simp add: keeps_def)

lemma keeps_invalid [simp]: "keeps w (invalid_op reason w) \<longleftrightarrow> wal_inv w"
  by (simp add: invalid_op_def)

lemma keeps_if: "wal_inv w \<Longrightarrow> (\<not> c \<Longrightarrow> keeps w m) \<Longrightarrow> keeps w (if c then invalid_op reason w else m)"
  by simp

lemma synced_op_keeps:
  assumes "wal_inv w" "wf_record r"
    and "\<And>f. replay_record (read_framed_intent (wl_writer w)) VERSION f r (view w (record_transaction r)) =
      Inr (g (view w (record_transaction r)))"
    and "\<And>w1. same_core w1 (upd w1)" "\<And>w1. wl_deferring (upd w1) = wl_deferring w1"
    and "\<And>w1 t. forget (view (upd w1) t) =
      forget (if t = record_transaction r then g (view w1 (record_transaction r)) else view w1 t)"
  shows "keeps w (and_update (append_synced io r w) upd)"
proof -
  obtain x w1 where x: "append_at io r True w = (x, w1)" "wl_deferring w1 = wl_deferring w"
    "view w1 = view w"
    "case x of Inl _ \<Rightarrow> wal_inv w1
     | Inr ext \<Rightarrow> \<forall>w2. same_core w1 w2 \<and> (\<forall>t. forget (view w2 t) =
         forget (if t = record_transaction r then g (view w (record_transaction r)) else view w t)) \<longrightarrow> wal_inv w2"
    using append_keeps [OF assms(1-3), of True io] by auto
  show ?thesis
  proof (cases x)
    case (Inl e)
    with x show ?thesis by (simp add: keeps_def and_update_def append_synced_def append_synced_at_def)
  next
    case (Inr ext)
    then have "wal_inv (upd w1)" using x(3,4) assms(4,6) by simp
    with Inr x(1,2) assms(5) show ?thesis
      by (simp add: keeps_def and_update_def append_synced_def append_synced_at_def)
  qed
qed

text \<open>What an insertion into each map does to the views.\<close>

lemma view_updates:
  "view (w\<lparr>wl_states := AList.update t s (wl_states w)\<rparr>) = (view w)(t := (view w t)\<lparr>rb_state := Some s\<rparr>)"
  "view (w\<lparr>wl_staging := AList.update t m (wl_staging w)\<rparr>) = (view w)(t := (view w t)\<lparr>rb_staging := Some m\<rparr>)"
  "view (w\<lparr>wl_staging_schema_versions := AList.update t v (wl_staging_schema_versions w)\<rparr>) =
     (view w)(t := (view w t)\<lparr>rb_staging_schema_version := Some v\<rparr>)"
  "view (w\<lparr>wl_manifests := AList.update t mf (wl_manifests w)\<rparr>) =
     (view w)(t := (view w t)\<lparr>rb_tree_manifest := Some mf\<rparr>)"
  "view (w\<lparr>wl_sidecars := AList.update t c (wl_sidecars w)\<rparr>) =
     (view w)(t := (view w t)\<lparr>rb_tree_sidecar := Some c\<rparr>)"
  "view (w\<lparr>wl_rename_outcomes := AList.update t x (wl_rename_outcomes w)\<rparr>) =
     (view w)(t := (view w t)\<lparr>rb_rename_outcome := Some x\<rparr>)"
  "view (w\<lparr>wl_undo_rename_outcomes := AList.update t y (wl_undo_rename_outcomes w)\<rparr>) =
     (view w)(t := (view w t)\<lparr>rb_undo_rename_outcome := Some y\<rparr>)"
  "view (w\<lparr>wl_purge_progress := AList.update t (n, p) (wl_purge_progress w)\<rparr>) =
     (view w)(t := (view w t)\<lparr>rb_purge_removed_entries := n, rb_purge_last_path := Some p\<rparr>)"
  "view (w\<lparr>wl_ledgers := AList.update t l (wl_ledgers w)\<rparr>) = (view w)(t := (view w t)\<lparr>rb_ledger := l\<rparr>)"
  "view (w\<lparr>wl_transaction_order := ts\<rparr>) = view w"
  by (simp_all add: fun_eq_iff view_def wal_ledger_def purge_removed_def AList.update_conv')

lemma begin_keeps: "wal_inv w \<Longrightarrow> wf_tid t \<Longrightarrow> keeps w (begin_transaction io t w)"
  unfolding begin_transaction_def
  by (auto intro!: synced_op_keeps [where g = "\<lambda>tx. tx\<lparr>rb_state := Some Prepared\<rparr>"]
      simp: replay_iffs same_core_def view_def wal_ledger_def purge_removed_def AList.update_conv')

lemma unbegun_unstaged: "wal_inv w \<Longrightarrow> map_of (wl_states w) t = None \<Longrightarrow> map_of (wl_staging w) t = None"
  using forget_fields(2) [of "view w t" building_default] view_facts(4) [of w t]
  by (simp add: view_def building_default_def forget_def)

lemma begin_staging_keeps:
  "wal_inv w \<Longrightarrow> wf_tid t \<Longrightarrow> wf_metadata m \<Longrightarrow> keeps w (begin_staging io t m w)"
  unfolding begin_staging_def
  by (auto dest: unbegun_unstaged intro!: synced_op_keeps [where g = "\<lambda>tx. tx\<lparr>rb_state := Some Prepared, rb_staging := Some m,
        rb_staging_schema_version := Some VERSION\<rparr>"]
      simp: replay_iffs same_core_def view_def wal_ledger_def purge_removed_def AList.update_conv'
        wf_staging_metadata_def)


text \<open>The checks of a transition are the ones replay makes of a state record.\<close>

lemma binds_sidecar_view [simp]: "binds_sidecar w t = sidecar_schema (view w t)"
  by (simp add: binds_sidecar_def sidecar_schema_def view_def)

lemma ledger_default_answers:
  "phase_completion_is_recorded None from to = phase_completion_is_recorded (Some ledger_default) from to"
  "staging_parent_strategy_is_recorded m None = staging_parent_strategy_is_recorded m (Some ledger_default)"
  "\<not> has_unresolved ledger_default" "lg_coverage ledger_default = coverage_default"
  "tally_is_complete (ledger_phase ledger_default p)"
  by (simp_all add: phase_completion_is_recorded_def staging_parent_strategy_is_recorded_def
      has_unresolved_def ledger_default_def ledger_phase_def tally_is_complete_def tally_default_def
      split: option.split source_parent_strategy.split)

lemma wal_ledger_answers:
  "phase_completion_is_recorded (map_of (wl_ledgers w) t) from to =
     phase_completion_is_recorded (Some (wal_ledger w t)) from to"
  "staging_parent_strategy_is_recorded m (map_of (wl_ledgers w) t) =
     staging_parent_strategy_is_recorded m (Some (wal_ledger w t))"
  "(case map_of (wl_ledgers w) t of None \<Rightarrow> False | Some l \<Rightarrow> has_unresolved l) = has_unresolved (wal_ledger w t)"
  "(case map_of (wl_ledgers w) t of None \<Rightarrow> coverage_default | Some l \<Rightarrow> lg_coverage l) =
     lg_coverage (wal_ledger w t)"
  "(case map_of (wl_ledgers w) t of None \<Rightarrow> False | Some l \<Rightarrow> \<not> tally_is_complete (ledger_phase l p)) =
     (\<not> tally_is_complete (ledger_phase (wal_ledger w t) p))"
  "(case map_of (wl_ledgers w) t of None \<Rightarrow> False | Some l \<Rightarrow> ledger_entry l mid \<noteq> None) =
     (ledger_entry (wal_ledger w t) mid \<noteq> None)"
  "Option.bind (map_of (wl_ledgers w) t) (\<lambda>l. ledger_entry l mid) = ledger_entry (wal_ledger w t) mid"
  "(case map_of (wl_ledgers w) t of None \<Rightarrow> False | Some l \<Rightarrow> lg_active_inverses l mid \<noteq> None) =
     (lg_active_inverses (wal_ledger w t) mid \<noteq> None)"
  by (simp_all add: wal_ledger_def ledger_default_answers split: option.split)
     (simp_all add: ledger_default_def ledger_entry_def)

lemma transition_keeps:
  assumes "wal_inv w"
    and "s = PurgeIntent \<Longrightarrow> map_of (wl_states w) t \<noteq> Some Purgeable"
    and "s = PurgeOutcome \<Longrightarrow> (\<exists>m. map_of (wl_manifests w) t = Some m \<and> purge_removed w t = tm_entry_count m) \<or>
      map_of (wl_states w) t \<noteq> Some PurgeIntent"
  shows "keeps w (transition_inner io t s w)"
proof (cases "map_of (wl_states w) t")
  case None
  with assms(1) show ?thesis by (simp add: transition_inner_def)
next
  case (Some current)
  have wf: "wf_record (State t s)"
    using view_facts(1) [OF assms(1), of t] Some by (simp add: typed_building_def view_def)
  have purge: "s = PurgeIntent \<Longrightarrow> \<not> valid_transition current s"
    "s = PurgeOutcome \<Longrightarrow> valid_transition current s \<Longrightarrow>
      purge_removed w t = (case map_of (wl_manifests w) t of None \<Rightarrow> - 1 | Some m \<Rightarrow> tm_entry_count m)"
    using assms(2,3) Some by (auto simp: valid_transition_def)
  show ?thesis
    unfolding transition_inner_def Some option.case Let_def wal_ledger_answers
  proof (intro keeps_if assms(1), rule synced_op_keeps [where g = "\<lambda>tx. tx\<lparr>rb_state := Some s\<rparr>", OF assms(1) wf],
      goal_cases)
    case (1 f)
    have "s \<noteq> PurgeIntent" "s = PurgeOutcome \<longrightarrow>
        purge_removed w t = (case map_of (wl_manifests w) t of None \<Rightarrow> - 1 | Some m \<Rightarrow> tm_entry_count m)"
      using purge 1(12) by auto
    then have "state_allowed VERSION (view w t) current s"
      using 1 by (simp add: state_allowed_def) blast
    then show ?case by (simp add: replay_iffs Some)
  qed (simp_all add: same_core_def view_updates)
qed


lemma transition_op_keeps:
  assumes "wal_inv w"
  shows "keeps w (transition io t s w)"
    "s \<noteq> PurgeIntent \<Longrightarrow> s \<noteq> PurgeOutcome \<Longrightarrow> keeps w (transition_staging io t s w)"
    "keeps w (transition_staging_foundation io t s w)" "keeps w (transition_recovery_required io t w)"
    "keeps w (record_purge_outcome io t w)" "keeps w (record_undo_terminal io t s w)"
proof -
  have unstaged: "map_of (wl_states w) t \<noteq> Some p" if "map_of (wl_staging w) t = None" "purge_state p" for p
    using view_facts(5) [OF assms, of t p] that by (auto simp: state_inv_def)
  show "keeps w (transition io t s w)"
    unfolding transition_def
    by (rule keeps_if [OF assms], rule transition_keeps [OF assms])
       (simp_all add: unstaged purge_state_def)
  show st: "keeps w (transition_staging io t s w)" if "s \<noteq> PurgeIntent" "s \<noteq> PurgeOutcome" for s
    unfolding transition_staging_def
    by (rule keeps_if [OF assms], rule transition_keeps [OF assms]) (use that in simp_all)
  show "keeps w (transition_staging_foundation io t s w)"
    unfolding transition_staging_foundation_def by (rule keeps_if [OF assms], rule st) auto
  show "keeps w (transition_recovery_required io t w)"
    unfolding transition_recovery_required_def by (rule transition_keeps [OF assms]) simp_all
  show "keeps w (record_undo_terminal io t s w)"
    unfolding record_undo_terminal_def by (rule keeps_if [OF assms], rule st) auto
  show "keeps w (record_purge_outcome io t w)"
  proof (cases "map_of (wl_manifests w) t")
    case (Some m)
    show ?thesis
      unfolding record_purge_outcome_def transition_staging_def Some option.case
      by (intro keeps_if assms, rule transition_keeps [OF assms]) (simp_all add: Some)
  qed (simp add: record_purge_outcome_def assms)
qed

lemma record_op_keeps:
  assumes "wal_inv w"
  shows "keeps w (record_staged_sealed io t w)" "keeps w (record_source_parent_restore_intent io t w)"
    "keeps w (record_source_parent_restored io t w)" "keeps w (record_verified_committed io t w)"
    "keeps w (record_verified_undo_intent io t w)" "keeps w (record_undo_modes_restored io t w)"
    "keeps w (record_undo_rename_intent io t w)" "keeps w (record_purged io t w)"
  by (simp_all add: record_staged_sealed_def record_source_parent_restore_intent_def
      record_source_parent_restored_def record_verified_committed_def record_verified_undo_intent_def
      record_undo_modes_restored_def record_undo_rename_intent_def record_purged_def
      transition_op_keeps(2) [OF assms])

lemma begun_tid: "wal_inv w \<Longrightarrow> map_of (wl_states w) t = Some s \<Longrightarrow> wf_tid t"
  using view_facts(1) [of w t] by (simp add: typed_building_def)

lemma purge_op_keeps:
  assumes "wal_inv w"
  shows "keeps w (record_purgeable io t mf w)" "keeps w (record_purge_intent io t w)"
    "keeps w (record_purge_removed io t n w)"
proof -
  have wf: "wf_commitment (purge_commitment_exact m mf)"
    if "map_of (wl_staging w) t = Some m" "map_of (wl_manifests w) t = Some mf" for m mf
    using view_facts(1) [OF assms, of t] that by (auto simp: typed_building_def intro: wf_commitment_exact)
  show "keeps w (record_purgeable io t mf w)"
    unfolding record_purgeable_def
    by (auto intro!: synced_op_keeps [where g = "\<lambda>tx. tx\<lparr>rb_state := Some Purgeable\<rparr>", OF assms]
        simp: assms wf begun_tid [OF assms] replay_iffs same_core_def view_updates split: option.split)
  show "keeps w (record_purge_intent io t w)"
    unfolding record_purge_intent_def
    by (auto intro!: synced_op_keeps [where g = "\<lambda>tx. tx\<lparr>rb_state := Some PurgeIntent\<rparr>", OF assms]
        simp: assms wf begun_tid [OF assms] replay_iffs same_core_def view_updates split: option.split)
  show "keeps w (record_purge_removed io t n w)"
    unfolding record_purge_removed_def
    by (auto intro!: synced_op_keeps [where g = "\<lambda>tx. tx\<lparr>rb_purge_removed_entries := n,
          rb_purge_last_path := Some []\<rparr>", OF assms]
        simp: assms begun_tid [OF assms] replay_iffs same_core_def view_updates VERSION_def
          purge_removed_def
        split: option.split)
qed

lemma rename_op_keeps:
  assumes "wal_inv w"
  shows "keeps w (record_rename_intent io t w)" "keeps w (record_rename_outcome io t x w)"
    "keeps w (record_undo_rename_outcome io t y w)"
proof -
  show "keeps w (record_rename_intent io t w)"
    unfolding record_rename_intent_def
    by (auto intro!: synced_op_keeps [where g = "\<lambda>tx. tx\<lparr>rb_state := Some RenameIntent\<rparr>", OF assms]
        simp: assms begun_tid [OF assms] replay_iffs same_core_def view_updates split: option.split)
  show "keeps w (record_rename_outcome io t x w)"
    unfolding record_rename_outcome_def
    by (auto intro!: synced_op_keeps [where g = "\<lambda>tx. tx\<lparr>rb_rename_outcome := Some x\<rparr>", OF assms]
        simp: assms begun_tid [OF assms] replay_iffs same_core_def view_updates split: option.split)
  show "keeps w (record_undo_rename_outcome io t y w)"
    unfolding record_undo_rename_outcome_def
    by (auto intro!: synced_op_keeps [where g = "\<lambda>tx. tx\<lparr>rb_undo_rename_outcome := Some y\<rparr>", OF assms]
        simp: assms begun_tid [OF assms] replay_iffs same_core_def view_updates split: option.split)
qed


lemma tree_op_keeps:
  assumes "wal_inv w" "wf_manifest mf" "length (sc_root_sha256 c) = 32"
  shows "keeps w (complete_tree_manifest_with_sidecar io t mf c w)"
  unfolding complete_tree_manifest_with_sidecar_def Let_def wal_ledger_answers
  using assms(2,3)
  by (auto intro!: synced_op_keeps [where g = "\<lambda>tx. tx\<lparr>rb_tree_manifest := Some mf,
        rb_tree_sidecar := Some c\<rparr>", OF assms(1)]
      simp: assms(1) begun_tid [OF assms(1)] replay_iffs same_core_def view_def wal_ledger_def
        purge_removed_def AList.update_conv' manifest_unordered_def sidecar_schema_def SIDECAR_VERSION_def
        VERSION_def
      split: sum.split option.split)

section \<open>Permission operations\<close>

text \<open>
  Replay admits evidence with an empty path only for the exact source parent of a staging
  transaction; the writer does not check it, and its callers have to.
\<close>

definition names_object :: "seal_wal \<Rightarrow> permission_intent \<Rightarrow> bool" where
  "names_object w i \<longleftrightarrow> ev_relative_path (pi_evidence i) = [] \<longrightarrow>
     (case map_of (wl_states w) (pi_transaction i) of
        None \<Rightarrow> True
      | Some phase \<Rightarrow>
          exact_v11_parent VERSION phase (pi_evidence i) (pi_reverses i) (view w (pi_transaction i)))"

lemma check_inverse_accepted:
  assumes "wal_inv w" "check_inverse w phase i = Inr ()"
  shows "validate_replayed_inverse (wal_ledger w (pi_transaction i)) (read_framed_intent (wl_writer w))
    (pi_transaction i) (map_of (wl_staging w) (pi_transaction i)) phase (pi_evidence i) (pi_pre_mode i)
    (pi_expected_mode i) (pi_reverses i) = Inr ()"
proof (cases "pi_reverses i")
  case None
  with assms(2) show ?thesis
    by (auto simp: check_inverse_def refuse_intent_def validate_inverse_iff seal_phase_def split: if_splits)
next
  case (Some orig)
  let ?t = "pi_transaction i" and ?l = "wal_ledger w (pi_transaction i)"
  note chk = assms(2) [unfolded check_inverse_def Let_def Some option.case wal_ledger_answers]
  from chk obtain e p where e: "ledger_entry ?l orig = Some e" "read_permission_record w ?t orig e = Inr p"
    "inverse_phase phase" "seal_phase (dp_phase p)"
    by (auto simp: refuse_intent_def inverse_phase_def seal_phase_def split: if_splits option.splits sum.splits)
  note rd = reader_okD [OF view_facts(3) [OF assms(1)] e(1,2)]
  have "entry_linked (ledger_entries ?l) e"
    using view_facts(2) [OF assms(1), of ?t] e(1) by (auto simp: ledger_inv_def links_ok_def ledger_entry_eq)
  then have "dp_reverses p = None"
    using rd e(4) by (auto simp: entry_linked_def dest: seal_not_inverse split: option.splits)
  then have "\<not> inverse_mismatch ?l (map_of (wl_staging w) ?t) phase (pi_evidence i) (pi_pre_mode i)
      (pi_expected_mode i) orig p"
    using chk e by (simp add: refuse_intent_def inverse_mismatch_def split: if_splits)
  then show ?thesis
    using e(1-3) by (auto simp: validate_inverse_iff Some read_permission_record_def)
qed

lemma check_intent_typed:
  assumes "wal_inv w" "check_intent_append w i = Inr phase" "wf_evidence (pi_evidence i)"
  shows "wf_record (intent_record i)" "map_of (wl_states w) (pi_transaction i) = Some phase"
proof -
  let ?t = "pi_transaction i"
  obtain ph where st: "map_of (wl_states w) ?t = Some ph"
    using assms(2) by (cases "map_of (wl_states w) ?t") (auto simp: check_intent_append_def refuse_intent_def)
  note chk = assms(2) [unfolded check_intent_append_def Let_def st option.case wal_ledger_answers]
  show "map_of (wl_states w) ?t = Some phase"
    using chk st by (auto simp: refuse_intent_def and_then_Inr_iff split: if_splits)
  show "wf_record (intent_record i)"
    using chk assms(3) begun_tid [OF assms(1) st]
    by (auto simp: intent_record_def refuse_intent_def split: if_splits)
qed

lemma check_intent_accepted:
  assumes "wal_inv w" "check_intent_append w i = Inr phase" "names_object w i" "wf_evidence (pi_evidence i)"
  shows "replay_record (read_framed_intent (wl_writer w)) VERSION f (intent_record i) (view w (pi_transaction i)) =
       Inr ((view w (pi_transaction i))\<lparr>rb_ledger := record_intent (intent_permission (pi_mutation_id i) phase
         (pi_evidence i) (pi_pre_mode i) (pi_expected_mode i) (pi_reverses i)) f
         (wal_ledger w (pi_transaction i))\<rparr>)"
proof -
  let ?t = "pi_transaction i"
  note st = check_intent_typed(2) [OF assms(1,2,4)]
  note chk = assms(2) [unfolded check_intent_append_def Let_def st option.case wal_ledger_answers]
  have inv: "check_inverse w phase i = Inr ()"
    using chk by (auto simp: refuse_intent_def and_then_Inr_iff split: if_splits)
  have allowed: "intent_allowed VERSION (pi_mutation_id i) (pi_evidence i) (pi_reverses i) phase (view w ?t)"
    using chk assms(3) unfolding intent_allowed_def names_object_def st
    by (auto simp: refuse_intent_def and_then_Inr_iff split: if_splits option.splits)
  with check_inverse_accepted [OF assms(1) inv] show ?thesis
    by (auto simp: intent_record_def replay_iffs st)
qed

lemma resolution_record_simps [simp]:
  "record_transaction (resolution_record t mid r) = t" "wf_record (resolution_record t mid r) = wf_tid t"
  "replay_record rd v f (resolution_record t mid r) tx = resolve_replayed_permission mid r tx"
  by (cases r; simp add: resolution_record_def)+

lemma resolve_append:
  assumes "wal_inv w" "ledger_entry (wal_ledger w t) mid = Some e" "pe_application e = ApplicationUnknown"
    and "map_of (wl_states w) t = Some (pe_phase e)"
    and "sync \<or> r = ResolvedApplied \<and> wl_synced_len w = wl_committed_len w"
  shows "\<exists>x w1. append_at io (resolution_record t mid r) sync w = (x, w1) \<and>
    (case x of Inl _ \<Rightarrow> wal_inv w1 \<and> wl_deferring w1 = wl_deferring w
     | Inr _ \<Rightarrow> \<exists>w2. record_resolved t mid r w1 = Some w2 \<and> wal_inv w2 \<and> wl_deferring w2 = wl_deferring w)"
proof -
  obtain l where l: "record_resolution mid r (wal_ledger w t) = Some l"
    using record_resolution_inv [OF view_facts(2) [OF assms(1)] assms(2,3)] by blast
  have acc: "resolve_replayed_permission mid r (view w t) = Inr ((view w t)\<lparr>rb_ledger := l\<rparr>)"
    using assms(2-4) l by (simp add: replay_iffs)
  have "sync \<or> is_applied (resolution_record t mid r) \<and> wl_synced_len w = wl_committed_len w"
    using assms(5) by (auto simp: resolution_record_def)
  from append_keeps [OF assms(1) _ _ this, of "\<lambda>_. (view w t)\<lparr>rb_ledger := l\<rparr>" io,
      unfolded resolution_record_simps, OF begun_tid [OF assms(1,4)] acc]
  obtain x w1 where x: "append_at io (resolution_record t mid r) sync w = (x, w1)"
    "wl_deferring w1 = wl_deferring w" "view w1 = view w"
    "case x of Inl _ \<Rightarrow> wal_inv w1
     | Inr ext \<Rightarrow> \<forall>w2. same_core w1 w2 \<and> (\<forall>t'. forget (view w2 t') =
         forget (if t' = t then (view w t)\<lparr>rb_ledger := l\<rparr> else view w t')) \<longrightarrow> wal_inv w2"
    by blast
  show ?thesis
  proof (cases x)
    case (Inl e)
    with x show ?thesis by simp
  next
    case (Inr ext)
    have "wal_ledger w1 t = wal_ledger w t" using x(3) view_fields(3) by metis
    moreover have "wal_inv (ledger_insert t l w1)"
      using x(3,4) Inr by (simp add: ledger_insert_def same_core_def view_updates)
    ultimately show ?thesis using x(1,2) Inr l by (simp add: record_resolved_def ledger_insert_def)
  qed
qed

definition op_keeps :: "seal_wal \<Rightarrow> ('x \<times> seal_wal) option \<Rightarrow> bool" where
  "op_keeps w res \<longleftrightarrow> (\<exists>r. res = Some r \<and> keeps w r)"

lemma op_keeps_Some [simp]: "op_keeps w (Some r) \<longleftrightarrow> keeps w r"
  by (simp add: op_keeps_def)

lemma resolve_keeps:
  assumes "wal_inv w"
  shows "op_keeps w (resolve_unresolved_permission_inner io probe t mid w)"
proof -
  have "op_keeps w (case append_synced io (resolution_record t mid res) w of
      (Inl e, w1) \<Rightarrow> Some (Inl (ResolveWal e), w1)
    | (Inr _, w1) \<Rightarrow> map_option (Pair (Inr res)) (record_resolved t mid res w1))"
    if e: "ledger_entry (wal_ledger w t) mid = Some e" "pe_application e = ApplicationUnknown"
      "map_of (wl_states w) t = Some (pe_phase e)" for e res
  proof -
    obtain x w1 where "append_at io (resolution_record t mid res) True w = (x, w1)"
      "case x of Inl _ \<Rightarrow> wal_inv w1 \<and> wl_deferring w1 = wl_deferring w
       | Inr _ \<Rightarrow> \<exists>w2. record_resolved t mid res w1 = Some w2 \<and> wal_inv w2 \<and> wl_deferring w2 = wl_deferring w"
      using resolve_append [OF assms e, of True res io] by blast
    then show ?thesis
      by (cases x) (auto simp: append_synced_def append_synced_at_def and_update_def keeps_def op_keeps_def)
  qed
  then show ?thesis
    by (auto simp: resolve_unresolved_permission_inner_def wal_ledger_answers assms split: option.split sum.split)
qed

lemma mutation_keeps:
  assumes "wal_inv w" "names_object w i" "wf_evidence (pi_evidence i)"
  shows "op_keeps w (apply_permission_mutation_inner io mutate io' i defer_applied w)"
proof (cases "check_intent_append w i")
  case (Inl e)
  with assms(1) show ?thesis by (simp add: apply_permission_mutation_inner_def)
next
  case (Inr phase)
  let ?t = "pi_transaction i" and ?mid = "pi_mutation_id i"
  let ?p = "intent_permission ?mid phase (pi_evidence i) (pi_pre_mode i) (pi_expected_mode i) (pi_reverses i)"
  note typed = check_intent_typed [OF assms(1) Inr assms(3)]
  note acc = check_intent_accepted [OF assms(1) Inr assms(2,3)]
  have tr: "record_transaction (intent_record i) = ?t" by (simp add: intent_record_def)
  from append_keeps [OF assms(1) typed(1), of "\<lambda>f. (view w ?t)\<lparr>rb_ledger := record_intent ?p f (wal_ledger w ?t)\<rparr>"
      True io, unfolded tr simp_thms, OF acc]
  obtain x w1 where x: "append_at io (intent_record i) True w = (x, w1)"
    "wl_deferring w1 = wl_deferring w" "view w1 = view w" "isl x \<or> wl_synced_len w1 = wl_committed_len w1"
    "case x of Inl _ \<Rightarrow> wal_inv w1
     | Inr ext \<Rightarrow> \<forall>w2. same_core w1 w2 \<and> (\<forall>t. forget (view w2 t) = forget (if t = ?t
         then (view w ?t)\<lparr>rb_ledger := record_intent ?p (Some ext) (wal_ledger w ?t)\<rparr> else view w t)) \<longrightarrow> wal_inv w2"
    by blast
  show ?thesis
  proof (cases x)
    case (Inl e)
    with x Inr show ?thesis
      by (simp add: apply_permission_mutation_inner_def append_synced_at_def keeps_def Let_def)
  next
    case ext: (Inr ext)
    have same: "wal_ledger w1 ?t = wal_ledger w ?t" "map_of (wl_states w1) ?t = Some phase"
      using x(3) view_fields(1,3) typed(2) by metis+
    define w2 where "w2 = ledger_insert ?t (record_intent ?p (Some ext) (wal_ledger w1 ?t)) w1"
    have w2: "wal_inv w2" "wl_deferring w2 = wl_deferring w" "wl_synced_len w2 = wl_committed_len w2"
      using x ext same by (simp_all add: w2_def ledger_insert_def same_core_def view_updates)
    have led: "ledger_inv (wal_ledger w1 ?t)" using view_facts(2) [OF assms(1)] same by simp
    have entry: "ledger_entry (wal_ledger w2 ?t) ?mid = Some (new_entry ?p (Some ext))"
      using led by (simp add: w2_def ledger_insert_def wal_ledger_def AList.update_conv' ledger_entry_eq
          ledger_entries_record_intent ledger_inv_def intent_permission_def)
    have state: "map_of (wl_states w2) ?t = Some (pe_phase (new_entry ?p (Some ext)))"
      using same(2) by (simp add: w2_def ledger_insert_def new_entry_def intent_permission_def)
    let ?sync = "\<not> (defer_applied \<and> wl_deferring w2)"
    obtain y w3 where y: "append_at io' (PermissionApplied ?t ?mid) ?sync w2 = (y, w3)"
      "case y of Inl _ \<Rightarrow> wal_inv w3 \<and> wl_deferring w3 = wl_deferring w2
       | Inr _ \<Rightarrow> \<exists>w4. record_resolved ?t ?mid ResolvedApplied w3 = Some w4 \<and> wal_inv w4 \<and>
           wl_deferring w4 = wl_deferring w2"
      using resolve_append [OF w2(1) entry _ state, of ?sync ResolvedApplied io'] w2(3)
      by (auto simp: resolution_record_def new_entry_def)
    have applied: "(if defer_applied \<and> wl_deferring w2 then append_deferred io' (PermissionApplied ?t ?mid) w2
        else append_synced io' (PermissionApplied ?t ?mid) w2) = (map_sum id (\<lambda>_. ()) y, w3)"
      using y(1) by (cases y) (auto simp: append_deferred_def append_synced_def append_synced_at_def and_update_def
          split: if_splits)
    have "apply_permission_mutation_inner io mutate io' i defer_applied w =
      (case mutate of Inl e \<Rightarrow> Some (Inl (Mutation e), w2)
       | Inr _ \<Rightarrow> (case y of Inl e \<Rightarrow> Some (Inl (AppliedWal e True), w3)
           | Inr _ \<Rightarrow> map_option (Pair (Inr ())) (record_resolved ?t ?mid ResolvedApplied w3)))"
      unfolding apply_permission_mutation_inner_def Let_def append_synced_at_def Inr sum.case x(1) ext prod.case
        w2_def [unfolded intent_permission_def, symmetric] applied
      by (cases mutate; cases y) simp_all
    then show ?thesis using y(2) w2(1,2) by (auto simp: keeps_def split: sum.splits)
  qed
qed

end
