(* ===== verification/Wal_Programs.thy ===== *)
theory Wal_Programs
  imports Wal_Agreement
begin

text \<open>
  Sequences of operations on a leased WAL, from its resumption on. A program's operations run under
  any outcome of the file system; the properties say what its file replays to at every point, after a
  failed append and after a power loss included.
\<close>

section \<open>Programs\<close>

text \<open>
  The operations a caller can run on a leased WAL, with what the file system does with each frame.
  \<open>WithDeferred\<close> is \<open>with_deferred_applied\<close> on a body that runs operations.
\<close>

datatype wal_op =
  Begin append_io transaction_id
  | BeginStaging append_io transaction_id staging_metadata
  | Transition append_io transaction_id transaction_state
  | TransitionStagingFoundation append_io transaction_id transaction_state
  | TransitionRecoveryRequired append_io transaction_id
  | RecordStagedSealed append_io transaction_id
  | RecordSourceParentRestoreIntent append_io transaction_id
  | RecordSourceParentRestored append_io transaction_id
  | RecordVerifiedCommitted append_io transaction_id
  | RecordPurgeable append_io transaction_id durable_tree_manifest
  | RecordPurgeIntent append_io transaction_id
  | RecordPurgeRemoved append_io transaction_id u64
  | RecordPurgeOutcome append_io transaction_id
  | RecordPurged append_io transaction_id
  | RecordVerifiedUndoIntent append_io transaction_id
  | RecordUndoModesRestored append_io transaction_id
  | RecordUndoRenameIntent append_io transaction_id
  | RecordUndoRenameOutcome append_io transaction_id durable_undo_rename_outcome
  | RecordUndoTerminal append_io transaction_id transaction_state
  | CompleteTreeManifest append_io transaction_id durable_tree_manifest tree_sidecar_commitment
  | RecordRenameIntent append_io transaction_id
  | RecordAppliedSyncedRename append_io transaction_id strong_object_identity
  | RecordConfirmedNotAppliedRename append_io transaction_id strong_object_identity
  | ApplyPermissionMutation append_io "io_error + unit" append_io permission_intent
  | ApplyStagingPermissionMutation append_io "io_error + unit" append_io permission_intent
  | ApplyDeferredMutation append_io "io_error + unit" append_io permission_intent
  | ResolveUnresolvedPermission append_io "durable_permission \<Rightarrow> io_error + permission_resolution"
      transaction_id u64
  | ResolveStagingPermission append_io "durable_permission \<Rightarrow> io_error + permission_resolution"
      transaction_id u64
  | Settle "io_error + unit"
  | WithDeferred "io_error + unit" "wal_op list"

definition after :: "('x \<times> seal_wal) option \<Rightarrow> seal_wal option" where
  "after res = map_option snd res"

text \<open>The state after an operation, whatever it returned; \<open>None\<close> is a panic.\<close>

fun run_op :: "wal_op \<Rightarrow> seal_wal \<Rightarrow> seal_wal option"
  and run_ops :: "wal_op list \<Rightarrow> seal_wal \<Rightarrow> seal_wal option" where
  "run_op (Begin io t) w = Some (snd (begin_transaction io t w))"
| "run_op (BeginStaging io t m) w = Some (snd (begin_staging io t m w))"
| "run_op (Transition io t s) w = Some (snd (transition io t s w))"
| "run_op (TransitionStagingFoundation io t s) w = Some (snd (transition_staging_foundation io t s w))"
| "run_op (TransitionRecoveryRequired io t) w = Some (snd (transition_recovery_required io t w))"
| "run_op (RecordStagedSealed io t) w = Some (snd (record_staged_sealed io t w))"
| "run_op (RecordSourceParentRestoreIntent io t) w = Some (snd (record_source_parent_restore_intent io t w))"
| "run_op (RecordSourceParentRestored io t) w = Some (snd (record_source_parent_restored io t w))"
| "run_op (RecordVerifiedCommitted io t) w = Some (snd (record_verified_committed io t w))"
| "run_op (RecordPurgeable io t m) w = Some (snd (record_purgeable io t m w))"
| "run_op (RecordPurgeIntent io t) w = Some (snd (record_purge_intent io t w))"
| "run_op (RecordPurgeRemoved io t n) w = Some (snd (record_purge_removed io t n w))"
| "run_op (RecordPurgeOutcome io t) w = Some (snd (record_purge_outcome io t w))"
| "run_op (RecordPurged io t) w = Some (snd (record_purged io t w))"
| "run_op (RecordVerifiedUndoIntent io t) w = Some (snd (record_verified_undo_intent io t w))"
| "run_op (RecordUndoModesRestored io t) w = Some (snd (record_undo_modes_restored io t w))"
| "run_op (RecordUndoRenameIntent io t) w = Some (snd (record_undo_rename_intent io t w))"
| "run_op (RecordUndoRenameOutcome io t x) w = Some (snd (record_undo_rename_outcome io t x w))"
| "run_op (RecordUndoTerminal io t s) w = Some (snd (record_undo_terminal io t s w))"
| "run_op (CompleteTreeManifest io t m c) w = Some (snd (complete_tree_manifest_with_sidecar io t m c w))"
| "run_op (RecordRenameIntent io t) w = Some (snd (record_rename_intent io t w))"
| "run_op (RecordAppliedSyncedRename io t i) w = Some (snd (record_applied_synced_rename io t i w))"
| "run_op (RecordConfirmedNotAppliedRename io t i) w =
     Some (snd (record_confirmed_not_applied_rename io t i w))"
| "run_op (ApplyPermissionMutation io mutate io' i) w = after (apply_permission_mutation io mutate io' i w)"
| "run_op (ApplyStagingPermissionMutation io mutate io' i) w =
     after (apply_staging_permission_mutation io mutate io' i w)"
| "run_op (ApplyDeferredMutation io mutate io' i) w = after (apply_deferred_mutation io mutate io' i w)"
| "run_op (ResolveUnresolvedPermission io probe t mid) w =
     after (resolve_unresolved_permission io probe t mid w)"
| "run_op (ResolveStagingPermission io probe t mid) w = after (resolve_staging_permission io probe t mid w)"
| "run_op (Settle synced) w = Some (snd (settle synced w))"
| "run_op (WithDeferred synced ops) w =
     after (with_deferred_applied synced (\<lambda>w. map_option (Pair ()) (run_ops ops w)) w)"
| "run_ops [] w = Some w"
| "run_ops (op # ops) w = Option.bind (run_op op w) (run_ops ops)"

text \<open>
  What the types of the arguments give, and the one condition the writer leaves to its callers.
\<close>

fun op_ok :: "wal_op \<Rightarrow> seal_wal \<Rightarrow> bool"
  and ops_ok :: "wal_op list \<Rightarrow> seal_wal \<Rightarrow> bool" where
  "op_ok (Begin io t) w = wf_tid t"
| "op_ok (BeginStaging io t m) w = (wf_tid t \<and> wf_metadata m)"
| "op_ok (CompleteTreeManifest io t m c) w = (wf_manifest m \<and> length (sc_root_sha256 c) = 32)"
| "op_ok (ApplyPermissionMutation io mutate io' i) w = (wf_evidence (pi_evidence i) \<and> names_object w i)"
| "op_ok (ApplyStagingPermissionMutation io mutate io' i) w = (wf_evidence (pi_evidence i) \<and> names_object w i)"
| "op_ok (ApplyDeferredMutation io mutate io' i) w = (wf_evidence (pi_evidence i) \<and> names_object w i)"
| "op_ok (WithDeferred synced ops) w = ops_ok ops (w\<lparr>wl_deferring := True\<rparr>)"
| "op_ok _ w = True"
| "ops_ok [] w = True"
| "ops_ok (op # ops) w = (op_ok op w \<and> (case run_op op w of None \<Rightarrow> True | Some w' \<Rightarrow> ops_ok ops w'))"


section \<open>Every operation keeps the invariant\<close>

lemma wal_inv_deferring [simp]: "wal_inv (w\<lparr>wl_deferring := d\<rparr>) = wal_inv w"
  by (simp add: wal_inv_def wal_log_def agrees_def file_holds_def)

lemma settle_keeps: "wal_inv w \<Longrightarrow> keeps w (settle synced w)"
proof -
  assume inv: "wal_inv w"
  then obtain cfs q where log: "wal_log w cfs q" by (auto simp: wal_inv_def)
  have "wal_inv (w\<lparr>wl_poisoned := True\<rparr>)"
    using log unfolding wal_inv_def
    by (intro exI [of _ cfs] exI [of _ q]) (auto simp: wal_log_def agrees_def file_holds_def)
  moreover have "wal_inv (w\<lparr>wl_synced_len := wl_committed_len w\<rparr>)"
    using log unfolding wal_inv_def
    by (intro exI [of _ cfs] exI [of _ q]) (auto simp: wal_log_def agrees_def file_holds_def synced_to_def)
  ultimately show ?thesis using inv by (cases synced) (simp_all add: settle_def keeps_def)
qed

definition stays :: "seal_wal \<Rightarrow> seal_wal option \<Rightarrow> bool" where
  "stays w res \<longleftrightarrow> (\<exists>w'. res = Some w' \<and> wal_inv w' \<and> wl_deferring w' = wl_deferring w)"

lemma stays_keeps: "keeps w r \<Longrightarrow> stays w (Some (snd r))"
  by (simp add: stays_def keeps_def)

lemma stays_same: "wal_inv w \<Longrightarrow> stays w (Some w)"
  by (simp add: stays_def)

lemma stays_after: "op_keeps w res \<Longrightarrow> stays w (after res)"
  by (auto simp: stays_def after_def op_keeps_def keeps_def)

lemma permission_op_keeps:
  assumes "wal_inv w"
  shows "op_keeps w (resolve_unresolved_permission io probe t mid w)"
    "op_keeps w (resolve_staging_permission io probe t mid w)"
    "names_object w i \<Longrightarrow> wf_evidence (pi_evidence i) \<Longrightarrow>
       op_keeps w (apply_permission_mutation io mutate io' i w)"
    "names_object w i \<Longrightarrow> wf_evidence (pi_evidence i) \<Longrightarrow>
       op_keeps w (apply_staging_permission_mutation io mutate io' i w)"
    "names_object w i \<Longrightarrow> wf_evidence (pi_evidence i) \<Longrightarrow>
       op_keeps w (apply_deferred_mutation io mutate io' i w)"
  using resolve_keeps [OF assms] mutation_keeps [OF assms] assms
  by (simp_all add: resolve_unresolved_permission_def resolve_staging_permission_def
      apply_permission_mutation_def apply_staging_permission_mutation_def apply_deferred_mutation_def
      refuse_mutation_def)

lemma deferred_stays:
  assumes "wal_inv w" "stays (w\<lparr>wl_deferring := True\<rparr>) (run_ops ops (w\<lparr>wl_deferring := True\<rparr>))"
  shows "stays w (run_op (WithDeferred synced ops) w)"
proof -
  from assms(2) obtain w1 where w1: "run_ops ops (w\<lparr>wl_deferring := True\<rparr>) = Some w1" "wal_inv w1"
    by (auto simp: stays_def)
  then have "keeps (w1\<lparr>wl_deferring := wl_deferring w\<rparr>) (settle synced (w1\<lparr>wl_deferring := wl_deferring w\<rparr>))"
    by (intro settle_keeps) simp
  with w1 show ?thesis
    by (auto simp: stays_def after_def with_deferred_applied_def Let_def keeps_def split: prod.split)
qed

lemmas op_lemmas = begin_keeps begin_staging_keeps transition_op_keeps(1,3,4,5,6) record_op_keeps
  purge_op_keeps rename_op_keeps tree_op_keeps settle_keeps

lemma run_stays:
  "wal_inv w \<Longrightarrow> op_ok op w \<Longrightarrow> stays w (run_op op w)"
  "wal_inv w \<Longrightarrow> ops_ok ops w \<Longrightarrow> stays w (run_ops ops w)"
proof (induction op w and ops w rule: run_op_run_ops.induct)
  case (30 synced ops w)
  then show ?case using deferred_stays by simp
next
  case (32 op ops w)
  then show ?case by (fastforce simp: stays_def)
qed (simp_all add: stays_keeps stays_after op_lemmas permission_op_keeps record_applied_synced_rename_def
    record_confirmed_not_applied_rename_def stays_same del: run_op.simps(30))


section \<open>Resuming\<close>

text \<open>Every transaction is in the order exactly once.\<close>

definition order_ok :: "replay_progress \<Rightarrow> bool" where
  "order_ok q \<longleftrightarrow> distinct (rq_order q) \<and> set (rq_order q) \<subseteq> fst ` set (rq_transactions q)"

lemma replay_step_order:
  assumes "replay_step rd vr q = Inr q'" "progress_inv vrs q" "order_ok q"
  shows "order_ok q'"
proof -
  let ?t = "record_transaction (vr_record vr)"
  from assms(1) obtain tx where tx:
    "replay_record rd (vr_version vr) (vr_frame vr) (vr_record vr) (building_of q ?t) = Inr tx"
    "q' = \<lparr>rq_transactions = bt_insert ?t tx (rq_transactions q),
       rq_order = (if is_staging_begin (vr_record vr) then rq_order q @ [?t] else rq_order q)\<rparr>"
    by (auto simp: replay_step_def Let_def and_then_Inr_iff)
  have keys: "fst ` set (bt_insert ?t tx (rq_transactions q)) = insert ?t (fst ` set (rq_transactions q))"
    by (rule set_keys_bt_insert)
  have "?t \<notin> set (rq_order q)" if first: "is_staging_begin (vr_record vr)"
  proof -
    have "rb_state (building_of q ?t) = None"
      using tx(1) first by (cases "vr_record vr") (auto simp: replay_iffs)
    then have "map_of (rq_transactions q) ?t = None"
      using progress_inv_states [OF assms(2)]
      by (cases "map_of (rq_transactions q) ?t") (fastforce simp: building_of_def dest: map_of_SomeD)+
    then have "?t \<notin> fst ` set (rq_transactions q)" by (simp add: map_of_eq_None_iff)
    then show ?thesis using assms(3) by (auto simp: order_ok_def)
  qed
  then show ?thesis using assms(3) keys by (auto simp: order_ok_def tx(2))
qed

lemma fold_replay_order:
  assumes "fold_r (replay_step rd) vrs' q = Inr q'" "progress_inv vrs q" "order_ok q"
    and "serves rd (vrs @ vrs')"
  shows "order_ok q'"
  using assms
proof (induction vrs' arbitrary: vrs q)
  case (Cons vr vrs')
  from Cons.prems(1) obtain q1 where q1: "replay_step rd vr q = Inr q1"
    "fold_r (replay_step rd) vrs' q1 = Inr q'" by (auto simp: and_then_Inr_iff)
  show ?case
    using Cons.IH [OF q1(2), of "vrs @ [vr]"] replay_step_inv [OF q1(1) Cons.prems(2)]
      replay_step_order [OF q1(1) Cons.prems(2,3)] Cons.prems(4) by simp
qed simp

lemma replays_order:
  assumes "replays cfs q"
  shows "set (complete_order (rq_order q) (map fst (rq_transactions q))) = fst ` set (rq_transactions q)"
proof -
  have ok: "order_ok q"
    using assms fold_replay_order [OF _ progress_default_inv, of "resident (scan_records 0 cfs)" _ q]
      resident_serves [of "scan_records 0 cfs"]
    by (auto simp: replays_def order_ok_def progress_default_def)
  have dist: "distinct (map fst (rq_transactions q))"
    using replays_inv [OF assms] by (simp add: progress_inv_def bt_sorted_def strict_sorted_iff)
  have fill: "set (fold (\<lambda>t acc. if t \<in> set acc then acc else acc @ [t]) ks acc) = set acc \<union> set ks" for ks acc
    by (induction ks arbitrary: acc) auto
  show ?thesis
  proof (cases "length (rq_order q) = length (rq_transactions q)")
    case True
    then have "card (set (rq_order q)) = card (set (map fst (rq_transactions q)))"
      using ok dist distinct_card by (metis length_map order_ok_def)
    then have "set (rq_order q) = set (map fst (rq_transactions q))"
      using ok by (intro card_subset_eq) (auto simp: order_ok_def)
    with True show ?thesis by (simp add: complete_order_def)
  next
    case False
    with ok show ?thesis by (simp add: complete_order_def fill order_ok_def Un_absorb1)
  qed
qed


text \<open>What \<open>resume\<close> loads for a transaction.\<close>

definition loaded :: "replay_building \<Rightarrow> replay_building" where
  "loaded tx = tx\<lparr>rb_purge_last_path :=
     (if rb_purge_removed_entries tx = 0 then None
      else Some (case rb_purge_last_path tx of None \<Rightarrow> [] | Some p \<Rightarrow> p))\<rparr>"

lemma forget_loaded [simp]: "forget (loaded tx) = forget tx"
  by (simp add: forget_def loaded_def)

lemma view_from_validated: "view (from_validated b n m) t = building_default"
  by (simp add: view_def from_validated_def building_default_def wal_ledger_def purge_removed_def)

lemma insert_some_loads: "map_of m k \<in> {None, v} \<Longrightarrow> map_of (insert_some k v m) = (map_of m)(k := v)"
  by (cases v) (auto simp: insert_some_def AList.update_conv')

lemma resume_transaction_loads:
  assumes "map_of (rq_transactions q) t = Some tx" "rb_state tx \<noteq> None"
    and "rp_transactions rp = map (\<lambda>(t, tx). (t, finished t tx)) (rq_transactions q)"
    and "rp_ledgers rp = map (\<lambda>(t, tx). (t, rb_ledger tx)) (rq_transactions q)"
    and "view w t = building_default \<or> view w t = loaded tx"
  shows "\<exists>w'. resume_transaction rp t w = Inr w' \<and> same_core w w' \<and> wl_deferring w' = wl_deferring w \<and>
    view w' = (view w)(t := loaded tx)"
proof -
  have rt: "map_of (rp_transactions rp) t = Some (finished t tx)"
    using assms(1) by (simp add: assms(3) map_of_map_values)
  have led: "map_of (rp_ledgers rp) t = Some (rb_ledger tx)"
    by (simp add: assms(1,4) map_of_map_values [where f = "\<lambda>_ tx. rb_ledger tx"])
  obtain s where s: "rb_state tx = Some s" using assms(2) by blast
  have maps: "map_of (wl_staging_schema_versions w) t = rb_staging_schema_version (view w t)"
    "map_of (wl_staging w) t = rb_staging (view w t)" "map_of (wl_manifests w) t = rb_tree_manifest (view w t)"
    "map_of (wl_sidecars w) t = rb_tree_sidecar (view w t)"
    "map_of (wl_rename_outcomes w) t = rb_rename_outcome (view w t)"
    "map_of (wl_undo_rename_outcomes w) t = rb_undo_rename_outcome (view w t)"
    "map_of (wl_purge_progress w) t = None \<longleftrightarrow> rb_purge_last_path (view w t) = None"
    by (simp_all add: view_def)
  have old: "map_of (wl_staging_schema_versions w) t \<in> {None, rb_staging_schema_version tx}"
    "map_of (wl_staging w) t \<in> {None, rb_staging tx}" "map_of (wl_manifests w) t \<in> {None, rb_tree_manifest tx}"
    "map_of (wl_sidecars w) t \<in> {None, rb_tree_sidecar tx}"
    "map_of (wl_rename_outcomes w) t \<in> {None, rb_rename_outcome tx}"
    "map_of (wl_undo_rename_outcomes w) t \<in> {None, rb_undo_rename_outcome tx}"
    "rb_purge_removed_entries tx = 0 \<Longrightarrow> map_of (wl_purge_progress w) t = None"
    using assms(5) unfolding maps by (auto simp: building_default_def loaded_def simp del: view_fields)
  show ?thesis
    using rt led s old(7)
    by (auto simp: resume_transaction_def Let_def finished_def same_core_def fun_eq_iff view_def wal_ledger_def
        purge_removed_def AList.update_conv' loaded_def insert_some_loads [OF old(1)] insert_some_loads [OF old(2)]
        insert_some_loads [OF old(3)] insert_some_loads [OF old(4)] insert_some_loads [OF old(5)]
        insert_some_loads [OF old(6)])
qed


lemma resume_loads:
  assumes "replays cfs q"
    and "rp_transactions rp = map (\<lambda>(t, tx). (t, finished t tx)) (rq_transactions q)"
    and "rp_ledgers rp = map (\<lambda>(t, tx). (t, rb_ledger tx)) (rq_transactions q)"
    and "set ts \<subseteq> fst ` set (rq_transactions q)"
    and "\<And>t. view w t = (if t \<in> S then loaded (building_of q t) else building_default)"
  shows "\<exists>w'. fold_r (resume_transaction rp) ts w = Inr w' \<and> same_core w w' \<and>
    wl_deferring w' = wl_deferring w \<and>
    (\<forall>t. view w' t = (if t \<in> S \<union> set ts then loaded (building_of q t) else building_default))"
  using assms(4,5)
proof (induction ts arbitrary: w S)
  case Nil
  then show ?case by (simp add: same_core_def)
next
  case (Cons t ts)
  have "map_of (rq_transactions q) t \<noteq> None" using Cons.prems(1) by (simp add: map_of_eq_None_iff)
  then obtain tx where tx: "map_of (rq_transactions q) t = Some tx" by blast
  then have bt: "building_of q t = tx" by (simp add: building_of_def)
  have "rb_state tx \<noteq> None" using replays_inv [OF assms(1)] tx by (simp add: progress_inv_def)
  moreover have "view w t = building_default \<or> view w t = loaded tx" using Cons.prems(2) [of t] bt by simp
  ultimately obtain w1 where w1: "resume_transaction rp t w = Inr w1" "same_core w w1"
    "wl_deferring w1 = wl_deferring w" "view w1 = (view w)(t := loaded tx)"
    using resume_transaction_loads [OF tx _ assms(2,3)] by blast
  have "view w1 t' = (if t' \<in> insert t S then loaded (building_of q t') else building_default)" for t'
    using w1(4) Cons.prems(2) bt by simp
  from Cons.IH [OF _ this] Cons.prems(1) obtain w' where
    "fold_r (resume_transaction rp) ts w1 = Inr w'" "same_core w1 w'" "wl_deferring w' = wl_deferring w1"
    "\<forall>t'. view w' t' = (if t' \<in> insert t S \<union> set ts then loaded (building_of q t') else building_default)"
    by auto
  with w1 show ?case by (auto simp: same_core_def)
qed

text \<open>Resuming on the file a replay accepted succeeds and loads every transaction as replay built it.\<close>

lemma resume_inv:
  assumes "replay_and_repair set_len bytes = Inr (rp, fl)" and "\<And>n b. set_len n b = Inr (take n b)"
  obtains w cfs q where "resume fl rp = Inr w" "wal_log w cfs q" "wl_writer w = fl" "\<not> wl_poisoned w"
    "\<not> wl_deferring w" "wl_synced_len w = length fl" "rp_transactions rp = rp_transactions (replay_of q)"
    "rp_ledgers rp = rp_ledgers (replay_of q)"
proof -
  from replay_and_repair_cases [OF assms(1)] obtain cfs tail q where log:
    "bytes = log_bytes cfs @ tail" "committed_log cfs" "length bytes \<le> MAX_WAL_LEN"
    "fold_r (replay_step (resident (scan_records 0 cfs))) (scan_records 0 cfs) progress_default = Inr q"
    "rp = (replay_of q)\<lparr>rp_frame_bytes := frame_bytes (scan_spans 0 cfs),
       rp_tail_repair := (if tail = [] then None else Some (length tail)),
       rp_committed_len := length (log_bytes cfs)\<rparr>"
    "if tail = [] then fl = bytes else set_len (length (log_bytes cfs)) bytes = Inr fl"
    by metis
  have rp: "replays cfs q" using log(1-4) by (simp add: replays_def)
  have fl: "fl = log_bytes cfs" using log(1,6) assms(2) by (auto split: if_splits)
  let ?w0 = "from_validated fl (length fl) MAX_WAL_LEN"
  let ?ts = "rp_transaction_order rp"
  have ts: "set ?ts = fst ` set (rq_transactions q)"
    using replays_order [OF rp] by (simp add: log(5) replay_of_def)
  obtain w where w: "fold_r (resume_transaction rp) ?ts ?w0 = Inr w" "same_core ?w0 w"
    "wl_deferring w = wl_deferring ?w0"
    "\<forall>t. view w t = (if t \<in> {} \<union> set ?ts then loaded (building_of q t) else building_default)"
    using resume_loads [OF rp, of rp ?ts ?w0 "{}"] ts
    by (auto simp: log(5) replay_of_def view_from_validated)
  have "forget (building_of q t) = forget (view w t)" for t
  proof (cases "t \<in> fst ` set (rq_transactions q)")
    case False
    then have "building_of q t = building_default" by (simp add: building_of_def flip: map_of_eq_None_iff)
    with False show ?thesis using w(4) ts by simp
  qed (use w(4) ts in simp)
  then have "wal_log w cfs q"
    using w(2) rp fl by (simp add: wal_log_def agrees_def same_core_def from_validated_def file_holds_def synced_to_def)
  moreover have "resume fl rp = Inr w"
    using w(1) fl log(1,3) by (simp add: resume_def log(5))
  ultimately show thesis
    using that [of w cfs q] w(2,3) by (simp add: same_core_def from_validated_def log(5) fl)
qed


section \<open>Snapshots and cuts\<close>

definition without_purge_path :: "replayed_transaction \<Rightarrow> replayed_transaction" where
  "without_purge_path rt = rt\<lparr>rt_purge_last_path := None\<rparr>"

text \<open>All but what the permission records say.\<close>

definition durable_part :: "replayed_transaction \<Rightarrow> replayed_transaction" where
  "durable_part rt = rt\<lparr>rt_purge_last_path := None,
     rt_permission_workload := \<lparr>pw_active_seals = 0, pw_deepest_path_components = 0, pw_longest_path_bytes = 0\<rparr>\<rparr>"

lemma transactions_of:
  assumes "replays cfs q"
  shows "map_of (rp_transactions (replay_of q)) t =
    (if rb_state (building_of q t) = None then None else Some (finished t (building_of q t)))"
proof (cases "map_of (rq_transactions q) t")
  case None
  then show ?thesis
    by (simp add: replay_of_def map_of_map_values building_of_def building_default_def)
next
  case (Some tx)
  moreover have "rb_state tx \<noteq> None" using replays_inv [OF assms] Some by (simp add: progress_inv_def)
  ultimately show ?thesis by (simp add: replay_of_def map_of_map_values building_of_def)
qed

lemma ledgers_of:
  "(case map_of (rp_ledgers (replay_of q)) t of None \<Rightarrow> ledger_default | Some l \<Rightarrow> l) = rb_ledger (building_of q t)"
  by (simp add: replay_of_def map_of_map_values [where f = "\<lambda>_ tx. rb_ledger tx"] building_of_def
      building_default_def split: option.split)

lemma snapshot_view:
  "recovery_snapshot w t = (if map_of (wl_states w) t = None then None else Some (finished t (view w t)))"
proof -
  have "ledger_workload ledger_default =
      \<lparr>pw_active_seals = 0, pw_deepest_path_components = 0, pw_longest_path_bytes = 0\<rparr>"
    by (simp add: ledger_workload_def ledger_default_def active_seals_def coverage_default_def)
  then show ?thesis
    by (auto simp: recovery_snapshot_def finished_def view_def wal_ledger_def split: option.split)
qed

lemma finished_forget: "forget a = forget b \<Longrightarrow> without_purge_path (finished t a) = without_purge_path (finished t b)"
  by (auto simp: forget_eq_iff without_purge_path_def finished_def)

lemma snapshot_agrees:
  assumes "replays cfs q" "agrees w q"
  shows "map_option without_purge_path (recovery_snapshot w t) =
    map_option without_purge_path (map_of (rp_transactions (replay_of q)) t)"
    "wal_ledger w t = (case map_of (rp_ledgers (replay_of q)) t of None \<Rightarrow> ledger_default | Some l \<Rightarrow> l)"
proof -
  have same: "forget (building_of q t) = forget (view w t)" using assms(2) by (simp add: agrees_def)
  note fields = forget_fields [OF same]
  show "map_option without_purge_path (recovery_snapshot w t) =
      map_option without_purge_path (map_of (rp_transactions (replay_of q)) t)"
    using fields(1) finished_forget [OF same, of t] by (simp add: snapshot_view transactions_of [OF assms(1)])
  show "wal_ledger w t = (case map_of (rp_ledgers (replay_of q)) t of None \<Rightarrow> ledger_default | Some l \<Rightarrow> l)"
    using fields(4) by (simp add: ledgers_of)
qed

text \<open>A log that replays is accepted, whole and cut at any byte.\<close>

lemma replays_cut:
  assumes "replays cfs q" "\<And>n b. set_len n b = Inr (take n b)"
  obtains k q' rp where "replays (take k cfs) q'"
    "replay_and_repair set_len (take n (log_bytes cfs)) = Inr (rp, log_bytes (take k cfs))"
    "rp_transactions rp = rp_transactions (replay_of q')" "rp_ledgers rp = rp_ledgers (replay_of q')"
    "k < length cfs \<longrightarrow> n < length (log_bytes (take (Suc k) cfs))"
    "n \<ge> length (log_bytes cfs) \<longrightarrow> rp_tail_repair rp = None"
proof -
  have log: "committed_log cfs" "length (log_bytes cfs) \<le> MAX_WAL_LEN" using assms(1) by (simp_all add: replays_def)
  have "torn check_frame []" by (simp add: torn_iff check_frame_def HEADER_LEN_def)
  from cut_log [OF log(1) this, of n, unfolded append_Nil2] obtain k tail where cut:
    "take n (log_bytes cfs) = log_bytes (take k cfs) @ tail" "torn check_frame tail"
    "k < length cfs \<longrightarrow> n < length (log_bytes (take (Suc k) cfs))" by blast
  have len: "length (log_bytes (take k cfs) @ tail) \<le> MAX_WAL_LEN"
    using log(2) by (simp flip: cut(1))
  let ?vrs = "scan_records 0 cfs"
  obtain q' where q': "fold_r (replay_step (resident ?vrs)) (take k ?vrs) progress_default = Inr q'"
    using assms(1) fold_r_take [of "replay_step (resident ?vrs)" ?vrs progress_default q k]
    unfolding replays_def by blast
  have "serves (resident ?vrs) (take k ?vrs @ drop k ?vrs)" "serves (resident (take k ?vrs)) (take k ?vrs @ [])"
    using resident_serves by simp_all
  then have "fold_r (replay_step (resident (take k ?vrs))) (take k ?vrs) progress_default = Inr q'"
    using fold_replay_same [OF progress_default_inv, of "resident (take k ?vrs)" "take k ?vrs" "[]"
        "resident ?vrs" "drop k ?vrs"] q' by simp
  then have rp: "replays (take k cfs) q'"
    using log len by (simp add: replays_def committed_log_take scan_records_take)
  have "replay_records (scan_records 0 (take k cfs)) (log_bytes (take k cfs) @ tail) = Inr (replay_of q')"
    using replay_records_resident [of "take k cfs" tail] rp by (simp add: replays_def replay_with_def)
  from replay_and_repair_log [OF committed_log_take [OF log(1)] cut(2) len this assms(2)]
  have "replay_and_repair set_len (take n (log_bytes cfs)) =
    Inr ((replay_of q')\<lparr>rp_frame_bytes := frame_bytes (scan_spans 0 (take k cfs)),
       rp_tail_repair := (if tail = [] then None else Some (length tail)),
       rp_committed_len := length (log_bytes (take k cfs))\<rparr>, log_bytes (take k cfs))" by (simp add: cut(1))
  moreover have "n \<ge> length (log_bytes cfs) \<longrightarrow> tail = []"
  proof
    assume n: "n \<ge> length (log_bytes cfs)"
    then have "length cfs \<le> k"
      using cut(3) log_bytes_simps(3) [of "take (Suc k) cfs" "drop (Suc k) cfs"]
      by (metis append_take_drop_id le_add1 length_append not_le order.trans)
    with cut(1) n show "tail = []" by simp
  qed
  ultimately show thesis using that [OF rp] cut(3) by (auto simp: replay_of_def)
qed


text \<open>The file of a writer is a cut of a log that replays.\<close>

lemma file_is_cut:
  assumes "wal_log w cfs q"
  obtains more q' m where "replays (cfs @ more) q'" "wl_writer w = take m (log_bytes (cfs @ more))"
    "\<not> wl_poisoned w \<Longrightarrow> more = [] \<and> q' = q \<and> m = length (log_bytes cfs)"
proof (cases "wl_writer w = log_bytes cfs")
  case True
  then show thesis using that [of "[]" q "length (log_bytes cfs)"] assms by (simp add: wal_log_def)
next
  case False
  then obtain cf q' n where "wl_poisoned w" "replays (cfs @ [cf]) q'" "wl_writer w = log_bytes cfs @ take n (frame_of cf)"
    using assms by (auto simp: wal_log_def file_holds_def)
  then show thesis using that [of "[cf]" q' "length (log_bytes cfs) + n"] by simp
qed

lemma writer_cut_replays:
  assumes "wal_log w cfs q" "\<And>n b. set_len n b = Inr (take n b)"
  shows "\<exists>rp fl. replay_and_repair set_len (take n (wl_writer w)) = Inr (rp, fl)"
proof -
  from file_is_cut [OF assms(1)] obtain more q' m where
    "replays (cfs @ more) q'" "wl_writer w = take m (log_bytes (cfs @ more))" by metis
  then show ?thesis
    using replays_cut [of "cfs @ more" q' set_len "min n m"] assms(2) by (metis take_take)
qed

lemma replays_last:
  assumes "replays (before @ [cf]) q" "replays before q0"
  obtains rd f tx where
    "replay_record rd (cf_version cf) f (record_of cf) (building_of q0 (record_transaction (record_of cf))) = Inr tx"
    "\<And>t. building_of q t = (if t = record_transaction (record_of cf) then tx else building_of q0 t)"
proof -
  let ?vrs = "scan_records 0 before" and ?vr = "versioned_at (length (log_bytes before)) cf"
  have vrs: "scan_records 0 (before @ [cf]) = ?vrs @ [?vr]" by (simp add: scan_records_append)
  have serve: "serves (resident (?vrs @ [?vr])) (?vrs @ [?vr])" "serves (resident ?vrs) (?vrs @ [])"
    using resident_serves by simp_all
  have "fold_r (replay_step (resident (?vrs @ [?vr]))) ?vrs progress_default = Inr q0"
    using fold_replay_same [OF progress_default_inv, of "resident (?vrs @ [?vr])" ?vrs "[?vr]" "resident ?vrs" "[]"]
      serve assms(2) by (simp add: replays_def)
  then have "replay_step (resident (?vrs @ [?vr])) ?vr q0 = Inr q"
    using assms(1) by (auto simp: replays_def vrs fold_r_append and_then_Inr_iff)
  then obtain tx where tx: "replay_record (resident (?vrs @ [?vr])) (cf_version cf) (vr_frame ?vr) (record_of cf)
      (building_of q0 (record_transaction (record_of cf))) = Inr tx"
    "rq_transactions q = bt_insert (record_transaction (record_of cf)) tx (rq_transactions q0)"
    by (auto simp: replay_step_def Let_def and_then_Inr_iff versioned_at_def)
  then have "building_of q t = (if t = record_transaction (record_of cf) then tx else building_of q0 t)" for t
    using replays_inv [OF assms(2)] by (simp add: building_of_def map_of_bt_insert progress_inv_def)
  with tx(1) show thesis using that by blast
qed

text \<open>Dropping the one frame a sync has not carried changes only permission records.\<close>

lemma replays_prefix_applied:
  assumes "replays (before @ [cf]) q" "replays before q0" "is_applied (record_of cf)"
  shows "map_option durable_part (map_of (rp_transactions (replay_of q0)) t) =
    map_option durable_part (map_of (rp_transactions (replay_of q)) t)"
proof -
  from replays_last [OF assms(1,2)] obtain rd f tx where tx:
    "replay_record rd (cf_version cf) f (record_of cf) (building_of q0 (record_transaction (record_of cf))) = Inr tx"
    "building_of q t = (if t = record_transaction (record_of cf) then tx else building_of q0 t)" by metis
  have "\<exists>l. tx = (building_of q0 (record_transaction (record_of cf)))\<lparr>rb_ledger := l\<rparr>"
    using tx(1) assms(3) by (cases "record_of cf") (auto simp: replay_iffs)
  with tx(2) obtain l where "building_of q t = (building_of q0 t)\<lparr>rb_ledger := l\<rparr>"
    by (metis replay_building.surjective replay_building.update_convs(3))
  then show ?thesis
    by (simp add: transactions_of [OF assms(1)] transactions_of [OF assms(2)] finished_def durable_part_def)
qed

section \<open>Poisoned writers\<close>

lemma poisoned_append [simp]:
  assumes "wl_poisoned w"
  shows "append_synced io r w = (Inl Poisoned, w)" "append_synced_at io r w = (Inl Poisoned, w)"
    "append_deferred io r w = (Inl Poisoned, w)"
  using assms
  by (simp_all add: append_synced_def append_synced_at_def append_deferred_def append_poisoned and_update_def)

text \<open>An operation that leaves the writer as it was.\<close>

definition frozen :: "seal_wal \<Rightarrow> 'x \<times> seal_wal \<Rightarrow> bool" where
  "frozen w res \<longleftrightarrow> snd res = w"

lemma frozen_invalid: "frozen w (invalid_op reason w)"
  by (simp add: frozen_def invalid_op_def)

lemma frozen_Pair: "frozen w (x, w)"
  by (simp add: frozen_def)

lemma frozen_update: "wl_poisoned w \<Longrightarrow> frozen w (and_update (append_synced io r w) f)"
  by (simp add: and_update_def frozen_def)

lemma frozen_if: "frozen w m \<Longrightarrow> frozen w m' \<Longrightarrow> frozen w (if c then m else m')"
  by simp

lemma frozen_option: "frozen w m \<Longrightarrow> (\<And>x. frozen w (f x)) \<Longrightarrow> frozen w (case v of None \<Rightarrow> m | Some x \<Rightarrow> f x)"
  by (cases v) simp_all

lemma frozen_sum: "(\<And>x. frozen w (g x)) \<Longrightarrow> (\<And>x. frozen w (f x)) \<Longrightarrow> frozen w (case v of Inl x \<Rightarrow> g x | Inr x \<Rightarrow> f x)"
  by (cases v) simp_all

lemmas frozen_intros = frozen_invalid frozen_Pair frozen_update frozen_if frozen_option frozen_sum

lemma poisoned_transition: "wl_poisoned w \<Longrightarrow> frozen w (transition_inner io t s w)"
  unfolding transition_inner_def Let_def by (intro frozen_intros)

lemma poisoned_permission:
  assumes "wl_poisoned w"
  shows "after (apply_permission_mutation_inner io mutate io' i d w) = Some w"
    "after (resolve_unresolved_permission_inner io probe t mid w) = Some w"
  using assms
  by (auto simp: after_def apply_permission_mutation_inner_def resolve_unresolved_permission_inner_def
      Let_def split: sum.split option.split)

lemmas op_defs = begin_transaction_def begin_staging_def transition_def transition_staging_def
  transition_staging_foundation_def transition_recovery_required_def record_purgeable_def
  record_purge_intent_def record_purge_removed_def record_purge_outcome_def
  record_undo_rename_outcome_def record_undo_terminal_def complete_tree_manifest_with_sidecar_def
  record_rename_intent_def record_rename_outcome_def

lemmas record_ops = record_staged_sealed_def record_source_parent_restore_intent_def
  record_source_parent_restored_def record_verified_committed_def record_purged_def
  record_verified_undo_intent_def record_undo_modes_restored_def record_undo_rename_intent_def
  record_applied_synced_rename_def record_confirmed_not_applied_rename_def

lemma poisoned_record:
  assumes "wl_poisoned w"
  shows "frozen w (begin_transaction io t w)" "frozen w (begin_staging io t m w)" "frozen w (transition io t s w)"
    "frozen w (transition_staging io t s w)" "frozen w (transition_staging_foundation io t s w)"
    "frozen w (transition_recovery_required io t w)" "frozen w (record_purgeable io t mf w)"
    "frozen w (record_purge_intent io t w)" "frozen w (record_purge_removed io t n w)"
    "frozen w (record_purge_outcome io t w)" "frozen w (record_undo_rename_outcome io t y w)"
    "frozen w (record_undo_terminal io t s w)" "frozen w (complete_tree_manifest_with_sidecar io t mf c w)"
    "frozen w (record_rename_intent io t w)" "frozen w (record_rename_outcome io t x w)"
  unfolding op_defs Let_def by (intro frozen_intros poisoned_transition assms)+

lemma poisoned_settle: "wl_poisoned w \<Longrightarrow> snd (settle synced w) = w"
  by (simp add: settle_def)

lemma poisoned_op:
  "wl_poisoned w \<Longrightarrow> run_op op w = Some w" "wl_poisoned w \<Longrightarrow> run_ops ops w = Some w"
proof (induction op w and ops w rule: run_op_run_ops.induct)
  case (30 synced ops w)
  then show ?case by (simp add: after_def with_deferred_applied_def Let_def settle_def)
qed (simp_all add: poisoned_record [unfolded frozen_def] poisoned_settle poisoned_permission apply_permission_mutation_def
    apply_staging_permission_mutation_def apply_deferred_mutation_def resolve_unresolved_permission_def
    resolve_staging_permission_def refuse_mutation_def after_def [of "Some _"] record_ops)

end
