(* ===== verification/Wal_Writer_Props.thy ===== *)
theory Wal_Writer_Props
  imports Wal_Programs
begin

text \<open>
  The properties of the writer: what it resumes from, that its maps are what its file replays to,
  what survives a power loss, that a failed append is final, and that a mutation follows its durable
  intent.
\<close>

section \<open>Programs from a resumed WAL\<close>

lemma resumed_program:
  assumes "replay_and_repair set_len bytes = Inr (rp, fl)" "\<And>n b. set_len n b = Inr (take n b)"
    and "resume fl rp = Inr w0" "ops_ok ops w0"
  obtains w cfs q where "run_ops ops w0 = Some w" "wal_log w cfs q"
proof -
  from resume_inv [OF assms(1,2)] assms(3) obtain cfs q where "wal_log w0 cfs q" by (metis sum.inject(2))
  then have "wal_inv w0" by (auto simp: wal_inv_def)
  then show thesis using run_stays(2) [OF _ assms(4)] that by (auto simp: stays_def wal_inv_def)
qed

text \<open>What a power loss can take from a log that was synced up to its last applied frame.\<close>

lemma unsynced_part:
  assumes "replays cfs q" "synced_to cfs m" "replays (take k cfs) q'"
    and "k < length cfs \<longrightarrow> n < length (log_bytes (take (Suc k) cfs))" "m \<le> n"
  shows "map_option durable_part (map_of (rp_transactions (replay_of q')) t) =
    map_option durable_part (map_of (rp_transactions (replay_of q)) t)"
proof (cases "length cfs \<le> k")
  case True
  then have "q' = q" using assms(1,3) by (simp add: replays_def)
  then show ?thesis by simp
next
  case False
  then have n: "m < length (log_bytes (take (Suc k) cfs))" using assms(4,5) by simp
  have shorter: "length (log_bytes (take j xs)) \<le> length (log_bytes xs)" for j xs
    using log_bytes_simps(3) [of "take j xs" "drop j xs"] by (metis append_take_drop_id le_add1 length_append)
  from assms(2) n shorter [of "Suc k" cfs] obtain before cf where b: "cfs = before @ [cf]"
    "is_applied (record_of cf)" "m = length (log_bytes before)"
    by (auto simp: synced_to_def)
  have "length before \<le> k"
  proof (rule ccontr)
    assume "\<not> length before \<le> k"
    then have "take (Suc k) cfs = take (Suc k) before" by (simp add: b(1))
    with n b(3) shorter [of "Suc k" before] show False by simp
  qed
  with False b(1) have "take k cfs = before" by simp
  then show ?thesis using replays_prefix_applied assms(1,3) b(1,2) by metis
qed

lemma durable_part_cong:
  "map_option without_purge_path a = map_option without_purge_path b \<Longrightarrow>
   map_option durable_part a = map_option durable_part b"
proof -
  have "durable_part rt = durable_part (without_purge_path rt)" for rt
    by (simp add: durable_part_def without_purge_path_def)
  then have part: "map_option durable_part x = map_option durable_part (map_option without_purge_path x)" for x
    by (simp add: option.map_comp comp_def)
  assume "map_option without_purge_path a = map_option without_purge_path b"
  then show ?thesis using part by metis
qed

text \<open>An append only adds to the file, and a synced one carries it to the end.\<close>

lemma append_grows:
  assumes "append_at io r sync w = (x, w1)"
  shows "\<exists>rest. wl_writer w1 = wl_writer w @ rest" "x = Inr ext \<Longrightarrow> sync \<Longrightarrow>
     \<exists>frame. encode_frame r = Inr frame \<and> wl_writer w1 = wl_writer w @ frame \<and>
       wl_synced_len w1 = wl_committed_len w + length frame \<and> wl_committed_len w1 = wl_synced_len w1"
    "wl_synced_len w \<le> wl_committed_len w \<Longrightarrow> wl_synced_len w \<le> wl_synced_len w1"
  using assms
  by (auto simp: append_at_def Let_def usize_checked_add_def
      split: if_splits sum.splits option.splits append_io.splits)

lemma applied_grows:
  assumes "(case mutate of Inl e \<Rightarrow> Some (Inl (Mutation e), w2)
     | Inr _ \<Rightarrow> (case (if c then append_deferred io' p w2 else append_synced io' p w2) of
         (Inl e, w3) \<Rightarrow> Some (Inl (AppliedWal e True), w3)
       | (Inr _, w3) \<Rightarrow> map_option (Pair (Inr ())) (record_resolved t mid ResolvedApplied w3))) = Some (r, w')"
    and "wl_synced_len w2 \<le> wl_committed_len w2"
  shows "\<exists>rest. wl_writer w' = wl_writer w2 @ rest" "wl_synced_len w2 \<le> wl_synced_len w'"
proof -
  obtain y w3 where y: "append_at io' p (\<not> c) w2 = (y, w3)" by fastforce
  then have "(if c then append_deferred io' p w2 else append_synced io' p w2) = (map_sum id (\<lambda>_. ()) y, w3)"
    by (cases y; cases c) (simp_all add: append_deferred_def append_synced_def append_synced_at_def and_update_def)
  with assms(1) have "w' = w2 \<or> wl_writer w' = wl_writer w3 \<and> wl_synced_len w' = wl_synced_len w3"
    by (cases mutate; cases y) (auto simp: record_resolved_def ledger_insert_def)
  then show "\<exists>rest. wl_writer w' = wl_writer w2 @ rest" "wl_synced_len w2 \<le> wl_synced_len w'"
    using append_grows(1,3) [OF y] assms(2) by auto
qed

section \<open>Properties\<close>

text \<open>C11: A WAL that replay accepted can be resumed, and the resumed writer holds what replay
  returned: for every transaction the recovery snapshot is the replayed transaction, and the ledger
  is the replayed ledger. The path of the last purge frame is left out of the comparison: the writer
  carries it over only when an entry was removed.\<close>

theorem resume_restores_replay:
  assumes "replay_and_repair set_len bytes = Inr (rp, fl)" "\<And>n b. set_len n b = Inr (take n b)"
  shows "\<exists>w. resume fl rp = Inr w \<and> wl_writer w = fl \<and> \<not> wl_poisoned w \<and>
    (\<forall>t. map_option without_purge_path (recovery_snapshot w t) =
       map_option without_purge_path (map_of (rp_transactions rp) t)) \<and>
    (\<forall>t. wal_ledger w t = (case map_of (rp_ledgers rp) t of None \<Rightarrow> ledger_default | Some l \<Rightarrow> l))"
proof -
  from resume_inv [OF assms] obtain w cfs q where w: "resume fl rp = Inr w" "wal_log w cfs q"
    "wl_writer w = fl" "\<not> wl_poisoned w" "rp_transactions rp = rp_transactions (replay_of q)"
    "rp_ledgers rp = rp_ledgers (replay_of q)" by metis
  then show ?thesis
    using snapshot_agrees [of cfs q w] by (auto simp: wal_log_def)
qed

theorem resume_restores_replay_witness:
  "\<exists>rp w. replay_and_repair truncating (sample_file 8 @ [1, 2, 3]) = Inr (rp, sample_file 8) \<and>
     resume (sample_file 8) rp = Inr w \<and>
     map_option without_purge_path (recovery_snapshot w sample_id) = Some (sample_rt Restored 0)"
proof (rule sample_replays)
  fix rp assume rp: "replay_and_repair truncating (sample_file 8 @ [1, 2, 3]) = Inr (rp, sample_file 8)"
    "map_of (rp_transactions rp) sample_id = Some (sample_rt Restored 0)"
  from resume_restores_replay [OF rp(1)] rp(2) obtain w where "resume (sample_file 8) rp = Inr w"
    "map_option without_purge_path (recovery_snapshot w sample_id) =
       map_option without_purge_path (Some (sample_rt Restored 0))" by metis
  moreover have "without_purge_path (sample_rt Restored 0) = sample_rt Restored 0"
    by (simp add: without_purge_path_def sample_rt_def)
  ultimately show ?thesis using rp(1) by auto
qed

text \<open>C2: The writer's state is its file's replay. From a resumed WAL, run any sequence of the
  writer's operations, with any outcome of the file system for each frame: no operation panics, and
  as long as no append failed, replaying the file succeeds without repair and yields, for every
  transaction, exactly the snapshot and the ledger the writer holds. In particular the writer never
  appends a record that its own replay refuses. The operations are assumed to be given well-typed
  values, and evidence that names an object. The path of the last purge frame is left out of the
  comparison.\<close>

theorem writer_state_is_replayed:
  assumes "replay_and_repair set_len bytes = Inr (rp, fl)" "\<And>n b. set_len n b = Inr (take n b)"
    and "resume fl rp = Inr w0" "ops_ok ops w0"
  shows "\<exists>w. run_ops ops w0 = Some w \<and> (wl_poisoned w \<or>
    (\<exists>rp'. replay_and_repair set_len (wl_writer w) = Inr (rp', wl_writer w) \<and> rp_tail_repair rp' = None \<and>
      (\<forall>t. map_option without_purge_path (recovery_snapshot w t) =
         map_option without_purge_path (map_of (rp_transactions rp') t)) \<and>
      (\<forall>t. wal_ledger w t = (case map_of (rp_ledgers rp') t of None \<Rightarrow> ledger_default | Some l \<Rightarrow> l))))"
proof -
  from resumed_program [OF assms] obtain w cfs q where w: "run_ops ops w0 = Some w" "wal_log w cfs q" .
  show ?thesis
  proof (cases "wl_poisoned w")
    case False
    then have fl: "wl_writer w = log_bytes cfs" "replays cfs q" "agrees w q"
      using w(2) by (auto simp: wal_log_def file_holds_def)
    from replays_cut [OF fl(2) assms(2), of "length (log_bytes cfs)"] obtain k q' rp' where rp':
      "replays (take k cfs) q'" "replay_and_repair set_len (wl_writer w) = Inr (rp', log_bytes (take k cfs))"
      "rp_transactions rp' = rp_transactions (replay_of q')" "rp_ledgers rp' = rp_ledgers (replay_of q')"
      "k < length cfs \<longrightarrow> length (log_bytes cfs) < length (log_bytes (take (Suc k) cfs))"
      "rp_tail_repair rp' = None" by (auto simp: fl(1))
    have "length cfs \<le> k"
      using rp'(5) log_bytes_simps(3) [of "take (Suc k) cfs" "drop (Suc k) cfs"]
      by (metis append_take_drop_id le_add1 length_append not_le)
    then have "take k cfs = cfs" "q' = q" using rp'(1) fl(2) by (simp_all add: replays_def)
    then show ?thesis using w(1) rp' fl snapshot_agrees [OF fl(2,3)] by auto
  qed (use w in blast)
qed

text \<open>A program: a transaction begins, its parent is sealed and the seal is confirmed.\<close>

definition sample_program :: "wal_op list" where
  "sample_program =
     [Begin Durable (TransactionId (replicate 16 9)),
      Transition Durable (TransactionId (replicate 16 9)) ParentSealIntent,
      ApplyPermissionMutation Durable (Inr ()) Durable
        \<lparr>pi_transaction = TransactionId (replicate 16 9), pi_mutation_id = 1, pi_evidence = sample_evidence,
         pi_pre_mode = 493, pi_expected_mode = 448, pi_reverses = None\<rparr>]"

lemma sample_program_ok: "ops_ok sample_program w"
  by (simp add: sample_program_def wf_tid_def names_object_def sample_evidence_def wf_evidence_def
      is_confined_relative_path_def path_components_def is_absolute_def seg_components_def slash_def dot_def
      split: option.split)

text \<open>Appends that the file system carries out do not poison the writer.\<close>

definition calm :: "seal_wal \<Rightarrow> 'x \<times> seal_wal \<Rightarrow> bool" where
  "calm w res \<longleftrightarrow> wl_poisoned (snd res) = wl_poisoned w"

lemma calm_append: "calm w (append_at Durable r sync w)"
  by (simp add: calm_def append_at_def Let_def split: sum.split option.split)

lemma calm_appends:
  "append_synced Durable r w = (x, w') \<Longrightarrow> wl_poisoned w' = wl_poisoned w"
  "append_synced_at Durable r w = (y, w') \<Longrightarrow> wl_poisoned w' = wl_poisoned w"
  "append_deferred Durable r w = (x, w') \<Longrightarrow> wl_poisoned w' = wl_poisoned w"
  using calm_append [of w r True] calm_append [of w r False]
  by (auto simp: calm_def append_synced_def append_synced_at_def append_deferred_def and_update_def
      split: sum.splits)

lemma calm_update: "(\<And>w. wl_poisoned (f w) = wl_poisoned w) \<Longrightarrow> calm w (and_update (append_synced Durable r w) f)"
  using calm_appends(1) [of r w] by (cases "append_synced Durable r w") (simp add: calm_def and_update_def split: sum.split)

lemma calm_intros:
  "calm w (invalid_op reason w)" "calm w (z, w)" "calm w m \<Longrightarrow> calm w m' \<Longrightarrow> calm w (if c then m else m')"
  "calm w m \<Longrightarrow> (\<And>x. calm w (f x)) \<Longrightarrow> calm w (case v of None \<Rightarrow> m | Some x \<Rightarrow> f x)"
  by (simp_all add: calm_def invalid_op_def split: option.split)

lemma calm_transition: "calm w (transition Durable t s w)" "calm w (begin_transaction Durable t w)"
  unfolding transition_def transition_inner_def begin_transaction_def Let_def
  by (intro calm_intros calm_update, simp)+

lemma calm_mutation:
  assumes "apply_permission_mutation Durable m Durable i w = Some res" shows "calm w res"
  using assms
  by (auto simp: calm_def apply_permission_mutation_def apply_permission_mutation_inner_def Let_def
      refuse_mutation_def record_resolved_def ledger_insert_def dest!: calm_appends
      split: if_splits sum.splits prod.splits)

lemma sample_program_calm: "run_ops sample_program w = Some w' \<Longrightarrow> wl_poisoned w' = wl_poisoned w"
  using calm_transition calm_mutation unfolding sample_program_def calm_def
  by (fastforce simp: after_def bind_eq_Some_conv)

theorem writer_state_is_replayed_witness:
  "\<exists>rp w0 w. replay_and_repair truncating (sample_file 8 @ [1, 2, 3]) = Inr (rp, sample_file 8) \<and>
     resume (sample_file 8) rp = Inr w0 \<and> run_ops sample_program w0 = Some w \<and>
     (\<exists>rp'. replay_and_repair truncating (wl_writer w) = Inr (rp', wl_writer w))"
proof (rule sample_replays)
  fix rp assume rp: "replay_and_repair truncating (sample_file 8 @ [1, 2, 3]) = Inr (rp, sample_file 8)"
  from resume_inv [OF rp] obtain w0 where w0: "resume (sample_file 8) rp = Inr w0" "\<not> wl_poisoned w0"
    by auto
  from writer_state_is_replayed [OF rp refl w0(1) sample_program_ok] show ?thesis
    using rp w0 sample_program_calm by blast
qed


text \<open>C3: A power loss is recoverable at every point. From a resumed WAL run any sequence of
  operations under any outcome of the file system, and then keep any number of the first bytes of
  the file, a partly written frame included: replay accepts what is left. If no append failed and at
  least the synced bytes are left, every transaction has the state, metadata, manifest, sidecar and
  outcomes the writer held; only what the permission records say may be behind, by the one applied
  frame whose sync was deferred. The operations are assumed to be given well-typed values, and evidence that
  names an object.\<close>

theorem power_loss_is_recoverable:
  assumes "replay_and_repair set_len bytes = Inr (rp, fl)" "\<And>n b. set_len n b = Inr (take n b)"
    and "resume fl rp = Inr w0" "ops_ok ops w0" "run_ops ops w0 = Some w"
  shows "\<exists>rp' fl'. replay_and_repair set_len (take n (wl_writer w)) = Inr (rp', fl') \<and>
    (\<not> wl_poisoned w \<and> wl_synced_len w \<le> n \<longrightarrow>
       (\<forall>t. map_option durable_part (recovery_snapshot w t) =
          map_option durable_part (map_of (rp_transactions rp') t)))"
proof -
  from resumed_program [OF assms(1-4)] assms(5) obtain cfs q where log: "wal_log w cfs q"
    by (metis option.inject)
  show ?thesis
  proof (cases "\<not> wl_poisoned w \<and> wl_synced_len w \<le> n")
    case False
    then show ?thesis using writer_cut_replays [OF log assms(2)] by blast
  next
    case True
    then have fl: "wl_writer w = log_bytes cfs" "replays cfs q" "agrees w q" "synced_to cfs (wl_synced_len w)"
      using log by (auto simp: wal_log_def file_holds_def)
    obtain k q' rp' where rp': "replays (take k cfs) q'"
      "replay_and_repair set_len (take n (wl_writer w)) = Inr (rp', log_bytes (take k cfs))"
      "rp_transactions rp' = rp_transactions (replay_of q')"
      "k < length cfs \<longrightarrow> n < length (log_bytes (take (Suc k) cfs))"
      using replays_cut [OF fl(2) assms(2), of n] unfolding fl(1) by blast
    have "map_option durable_part (map_of (rp_transactions (replay_of q')) t) =
        map_option durable_part (map_of (rp_transactions (replay_of q)) t)" for t
      using unsynced_part [OF fl(2,4) rp'(1,4)] True by simp
    moreover have "map_option durable_part (recovery_snapshot w t) =
        map_option durable_part (map_of (rp_transactions (replay_of q)) t)" for t
      using snapshot_agrees(1) [OF fl(2,3), of t] durable_part_cong by blast
    ultimately show ?thesis using rp'(2,3) by simp
  qed
qed

theorem power_loss_is_recoverable_witness:
  "\<exists>rp w0 w rp' fl'. replay_and_repair truncating (sample_file 8 @ [1, 2, 3]) = Inr (rp, sample_file 8) \<and>
     resume (sample_file 8) rp = Inr w0 \<and> run_ops [WithDeferred (Inr ()) sample_program] w0 = Some w \<and>
     replay_and_repair truncating (take (wl_synced_len w) (wl_writer w)) = Inr (rp', fl')"
proof (rule sample_replays)
  fix rp assume rp: "replay_and_repair truncating (sample_file 8 @ [1, 2, 3]) = Inr (rp, sample_file 8)"
  from resume_inv [OF rp] obtain w0 where w0: "resume (sample_file 8) rp = Inr w0" by auto
  have ok: "ops_ok [WithDeferred (Inr ()) sample_program] w0"
    using sample_program_ok by (simp split: option.split)
  from resumed_program [OF rp refl w0 ok] obtain w where
    w: "run_ops [WithDeferred (Inr ()) sample_program] w0 = Some w" by auto
  from power_loss_is_recoverable [OF rp refl w0 ok w] show ?thesis using rp w0 w by blast
qed

text \<open>C12: A failed append or sync is final. An append whose write fails, or whose sync is due and
  fails, never reports success; a deferred sync that is due and fails is reported by \<open>settle\<close>. Whenever
  either of them reports an error of the file system, the writer is poisoned, what counts as committed
  and as synced is unchanged, and from then on every operation, in any sequence, leaves the file and
  every map of the writer as they are: nothing is appended after an uncertain tail.\<close>

theorem failed_append_is_final:
  "((case io of Durable \<Rightarrow> False | ShortWrite _ _ \<Rightarrow> True | SyncFailed _ \<Rightarrow> sync) \<longrightarrow>
      (\<exists>err. fst (append_at io r sync w) = Inl err)) \<and>
   (\<not> wl_poisoned w \<and> wl_synced_len w \<noteq> wl_committed_len w \<longrightarrow> fst (settle (Inl e) w) = Inl (AppendIo e)) \<and>
   (append_at io r sync w = (Inl (AppendIo e), w') \<or> settle synced w = (Inl (AppendIo e), w') \<longrightarrow>
      wl_poisoned w' \<and> wl_committed_len w' = wl_committed_len w \<and> wl_synced_len w' = wl_synced_len w \<and>
      run_ops ops w' = Some w')"
proof (intro conjI impI)
  assume failed: "append_at io r sync w = (Inl (AppendIo e), w') \<or> settle synced w = (Inl (AppendIo e), w')"
  then show "wl_poisoned w'" "wl_committed_len w' = wl_committed_len w" "wl_synced_len w' = wl_synced_len w"
    by (auto simp: append_at_def settle_def Let_def split: if_splits sum.splits option.splits append_io.splits)
  then show "run_ops ops w' = Some w'" using poisoned_op(2) by simp
next
  assume "case io of Durable \<Rightarrow> False | ShortWrite _ _ \<Rightarrow> True | SyncFailed _ \<Rightarrow> sync"
  then show "\<exists>err. fst (append_at io r sync w) = Inl err"
    by (auto simp: append_at_def Let_def split: sum.split option.split append_io.splits)
qed (simp add: settle_def)

theorem failed_append_is_final_witness:
  "(\<exists>w'. append_at (ShortWrite 7 UnexpectedEof) (State sample_id Prepared) True (from_validated [] 0 MAX_WAL_LEN) =
      (Inl (AppendIo UnexpectedEof), w') \<and> length (wl_writer w') = 7 \<and> run_ops sample_program w' = Some w') \<and>
   (\<exists>w'. settle (Inl UnexpectedEof) ((from_validated [] 0 MAX_WAL_LEN)\<lparr>wl_committed_len := 5\<rparr>) =
      (Inl (AppendIo UnexpectedEof), w') \<and> wl_synced_len w' = 0 \<and> run_ops sample_program w' = Some w')"
proof
  have "\<exists>w'. append_at (ShortWrite 7 UnexpectedEof) (State sample_id Prepared) True (from_validated [] 0 MAX_WAL_LEN) =
      (Inl (AppendIo UnexpectedEof), w') \<and> length (wl_writer w') = 7"
    by (simp add: append_at_def from_validated_def encode_frame_def encode_record_def sample_id_def
        put_all.simps put_then_def put_raw_def put_u8_def put_tid_def MAX_PAYLOAD_LEN_def frame_payload_def
        usize_checked_add_def HEADER_LEN_def MAX_WAL_LEN_def extent_new_def Let_def)
  then show "\<exists>w'. append_at (ShortWrite 7 UnexpectedEof) (State sample_id Prepared) True (from_validated [] 0 MAX_WAL_LEN) =
      (Inl (AppendIo UnexpectedEof), w') \<and> length (wl_writer w') = 7 \<and> run_ops sample_program w' = Some w'"
    using failed_append_is_final by blast
  have "\<exists>w'. settle (Inl UnexpectedEof) ((from_validated [] 0 MAX_WAL_LEN)\<lparr>wl_committed_len := 5\<rparr>) =
      (Inl (AppendIo UnexpectedEof), w') \<and> wl_synced_len w' = 0"
    by (simp add: settle_def from_validated_def)
  then show "\<exists>w'. settle (Inl UnexpectedEof) ((from_validated [] 0 MAX_WAL_LEN)\<lparr>wl_committed_len := 5\<rparr>) =
      (Inl (AppendIo UnexpectedEof), w') \<and> wl_synced_len w' = 0 \<and> run_ops sample_program w' = Some w'"
    using failed_append_is_final by blast
qed

text \<open>C10: A mutation follows its durable intent. For every outcome of \<open>apply_permission_mutation_inner\<close>,
  either the mutation was not run, and the outcome does not depend on what it would have done, or
  the complete frame of its intent is in the file right after what was committed before, and within
  the synced length.\<close>

theorem mutation_follows_durable_intent:
  assumes "apply_permission_mutation_inner io mutate io' i d w = Some (r, w')"
  shows "(\<forall>mutate'. apply_permission_mutation_inner io mutate' io' i d w = Some (r, w')) \<or>
    (\<exists>frame rest. encode_frame (intent_record i) = Inr frame \<and> wl_writer w' = wl_writer w @ frame @ rest \<and>
       wl_committed_len w + length frame \<le> wl_synced_len w')"
proof (cases "check_intent_append w i")
  case (Inl e)
  then show ?thesis using assms by (simp add: apply_permission_mutation_inner_def)
next
  case (Inr phase)
  obtain x w1 where x: "append_synced_at io (intent_record i) w = (x, w1)" by fastforce
  show ?thesis
  proof (cases x)
    case (Inl e)
    with x Inr assms show ?thesis by (simp add: apply_permission_mutation_inner_def Let_def)
  next
    case ext: (Inr ext)
    then obtain frame where f: "encode_frame (intent_record i) = Inr frame" "wl_writer w1 = wl_writer w @ frame"
      "wl_synced_len w1 = wl_committed_len w + length frame" "wl_committed_len w1 = wl_synced_len w1"
      using x append_grows(2) by (metis append_synced_at_def)
    have "\<exists>rest. wl_writer w' = wl_writer w1 @ rest" "wl_synced_len w1 \<le> wl_synced_len w'"
      using applied_grows [OF assms [unfolded apply_permission_mutation_inner_def Let_def Inr sum.case x ext prod.case]]
        f(4) by (simp_all add: ledger_insert_def)
    with f show ?thesis by force
  qed
qed


definition sealing_wal :: seal_wal where
  "sealing_wal = (from_validated [] 0 MAX_WAL_LEN)\<lparr>wl_states := [(sample_id, ParentSealIntent)]\<rparr>"

definition sample_mutation :: permission_intent where
  "sample_mutation = \<lparr>pi_transaction = sample_id, pi_mutation_id = 1, pi_evidence = sample_evidence,
     pi_pre_mode = 493, pi_expected_mode = 448, pi_reverses = None\<rparr>"

theorem mutation_follows_durable_intent_witness:
  "\<exists>w' frame rest.
     apply_permission_mutation_inner Durable (Inl UnexpectedEof) Durable sample_mutation False sealing_wal =
       Some (Inl (Mutation UnexpectedEof), w') \<and>
     encode_frame (intent_record sample_mutation) = Inr frame \<and> wl_writer w' = frame @ rest"
proof -
  let ?run = "\<lambda>m. apply_permission_mutation_inner Durable m Durable sample_mutation False sealing_wal"
  have run: "\<exists>w'. ?run (Inl e) = Some (Inl (Mutation e), w')" for e
    by (simp add: apply_permission_mutation_inner_def check_intent_append_def check_inverse_def sealing_wal_def
        sample_mutation_def from_validated_def Let_def intent_phase_def append_synced_at_def append_at_def
        sample_evidence_def intent_record_def encode_frame_def encode_record_def sample_id_def
        put_all.simps put_then_def put_raw_def put_u8_def put_tid_def put_u32_def put_u64_def put_bytes_def
        MAX_PAYLOAD_LEN_def frame_payload_def usize_checked_add_def HEADER_LEN_def MAX_WAL_LEN_def extent_new_def)
  then obtain w' where w': "?run (Inl UnexpectedEof) = Some (Inl (Mutation UnexpectedEof), w')" by blast
  moreover have "?run (Inl (OsError 5)) \<noteq> ?run (Inl UnexpectedEof)" using run by (metis Inl_inject
        io_error.distinct(1) mutation_append_error.inject(2) option.inject prod.inject)
  ultimately show ?thesis
    using mutation_follows_durable_intent [OF w'] by (auto simp: sealing_wal_def from_validated_def)
qed


section \<open>The condition the writer does not check\<close>

lemma replay_and_repair_whole:
  assumes "committed_log cfs" "length (log_bytes cfs) \<le> MAX_WAL_LEN"
    and "replay_and_repair set_len (log_bytes cfs) = Inr (rp, fl)"
  shows "\<exists>q. replays cfs q"
proof -
  have "torn check_frame []" by (simp add: torn_iff check_frame_def HEADER_LEN_def)
  with assms show ?thesis
    using parse_frames_log [OF assms(1), of "[]"] replay_records_resident [OF assms(1,2), of "[]"]
    by (auto simp: replay_and_repair_def and_then_Inr_iff replay_with_def replays_def)
qed

lemma durable_append:
  assumes "wal_log w cfs q" "wf_record r" "append_at Durable r True w = (Inr ext, w1)"
  shows "\<exists>cf. encode_frame r = Inr (frame_of cf) \<and> wl_writer w1 = log_bytes (cfs @ [cf]) \<and>
    length (log_bytes (cfs @ [cf])) \<le> MAX_WAL_LEN \<and> cf_version cf = VERSION \<and> decodes cf \<and> record_of cf = r"
proof -
  from assms(3) obtain f where f: "encode_frame r = Inr f" "\<not> wl_poisoned w" "wl_writer w1 = wl_writer w @ f"
    "wl_committed_len w + length f \<le> wl_max_wal_len w"
    by (auto simp: append_at_def Let_def usize_checked_add_def split: if_splits sum.splits option.splits)
  from f(1) obtain cf where cf: "f = frame_of cf" "cf_version cf = VERSION"
    "encode_record r = Inr (cf_payload cf)" "valid_frame cf" by (rule encode_frame_cases)
  from encoded_frame_decodes [OF cf(3,2) assms(2) cf(4)] cf(1,2) f assms(1) show ?thesis
    by (intro exI [of _ cf]) (auto simp: wal_log_def file_holds_def)
qed

lemma check_intent_not_mutation: "check_intent_append w i \<noteq> Inl (Mutation e)"
proof
  assume chk: "check_intent_append w i = Inl (Mutation e)"
  have "check_inverse w phase i \<noteq> Inl (Mutation e)" for phase
    by (auto simp: check_inverse_def Let_def refuse_intent_def split: option.splits sum.splits)
  with chk show False
    by (auto simp: check_intent_append_def Let_def refuse_intent_def and_then_def split: option.splits sum.splits if_splits)
qed

text \<open>C40: The writer's check of an intent is weaker than replay's. If an intent with an empty path that
  is not the exact source parent of its staging transaction passes the writer's checks and its frame
  is written, the operation reports the intent as durable, and the file no longer replays: the whole
  log is refused. The condition \<open>names_object\<close> on a program's intents is therefore needed, and it is
  the caller that has to establish it.\<close>

theorem unnamed_object_breaks_replay:
  assumes "replay_and_repair set_len bytes = Inr (rp, fl)" "\<And>n b. set_len n b = Inr (take n b)"
    and "resume fl rp = Inr w0" "ops_ok ops w0" "run_ops ops w0 = Some w"
    and "wf_evidence (pi_evidence i)" "\<not> names_object w i"
    and "apply_permission_mutation_inner Durable (Inl e) io' i d w = Some (Inl (Mutation e), w')"
  shows "replay_and_repair set_len (wl_writer w') \<noteq> Inr (rp', fl')"
proof
  assume acc: "replay_and_repair set_len (wl_writer w') = Inr (rp', fl')"
  from resumed_program [OF assms(1-4)] assms(5) obtain cfs q where log: "wal_log w cfs q"
    by (metis option.inject)
  then have inv: "wal_inv w" and rp: "replays cfs q" and ag: "agrees w q" by (auto simp: wal_inv_def wal_log_def)
  let ?t = "pi_transaction i" and ?r = "intent_record i"
  obtain phase where chk: "check_intent_append w i = Inr phase"
    using assms(8) check_intent_not_mutation
    by (cases "check_intent_append w i") (auto simp: apply_permission_mutation_inner_def)
  note typed = check_intent_typed [OF inv chk assms(6)]
  obtain x w1 where x: "append_at Durable ?r True w = (x, w1)" by fastforce
  with assms(8) chk obtain ext where ext: "x = Inr ext" "wl_writer w' = wl_writer w1"
    by (cases x) (auto simp: apply_permission_mutation_inner_def append_synced_at_def Let_def ledger_insert_def)
  then obtain cf where cf: "encode_frame ?r = Inr (frame_of cf)" "wl_writer w' = log_bytes (cfs @ [cf])"
    "length (log_bytes (cfs @ [cf])) \<le> MAX_WAL_LEN" "cf_version cf = VERSION" "decodes cf" "record_of cf = ?r"
    using durable_append [OF log typed(1)] x by metis
  have "committed_log (cfs @ [cf])" using committed_log_snoc rp cf(4,5) by (simp add: replays_def)
  from replay_and_repair_whole [OF this cf(3), of set_len rp' fl'] acc obtain q' where "replays (cfs @ [cf]) q'"
    unfolding cf(2) by blast
  from replays_last [OF this rp] obtain rd f tx where
    "replay_record rd (cf_version cf) f ?r (building_of q ?t) = Inr tx"
    by (metis cf(6) intent_record_def record_transaction.simps(2))
  moreover have "forget (building_of q ?t) = forget (view w ?t)" using ag by (simp add: agrees_def)
  ultimately obtain tx' where "replay_record rd VERSION f ?r (view w ?t) = Inr tx'"
    using replay_record_forget cf(4) by metis
  then show False
    using assms(7) typed(2) by (auto simp: intent_record_def replay_iffs intent_allowed_def names_object_def)
qed


text \<open>A fresh WAL, a transaction in its parent-seal phase, and an intent without a path.\<close>

definition fresh_program :: "wal_op list" where
  "fresh_program = [Begin Durable sample_id, Transition Durable sample_id ParentSealIntent]"

definition unnamed_mutation :: permission_intent where
  "unnamed_mutation = sample_mutation\<lparr>pi_evidence := sample_evidence\<lparr>ev_relative_path := []\<rparr>\<rparr>"

lemma fresh_replays: "\<exists>rp. replay_and_repair truncating [] = Inr (rp, [])"
  and fresh_resumes: "replay_and_repair truncating [] = Inr (rp, []) \<Longrightarrow> resume [] rp = Inr (from_validated [] 0 MAX_WAL_LEN)"
  by (auto simp: replay_and_repair_def parse_frames_def parse_loop.simps [of "[]"] check_frame_def HEADER_LEN_def
      replay_records_def progress_default_def resume_def complete_order_def)

lemmas append_eval = append_synced_def append_synced_at_def append_at_def and_update_def from_validated_def
  encode_frame_def encode_record_def sample_id_def put_all.simps put_then_def put_raw_def put_u8_def put_tid_def
  put_u32_def put_u64_def put_bytes_def MAX_PAYLOAD_LEN_def frame_payload_def usize_checked_add_def HEADER_LEN_def
  MAX_WAL_LEN_def extent_new_def Let_def

lemma fresh_program_runs:
  "\<exists>w. run_ops fresh_program (from_validated [] 0 MAX_WAL_LEN) = Some w \<and>
     (\<exists>n b. w = (from_validated b n MAX_WAL_LEN)\<lparr>wl_states := [(sample_id, ParentSealIntent)],
        wl_transaction_order := [sample_id]\<rparr> \<and> n < 1000)"
  by (simp add: fresh_program_def begin_transaction_def transition_def transition_inner_def
      phase_completion_is_recorded_def completed_phase_def valid_transition_def append_eval)


lemma unnamed_mutation_runs:
  assumes "n < 1000" "w = (from_validated b n MAX_WAL_LEN)\<lparr>wl_states := [(sample_id, ParentSealIntent)],
      wl_transaction_order := [sample_id]\<rparr>"
  shows "\<exists>w'. apply_permission_mutation_inner Durable (Inl UnexpectedEof) Durable unnamed_mutation False w =
      Some (Inl (Mutation UnexpectedEof), w')" "\<not> names_object w unnamed_mutation"
    "wf_evidence (pi_evidence unnamed_mutation)"
proof -
  show "\<exists>w'. apply_permission_mutation_inner Durable (Inl UnexpectedEof) Durable unnamed_mutation False w =
      Some (Inl (Mutation UnexpectedEof), w')"
    using assms(1)
    by (simp add: assms(2) apply_permission_mutation_inner_def check_intent_append_def check_inverse_def
        sample_mutation_def unnamed_mutation_def intent_phase_def sample_evidence_def intent_record_def append_eval)
  show "\<not> names_object w unnamed_mutation" "wf_evidence (pi_evidence unnamed_mutation)"
    by (simp_all add: assms(2) names_object_def unnamed_mutation_def sample_mutation_def sample_evidence_def
        exact_v11_parent_def from_validated_def wf_evidence_def)
qed

theorem unnamed_object_breaks_replay_witness:
  "\<exists>rp w w'. replay_and_repair truncating [] = Inr (rp, []) \<and>
     resume [] rp = Inr (from_validated [] 0 MAX_WAL_LEN) \<and>
     run_ops fresh_program (from_validated [] 0 MAX_WAL_LEN) = Some w \<and>
     apply_permission_mutation_inner Durable (Inl UnexpectedEof) Durable unnamed_mutation False w =
       Some (Inl (Mutation UnexpectedEof), w') \<and>
     (\<forall>rp' fl'. replay_and_repair truncating (wl_writer w') \<noteq> Inr (rp', fl'))"
proof -
  obtain rp where rp: "replay_and_repair truncating [] = Inr (rp, [])" using fresh_replays by blast
  obtain w b n where w: "run_ops fresh_program (from_validated [] 0 MAX_WAL_LEN) = Some w" "n < 1000"
    "w = (from_validated b n MAX_WAL_LEN)\<lparr>wl_states := [(sample_id, ParentSealIntent)],
        wl_transaction_order := [sample_id]\<rparr>" using fresh_program_runs by blast
  note runs = unnamed_mutation_runs [OF w(2,3)]
  then obtain w' where w': "apply_permission_mutation_inner Durable (Inl UnexpectedEof) Durable unnamed_mutation
      False w = Some (Inl (Mutation UnexpectedEof), w')" by blast
  have "ops_ok fresh_program (from_validated [] 0 MAX_WAL_LEN)"
    by (simp add: fresh_program_def wf_tid_def sample_id_def split: option.split)
  from unnamed_object_breaks_replay [OF rp refl fresh_resumes [OF rp] this w(1) runs(3,2) w']
  show ?thesis using rp fresh_resumes [OF rp] w(1) w' by blast
qed

end
