(* ===== verification/Wal_Allowance.thy ===== *)
theory Wal_Allowance
  imports Wal_Programs Wal_Compaction
begin

text \<open>
  What settled transactions may still write (\<open>seal/wal/allowance.rs\<close>), and the room a WAL leaves
  for new staging, measured without a lease (\<open>seal/wal/room.rs\<close>). A length is measured by encoding
  the frame it is about. Lengths are \<open>u64\<close> and add as they do in a release build; the cache of
  \<open>remaining_allowance\<close>, a memo of the measure by state, is not modelled.
\<close>

section \<open>Paths\<close>

text \<open>
  \<open>Path::strip_prefix\<close>: the components of the base are taken off, and what is left is the rest of
  the bytes without separators and \<open>.\<close> segments at its ends.
\<close>

definition blank_segment :: "bytes \<Rightarrow> bool" where
  "blank_segment s \<longleftrightarrow> seg_components s = []"

fun join_slash :: "bytes list \<Rightarrow> path" where
  "join_slash [] = []"
| "join_slash [s] = s"
| "join_slash (s # ss) = s @ slash # join_slash ss"

definition trim_end :: "bytes list \<Rightarrow> bytes list" where
  "trim_end ss = rev (dropWhile blank_segment (rev ss))"

fun skip_segments :: "nat \<Rightarrow> bytes list \<Rightarrow> bytes list" where
  "skip_segments 0 ss = ss"
| "skip_segments (Suc n) [] = []"
| "skip_segments (Suc n) (s # ss) =
     (if blank_segment s then skip_segments (Suc n) ss else skip_segments n ss)"

text \<open>\<open>Components::as_path\<close> after \<open>n\<close> components were taken.\<close>

definition path_after :: "nat \<Rightarrow> path \<Rightarrow> path" where
  "path_after n p =
     (let segs = split_slash p;
          leading = is_absolute p \<or> hd segs = [dot]
      in if n = 0 then
           (if is_absolute p then slash # join_slash (trim_end (tl segs))
            else if leading then join_slash (hd segs # trim_end (tl segs))
            else join_slash (trim_end segs))
         else join_slash (trim_end (dropWhile blank_segment
           (if leading then skip_segments (n - 1) (tl segs) else skip_segments n segs))))"

definition path_strip_prefix :: "path \<Rightarrow> path \<Rightarrow> path option" where
  "path_strip_prefix p base =
     (if path_starts_with p base then Some (path_after (length (path_components base)) p) else None)"

section \<open>Frame lengths\<close>

datatype allowance_error =
  AllowanceUnsettled transaction_state
  | AllowanceMissing string
  | SealOutsideRoot u64
  | AllowancePermissionRecord permission_read_error
  | AllowanceFrame frame_error

definition ANY_MUTATION_ID :: u64 where "ANY_MUTATION_ID = 0"
definition ANY_TRANSACTION :: transaction_id where "ANY_TRANSACTION = TransactionId (replicate 16 0)"

definition sat_sub :: "u64 \<Rightarrow> u64 \<Rightarrow> u64" where
  "sat_sub a b = (if b \<le> a then a - b else 0)"

definition frame_len :: "seal_record \<Rightarrow> frame_error + u64" where
  "frame_len r = and_then (encode_frame r) (\<lambda>frame. Inr (of_nat (length frame)))"

definition states_len :: "transaction_id \<Rightarrow> transaction_state list \<Rightarrow> frame_error + u64" where
  "states_len t states =
     fold_r (\<lambda>s total. and_then (frame_len (State t s)) (\<lambda>n. Inr (total + n))) states 0"

text \<open>The \<open>?\<close> on a framing error, and on a record that cannot be read back.\<close>

definition frames_of :: "frame_error + 'a \<Rightarrow> ('a \<Rightarrow> allowance_error + 'b) \<Rightarrow> allowance_error + 'b" where
  "frames_of m f = (case m of Inl e \<Rightarrow> Inl (AllowanceFrame e) | Inr x \<Rightarrow> f x)"

definition records_of :: "permission_read_error + 'a \<Rightarrow> ('a \<Rightarrow> allowance_error + 'b) \<Rightarrow> allowance_error + 'b" where
  "records_of m f = (case m of Inl e \<Rightarrow> Inl (AllowancePermissionRecord e) | Inr x \<Rightarrow> f x)"

definition required :: "string \<Rightarrow> 'a option \<Rightarrow> ('a \<Rightarrow> allowance_error + 'b) \<Rightarrow> allowance_error + 'b" where
  "required what v f = (case v of None \<Rightarrow> Inl (AllowanceMissing what) | Some x \<Rightarrow> f x)"

section \<open>The allowance of a settled transaction\<close>

definition wal_records :: "seal_wal \<Rightarrow> transaction_id \<Rightarrow> permission_read_error + durable_permission list" where
  "wal_records w t = permission_records (read_permission_record w) t (map_of (wl_ledgers w) t)"

definition source_root :: "staging_metadata \<Rightarrow> path" where
  "source_root m = path_join (sl_relative_path (sm_source_parent m)) (sm_source_basename m)"

definition destination_root :: "staging_metadata \<Rightarrow> path" where
  "destination_root m = path_join (sl_relative_path (sm_destination_parent m)) (sm_destination_basename m)"

definition undo_inverse_len :: "transaction_id \<Rightarrow> staging_metadata \<Rightarrow> durable_permission \<Rightarrow> allowance_error + u64" where
  "undo_inverse_len t m seal =
     (case path_strip_prefix (ev_relative_path (dp_evidence seal)) (source_root m) of
        None \<Rightarrow> Inl (SealOutsideRoot (dp_mutation_id seal))
      | Some rest_path \<Rightarrow>
          (case evidence_new_staging (path_join (destination_root m) rest_path)
                  (ev_filesystem_id (dp_evidence seal)) (ev_device (dp_evidence seal))
                  (ev_inode (dp_evidence seal)) (ev_generation_or_btime (dp_evidence seal)) (dp_pre_mode seal) of
             None \<Rightarrow> Inl (SealOutsideRoot (dp_mutation_id seal))
           | Some evidence \<Rightarrow>
               frames_of (frame_len (PermissionIntent t ANY_MUTATION_ID evidence (dp_expected_mode seal)
                 (dp_pre_mode seal) (Some (dp_mutation_id seal)))) Inr))"

definition undo_allowance :: "seal_wal \<Rightarrow> transaction_id \<Rightarrow> allowance_error + u64" where
  "undo_allowance w t =
     required ''staging metadata'' (map_of (wl_staging w) t) (\<lambda>m.
     frames_of (states_len t [UndoIntent, UndoModesRestored, UndoRenameIntent, Restored]) (\<lambda>states.
     frames_of (frame_len (UndoRenameOutcome t (UndoAppliedAndParentsSynced (sm_root_identity m)))) (\<lambda>outcome.
     frames_of (frame_len (PermissionApplied t ANY_MUTATION_ID)) (\<lambda>resolution.
     records_of (wal_records w t) (\<lambda>records.
       fold_r (\<lambda>seal total.
         if dp_phase seal \<noteq> TreeSealIntent \<or> dp_application seal \<noteq> Applied \<or> dp_reverses seal \<noteq> None
         then Inr total
         else and_then (undo_inverse_len t m seal) (\<lambda>n. Inr (total + (n + resolution))))
         records (states + outcome))))))"

definition purge_allowance :: "seal_wal \<Rightarrow> transaction_id \<Rightarrow> bool \<Rightarrow> allowance_error + u64" where
  "purge_allowance w t authorize =
     required ''staging metadata'' (map_of (wl_staging w) t) (\<lambda>m.
     required ''tree manifest'' (map_of (wl_manifests w) t) (\<lambda>manifest.
     let commitment = purge_commitment_exact m manifest in
     frames_of (if authorize then frame_len (PurgeAuthorized t commitment) else Inr 0) (\<lambda>authorized.
     frames_of (frame_len (PurgeClaimed t commitment)) (\<lambda>claimed.
     frames_of (frame_len (PurgeProgress t (tm_entry_count manifest) [])) (\<lambda>progress.
     frames_of (states_len t [PurgeOutcome, Purged]) (\<lambda>states.
     Inr (authorized + claimed + progress + states)))))))"

definition measure_allowance :: "seal_wal \<Rightarrow> transaction_id \<Rightarrow> transaction_state \<Rightarrow> allowance_error + u64" where
  "measure_allowance w t state =
     (if state = VerifiedCommitted
      then and_then (undo_allowance w t) (\<lambda>undo. and_then (purge_allowance w t True) (\<lambda>purge. Inr (max undo purge)))
      else if state = Purgeable then purge_allowance w t False
      else if state = Quarantined \<and>
              (case map_of (wl_ledgers w) t of None \<Rightarrow> True | Some l \<Rightarrow> \<not> retains_active_seals l)
      then frames_of (states_len t [RecoveryRequired]) Inr
      else if state = Purged \<or> state = Restored \<or> state = RolledBack \<or> state = UndoConflict then Inr 0
      else Inl (AllowanceUnsettled state))"

definition remaining_allowance :: "seal_wal \<Rightarrow> transaction_id \<Rightarrow> allowance_error + u64" where
  "remaining_allowance w t =
     (case map_of (wl_states w) t of None \<Rightarrow> Inr 0 | Some state \<Rightarrow> measure_allowance w t state)"

section \<open>Headroom\<close>

text \<open>The sum over the keys of a hash map; the order the keys are met in decides only which of
  several errors is reported.\<close>

definition reserved :: "seal_wal \<Rightarrow> transaction_id option \<Rightarrow> allowance_error + u64" where
  "reserved w admitting =
     fold_r (\<lambda>t total. and_then (remaining_allowance w t) (\<lambda>n. Inr (sat_add total n)))
       (filter (\<lambda>t. Some t \<noteq> admitting) (map fst (wl_states w))) 0"

definition headroom :: "seal_wal \<Rightarrow> transaction_id option \<Rightarrow> allowance_error + u64" where
  "headroom w admitting =
     and_then (reserved w admitting) (\<lambda>held.
       Inr (sat_sub (sat_sub (of_nat (wl_max_wal_len w)) (of_nat (wl_committed_len w))) held))"

section \<open>What a new staging may write\<close>

definition sized_manifest :: "u64 \<Rightarrow> durable_tree_manifest" where
  "sized_manifest entry_count =
     \<lparr>tm_schema_version = CONTENT_PROOF_MANIFEST_VERSION, tm_entry_count = entry_count,
      tm_sha256 = replicate 32 0\<rparr>"

definition staging_intent_len ::
  "transaction_id \<Rightarrow> path \<Rightarrow> bytes \<Rightarrow> u64 option \<Rightarrow> allowance_error + u64" where
  "staging_intent_len t p fs reverses =
     (case evidence_new_staging p (Some fs) 0 0 (Some 0) 0 of
        None \<Rightarrow> Inl (AllowanceMissing ''a confined seal path'')
      | Some evidence \<Rightarrow>
          frames_of (frame_len (PermissionIntent t ANY_MUTATION_ID evidence 0 0 reverses)) Inr)"

record begin_projection =
  bp_forward :: u64
  bp_rolled_back :: u64

definition begin_needed :: "begin_projection \<Rightarrow> u64" where
  "begin_needed b = bp_forward b + bp_rolled_back b"

definition project_begin :: "staging_metadata \<Rightarrow> allowance_error + begin_projection" where
  "project_begin m =
     (let t = ANY_TRANSACTION; parent = sl_relative_path (sm_source_parent m); fs = sm_filesystem_id m
      in frames_of (frame_len (PermissionApplied t ANY_MUTATION_ID)) (\<lambda>resolution.
         frames_of (frame_len (StagingBegin t m)) (\<lambda>opened.
         frames_of (states_len t [ParentSealIntent, ParentSealed]) (\<lambda>sealed.
         and_then (staging_intent_len t parent fs None) (\<lambda>intent.
         frames_of (states_len t [RestoreIntent, Restored]) (\<lambda>restored.
         and_then (staging_intent_len t parent fs (Some ANY_MUTATION_ID)) (\<lambda>inverse.
         Inr \<lparr>bp_forward = opened + sealed + intent + resolution,
              bp_rolled_back = restored + inverse + resolution\<rparr>)))))))"

record staging_shape =
  ss_source_parent :: nat
  ss_source_basename :: nat
  ss_destination_parent :: nat
  ss_destination_basename :: nat
  ss_filesystem_id :: nat
  ss_reclamation_id :: "nat option"
  ss_recovery_anchor :: "nat option"

definition shape_of :: "staging_metadata \<Rightarrow> staging_shape" where
  "shape_of m =
     \<lparr>ss_source_parent = length (sl_relative_path (sm_source_parent m)),
      ss_source_basename = length (sm_source_basename m),
      ss_destination_parent = length (sl_relative_path (sm_destination_parent m)),
      ss_destination_basename = length (sm_destination_basename m),
      ss_filesystem_id = length (sm_filesystem_id m),
      ss_reclamation_id = map_option (\<lambda>a. length (reclamation_id a)) (sm_production_association m),
      ss_recovery_anchor = map_option length (sm_recovery_anchor m)\<rparr>"

text \<open>The placeholder bytes \<open>"s"\<close>, \<open>"d"\<close> and \<open>"x"\<close>, and the placeholder identities.\<close>

definition fill_s :: u8 where "fill_s = 115"
definition fill_d :: u8 where "fill_d = 100"
definition fill_x :: u8 where "fill_x = 120"

definition shape_identity :: "u64 \<Rightarrow> strong_object_identity" where
  "shape_identity inode = \<lparr>si_device = 1, si_inode = inode, si_incarnation = inode, si_mount_id = 1\<rparr>"

definition shape_metadata :: "staging_shape \<Rightarrow> staging_metadata option" where
  "shape_metadata s =
     (let fs = replicate (ss_filesystem_id s) fill_x
      in Option.bind (locator_new (replicate (ss_source_parent s) fill_s) fs) (\<lambda>source.
         Option.bind (locator_new (replicate (ss_destination_parent s) fill_d) fs) (\<lambda>destination.
         Option.bind (staging_metadata_new source (shape_identity 1) (replicate (ss_source_basename s) fill_s)
             (shape_identity 2) destination (shape_identity 3) (replicate (ss_destination_basename s) fill_d)
             Ext4 PermissionSeal) (\<lambda>m.
         Option.bind (case ss_reclamation_id s of
             None \<Rightarrow> Some m
           | Some n \<Rightarrow> map_option (with_production_association m)
               (production_association_new (replicate n fill_x))) (\<lambda>m.
         case ss_recovery_anchor s of
           None \<Rightarrow> Some m
         | Some 0 \<Rightarrow> None
         | Some (Suc n) \<Rightarrow> with_recovery_anchor m (slash # replicate n fill_x))))))"

record tree_shape =
  ts_directories :: u64
  ts_directory_path_bytes :: u64
  ts_entries :: u64

record tree_projection =
  tp_forward :: u64
  tp_committed :: u64
  tp_rolled_back :: u64

definition tree_needed :: "tree_projection \<Rightarrow> u64" where
  "tree_needed p = max (tp_forward p + tp_committed p) (tp_rolled_back p)"

text \<open>The closure \<open>per_tree\<close>: one permission frame pair per directory under the root.\<close>

definition per_tree ::
  "bytes \<Rightarrow> tree_shape \<Rightarrow> u64 \<Rightarrow> path \<Rightarrow> u64 option \<Rightarrow> allowance_error + u64" where
  "per_tree fs tree resolution root reverses =
     and_then (staging_intent_len ANY_TRANSACTION (path_join root []) fs reverses) (\<lambda>one.
       Inr (ts_directories tree * (one + resolution) + ts_directory_path_bytes tree))"

definition sized_sidecar :: tree_sidecar_commitment where
  "sized_sidecar = \<lparr>sc_transaction = ANY_TRANSACTION, sc_segment_count = 0, sc_record_count = 0,
     sc_payload_bytes = 0, sc_file_bytes = 0, sc_root_sha256 = replicate 32 0\<rparr>"

definition project_tree :: "staging_metadata \<Rightarrow> tree_shape \<Rightarrow> allowance_error + tree_projection" where
  "project_tree m tree =
     (let t = ANY_TRANSACTION; fs = sm_filesystem_id m;
          parent = sl_relative_path (sm_source_parent m);
          manifest = sized_manifest (ts_entries tree);
          commitment = purge_commitment_exact m manifest
      in frames_of (frame_len (PermissionApplied t ANY_MUTATION_ID)) (\<lambda>resolution.
         and_then (per_tree fs tree resolution (source_root m) None) (\<lambda>seals.
         and_then (per_tree fs tree resolution (source_root m) (Some ANY_MUTATION_ID)) (\<lambda>rollback.
         and_then (per_tree fs tree resolution (destination_root m) (Some ANY_MUTATION_ID)) (\<lambda>undo.
         and_then (staging_intent_len t parent fs (Some ANY_MUTATION_ID)) (\<lambda>parent_intent.
         let parent_inverse = parent_intent + resolution in
         frames_of (frame_len (TreeManifestSidecarComplete t manifest sized_sidecar)) (\<lambda>complete.
         frames_of (frame_len (RenameIntentRecord t)) (\<lambda>rename.
         frames_of (frame_len (RenameOutcome t (AppliedAndParentsSynced (sm_root_identity m)))) (\<lambda>outcome.
         frames_of (states_len t [TreeSealIntent, TreeSealed]) (\<lambda>tree_states.
         let to_rename = seals + complete + rename + outcome + tree_states in
         frames_of (states_len t [StagedUnverified, StagedSealed, SourceParentRestoreIntent,
           SourceParentRestored, VerifiedCommitted]) (\<lambda>commit_states.
         frames_of (states_len t [UndoIntent, UndoModesRestored, UndoRenameIntent, Restored]) (\<lambda>undo_states.
         frames_of (frame_len (UndoRenameOutcome t (UndoAppliedAndParentsSynced (sm_root_identity m)))) (\<lambda>undone.
         frames_of (frame_len (PurgeAuthorized t commitment)) (\<lambda>authorized.
         frames_of (frame_len (PurgeClaimed t commitment)) (\<lambda>claimed.
         frames_of (frame_len (PurgeProgress t (ts_entries tree) [])) (\<lambda>progress.
         frames_of (states_len t [PurgeOutcome, Purged]) (\<lambda>purge_states.
         frames_of (states_len t [RestoreIntent, Restored]) (\<lambda>restored.
         Inr \<lparr>tp_forward = to_rename + parent_inverse + commit_states,
              tp_committed = max (undo + undo_states + undone) (authorized + claimed + progress + purge_states),
              tp_rolled_back = to_rename + rollback + parent_inverse + restored\<rparr>))))))))))))))))))"

section \<open>Room to retry an inverse\<close>

text \<open>Where the retry of an inverse names its object; \<open>None\<close> inside is the \<open>continue\<close>.\<close>

definition retry_path ::
  "staging_metadata \<Rightarrow> transaction_state \<Rightarrow> durable_permission \<Rightarrow> allowance_error + path option" where
  "retry_path m state seal =
     (let tree = (dp_phase seal = TreeSealIntent); p = ev_relative_path (dp_evidence seal)
      in if (state = UndoIntent \<or> state = Quarantined) \<and> tree
         then (case path_strip_prefix p (source_root m) of
                 None \<Rightarrow> Inl (SealOutsideRoot (dp_mutation_id seal))
               | Some rest_path \<Rightarrow> Inr (Some (path_join (destination_root m) rest_path)))
         else if state = SourceParentRestoreIntent \<and> tree then Inr None
         else Inr (Some p))"

definition retry_states_len :: "seal_wal \<Rightarrow> transaction_id \<Rightarrow> staging_metadata \<Rightarrow> transaction_state \<Rightarrow>
  allowance_error + u64" where
  "retry_states_len w t m state =
     (if state = RestoreIntent then frames_of (states_len t [Restored]) Inr
      else if state = SourceParentRestoreIntent
      then frames_of (states_len t [SourceParentRestored, VerifiedCommitted]) (\<lambda>states.
           and_then (undo_allowance w t) (\<lambda>undo. and_then (purge_allowance w t True) (\<lambda>purge.
             Inr (states + max undo purge))))
      else if state = Quarantined then Inr 0
      else if state = UndoIntent
      then frames_of (states_len t [UndoModesRestored, UndoRenameIntent, Restored]) (\<lambda>states.
           frames_of (frame_len (UndoRenameOutcome t (UndoAppliedAndParentsSynced (sm_root_identity m))))
             (\<lambda>outcome. Inr (states + outcome)))
      else Inl (AllowanceUnsettled state))"

definition reversed_seals :: "durable_permission list \<Rightarrow> u64 list" where
  "reversed_seals records = List.map_filter dp_reverses (filter (\<lambda>r. dp_application r = Applied) records)"

definition owes_retry :: "durable_permission list \<Rightarrow> bool" where
  "owes_retry records \<longleftrightarrow>
     list_ex (\<lambda>r. dp_application r = ConfirmedNotApplied \<and>
       (case dp_reverses r of None \<Rightarrow> False | Some original \<Rightarrow> original \<notin> set (reversed_seals records))) records"

definition retry_room :: "seal_wal \<Rightarrow> transaction_id \<Rightarrow> allowance_error + (u64 \<times> u64) option" where
  "retry_room w t =
     (case map_of (wl_states w) t of
        None \<Rightarrow> Inr None
      | Some state \<Rightarrow>
          records_of (wal_records w t) (\<lambda>records.
          if \<not> owes_retry records then Inr None
          else required ''staging metadata'' (map_of (wl_staging w) t) (\<lambda>m.
            frames_of (frame_len (PermissionApplied t ANY_MUTATION_ID)) (\<lambda>resolution.
            and_then (fold_r (\<lambda>seal needed.
                and_then (retry_path m state seal) (\<lambda>found.
                case found of
                  None \<Rightarrow> Inr needed
                | Some p \<Rightarrow>
                    and_then (staging_intent_len t p (sm_filesystem_id m) (Some ANY_MUTATION_ID)) (\<lambda>n.
                    Inr (needed + (n + resolution)))))
              (filter (\<lambda>r. dp_reverses r = None \<and> dp_application r = Applied \<and>
                 dp_mutation_id r \<notin> set (reversed_seals records)) records) 0) (\<lambda>inverses.
            and_then (retry_states_len w t m state) (\<lambda>states.
            frames_of (states_len t [RecoveryRequired]) (\<lambda>closed.
            and_then (headroom w (Some t)) (\<lambda>room.
            Inr (Some (inverses + states + closed, room))))))))))"

section \<open>Room without a lease\<close>

record wal_room =
  wr_limit :: u64
  wr_committed :: u64
  wr_reserved :: u64
  wr_reclaimable :: u64

definition room_empty :: wal_room where
  "room_empty = \<lparr>wr_limit = of_nat MAX_WAL_LEN, wr_committed = 0, wr_reserved = 0, wr_reclaimable = 0\<rparr>"

definition available :: "wal_room \<Rightarrow> u64" where
  "available r = sat_sub (sat_sub (wr_limit r) (wr_committed r)) (wr_reserved r)"

definition available_once_compacted :: "wal_room \<Rightarrow> u64" where
  "available_once_compacted r =
     sat_sub (sat_sub (wr_limit r) (sat_sub (wr_committed r) (wr_reclaimable r))) (wr_reserved r)"

datatype wal_room_error =
  RoomReplay replay_error
  | RoomResume append_error
  | RoomUnsettled allowance_error

definition room_in :: "bytes \<Rightarrow> wal_room_error + wal_room" where
  "room_in bs =
     (if length bs > MAX_WAL_LEN then Inl (RoomReplay (TooLarge MAX_WAL_LEN))
      else case parse_frames bs of
        Inl e \<Rightarrow> Inl (RoomReplay e)
      | Inr parsed \<Rightarrow>
          (let committed = pf_committed_len parsed
           in case replay_records (pf_records parsed) bs of
                Inl e \<Rightarrow> Inl (RoomReplay e)
              | Inr rp0 \<Rightarrow>
                  let rp = rp0\<lparr>rp_committed_len := committed, rp_frame_bytes := frame_bytes (pf_spans parsed)\<rparr>;
                      reclaimable = compaction_reclaim rp (compaction_dropped_transactions rp)
                  in case resume (take committed bs) rp of
                       Inl e \<Rightarrow> Inl (RoomResume e)
                     | Inr w \<Rightarrow>
                         (case reserved w None of
                            Inl e \<Rightarrow> Inl (RoomUnsettled e)
                          | Inr held \<Rightarrow>
                              Inr \<lparr>wr_limit = of_nat (wl_max_wal_len w), wr_committed = of_nat (wl_committed_len w),
                                   wr_reserved = held, wr_reclaimable = of_nat reclaimable\<rparr>)))"

end
