(* ===== verification/Wal_Allowance_Props.thy ===== *)
theory Wal_Allowance_Props
  imports Wal_Allowance
begin

text \<open>
  What the measures are worth: a settled transaction that was left its allowance can write the rest
  of its life, the room measured without a lease is the room a lease finds, and the closed form a
  planned tree is admitted by is the sum over its directories.
\<close>

section \<open>Durable appends\<close>

text \<open>A step that was written: what it adds to the file, and what it makes of the views.\<close>

definition extends :: "seal_wal \<Rightarrow> nat \<Rightarrow> (transaction_id \<Rightarrow> replay_building) \<Rightarrow> ('e, 'a) wal_op_result \<Rightarrow> bool" where
  "extends w n v res \<longleftrightarrow>
     (\<exists>x. fst res = Inr x) \<and> view (snd res) = v \<and> \<not> wl_poisoned (snd res) \<and>
     wl_committed_len (snd res) = wl_committed_len w + n \<and> wl_max_wal_len (snd res) = wl_max_wal_len w"

lemma frame_len_Inr:
  assumes "frame_len r = Inr n"
  obtains f where "encode_frame r = Inr f" "n = of_nat (length f)" "unat n = length f"
    "HEADER_LEN \<le> length f" "length f \<le> HEADER_LEN + MAX_PAYLOAD_LEN"
proof -
  from assms obtain f where f: "encode_frame r = Inr f" "n = of_nat (length f)"
    by (auto simp: frame_len_def and_then_Inr_iff)
  from f(1) obtain cf where "f = frame_of cf" "valid_frame cf" by (rule encode_frame_cases)
  then have len: "HEADER_LEN \<le> length f" "length f \<le> HEADER_LEN + MAX_PAYLOAD_LEN"
    by (simp_all add: frame_len_of_def valid_frame_def)
  then have "length f < 2 ^ 64" by (simp add: HEADER_LEN_def MAX_PAYLOAD_LEN_def)
  then show thesis using that f len by (simp add: unat_of_nat)
qed

lemma extends_append:
  assumes "\<not> wl_poisoned w" "frame_len r = Inr n" "wl_committed_len w + unat n \<le> wl_max_wal_len w"
    and "wl_max_wal_len w \<le> MAX_WAL_LEN"
    and "\<And>w1. same_core w1 (upd w1)" "\<And>w1. view (upd w1) = g (view w1)"
  shows "extends w (unat n) (g (view w)) (and_update (append_synced Durable r w) upd)"
proof -
  obtain f where f: "encode_frame r = Inr f" "unat n = length f" "HEADER_LEN \<le> length f"
    "length f \<le> HEADER_LEN + MAX_PAYLOAD_LEN"
    by (rule frame_len_Inr [OF assms(2)])
  define w1 where "w1 = w\<lparr>wl_writer := wl_writer w @ f, wl_committed_len := wl_committed_len w + length f,
    wl_synced_len := wl_committed_len w + length f\<rparr>"
  have sum: "usize_checked_add (wl_committed_len w) (length f) = Some (wl_committed_len w + length f)"
    using assms(3,4) f(2) by (simp add: usize_checked_add_def MAX_WAL_LEN_def)
  then have "extent_new (wl_committed_len w) (length f) \<noteq> None"
    using assms(3,4) f(2-4)
    by (auto simp: extent_new_def MAX_WAL_LEN_def MAX_PAYLOAD_LEN_def HEADER_LEN_def)
  then have "\<exists>ext. append_synced_at Durable r w = (Inr ext, w1)"
    using assms(1,3) f(1,2) sum by (auto simp: append_synced_at_def append_at_def w1_def)
  then have "and_update (append_synced Durable r w) upd = (Inr (), upd w1)"
    by (auto simp: and_update_def append_synced_def)
  then show ?thesis
    using assms(1,5,6) f(2) by (simp add: extends_def w1_def same_core_def)
qed

text \<open>A writer with room for \<open>n\<close> more bytes.\<close>

definition fits :: "seal_wal \<Rightarrow> nat \<Rightarrow> bool" where
  "fits w n \<longleftrightarrow> \<not> wl_poisoned w \<and> wl_committed_len w + n \<le> wl_max_wal_len w \<and> wl_max_wal_len w \<le> MAX_WAL_LEN"

lemma extends_frame:
  assumes "fits w (unat n + k)" "frame_len r = Inr n"
    and "\<And>w1. same_core w1 (upd w1)" "\<And>w1. view (upd w1) = g (view w1)"
  shows "extends w (unat n) (g (view w)) (and_update (append_synced Durable r w) upd)"
  using assms(1) by (intro extends_append assms(2-4)) (simp_all add: fits_def)

lemma extendsE:
  assumes "extends w n v res" "fits w (n + k)"
  obtains x w1 where "res = (Inr x, w1)" "view w1 = v" "fits w1 k" "wl_committed_len w1 = wl_committed_len w + n"
  using assms by (cases res) (auto simp: extends_def fits_def)

definition set_state :: "transaction_id \<Rightarrow> transaction_state \<Rightarrow> (transaction_id \<Rightarrow> replay_building) \<Rightarrow>
  transaction_id \<Rightarrow> replay_building" where
  "set_state t s v = v(t := (v t)\<lparr>rb_state := Some s\<rparr>)"

lemma extends_state:
  assumes "fits w (unat n + k)" "frame_len r = Inr n"
  shows "extends w (unat n) (set_state t s (view w))
    (and_update (append_synced Durable r w) (\<lambda>w. w\<lparr>wl_states := AList.update t s (wl_states w)\<rparr>))"
  unfolding set_state_def
  by (rule extends_frame [where g = "\<lambda>v. v(t := (v t)\<lparr>rb_state := Some s\<rparr>)", OF assms])
     (simp_all add: same_core_def view_updates)

section \<open>A purge\<close>

lemma purge_op_extends:
  assumes "map_of (wl_staging w) t = Some m" "map_of (wl_manifests w) t = Some mf"
  shows "map_of (wl_states w) t = Some VerifiedCommitted \<Longrightarrow> sm_production_association m = Some r \<Longrightarrow>
      has_content_proof mf \<Longrightarrow> frame_len (PurgeAuthorized t (purge_commitment_exact m mf)) = Inr n \<Longrightarrow>
      fits w (unat n + k) \<Longrightarrow> extends w (unat n) (set_state t Purgeable (view w)) (record_purgeable Durable t mf w)"
    and "map_of (wl_states w) t = Some Purgeable \<Longrightarrow>
      frame_len (PurgeClaimed t (purge_commitment_exact m mf)) = Inr n \<Longrightarrow>
      fits w (unat n + k) \<Longrightarrow> extends w (unat n) (set_state t PurgeIntent (view w)) (record_purge_intent Durable t w)"
    and "map_of (wl_states w) t = Some PurgeIntent \<Longrightarrow> map_of (wl_purge_progress w) t = None \<Longrightarrow>
      frame_len (PurgeProgress t (tm_entry_count mf) []) = Inr n \<Longrightarrow> fits w (unat n + k) \<Longrightarrow>
      extends w (unat n) ((view w)(t := (view w t)\<lparr>rb_purge_removed_entries := tm_entry_count mf,
        rb_purge_last_path := Some []\<rparr>)) (record_purge_removed Durable t (tm_entry_count mf) w)"
  using assms
  by (simp_all add: record_purgeable_def record_purge_intent_def record_purge_removed_def extends_state)
     (rule extends_frame [where g = "\<lambda>v. v(t := (v t)\<lparr>rb_purge_removed_entries := tm_entry_count mf,
        rb_purge_last_path := Some []\<rparr>)"], simp_all add: same_core_def view_updates)

lemma purge_transition_extends:
  assumes "map_of (wl_staging w) t = Some m" "map_of (wl_manifests w) t = Some mf"
    and "\<not> has_unresolved (wal_ledger w t)" "fits w (unat n + k)"
  shows "map_of (wl_states w) t = Some PurgeIntent \<Longrightarrow> purge_removed w t = tm_entry_count mf \<Longrightarrow>
      frame_len (State t PurgeOutcome) = Inr n \<Longrightarrow>
      extends w (unat n) (set_state t PurgeOutcome (view w)) (record_purge_outcome Durable t w)"
    and "map_of (wl_states w) t = Some PurgeOutcome \<Longrightarrow> frame_len (State t Purged) = Inr n \<Longrightarrow>
      extends w (unat n) (set_state t Purged (view w)) (record_purged Durable t w)"
  using assms extends_state [OF assms(4)]
  by (simp_all add: record_purge_outcome_def record_purged_def transition_staging_def transition_inner_def
      wal_ledger_answers phase_completion_is_recorded_def completed_phase_def valid_transition_def Let_def)

lemma purge_allowance_Inr:
  assumes "purge_allowance w t True = Inr n" "map_of (wl_staging w) t = Some m" "map_of (wl_manifests w) t = Some mf"
  obtains a c p o' d where "frame_len (PurgeAuthorized t (purge_commitment_exact m mf)) = Inr a"
    "frame_len (PurgeClaimed t (purge_commitment_exact m mf)) = Inr c"
    "frame_len (PurgeProgress t (tm_entry_count mf) []) = Inr p"
    "frame_len (State t PurgeOutcome) = Inr o'" "frame_len (State t Purged) = Inr d"
    "unat n = unat a + (unat c + (unat p + (unat o' + unat d)))"
proof -
  from assms obtain a c p o' d where len: "frame_len (PurgeAuthorized t (purge_commitment_exact m mf)) = Inr a"
    "frame_len (PurgeClaimed t (purge_commitment_exact m mf)) = Inr c"
    "frame_len (PurgeProgress t (tm_entry_count mf) []) = Inr p"
    "frame_len (State t PurgeOutcome) = Inr o'" "frame_len (State t Purged) = Inr d"
    "n = a + c + p + (o' + d)"
    by (auto simp: purge_allowance_def required_def frames_of_def states_len_def and_then_Inr_iff Let_def
        split: sum.splits)
  have bound: "unat x < 2 ^ 21" if "frame_len r = Inr x" for r x
    using that by (rule frame_len_Inr) (simp add: HEADER_LEN_def MAX_PAYLOAD_LEN_def)
  note b = bound [OF len(1)] bound [OF len(2)] bound [OF len(3)] bound [OF len(4)] bound [OF len(5)]
  have "unat n = unat a + (unat c + (unat p + (unat o' + unat d)))"
    unfolding len(6) using b by (simp add: unat_word_ariths)
  with len show thesis using that by blast
qed

lemma view_path [simp]: "rb_purge_last_path (view w t) = map_option snd (map_of (wl_purge_progress w) t)"
  by (simp add: view_def)

lemma view_field_eqs:
  assumes "view w1 = v"
  shows "map_of (wl_states w1) t = rb_state (v t)" "map_of (wl_staging w1) t = rb_staging (v t)"
    "map_of (wl_manifests w1) t = rb_tree_manifest (v t)" "wal_ledger w1 t = rb_ledger (v t)"
    "purge_removed w1 t = rb_purge_removed_entries (v t)"
    "map_of (wl_purge_progress w1) t = None \<longleftrightarrow> rb_purge_last_path (v t) = None"
    "map_of (wl_undo_rename_outcomes w1) t = rb_undo_rename_outcome (v t)"
  by (simp_all add: view_def flip: assms)

text \<open>C30: A purge fits the allowance it was left. Take a committed staging transaction that may be
  purged, with nothing unresolved and no removal counted (as in every WAL resumed in that state), and
  a WAL with room for the purge allowance: when every frame is made durable, the authorization, the
  claim, the count, the outcome and the closing record are all written, the transaction ends purged,
  and the file has grown by exactly the allowance.\<close>

theorem purge_fits_allowance:
  assumes "\<not> wl_poisoned w" "wl_max_wal_len w \<le> MAX_WAL_LEN" "\<not> has_unresolved (wal_ledger w t)"
    and "map_of (wl_states w) t = Some VerifiedCommitted" "map_of (wl_purge_progress w) t = None"
    and "map_of (wl_staging w) t = Some m" "sm_production_association m = Some r"
    and "map_of (wl_manifests w) t = Some mf" "has_content_proof mf"
    and "purge_allowance w t True = Inr n" "wl_committed_len w + unat n \<le> wl_max_wal_len w"
  shows "\<exists>w1 w2 w3 w4 w5.
    record_purgeable Durable t mf w = (Inr (), w1) \<and> record_purge_intent Durable t w1 = (Inr (), w2) \<and>
    record_purge_removed Durable t (tm_entry_count mf) w2 = (Inr (), w3) \<and>
    record_purge_outcome Durable t w3 = (Inr (), w4) \<and> record_purged Durable t w4 = (Inr (), w5) \<and>
    map_of (wl_states w5) t = Some Purged \<and> wl_committed_len w5 = wl_committed_len w + unat n"
proof -
  obtain a c p o' d where len: "frame_len (PurgeAuthorized t (purge_commitment_exact m mf)) = Inr a"
    "frame_len (PurgeClaimed t (purge_commitment_exact m mf)) = Inr c"
    "frame_len (PurgeProgress t (tm_entry_count mf) []) = Inr p"
    "frame_len (State t PurgeOutcome) = Inr o'" "frame_len (State t Purged) = Inr d"
    "unat n = unat a + (unat c + (unat p + (unat o' + unat d)))"
    by (rule purge_allowance_Inr [OF assms(10,6,8)])
  have fits: "fits w (unat a + (unat c + (unat p + (unat o' + (unat d + 0)))))"
    using assms(1,2,11) by (simp add: fits_def len(6))
  obtain w1 where w1: "record_purgeable Durable t mf w = (Inr (), w1)"
    "view w1 = set_state t Purgeable (view w)" "fits w1 (unat c + (unat p + (unat o' + (unat d + 0))))"
    "wl_committed_len w1 = wl_committed_len w + unat a"
    by (rule extendsE [OF purge_op_extends(1) [OF assms(6,8,4,7,9) len(1) fits] fits]) auto
  note e1 = view_field_eqs [OF w1(2), of t, unfolded set_state_def, simplified]
  obtain w2 where w2: "record_purge_intent Durable t w1 = (Inr (), w2)"
    "view w2 = set_state t PurgeIntent (view w1)" "fits w2 (unat p + (unat o' + (unat d + 0)))"
    "wl_committed_len w2 = wl_committed_len w1 + unat c"
    by (rule extendsE [OF purge_op_extends(2) [where m = m, OF _ _ e1(1) len(2) w1(3)] w1(3)])
       (use e1 assms in auto)
  note e2 = view_field_eqs [OF w2(2), of t, unfolded set_state_def, simplified]
  obtain w3 where w3: "record_purge_removed Durable t (tm_entry_count mf) w2 = (Inr (), w3)"
    "view w3 = (view w2)(t := (view w2 t)\<lparr>rb_purge_removed_entries := tm_entry_count mf,
        rb_purge_last_path := Some []\<rparr>)" "fits w3 (unat o' + (unat d + 0))"
    "wl_committed_len w3 = wl_committed_len w2 + unat p"
    by (rule extendsE [OF purge_op_extends(3) [where m = m, OF _ _ e2(1) _ len(3) w2(3)] w2(3)])
       (use e1 e2 assms in auto)
  note e3 = view_field_eqs [OF w3(2), of t, simplified]
  obtain w4 where w4: "record_purge_outcome Durable t w3 = (Inr (), w4)"
    "view w4 = set_state t PurgeOutcome (view w3)" "fits w4 (unat d + 0)"
    "wl_committed_len w4 = wl_committed_len w3 + unat o'"
    by (rule extendsE [OF purge_transition_extends(1) [where m = m and mf = mf, OF _ _ _ w3(3)] w3(3)])
       (use e1 e2 e3 assms len(4) in auto)
  note e4 = view_field_eqs [OF w4(2), of t, unfolded set_state_def, simplified]
  obtain w5 where w5: "record_purged Durable t w4 = (Inr (), w5)"
    "view w5 = set_state t Purged (view w4)" "wl_committed_len w5 = wl_committed_len w4 + unat d"
    by (rule extendsE [OF purge_transition_extends(2) [where m = m and mf = mf, OF _ _ _ w4(3)] w4(3)])
       (use e1 e2 e3 e4 assms len(5) in auto)
  have "map_of (wl_states w5) t = Some Purged"
    using view_field_eqs(1) [OF w5(2), of t] by (simp add: set_state_def)
  moreover have "wl_committed_len w5 = wl_committed_len w + unat n"
    using w1(4) w2(4) w3(4) w4(4) w5(3) len(6) by simp
  ultimately show ?thesis using w1(1) w2(1) w3(1) w4(1) w5(1) by blast
qed

definition sample_locator :: "u8 \<Rightarrow> staging_locator" where
  "sample_locator b = \<lparr>sl_relative_path = [b], sl_filesystem_id = [102, 115]\<rparr>"

definition sample_metadata :: staging_metadata where
  "sample_metadata = \<lparr>sm_source_parent = sample_locator 97, sm_source_parent_identity = shape_identity 1,
     sm_source_basename = [98], sm_root_identity = shape_identity 2,
     sm_destination_parent = sample_locator 116, sm_destination_parent_identity = shape_identity 3,
     sm_destination_basename = [99], sm_backend = Ext4, sm_source_parent_strategy = PermissionSeal,
     sm_production_association = Some (ProductionAssociation [114]), sm_recovery_anchor = Some [47, 109]\<rparr>"

definition sample_committed :: seal_wal where
  "sample_committed = (from_validated [] 0 MAX_WAL_LEN)\<lparr>wl_states := [(sample_id, VerifiedCommitted)],
     wl_staging := [(sample_id, sample_metadata)], wl_manifests := [(sample_id, sized_manifest 3)]\<rparr>"

lemmas frame_eval = encode_frame_def encode_record_def put_all.simps put_then_def put_raw_def put_u8_def put_tid_def
  put_u16_def put_u32_def put_u64_def put_bytes_def MAX_PAYLOAD_LEN_def frame_payload_def HEADER_LEN_def
  encode_commitment_def encode_locator_def encode_strong_identity_def encode_manifest_def

lemma sample_allowance: "\<exists>n. purge_allowance sample_committed sample_id True = Inr n \<and> unat n \<le> 1000"
  by (simp add: purge_allowance_def required_def frames_of_def states_len_def frame_len_def frame_eval
      sample_committed_def sample_metadata_def sample_locator_def sized_manifest_def shape_identity_def sample_id_def
      purge_commitment_exact_def from_validated_def Let_def)

theorem purge_fits_allowance_witness:
  "\<exists>w1 w4 w5. record_purgeable Durable sample_id (sized_manifest 3) sample_committed = (Inr (), w1) \<and>
     record_purged Durable sample_id w4 = (Inr (), w5) \<and> map_of (wl_states w5) sample_id = Some Purged \<and> wl_committed_len w5 \<le> 1000"
proof -
  obtain n where n: "purge_allowance sample_committed sample_id True = Inr n" "unat n \<le> 1000"
    using sample_allowance by blast
  have "\<not> wl_poisoned sample_committed" "wl_max_wal_len sample_committed \<le> MAX_WAL_LEN"
    "\<not> has_unresolved (wal_ledger sample_committed sample_id)"
    "map_of (wl_states sample_committed) sample_id = Some VerifiedCommitted"
    "map_of (wl_purge_progress sample_committed) sample_id = None"
    "map_of (wl_staging sample_committed) sample_id = Some sample_metadata"
    "sm_production_association sample_metadata = Some (ProductionAssociation [114])"
    "map_of (wl_manifests sample_committed) sample_id = Some (sized_manifest 3)"
    "has_content_proof (sized_manifest 3)" "wl_committed_len sample_committed = 0"
    "wl_committed_len sample_committed + unat n \<le> wl_max_wal_len sample_committed"
    using n(2)
    by (simp_all add: sample_committed_def from_validated_def wal_ledger_def ledger_default_answers
        sample_metadata_def sized_manifest_def has_content_proof_def MAX_WAL_LEN_def)
  from purge_fits_allowance [OF this(1-9) n(1) this(11)] this(10) n(2) show ?thesis
    by (metis add_0)
qed

section \<open>The projection of a tree\<close>

text \<open>What the frames of each kind take; only names and paths vary.\<close>

lemma frame_len_intent:
  assumes "frame_len (PermissionIntent t mid ev pre expd rv) = Inr n" "wf_tid t"
    and "ev_filesystem_id ev = Some fs" "ev_generation_or_btime ev \<noteq> None"
  shows "n = of_nat (length (ev_relative_path ev)) + of_nat (length fs) + (if rv = None then 92 else 100)"
proof -
  from assms(4) obtain g where g: "ev_generation_or_btime ev = Some g" by blast
  show ?thesis
    using assms(1-3)
    by (cases rv) (auto simp: g frame_len_def frame_eval wf_tid_def split: if_splits)
qed

lemma frame_len_fixed:
  assumes "wf_tid t"
  shows "frame_len (State t s) = Inr 38" "frame_len (PermissionApplied t mid) = Inr 45"
    "frame_len (RenameIntentRecord t) = Inr 37" "frame_len (RenameOutcome t out) = Inr 70"
    "wf_manifest mf \<Longrightarrow> length (sc_root_sha256 c) = 32 \<Longrightarrow> frame_len (TreeManifestSidecarComplete t mf c) = Inr 143"
  using assms
  by (cases out; simp add: frame_len_def frame_eval encode_sidecar_def wf_tid_def wf_manifest_def)+

text \<open>The records of a list, and the frame pair of each permission mutation.\<close>

definition records_len :: "seal_record list \<Rightarrow> frame_error + u64" where
  "records_len rs = fold_r (\<lambda>r total. and_then (frame_len r) (\<lambda>n. Inr (total + n))) rs 0"

definition mutation_records :: "permission_intent list \<Rightarrow> seal_record list" where
  "mutation_records ps = concat (map (\<lambda>i. [intent_record i, PermissionApplied (pi_transaction i) (pi_mutation_id i)]) ps)"

text \<open>An intent of the transaction on the directory at \<open>p\<close>: a seal, or an inverse.\<close>

definition names_path :: "transaction_id \<Rightarrow> bytes \<Rightarrow> bool \<Rightarrow> path \<Rightarrow> permission_intent \<Rightarrow> bool" where
  "names_path t fs reversing p i \<longleftrightarrow>
     pi_transaction i = t \<and> ev_relative_path (pi_evidence i) = p \<and>
     ev_filesystem_id (pi_evidence i) = Some fs \<and> ev_generation_or_btime (pi_evidence i) \<noteq> None \<and>
     (pi_reverses i \<noteq> None \<longleftrightarrow> reversing)"

lemma records_len_Inr:
  assumes "records_len rs = Inr n"
  shows "n = sum_list (map (\<lambda>r. projr (frame_len r)) rs)" "\<forall>r\<in>set rs. \<exists>k. frame_len r = Inr k"
proof -
  have "fold_r (\<lambda>r total. and_then (frame_len r) (\<lambda>n. Inr (total + n))) rs a = Inr n \<Longrightarrow>
    n = a + sum_list (map (\<lambda>r. projr (frame_len r)) rs) \<and> (\<forall>r\<in>set rs. \<exists>k. frame_len r = Inr k)" for a
    by (induction rs arbitrary: a) (fastforce simp: and_then_Inr_iff add.assoc)+
  from this [of 0] assms show "n = sum_list (map (\<lambda>r. projr (frame_len r)) rs)"
    "\<forall>r\<in>set rs. \<exists>k. frame_len r = Inr k" by (simp_all add: records_len_def)
qed

lemma length_path_join: "\<not> is_absolute rel \<Longrightarrow> length (path_join root rel) = length (path_join root []) + length rel"
  by (simp add: path_join_def is_absolute_def)

lemma staging_intent_len_Inr:
  assumes "staging_intent_len ANY_TRANSACTION p fs rv = Inr n"
  shows "n = of_nat (length p) + of_nat (length fs) + (if rv = None then 92 else 100)"
proof -
  from assms obtain ev where ev: "evidence_new_staging p (Some fs) 0 0 (Some 0) 0 = Some ev"
    "frame_len (PermissionIntent ANY_TRANSACTION ANY_MUTATION_ID ev 0 0 rv) = Inr n"
    by (auto simp: staging_intent_len_def frames_of_def split: option.splits sum.splits)
  then have "ev_relative_path ev = p" "ev_filesystem_id ev = Some fs" "ev_generation_or_btime ev \<noteq> None"
    by (auto simp: evidence_new_staging_def evidence_new_inner_def split: if_splits)
  with frame_len_intent [OF ev(2)] show ?thesis by (simp add: wf_tid_def ANY_TRANSACTION_def)
qed

lemma mutations_len:
  assumes "list_all2 (\<lambda>rel i. names_path t fs reversing (path_join root rel) i) rels ps"
    and "list_all (\<lambda>rel. \<not> is_absolute rel) rels" "wf_tid t"
    and "\<forall>r\<in>set (mutation_records ps). \<exists>k. frame_len r = Inr k"
  shows "sum_list (map (\<lambda>r. projr (frame_len r)) (mutation_records ps)) =
    of_nat (length rels) * (of_nat (length (path_join root [])) + of_nat (length fs) + (if reversing then 100 else 92) + 45) +
    of_nat (sum_list (map length rels))"
  using assms
proof (induction rule: list_all2_induct)
  case (Cons rel rels i ps)
  then obtain k where "frame_len (intent_record i) = Inr k" by (auto simp: mutation_records_def)
  then have "projr (frame_len (intent_record i)) =
      of_nat (length (path_join root [])) + of_nat (length rel) + of_nat (length fs) + (if reversing then 100 else 92)"
    using Cons.hyps(1) Cons.prems(1,2) frame_len_intent [of t "pi_mutation_id i" "pi_evidence i" _ _ "pi_reverses i" k fs]
    by (auto simp: intent_record_def names_path_def length_path_join)
  moreover have "pi_transaction i = t" using Cons.hyps(1) by (simp add: names_path_def)
  ultimately show ?case
    using Cons by (simp add: mutation_records_def frame_len_fixed algebra_simps)
qed (simp add: mutation_records_def)

text \<open>The frames of a staging from the first seal of its tree to its commit, and of one whose rename
  is confirmed not applied and that is rolled back.\<close>

definition staged_forward :: "transaction_id \<Rightarrow> staging_metadata \<Rightarrow> permission_intent list \<Rightarrow>
  durable_tree_manifest \<Rightarrow> tree_sidecar_commitment \<Rightarrow> permission_intent \<Rightarrow> seal_record list" where
  "staged_forward t m seals mf c parent =
     [State t TreeSealIntent] @ mutation_records seals @
     [TreeManifestSidecarComplete t mf c, State t TreeSealed, RenameIntentRecord t,
      RenameOutcome t (AppliedAndParentsSynced (sm_root_identity m)), State t StagedUnverified, State t StagedSealed,
      State t SourceParentRestoreIntent] @ mutation_records [parent] @
     [State t SourceParentRestored, State t VerifiedCommitted]"

definition staged_rollback :: "transaction_id \<Rightarrow> staging_metadata \<Rightarrow> permission_intent list \<Rightarrow>
  durable_tree_manifest \<Rightarrow> tree_sidecar_commitment \<Rightarrow> permission_intent list \<Rightarrow> permission_intent \<Rightarrow> seal_record list" where
  "staged_rollback t m seals mf c backs parent =
     [State t TreeSealIntent] @ mutation_records seals @
     [TreeManifestSidecarComplete t mf c, State t TreeSealed, RenameIntentRecord t,
      RenameOutcome t (ConfirmedNotAppliedAtSource (sm_root_identity m)), State t RestoreIntent] @
     mutation_records backs @ mutation_records [parent] @ [State t Restored]"

lemma parent_len:
  assumes "names_path t fs True p i" "wf_tid t" "\<forall>r\<in>set (mutation_records [i]). \<exists>k. frame_len r = Inr k"
  shows "sum_list (map (\<lambda>r. projr (frame_len r)) (mutation_records [i])) = of_nat (length p) + of_nat (length fs) + 145"
proof -
  from assms(3) obtain k where k: "frame_len (intent_record i) = Inr k" by (auto simp: mutation_records_def)
  then have "k = of_nat (length p) + of_nat (length fs) + 100"
    using assms(1,2) frame_len_intent [of t "pi_mutation_id i" "pi_evidence i" _ _ "pi_reverses i" k fs]
    by (auto simp: intent_record_def names_path_def)
  then show ?thesis using assms(1,2) k by (simp add: mutation_records_def frame_len_fixed names_path_def)
qed

lemma frames_of_Inr_iff: "frames_of x f = Inr y \<longleftrightarrow> (\<exists>a. x = Inr a \<and> f a = Inr y)"
  by (auto simp: frames_of_def split: sum.splits)

lemma project_tree_Inr:
  assumes "project_tree m tree = Inr p"
  defines "dir root \<equiv> of_nat (length (path_join root [])) + of_nat (length (sm_filesystem_id m))"
  shows "tp_forward p = ts_directories tree * (dir (source_root m) + 92 + 45) + ts_directory_path_bytes tree +
      of_nat (length (sl_relative_path (sm_source_parent m))) + of_nat (length (sm_filesystem_id m)) + 661"
    "tp_rolled_back p = ts_directories tree * (dir (source_root m) + 92 + 45) + ts_directory_path_bytes tree +
      (ts_directories tree * (dir (source_root m) + 100 + 45) + ts_directory_path_bytes tree) +
      of_nat (length (sl_relative_path (sm_source_parent m))) + of_nat (length (sm_filesystem_id m)) + 547"
proof -
  have any: "wf_tid ANY_TRANSACTION" "wf_manifest (sized_manifest n)" "length (sc_root_sha256 sized_sidecar) = 32" for n
    by (simp_all add: wf_tid_def ANY_TRANSACTION_def wf_manifest_def sized_manifest_def sized_sidecar_def)
  have states: "states_len ANY_TRANSACTION ss = Inr (of_nat (length ss) * 38)" for ss
  proof -
    have "fold_r (\<lambda>s total. and_then (frame_len (State ANY_TRANSACTION s)) (\<lambda>n. Inr (total + n))) ss a =
        Inr (a + of_nat (length ss) * 38)" for a
      by (induction ss arbitrary: a) (simp_all add: frame_len_fixed any algebra_simps)
    from this [of 0] show ?thesis by (simp add: states_len_def)
  qed
  from assms(1) obtain one undo_one parent where lens:
    "staging_intent_len ANY_TRANSACTION (path_join (source_root m) []) (sm_filesystem_id m) None = Inr one"
    "staging_intent_len ANY_TRANSACTION (path_join (source_root m) []) (sm_filesystem_id m) (Some ANY_MUTATION_ID) = Inr undo_one"
    "staging_intent_len ANY_TRANSACTION (sl_relative_path (sm_source_parent m)) (sm_filesystem_id m) (Some ANY_MUTATION_ID) = Inr parent"
    "tp_forward p = ts_directories tree * (one + 45) + ts_directory_path_bytes tree + 143 + 37 + 70 + 76 + (parent + 45) + 190"
    "tp_rolled_back p = ts_directories tree * (one + 45) + ts_directory_path_bytes tree + 143 + 37 + 70 + 76 +
       (ts_directories tree * (undo_one + 45) + ts_directory_path_bytes tree) + (parent + 45) + 76"
    unfolding project_tree_def Let_def per_tree_def frames_of_Inr_iff and_then_Inr_iff
    by (auto simp: states frame_len_fixed any)
  show "tp_forward p = ts_directories tree * (dir (source_root m) + 92 + 45) + ts_directory_path_bytes tree +
      of_nat (length (sl_relative_path (sm_source_parent m))) + of_nat (length (sm_filesystem_id m)) + 661"
    and "tp_rolled_back p = ts_directories tree * (dir (source_root m) + 92 + 45) + ts_directory_path_bytes tree +
      (ts_directories tree * (dir (source_root m) + 100 + 45) + ts_directory_path_bytes tree) +
      of_nat (length (sl_relative_path (sm_source_parent m))) + of_nat (length (sm_filesystem_id m)) + 547"
    using lens(4,5) staging_intent_len_Inr [OF lens(1)] staging_intent_len_Inr [OF lens(2)]
      staging_intent_len_Inr [OF lens(3)]
    by (simp_all add: dir_def)
qed

text \<open>C31: The projection a planned tree is admitted by is exact. Take the frames that a staging writes
  from the first seal of its tree to its commit: one seal and its resolution for every directory of
  the plan, named by the joined path, the bound manifest, the rename, and the restored source parent.
  Their total length is the projection's forward part, which is computed from the number of
  directories and the bytes of their relative paths alone; and the frames of a staging that is rolled
  back after a rename confirmed not applied have the projected rollback length.\<close>

theorem tree_projection_exact:
  assumes "project_tree m \<lparr>ts_directories = of_nat (length rels),
      ts_directory_path_bytes = of_nat (sum_list (map length rels)), ts_entries = entries\<rparr> = Inr p"
    and "wf_tid t" "wf_manifest mf" "length (sc_root_sha256 c) = 32"
    and "list_all (\<lambda>rel. \<not> is_absolute rel) rels"
    and "list_all2 (\<lambda>rel i. names_path t (sm_filesystem_id m) False (path_join (source_root m) rel) i) rels seals"
    and "list_all2 (\<lambda>rel i. names_path t (sm_filesystem_id m) True (path_join (source_root m) rel) i) rels backs"
    and "names_path t (sm_filesystem_id m) True (sl_relative_path (sm_source_parent m)) parent"
    and "records_len (staged_forward t m seals mf c parent) = Inr forward"
    and "records_len (staged_rollback t m seals mf c backs parent) = Inr rolled_back"
  shows "tp_forward p = forward \<and> tp_rolled_back p = rolled_back"
proof -
  have ok: "\<forall>r\<in>set (mutation_records ps). \<exists>k. frame_len r = Inr k" if "ps \<in> {seals, backs, [parent]}" for ps
    using records_len_Inr(2) [OF assms(9)] records_len_Inr(2) [OF assms(10)] that
    by (auto simp: staged_forward_def staged_rollback_def)
  note lens = mutations_len [OF assms(6,5,2) ok] mutations_len [OF assms(7,5,2) ok] parent_len [OF assms(8,2) ok]
  note fixed = frame_len_fixed [OF assms(2)] frame_len_fixed(5) [OF assms(2-4)]
  have "forward = of_nat (length rels) * (of_nat (length (path_join (source_root m) [])) +
      of_nat (length (sm_filesystem_id m)) + 92 + 45) + of_nat (sum_list (map length rels)) +
      of_nat (length (sl_relative_path (sm_source_parent m))) + of_nat (length (sm_filesystem_id m)) + 661"
    using records_len_Inr(1) [OF assms(9)] lens
    by (simp add: staged_forward_def fixed add.assoc)
  moreover have "rolled_back = of_nat (length rels) * (of_nat (length (path_join (source_root m) [])) +
      of_nat (length (sm_filesystem_id m)) + 92 + 45) + of_nat (sum_list (map length rels)) +
      (of_nat (length rels) * (of_nat (length (path_join (source_root m) [])) +
      of_nat (length (sm_filesystem_id m)) + 100 + 45) + of_nat (sum_list (map length rels))) +
      of_nat (length (sl_relative_path (sm_source_parent m))) + of_nat (length (sm_filesystem_id m)) + 547"
    using records_len_Inr(1) [OF assms(10)] lens
    by (simp add: staged_rollback_def fixed add.assoc)
  ultimately show ?thesis using project_tree_Inr [OF assms(1)] by (simp add: add.assoc)
qed

definition sample_seal_at :: "u64 \<Rightarrow> path \<Rightarrow> u64 option \<Rightarrow> permission_intent" where
  "sample_seal_at mid p rv = \<lparr>pi_transaction = sample_id, pi_mutation_id = mid,
     pi_evidence = \<lparr>ev_relative_path = p, ev_filesystem_id = Some [102, 115], ev_device = 1, ev_inode = mid,
       ev_generation_or_btime = Some 5, ev_expected_mode = 448\<rparr>,
     pi_pre_mode = 493, pi_expected_mode = 448, pi_reverses = rv\<rparr>"

lemma sample_project:
  "\<exists>p. project_tree sample_metadata \<lparr>ts_directories = of_nat (length [[], [120 :: u8]]),
     ts_directory_path_bytes = of_nat (sum_list (map length [[], [120 :: u8]])), ts_entries = 3\<rparr> = Inr p"
  by (simp add: project_tree_def Let_def frames_of_Inr_iff and_then_Inr_iff per_tree_def staging_intent_len_def
      states_len_def frame_len_def frame_eval sample_metadata_def sample_locator_def sized_manifest_def sized_sidecar_def
      shape_identity_def ANY_TRANSACTION_def source_root_def destination_root_def sm_filesystem_id_def path_join_def
      is_absolute_def slash_def evidence_new_staging_def evidence_new_inner_def is_confined_relative_path_def
      path_components_def seg_components_def dot_def encode_sidecar_def purge_commitment_exact_def
      fold_r.simps is_normal.simps)

lemma sample_records:
  fixes fwd rb :: "seal_record list"
  defines "fwd \<equiv> staged_forward sample_id sample_metadata [sample_seal_at 1 [97, 47, 98, 47] None, sample_seal_at 2 [97, 47, 98, 47, 120] None]
    (sized_manifest 3) sized_sidecar (sample_seal_at 3 [97] (Some 0))"
  defines "rb \<equiv> staged_rollback sample_id sample_metadata [sample_seal_at 1 [97, 47, 98, 47] None, sample_seal_at 2 [97, 47, 98, 47, 120] None]
    (sized_manifest 3) sized_sidecar [sample_seal_at 4 [97, 47, 98, 47] (Some 1), sample_seal_at 5 [97, 47, 98, 47, 120] (Some 2)]
    (sample_seal_at 3 [97] (Some 0))"
  shows "records_len fwd = Inr 951" "\<exists>n. records_len rb = Inr n"
  by (simp_all add: fwd_def rb_def records_len_def staged_forward_def staged_rollback_def mutation_records_def
      intent_record_def sample_seal_at_def frame_len_def frame_eval sample_id_def sample_metadata_def shape_identity_def
      sized_manifest_def sized_sidecar_def encode_sidecar_def)

theorem tree_projection_exact_witness:
  "\<exists>p. project_tree sample_metadata \<lparr>ts_directories = of_nat (length [[], [120 :: u8]]),
     ts_directory_path_bytes = of_nat (sum_list (map length [[], [120 :: u8]])), ts_entries = 3\<rparr> = Inr p \<and>
     tp_forward p = 951"
proof -
  obtain p where p: "project_tree sample_metadata \<lparr>ts_directories = of_nat (length [[], [120 :: u8]]),
     ts_directory_path_bytes = of_nat (sum_list (map length [[], [120 :: u8]])), ts_entries = 3\<rparr> = Inr p"
    using sample_project by blast
  obtain n where n: "records_len (staged_rollback sample_id sample_metadata
    [sample_seal_at 1 [97, 47, 98, 47] None, sample_seal_at 2 [97, 47, 98, 47, 120] None]
    (sized_manifest 3) sized_sidecar [sample_seal_at 4 [97, 47, 98, 47] (Some 1), sample_seal_at 5 [97, 47, 98, 47, 120] (Some 2)]
    (sample_seal_at 3 [97] (Some 0))) = Inr n"
    using sample_records(2) by blast
  have "tp_forward p = 951 \<and> tp_rolled_back p = n"
    by (rule tree_projection_exact [OF p _ _ _ _ _ _ _ sample_records(1) n])
       (simp_all add: wf_tid_def sample_id_def wf_manifest_def sized_manifest_def sized_sidecar_def names_path_def
         sample_seal_at_def sample_metadata_def sample_locator_def sm_filesystem_id_def source_root_def path_join_def
         is_absolute_def slash_def)
  with p show ?thesis by blast
qed

section \<open>Room without a lease\<close>

lemma resume_transaction_same:
  "rp_transactions rp' = rp_transactions rp \<Longrightarrow> rp_ledgers rp' = rp_ledgers rp \<Longrightarrow>
   resume_transaction rp' = resume_transaction rp"
  unfolding resume_transaction_def by (simp only:)

lemma resume_same:
  assumes "rp_transactions rp' = rp_transactions rp" "rp_ledgers rp' = rp_ledgers rp"
    and "rp_committed_len rp' = rp_committed_len rp" "rp_transaction_order rp' = rp_transaction_order rp"
  shows "resume fl rp' = resume fl rp"
  unfolding resume_def by (simp only: assms resume_transaction_same [OF assms(1,2)])

text \<open>C32: A preview measures what a lease finds. The room measured over bytes already read, without
  touching the file, is the room of the writer that a lease on the same file would resume after
  repairing it: the measure succeeds exactly when the lease's does, the limit, the committed length
  and the reserved bytes are the writer's, and what is available is the writer's headroom for a new
  staging. The bytes a compaction would take back are those the lease's own plan announces.\<close>

theorem room_is_lease_headroom:
  assumes "\<And>n b. set_len n b = Inr (take n b)"
  shows "room_in bytes = Inr r \<longleftrightarrow>
    (\<exists>rp fl w held. replay_and_repair set_len bytes = Inr (rp, fl) \<and> resume fl rp = Inr w \<and>
       reserved w None = Inr held \<and> headroom w None = Inr (available r) \<and>
       r = \<lparr>wr_limit = of_nat (wl_max_wal_len w), wr_committed = of_nat (wl_committed_len w), wr_reserved = held,
            wr_reclaimable = of_nat (compaction_reclaim rp (compaction_dropped_transactions rp))\<rparr>)"
proof (cases "length bytes > MAX_WAL_LEN \<or> (\<forall>parsed rp0. parse_frames bytes = Inr parsed \<longrightarrow>
    replay_records (pf_records parsed) bytes \<noteq> Inr rp0)")
  case True
  then show ?thesis
    by (auto simp: room_in_def replay_and_repair_def Let_def and_then_Inr_iff split: sum.splits)
next
  case False
  then obtain parsed rp0 where p: "length bytes \<le> MAX_WAL_LEN" "parse_frames bytes = Inr parsed"
    "replay_records (pf_records parsed) bytes = Inr rp0" by auto
  define c where "c = pf_committed_len parsed"
  define rp where "rp = rp0\<lparr>rp_committed_len := c, rp_frame_bytes := frame_bytes (pf_spans parsed)\<rparr>"
  have c: "c \<le> length bytes" using p(2) by (auto simp: c_def parse_frames_iff)
  obtain rp' where rp': "replay_and_repair set_len bytes = Inr (rp', take c bytes)"
    "rp_transactions rp' = rp_transactions rp" "rp_ledgers rp' = rp_ledgers rp" "rp_committed_len rp' = rp_committed_len rp"
    "rp_transaction_order rp' = rp_transaction_order rp" "rp_frame_bytes rp' = rp_frame_bytes rp"
    using p assms c by (cases "c < length bytes") (auto simp: replay_and_repair_def Let_def rp_def c_def)
  have same: "compaction_reclaim rp' (compaction_dropped_transactions rp') =
      compaction_reclaim rp (compaction_dropped_transactions rp)"
    unfolding compaction_reclaim_def compaction_dropped_transactions_def unfinished_groups_def
    by (simp only: rp'(2-6))
  have "room_in bytes = (case resume (take c bytes) rp of Inl e \<Rightarrow> Inl (RoomResume e)
      | Inr w \<Rightarrow> (case reserved w None of Inl e \<Rightarrow> Inl (RoomUnsettled e)
         | Inr held \<Rightarrow> Inr \<lparr>wr_limit = of_nat (wl_max_wal_len w), wr_committed = of_nat (wl_committed_len w),
             wr_reserved = held,
             wr_reclaimable = of_nat (compaction_reclaim rp (compaction_dropped_transactions rp))\<rparr>))"
    unfolding room_in_def Let_def rp_def c_def p(2) sum.case p(3) by (simp only: leD [OF p(1)] if_False)
  then show ?thesis
    unfolding rp'(1) same [symmetric] resume_same [OF rp'(2-5), symmetric]
    by (auto simp: headroom_def available_def split: sum.splits)
qed

lemma torn_replays:
  "\<exists>rp. replay_and_repair truncating [1, 2, 3] = Inr (rp, []) \<and> resume [] rp = Inr (from_validated [] 0 MAX_WAL_LEN) \<and>
     rp_transactions rp = []"
  by (auto simp: replay_and_repair_def parse_frames_def parse_loop.simps [of "[1, 2, 3]"] check_frame_def
      HEADER_LEN_def MAX_WAL_LEN_def replay_records_def progress_default_def resume_def complete_order_def Let_def)

theorem room_is_lease_headroom_witness: "room_in [1, 2, 3] = Inr room_empty \<and> available room_empty = 67108864"
proof -
  obtain rp where rp: "replay_and_repair truncating [1, 2, 3] = Inr (rp, [])"
    "resume [] rp = Inr (from_validated [] 0 MAX_WAL_LEN)" "rp_transactions rp = []"
    using torn_replays by blast
  let ?w = "from_validated [] 0 MAX_WAL_LEN"
  have held: "reserved ?w None = Inr 0" by (simp add: reserved_def from_validated_def)
  have reclaim: "compaction_reclaim rp (compaction_dropped_transactions rp) = 0"
    by (simp add: compaction_reclaim_def compaction_dropped_transactions_def rp(3) List.map_filter_simps)
  have room: "available room_empty = 67108864"
    by (simp add: available_def room_empty_def sat_sub_def MAX_WAL_LEN_def)
  have "headroom ?w None = Inr (available room_empty)"
    by (simp add: headroom_def held room sat_sub_def) (simp add: from_validated_def MAX_WAL_LEN_def)
  moreover have "room_empty = \<lparr>wr_limit = of_nat (wl_max_wal_len ?w), wr_committed = of_nat (wl_committed_len ?w),
      wr_reserved = 0, wr_reclaimable = of_nat (compaction_reclaim rp (compaction_dropped_transactions rp))\<rparr>"
    by (simp add: room_empty_def from_validated_def reclaim)
  ultimately have "room_in [1, 2, 3] = Inr room_empty"
    using room_is_lease_headroom [of truncating "[1, 2, 3]" room_empty, OF refl] rp(1,2) held by blast
  with room show ?thesis by blast
qed

end
