(* ===== verification/Sidecar.thy ===== *)
theory Sidecar
  imports Wal_Writer
begin

text \<open>
  Sidecar files (\<open>seal/sidecar.rs\<close>): ordered segments of manifest records under one root digest. The
  container is written once, verified, published under a name derived from its transaction, folded
  over by its readers, and removed when no restart can need it. SHA-256 is an argument of the model;
  the path an error carries is that of the file at hand and is left out.
\<close>

section \<open>Big-endian bytes\<close>

definition be_bytes :: "nat \<Rightarrow> 'a::len word \<Rightarrow> bytes" where
  "be_bytes n w = rev (le_bytes n w)"

definition be_word :: "bytes \<Rightarrow> 'a::len word" where
  "be_word bs = le_word (rev bs)"

lemma length_be_bytes [simp]: "length (be_bytes n w) = n"
  by (simp add: be_bytes_def)

lemma be_word_be_bytes [simp]: "8 * n = LENGTH('a) \<Longrightarrow> (be_word (be_bytes n (w :: 'a::len word)) :: 'a word) = w"
  by (simp add: be_bytes_def be_word_def le_word_le_bytes)

lemma be_bytes_be_word: "length bs = n \<Longrightarrow> 8 * n = LENGTH('a) \<Longrightarrow> be_bytes n (be_word bs :: 'a::len word) = bs"
  by (simp add: be_bytes_def be_word_def le_bytes_le_word)

section \<open>Constants and errors\<close>

definition sidecar_magic :: bytes where "sidecar_magic = [68, 72, 84, 83]"
definition sidecar_version :: u16 where "sidecar_version = 1"

definition SEGMENT_DOMAIN :: bytes where
  "SEGMENT_DOMAIN = map of_char ''degu-held-tree-sidecar-segment-v1'' @ [0]"

definition ROOT_DOMAIN :: bytes where
  "ROOT_DOMAIN = map of_char ''degu-held-tree-sidecar-root-v1'' @ [0]"

datatype sidecar_error =
  StoreBinding string
  | InvalidSegment string
  | InvalidScratch string
  | AlreadyExists bytes
  | Malformed string
  | Integrity
  | UnsafeFile string
  | SidecarIo io_error

type_synonym digest = "bytes \<Rightarrow> bytes"

type_synonym segment = "u64 \<times> bytes"

section \<open>Headers and digests\<close>

definition encode_header :: "tree_sidecar_commitment \<Rightarrow> bytes" where
  "encode_header c =
     sidecar_magic @ be_bytes 2 sidecar_version @ be_bytes 2 (80 :: u16) @ tid_bytes (sc_transaction c) @
     be_bytes 8 (sc_segment_count c) @ be_bytes 8 (sc_record_count c) @ be_bytes 8 (sc_payload_bytes c) @
     sc_root_sha256 c"

text \<open>A byte_range \<open>bytes[a..b]\<close>.\<close>

definition byte_range :: "nat \<Rightarrow> nat \<Rightarrow> bytes \<Rightarrow> bytes" where
  "byte_range a b bs = take (b - a) (drop a bs)"

definition decode_header :: "bytes \<Rightarrow> sidecar_error + tree_sidecar_commitment" where
  "decode_header bs =
     (if byte_range 0 4 bs \<noteq> sidecar_magic then Inl (Malformed ''bad magic'')
      else if be_word (byte_range 4 6 bs) \<noteq> sidecar_version then Inl (Malformed ''unsupported version'')
      else if be_word (byte_range 6 8 bs) \<noteq> (80 :: u16) then Inl (Malformed ''invalid header length'')
      else
        let segment_count = be_word (byte_range 24 32 bs)
        in if segment_count = 0 \<or> segment_count > MAX_SEGMENTS then Inl (Malformed ''invalid segment count'')
           else
             let record_count = be_word (byte_range 32 40 bs); payload_bytes = be_word (byte_range 40 48 bs)
             in if record_count = 0 \<or> payload_bytes > MAX_TOTAL_PAYLOAD_BYTES
                then Inl (Malformed ''invalid aggregate counts'')
                else Inr \<lparr>sc_transaction = TransactionId (byte_range 8 24 bs), sc_segment_count = segment_count,
                       sc_record_count = record_count, sc_payload_bytes = payload_bytes, sc_file_bytes = 0,
                       sc_root_sha256 = byte_range 48 80 bs\<rparr>)"

definition encode_segment_header :: "u64 \<Rightarrow> u64 \<Rightarrow> u32 \<Rightarrow> bytes \<Rightarrow> bytes" where
  "encode_segment_header index record_count payload_len digest =
     be_bytes 8 index @ be_bytes 8 record_count @ be_bytes 4 payload_len @ replicate 4 0 @ digest"

definition segment_digest :: "digest \<Rightarrow> transaction_id \<Rightarrow> u64 \<Rightarrow> u64 \<Rightarrow> bytes \<Rightarrow> bytes" where
  "segment_digest sha t index record_count payload =
     sha (SEGMENT_DOMAIN @ tid_bytes t @ be_bytes 8 index @ be_bytes 8 record_count @
       be_bytes 8 (of_nat (length payload) :: u64) @ payload)"

section \<open>Writing\<close>

text \<open>The unpublished file, what the root hash has consumed, and the counts.\<close>

record emitted =
  em_file :: bytes
  em_root :: bytes
  em_segment_count :: u64
  em_record_count :: u64
  em_payload_bytes :: u64

text \<open>One call of the producer. The writes go to the unpublished file and succeed; an error found
  after them leaves what was written.\<close>

definition emit :: "digest \<Rightarrow> transaction_id \<Rightarrow> segment \<Rightarrow> emitted \<Rightarrow> (sidecar_error + unit) \<times> emitted" where
  "emit sha t seg st =
     (case seg of (segment_record_count, payload) \<Rightarrow>
      if segment_record_count = 0 then (Inl (InvalidSegment ''a segment must contain at least one record''), st)
      else if length payload > unat MAX_SEGMENT_PAYLOAD
      then (Inl (InvalidSegment ''segment payload exceeds 1 MiB''), st)
      else if em_segment_count st \<ge> MAX_SEGMENTS
      then (Inl (InvalidSegment ''segment count exceeds the codec sanity limit''), st)
      else if length payload \<ge> 2 ^ 32
      then (Inl (InvalidSegment ''segment payload length is not representable''), st)
      else
        let index = em_segment_count st;
            digest = segment_digest sha t index segment_record_count payload;
            header = encode_segment_header index segment_record_count (of_nat (length payload)) digest;
            st = st\<lparr>em_file := em_file st @ header @ payload, em_root := em_root st @ digest\<rparr>
        in case checked_add64 (em_segment_count st) 1 of
             None \<Rightarrow> (Inl (InvalidSegment ''segment count overflow''), st)
           | Some segments \<Rightarrow>
               let st = st\<lparr>em_segment_count := segments\<rparr>
               in case checked_add64 (em_record_count st) segment_record_count of
                    None \<Rightarrow> (Inl (InvalidSegment ''record count overflow''), st)
                  | Some records \<Rightarrow>
                      let st = st\<lparr>em_record_count := records\<rparr>
                      in case checked_add64 (em_payload_bytes st) (of_nat (length payload)) of
                           None \<Rightarrow> (Inl (InvalidSegment ''payload byte count overflow''), st)
                         | Some payload_bytes \<Rightarrow>
                             let st = st\<lparr>em_payload_bytes := payload_bytes\<rparr>
                             in if payload_bytes > MAX_TOTAL_PAYLOAD_BYTES
                                then (Inl (InvalidSegment ''total payload exceeds the codec sanity limit''), st)
                                else (Inr (), st))"

text \<open>The producer is the segments it pushes; it stops at the first refused one.\<close>

fun emit_all :: "digest \<Rightarrow> transaction_id \<Rightarrow> segment list \<Rightarrow> emitted \<Rightarrow> (sidecar_error + unit) \<times> emitted" where
  "emit_all sha t [] st = (Inr (), st)"
| "emit_all sha t (seg # segs) st =
     (case emit sha t seg st of (Inl e, st) \<Rightarrow> (Inl e, st) | (Inr _, st) \<Rightarrow> emit_all sha t segs st)"

definition emit_start :: "transaction_id \<Rightarrow> emitted" where
  "emit_start t = \<lparr>em_file = replicate 80 0, em_root = ROOT_DOMAIN @ tid_bytes t, em_segment_count = 0,
     em_record_count = 0, em_payload_bytes = 0\<rparr>"

definition emit_commitment :: "digest \<Rightarrow> transaction_id \<Rightarrow> emitted \<Rightarrow> tree_sidecar_commitment" where
  "emit_commitment sha t st =
     \<lparr>sc_transaction = t, sc_segment_count = em_segment_count st, sc_record_count = em_record_count st,
      sc_payload_bytes = em_payload_bytes st, sc_file_bytes = of_nat (length (em_file st)),
      sc_root_sha256 = sha (em_root st @ be_bytes 8 (em_segment_count st) @ be_bytes 8 (em_record_count st) @
        be_bytes 8 (em_payload_bytes st))\<rparr>"

text \<open>The unpublished file after the producer, and its commitment.\<close>

definition write_sidecar ::
  "digest \<Rightarrow> transaction_id \<Rightarrow> segment list \<Rightarrow> (sidecar_error + tree_sidecar_commitment) \<times> bytes" where
  "write_sidecar sha t segs =
     (case emit_all sha t segs (emit_start t) of
        (Inl e, st) \<Rightarrow> (Inl e, em_file st)
      | (Inr _, st) \<Rightarrow>
          if em_segment_count st = 0
          then (Inl (InvalidSegment ''a sidecar must contain at least one segment''), em_file st)
          else let commitment = emit_commitment sha t st
               in (Inr commitment, encode_header commitment @ drop 80 (em_file st)))"

section \<open>Reading\<close>

datatype 'e fold_error = FoldSidecar sidecar_error | Fold 'e

definition read_exact :: "nat \<Rightarrow> bytes \<Rightarrow> sidecar_error + (bytes \<times> bytes)" where
  "read_exact n rest =
     (if length rest < n then Inl (SidecarIo UnexpectedEof) else Inr (take n rest, drop n rest))"

text \<open>\<open>?\<close> on an error of the sidecar.\<close>

definition sidecar_try :: "sidecar_error + 'a \<Rightarrow> ('a \<Rightarrow> 'e fold_error + 'b) \<Rightarrow> 'e fold_error + 'b" where
  "sidecar_try m f = (case m of Inl e \<Rightarrow> Inl (FoldSidecar e) | Inr x \<Rightarrow> f x)"

text \<open>One segment: its header, its payload and its digest; the rest of the file.\<close>

definition read_segment ::
  "digest \<Rightarrow> transaction_id \<Rightarrow> u64 \<Rightarrow> bytes \<Rightarrow> sidecar_error + (u64 \<times> bytes \<times> bytes \<times> bytes)" where
  "read_segment sha t expected_index rest =
     and_then (read_exact 56 rest) (\<lambda>(frame, rest).
       let index = be_word (byte_range 0 8 frame); record_count = be_word (byte_range 8 16 frame);
           payload_len = (be_word (byte_range 16 20 frame) :: u32)
       in if byte_range 20 24 frame \<noteq> replicate 4 0 \<or> index \<noteq> expected_index \<or> record_count = 0 \<or>
             unat payload_len > unat MAX_SEGMENT_PAYLOAD
          then Inl (Malformed ''invalid segment header'')
          else and_then (read_exact (unat payload_len) rest) (\<lambda>(payload, rest).
            let actual_digest = segment_digest sha t index record_count payload
            in if actual_digest \<noteq> byte_range 24 56 frame then Inl Integrity
               else Inr (record_count, payload, actual_digest, rest)))"

text \<open>The loop over the segments still to read; \<open>root\<close> is what the root hash has consumed.\<close>

fun fold_segments ::
  "digest \<Rightarrow> transaction_id \<Rightarrow> ('a \<Rightarrow> u64 \<Rightarrow> bytes \<Rightarrow> 'e + 'a) \<Rightarrow> nat \<Rightarrow> u64 \<Rightarrow> bytes \<Rightarrow> bytes \<Rightarrow> u64 \<Rightarrow> u64 \<Rightarrow> 'a \<Rightarrow>
   'e fold_error + (bytes \<times> bytes \<times> u64 \<times> u64 \<times> 'a)" where
  "fold_segments sha t f 0 index rest root records payload_bytes acc = Inr (rest, root, records, payload_bytes, acc)"
| "fold_segments sha t f (Suc n) index rest root records payload_bytes acc =
     sidecar_try (read_segment sha t index rest) (\<lambda>(record_count, payload, digest, rest).
       case f acc record_count payload of
         Inl e \<Rightarrow> Inl (Fold e)
       | Inr acc \<Rightarrow>
           sidecar_try (ok_or (Malformed ''record count overflow'') (checked_add64 records record_count)) (\<lambda>records.
           sidecar_try (ok_or (Malformed ''payload byte count overflow'')
             (checked_add64 payload_bytes (of_nat (length payload)))) (\<lambda>payload_bytes.
           fold_segments sha t f n (index + 1) rest (root @ digest) records payload_bytes acc)))"

definition fold_file ::
  "digest \<Rightarrow> bytes \<Rightarrow> tree_sidecar_commitment \<Rightarrow> 'a \<Rightarrow> ('a \<Rightarrow> u64 \<Rightarrow> bytes \<Rightarrow> 'e + 'a) \<Rightarrow> 'e fold_error + 'a" where
  "fold_file sha file expected initial f =
     (if (case validate_tree_sidecar_commitment expected of Inl _ \<Rightarrow> True | Inr _ \<Rightarrow> False) \<or>
         of_nat (length file) \<noteq> sc_file_bytes expected
      then Inl (FoldSidecar Integrity)
      else sidecar_try (read_exact 80 file) (\<lambda>(header, rest).
        sidecar_try (decode_header header) (\<lambda>decoded.
        if decoded\<lparr>sc_file_bytes := of_nat (length file)\<rparr> \<noteq> expected then Inl (FoldSidecar Integrity)
        else and_then (fold_segments sha (sc_transaction expected) f (unat (sc_segment_count expected)) 0 rest
               (ROOT_DOMAIN @ tid_bytes (sc_transaction expected)) 0 0 initial)
          (\<lambda>(rest, root, records, payload_bytes, acc).
             if rest \<noteq> [] then Inl (FoldSidecar (Malformed ''trailing bytes''))
             else if records \<noteq> sc_record_count expected \<or> payload_bytes \<noteq> sc_payload_bytes expected \<or>
                     sha (root @ be_bytes 8 (sc_segment_count expected) @ be_bytes 8 records @
                       be_bytes 8 payload_bytes) \<noteq> sc_root_sha256 expected
             then Inl (FoldSidecar Integrity)
             else Inr acc))))"

definition verify_file :: "digest \<Rightarrow> bytes \<Rightarrow> tree_sidecar_commitment \<Rightarrow> sidecar_error + unit" where
  "verify_file sha file expected =
     (case fold_file sha file expected () (\<lambda>_ _ _. Inr () :: unit + unit) of
        Inl (FoldSidecar e) \<Rightarrow> Inl e | Inl (Fold _) \<Rightarrow> Inr () | Inr _ \<Rightarrow> Inr ())"

definition validate_file_size :: "u64 \<Rightarrow> sidecar_error + unit" where
  "validate_file_size file_bytes =
     (if file_bytes > MAX_FILE_BYTES then Inl (Malformed ''sidecar exceeds the codec file-size limit'') else Inr ())"

end
