(* ===== verification/Backend.thy ===== *)
theory Backend
  imports Authority Wal_Types
begin

text \<open>
  The local mode backend (\<open>backend.rs\<close>): which mounts are certified, what a held directory descriptor
  shows, and the one mutation degu-core performs on it, a mode change bound to the log. What each system
  call answers is an argument. The mode of the directory is explicit: a mode change sets it, an
  inspection shows it.
\<close>

unbundle bit_operations_syntax

section \<open>Certification of a mount\<close>

datatype certification_error =
  UnsupportedPlatform
  | MountIdentityUnavailable
  | MountInfoUnreadable
  | MountInfoMalformed
  | MountInfoMissing
  | MountInfoAmbiguous
  | UnsupportedFilesystem
  | FilesystemMagicMismatch
  | InspectionFailed
  | CertNotDirectory
  | CertAclPresent
  | CertAclProbeUnknown
  | ProcessCredentialsUnavailable

definition LINUX_MAGIC_MASK :: u64 where "LINUX_MAGIC_MASK = 4294967295"
definition EXT4_MAGIC :: u64 where "EXT4_MAGIC = 61267"
definition XFS_MAGIC :: u64 where "XFS_MAGIC = 1481003842"

text \<open>Text is a list of code points; these are the functions of \<open>str\<close> the parser uses.\<close>

type_synonym code_points = "nat list"

definition points :: "string \<Rightarrow> code_points" where
  "points s = map of_char s"

definition is_whitespace :: "nat \<Rightarrow> bool" where
  "is_whitespace c \<longleftrightarrow> 9 \<le> c \<and> c \<le> 13 \<or> c \<in> set [32, 133, 160, 5760, 8232, 8233, 8239, 8287, 12288] \<or>
     8192 \<le> c \<and> c \<le> 8202"

definition strip_cr :: "code_points \<Rightarrow> code_points" where
  "strip_cr l = (if l \<noteq> [] \<and> last l = 13 then butlast l else l)"

function text_lines :: "code_points \<Rightarrow> code_points list" where
  "text_lines s =
     (if s = [] then []
      else case dropWhile (\<lambda>c. c \<noteq> 10) s of
        [] \<Rightarrow> [s]
      | _ # rest \<Rightarrow> strip_cr (takeWhile (\<lambda>c. c \<noteq> 10) s) # text_lines rest)"
  by auto
termination
proof (relation "measure length")
  fix s rest :: code_points and x
  assume "dropWhile (\<lambda>c. c \<noteq> 10) s = x # rest"
  then have "length (x # rest) \<le> length s" by (metis length_dropWhile_le)
  then show "(rest, s) \<in> measure length" by simp
qed simp

fun split_once :: "code_points \<Rightarrow> code_points \<Rightarrow> (code_points \<times> code_points) option" where
  "split_once pat [] = (if pat = [] then Some ([], []) else None)"
| "split_once pat (c # s) =
     (if take (length pat) (c # s) = pat then Some ([], drop (length pat) (c # s))
      else map_option (\<lambda>(a, b). (c # a, b)) (split_once pat s))"

definition first_word :: "code_points \<Rightarrow> code_points option" where
  "first_word s =
     (let word = takeWhile (\<lambda>c. \<not> is_whitespace c) (dropWhile is_whitespace s)
      in if word = [] then None else Some word)"

definition parse_u64 :: "code_points \<Rightarrow> u64 option" where
  "parse_u64 s =
     (let ds = (case s of c # rest \<Rightarrow> if c = 43 then rest else s | [] \<Rightarrow> [])
      in if ds = [] \<or> \<not> list_all (\<lambda>c. 48 \<le> c \<and> c \<le> 57) ds then None
         else let n = foldl (\<lambda>n c. n * 10 + (c - 48)) 0 ds in if n < 2 ^ 64 then Some (of_nat n) else None)"

record linux_mount_record =
  mr_mount_id :: u64
  mr_filesystem_type :: code_points

text \<open>One line of \<open>mountinfo\<close>.\<close>

definition parse_mount_line :: "code_points \<Rightarrow> certification_error + (u64 \<times> code_points)" where
  "parse_mount_line line =
     and_then (ok_or MountInfoMalformed (split_once (points '' - '') line)) (\<lambda>(mount_fields, filesystem_fields).
     and_then (ok_or MountInfoMalformed (first_word mount_fields)) (\<lambda>word.
     and_then (ok_or MountInfoMalformed (parse_u64 word)) (\<lambda>mount_id.
     and_then (ok_or MountInfoMalformed (first_word filesystem_fields)) (\<lambda>filesystem_type.
     Inr (mount_id, filesystem_type)))))"

fun parse_mount_lines ::
  "u64 \<Rightarrow> code_points list \<Rightarrow> linux_mount_record option \<Rightarrow> certification_error + linux_mount_record option" where
  "parse_mount_lines wanted [] found = Inr found"
| "parse_mount_lines wanted (line # lines) found =
     and_then (parse_mount_line line) (\<lambda>(mount_id, filesystem_type).
       if mount_id = wanted
       then if found \<noteq> None then Inl MountInfoAmbiguous
            else parse_mount_lines wanted lines
              (Some \<lparr>mr_mount_id = mount_id, mr_filesystem_type = filesystem_type\<rparr>)
       else parse_mount_lines wanted lines found)"

definition parse_linux_mountinfo :: "code_points \<Rightarrow> u64 \<Rightarrow> certification_error + linux_mount_record" where
  "parse_linux_mountinfo input wanted_mount_id =
     and_then (parse_mount_lines wanted_mount_id (text_lines input) None) (ok_or MountInfoMissing)"

definition certify_linux_mount :: "u64 \<Rightarrow> code_points \<Rightarrow> u64 \<Rightarrow> certification_error + certified_local_backend" where
  "certify_linux_mount mount_id mountinfo filesystem_magic =
     and_then (parse_linux_mountinfo mountinfo mount_id) (\<lambda>mount.
       let filesystem_type = mr_filesystem_type mount; magic = filesystem_magic AND LINUX_MAGIC_MASK
       in if filesystem_type = points ''ext4'' \<and> magic = EXT4_MAGIC then Inr Ext4
          else if filesystem_type = points ''xfs'' \<and> magic = XFS_MAGIC then Inr Xfs
          else if filesystem_type = points ''ext4'' \<or> filesystem_type = points ''xfs''
          then Inl FilesystemMagicMismatch
          else Inl UnsupportedFilesystem)"

definition certify_macos_filesystem_name :: "bytes \<Rightarrow> certification_error + certified_local_backend" where
  "certify_macos_filesystem_name name =
     (if name = map of_char ''apfs'' then Inr Apfs else Inl UnsupportedFilesystem)"

section \<open>Access-control lists\<close>

datatype acl_probe = AclAbsent | AclNonGranting | AclGranting | AclUnknown

definition combine_acl_probes :: "acl_probe list \<Rightarrow> acl_probe" where
  "combine_acl_probes probes =
     (if AclGranting \<in> set probes then AclGranting
      else if AclUnknown \<in> set probes then AclUnknown
      else if AclNonGranting \<in> set probes then AclNonGranting
      else AclAbsent)"

fun require_acl_absent :: "acl_probe \<Rightarrow> certification_error + unit" where
  "require_acl_absent AclAbsent = Inr ()"
| "require_acl_absent AclNonGranting = Inr ()"
| "require_acl_absent AclGranting = Inl CertAclPresent"
| "require_acl_absent AclUnknown = Inl CertAclProbeUnknown"

section \<open>What a held descriptor shows\<close>

datatype local_mode_revalidation_failure =
  DescriptorUnavailable
  | DescriptorCannotChmod
  | BackendUnavailable
  | BackendChanged
  | MountChanged
  | IdentityChanged
  | NotDirectory
  | OwnerChanged
  | GroupChanged
  | EffectiveUidChanged
  | EffectiveGroupsChanged
  | ModeChanged u32 u32
  | AclPresent
  | AclProbeUnknown
  | InvalidTargetMode
  | EvidenceUnverified
  | SealAlreadyActive
  | MissingSealLineage
  | SealLineageMismatch
  | NamespaceWritersPresent

text \<open>The group set is its sorted list. The file type of a snapshot is always a directory.\<close>

record verified_local_mode_snapshot =
  vs_backend :: certified_local_backend
  vs_mount_id :: u64
  vs_owner_uid :: u32
  vs_group_gid :: u32
  vs_mode :: u32
  vs_device :: u64
  vs_inode :: u64
  vs_effective_uid :: u32
  vs_effective_groups :: "u32 list"

text \<open>The answers of the system calls of one inspection; \<open>None\<close> is an error. \<open>fd_flags\<close> is whether the
  descriptor is a path only, \<open>fd_mount_id\<close> the mount id where \<open>statx\<close> has one.\<close>

record descriptor_stat =
  ds_device :: u64
  ds_inode :: u64
  ds_mode :: u32
  ds_uid :: u32
  ds_gid :: u32

record descriptor_view =
  fd_flags :: "bool option"
  fd_mount_id :: "u64 option option"
  fd_mountinfo :: "code_points option"
  fd_filesystem_magic :: "u64 option"
  fd_stat :: "descriptor_stat option"
  fd_acl_access :: acl_probe
  fd_acl_default :: acl_probe
  fd_effective_uid :: u32
  fd_effective_gid :: u32
  fd_groups :: "u32 list option"

definition is_directory_mode :: "u32 \<Rightarrow> bool" where
  "is_directory_mode mode \<longleftrightarrow> mode AND 61440 = 16384"

definition probe_acl :: "descriptor_view \<Rightarrow> acl_probe" where
  "probe_acl view = combine_acl_probes [fd_acl_access view, fd_acl_default view]"

definition checked_acl :: "descriptor_view \<Rightarrow> local_mode_revalidation_failure + unit" where
  "checked_acl view =
     (case probe_acl view of
        AclAbsent \<Rightarrow> Inr () | AclNonGranting \<Rightarrow> Inr ()
      | AclGranting \<Rightarrow> Inl AclPresent | AclUnknown \<Rightarrow> Inl AclProbeUnknown)"

definition group_set :: "u32 list \<Rightarrow> u32 \<Rightarrow> u32 list" where
  "group_set groups egid = sort (remdups (egid # groups))"

definition current_groups :: "descriptor_view \<Rightarrow> local_mode_revalidation_failure + u32 list" where
  "current_groups view =
     and_then (ok_or EffectiveGroupsChanged (fd_groups view)) (\<lambda>groups. Inr (group_set groups (fd_effective_gid view)))"

text \<open>The backend of a mount; any reason it cannot be certified is the same failure.\<close>

definition inspected_backend :: "descriptor_view \<Rightarrow> local_mode_revalidation_failure + (u64 \<times> certified_local_backend)" where
  "inspected_backend view =
     and_then (ok_or BackendUnavailable (fd_mount_id view)) (\<lambda>mount_id.
     and_then (ok_or BackendUnavailable mount_id) (\<lambda>mount_id.
     and_then (ok_or BackendUnavailable (fd_mountinfo view)) (\<lambda>mountinfo.
     and_then (ok_or BackendUnavailable (fd_filesystem_magic view)) (\<lambda>magic.
     case certify_linux_mount mount_id mountinfo magic of
       Inl _ \<Rightarrow> Inl BackendUnavailable | Inr backend \<Rightarrow> Inr (mount_id, backend)))))"

definition inspect_held_fd :: "descriptor_view \<Rightarrow> local_mode_revalidation_failure + verified_local_mode_snapshot" where
  "inspect_held_fd view =
     and_then (ok_or DescriptorUnavailable (fd_flags view)) (\<lambda>path_only.
     if path_only then Inl DescriptorCannotChmod
     else and_then (inspected_backend view) (\<lambda>(mount_id, backend).
          and_then (ok_or DescriptorUnavailable (fd_stat view)) (\<lambda>stat.
          if \<not> is_directory_mode (ds_mode stat) then Inl NotDirectory
          else and_then (checked_acl view) (\<lambda>_.
               and_then (current_groups view) (\<lambda>groups.
               Inr \<lparr>vs_backend = backend, vs_mount_id = mount_id, vs_owner_uid = ds_uid stat,
                 vs_group_gid = ds_gid stat, vs_mode = ds_mode stat AND 4095, vs_device = ds_device stat,
                 vs_inode = ds_inode stat, vs_effective_uid = fd_effective_uid view,
                 vs_effective_groups = groups\<rparr>)))))"

definition validate_snapshot ::
  "verified_local_mode_snapshot \<Rightarrow> verified_local_mode_snapshot \<Rightarrow> u32 \<Rightarrow> local_mode_revalidation_failure + unit" where
  "validate_snapshot actual expected expected_mode =
     (if vs_backend actual \<noteq> vs_backend expected then Inl BackendChanged
      else if vs_mount_id actual \<noteq> vs_mount_id expected then Inl MountChanged
      else if vs_device actual \<noteq> vs_device expected \<or> vs_inode actual \<noteq> vs_inode expected then Inl IdentityChanged
      else if vs_owner_uid actual \<noteq> vs_owner_uid expected then Inl OwnerChanged
      else if vs_group_gid actual \<noteq> vs_group_gid expected then Inl GroupChanged
      else if vs_effective_uid actual \<noteq> vs_effective_uid expected \<or> vs_effective_uid actual \<noteq> vs_owner_uid actual
      then Inl EffectiveUidChanged
      else if vs_effective_groups actual \<noteq> vs_effective_groups expected then Inl EffectiveGroupsChanged
      else if vs_mode actual \<noteq> expected_mode then Inl (ModeChanged expected_mode (vs_mode actual))
      else Inr ())"

text \<open>An inspection that must match a snapshot at a mode.\<close>

definition inspect_expected ::
  "descriptor_view \<Rightarrow> verified_local_mode_snapshot \<Rightarrow> u32 \<Rightarrow>
   local_mode_revalidation_failure + verified_local_mode_snapshot" where
  "inspect_expected view expected mode =
     and_then (inspect_held_fd view) (\<lambda>actual. and_then (validate_snapshot actual expected mode) (\<lambda>_. Inr actual))"

end
