(* ===== verification/Sidecar_Store.thy ===== *)
theory Sidecar_Store
  imports Sidecar Backend
begin

text \<open>
  The directory of sidecar files (\<open>TreeSidecarStore\<close> of \<open>seal/sidecar.rs\<close>): publishing, reading and
  removing. The directory is a list of names with their contents. What a file looks like and what the
  system answers are arguments; nothing else writes to the directory during one operation.
\<close>

unbundle bit_operations_syntax

section \<open>Names\<close>

definition hex_digit :: "u8 \<Rightarrow> u8" where
  "hex_digit n = (if n < 10 then 48 + n else 87 + n)"

definition decode_hex :: "u8 \<Rightarrow> u8 option" where
  "decode_hex b =
     (if 48 \<le> b \<and> b \<le> 57 then Some (b - 48)
      else if 97 \<le> b \<and> b \<le> 102 then Some (b - 97 + 10) else None)"

definition transaction_hex :: "transaction_id \<Rightarrow> bytes" where
  "transaction_hex t = concat (map (\<lambda>b. [hex_digit (b div 16), hex_digit (b mod 16)]) (tid_bytes t))"

definition strip_both :: "bytes \<Rightarrow> bytes \<Rightarrow> bytes \<Rightarrow> bytes option" where
  "strip_both pre post name =
     (if take (length pre) name \<noteq> pre then None
      else let rest = drop (length pre) name
           in if length rest < length post \<or> drop (length rest - length post) rest \<noteq> post then None
              else Some (take (length rest - length post) rest))"

fun decode_pairs :: "bytes \<Rightarrow> bytes option" where
  "decode_pairs (a # b # rest) =
     Option.bind (decode_hex a) (\<lambda>hi. Option.bind (decode_hex b) (\<lambda>lo.
       Option.bind (decode_pairs rest) (\<lambda>bs. Some ((hi * 16 + lo) # bs))))"
| "decode_pairs _ = Some []"

definition final_prefix :: bytes where "final_prefix = map of_char ''tree-''"
definition final_suffix :: bytes where "final_suffix = map of_char ''.sidecar''"

definition final_name :: "transaction_id \<Rightarrow> bytes" where
  "final_name t = final_prefix @ transaction_hex t @ final_suffix"

definition parse_final_name :: "bytes \<Rightarrow> transaction_id option" where
  "parse_final_name name =
     Option.bind (strip_both final_prefix final_suffix name) (\<lambda>transaction.
       if length transaction \<noteq> 32 then None
       else map_option TransactionId (decode_pairs transaction))"

text \<open>Decimal numbers as \<open>to_string\<close> prints them and \<open>parse\<close> reads them.\<close>

fun to_decimal :: "nat \<Rightarrow> bytes" where
  "to_decimal n = (if n < 10 then [48 + of_nat n] else to_decimal (n div 10) @ [48 + of_nat (n mod 10)])"

definition is_digit :: "u8 \<Rightarrow> bool" where
  "is_digit b \<longleftrightarrow> 48 \<le> b \<and> b \<le> 57"

definition parse_decimal :: "nat \<Rightarrow> bytes \<Rightarrow> nat option" where
  "parse_decimal limit bs =
     (let ds = (case bs of b # rest \<Rightarrow> if b = 43 then rest else bs | [] \<Rightarrow> [])
      in if ds = [] \<or> \<not> list_all is_digit ds then None
         else let n = foldl (\<lambda>n b. n * 10 + (unat b - 48)) 0 ds in if n < limit then Some n else None)"

fun split_dash :: "bytes \<Rightarrow> bytes list" where
  "split_dash [] = [[]]"
| "split_dash (b # bs) = (if b = 45 then [] # split_dash bs else (b # hd (split_dash bs)) # tl (split_dash bs))"

definition TEMP_PREFIX :: bytes where "TEMP_PREFIX = map of_char ''.tree-sidecar-v1-''"
definition TEMP_SUFFIX :: bytes where "TEMP_SUFFIX = map of_char ''.tmp''"
definition SCRATCH_PREFIX :: bytes where "SCRATCH_PREFIX = map of_char ''.tree-scratch-v1-''"

text \<open>A part is missing only when there are fewer dashes; the source then reads the empty string.\<close>

definition valid_temp_name :: "bytes \<Rightarrow> bool" where
  "valid_temp_name name \<longleftrightarrow>
     (case strip_both TEMP_PREFIX TEMP_SUFFIX name of
        None \<Rightarrow> False
      | Some body \<Rightarrow>
          (let parts = split_dash body;
               part = (\<lambda>i. if i < length parts then parts ! i else [])
           in length parts \<le> 3 \<and> length (part 0) = 32 \<and>
              list_all (\<lambda>b. is_digit b \<or> (97 \<le> b \<and> b \<le> 102)) (part 0) \<and>
              (case (parse_decimal (2 ^ 32) (part 1), parse_decimal (2 ^ 64) (part 2)) of
                 (Some pid, Some sequence) \<Rightarrow> part 1 = to_decimal pid \<and> part 2 = to_decimal sequence
               | _ \<Rightarrow> False)))"

definition scratch_transaction :: "bytes \<Rightarrow> transaction_id option" where
  "scratch_transaction name =
     Option.bind (strip_both SCRATCH_PREFIX TEMP_SUFFIX name) (\<lambda>body.
       case split_dash body of
         [transaction, pid, sequence] \<Rightarrow>
           if length transaction \<noteq> 32 \<or> \<not> list_all (\<lambda>b. is_digit b \<or> (97 \<le> b \<and> b \<le> 102)) transaction then None
           else Option.bind (parse_decimal (2 ^ 32) pid) (\<lambda>pid_value.
                Option.bind (parse_decimal (2 ^ 64) sequence) (\<lambda>sequence_value.
                if pid \<noteq> to_decimal pid_value \<or> sequence \<noteq> to_decimal sequence_value then None
                else map_option TransactionId (decode_pairs transaction)))
       | _ \<Rightarrow> None)"

definition valid_scratch_name :: "bytes \<Rightarrow> bool" where
  "valid_scratch_name name \<longleftrightarrow> scratch_transaction name \<noteq> None"

text \<open>The name of an unpublished file: the process id, and a counter of the process.\<close>

definition temp_name :: "transaction_id \<Rightarrow> u32 \<Rightarrow> u64 \<Rightarrow> bytes" where
  "temp_name t pid sequence =
     TEMP_PREFIX @ transaction_hex t @ [45] @ to_decimal (unat pid) @ [45] @ to_decimal (unat sequence) @ TEMP_SUFFIX"

section \<open>The store\<close>

type_synonym sidecar_files = "(bytes \<times> bytes) list"

text \<open>What a file looks like: \<open>fstat\<close> of the descriptor, the probes of its access-control list and file
  system, and \<open>statat\<close> of its name.\<close>

record file_stat =
  st_dev :: u64
  st_ino :: u64
  st_mode :: u32
  st_uid :: u32
  st_nlink :: u64

record file_view =
  fv_opened :: "io_error + file_stat"
  fv_acl :: "certification_error + unit"
  fv_backend :: "certification_error + certified_local_backend"
  fv_entry :: "io_error + file_stat"

definition regular_file :: "u32 \<Rightarrow> bool" where
  "regular_file mode \<longleftrightarrow> mode AND 61440 = 32768"

definition FILE_MODE :: u32 where "FILE_MODE = 384"

definition with_io :: "io_error + 'a \<Rightarrow> sidecar_error + 'a" where
  "with_io m = (case m of Inl e \<Rightarrow> Inl (SidecarIo e) | Inr x \<Rightarrow> Inr x)"

definition validate_file :: "certified_local_backend \<Rightarrow> u64 \<Rightarrow> u32 \<Rightarrow> file_view \<Rightarrow> sidecar_error + unit" where
  "validate_file expected_backend expected_device euid view =
     and_then (with_io (fv_opened view)) (\<lambda>opened.
     and_then (case fv_acl view of
         Inr _ \<Rightarrow> Inr ()
       | Inl CertAclPresent \<Rightarrow> Inl (UnsafeFile ''sidecar ACL is present'')
       | Inl _ \<Rightarrow> Inl (UnsafeFile ''sidecar ACL could not be verified absent'')) (\<lambda>_.
     and_then (case fv_backend view of
         Inl _ \<Rightarrow> Inl (UnsafeFile ''sidecar backend could not be certified'')
       | Inr backend \<Rightarrow> Inr backend) (\<lambda>backend.
     if backend \<noteq> expected_backend then Inl (UnsafeFile ''sidecar backend does not match its store'')
     else if st_dev opened \<noteq> expected_device then Inl (UnsafeFile ''sidecar device does not match its store'')
     else if \<not> regular_file (st_mode opened) \<or> st_uid opened \<noteq> euid \<or> st_mode opened AND 4095 \<noteq> FILE_MODE \<or>
             st_nlink opened \<noteq> 1
     then Inl (UnsafeFile ''sidecar kind, owner, mode, or link count is invalid'')
     else and_then (with_io (fv_entry view)) (\<lambda>entry.
       if st_dev entry \<noteq> st_dev opened \<or> st_ino entry \<noteq> st_ino opened \<or> \<not> regular_file (st_mode entry)
       then Inl (UnsafeFile ''descriptor is not the exact sidecar entry'')
       else Inr ()))))"

text \<open>
  The store's backend and device, the user, and the answers of the system: \<open>env_binding\<close> those of
  \<open>require_matching_wal\<close> and \<open>revalidate_store_binding\<close> at the successive places of an operation,
  \<open>env_view\<close> what the file of a name looks like, the others those to a sync, to a rename onto a free name
  and to an unlink.
\<close>

record store_env =
  env_backend :: certified_local_backend
  env_device :: u64
  env_euid :: u32
  env_binding :: "nat \<Rightarrow> sidecar_error + unit"
  env_view :: "bytes \<Rightarrow> file_view"
  env_sync_file :: "io_error + unit"
  env_sync_directory :: "io_error + unit"
  env_rename :: "io_error + unit"
  env_unlink :: "bytes \<Rightarrow> io_error + unit"

definition env_validate :: "store_env \<Rightarrow> bytes \<Rightarrow> sidecar_error + unit" where
  "env_validate env name = validate_file (env_backend env) (env_device env) (env_euid env) (env_view env name)"

definition not_found :: io_error where "not_found = OsError 2"

text \<open>Everything \<open>publish_stream_with_sync\<close> does once its file is written and bound: the rename
  refuses an existing final name.\<close>

definition publish_file ::
  "store_env \<Rightarrow> digest \<Rightarrow> bytes \<Rightarrow> tree_sidecar_commitment \<Rightarrow> bytes \<Rightarrow> sidecar_files \<Rightarrow>
   (sidecar_error + tree_sidecar_commitment) \<times> sidecar_files" where
  "publish_file env sha temp commitment content files =
     (let final = final_name (sc_transaction commitment);
          written = AList.update temp content files
      in case and_then (with_io (env_sync_file env)) (\<lambda>_. and_then (env_validate env temp) (\<lambda>_.
              and_then (verify_file sha content commitment) (\<lambda>_. env_binding env 1))) of
           Inl e \<Rightarrow> (Inl e, written)
         | Inr _ \<Rightarrow>
             if map_of written final \<noteq> None then (Inl (AlreadyExists final), written)
             else case with_io (env_rename env) of
               Inl e \<Rightarrow> (Inl e, written)
             | Inr _ \<Rightarrow>
               let renamed = AList.update final content (AList.delete temp written)
               in (and_then (with_io (env_sync_directory env)) (\<lambda>_. and_then (env_validate env final) (\<lambda>_.
                     and_then (verify_file sha content commitment) (\<lambda>_.
                     and_then (env_binding env 2) (\<lambda>_. Inr commitment)))), renamed))"

definition publish_stream ::
  "store_env \<Rightarrow> digest \<Rightarrow> u32 \<Rightarrow> u64 \<Rightarrow> transaction_id \<Rightarrow> segment list \<Rightarrow> sidecar_files \<Rightarrow>
   (sidecar_error + tree_sidecar_commitment) \<times> sidecar_files" where
  "publish_stream env sha pid sequence t segs files =
     (case env_binding env 0 of
        Inl e \<Rightarrow> (Inl e, files)
      | Inr _ \<Rightarrow>
          let temp = temp_name t pid sequence
          in if map_of files temp \<noteq> None then (Inl (AlreadyExists temp), files)
             else case env_validate env temp of
               Inl e \<Rightarrow> (Inl e, AList.update temp [] files)
             | Inr _ \<Rightarrow>
                 (case write_sidecar sha t segs of
                    (Inl e, content) \<Rightarrow> (Inl e, AList.update temp content files)
                  | (Inr commitment, content) \<Rightarrow> publish_file env sha temp commitment content files))"

text \<open>Opening a file by its name, after the binding of the store was checked.\<close>

definition open_final :: "store_env \<Rightarrow> bytes \<Rightarrow> sidecar_files \<Rightarrow> sidecar_error + bytes" where
  "open_final env name files =
     (case map_of files name of
        None \<Rightarrow> Inl (SidecarIo not_found)
      | Some content \<Rightarrow> and_then (env_validate env name) (\<lambda>_. Inr content))"

definition inspect_unbound ::
  "store_env \<Rightarrow> digest \<Rightarrow> transaction_id \<Rightarrow> sidecar_files \<Rightarrow> sidecar_error + tree_sidecar_commitment" where
  "inspect_unbound env sha t files =
     and_then (env_binding env 0) (\<lambda>_.
     and_then (open_final env (final_name t) files) (\<lambda>content.
     let file_bytes = of_nat (length content) in
     and_then (validate_file_size file_bytes) (\<lambda>_.
     and_then (read_exact 80 content) (\<lambda>(header, _).
     and_then (decode_header header) (\<lambda>decoded.
     let commitment = decoded\<lparr>sc_file_bytes := file_bytes\<rparr> in
     if sc_transaction commitment \<noteq> t then Inl Integrity
     else and_then (verify_file sha content commitment) (\<lambda>_.
          and_then (env_binding env 1) (\<lambda>_. Inr commitment)))))))"

definition verify_sidecar ::
  "store_env \<Rightarrow> digest \<Rightarrow> tree_sidecar_commitment \<Rightarrow> sidecar_files \<Rightarrow> sidecar_error + unit" where
  "verify_sidecar env sha expected files =
     and_then (inspect_unbound env sha (sc_transaction expected) files) (\<lambda>actual.
       if actual \<noteq> expected then Inl Integrity else Inr ())"

definition read_fold ::
  "store_env \<Rightarrow> digest \<Rightarrow> tree_sidecar_commitment \<Rightarrow> 'a \<Rightarrow> ('a \<Rightarrow> u64 \<Rightarrow> bytes \<Rightarrow> 'e + 'a) \<Rightarrow> sidecar_files \<Rightarrow>
   'e fold_error + 'a" where
  "read_fold env sha expected initial f files =
     sidecar_try (env_binding env 0) (\<lambda>_.
     sidecar_try (open_final env (final_name (sc_transaction expected)) files) (\<lambda>content.
     and_then (fold_file sha content expected initial f) (\<lambda>result.
     sidecar_try (env_binding env 1) (\<lambda>_. Inr result))))"

definition remove_validated_private_file :: "store_env \<Rightarrow> bytes \<Rightarrow> sidecar_files \<Rightarrow> sidecar_error + sidecar_files" where
  "remove_validated_private_file env name files =
     and_then (env_validate env name) (\<lambda>_. and_then (with_io (env_unlink env name)) (\<lambda>_. Inr (AList.delete name files)))"

definition remove_verified_final ::
  "store_env \<Rightarrow> digest \<Rightarrow> tree_sidecar_commitment \<Rightarrow> sidecar_files \<Rightarrow> sidecar_error + sidecar_files" where
  "remove_verified_final env sha expected files =
     (let name = final_name (sc_transaction expected)
      in and_then (open_final env name files) (\<lambda>content.
         and_then (verify_file sha content expected) (\<lambda>_.
         remove_validated_private_file env name files)))"

section \<open>Cleaning up\<close>

definition tree_sidecar_required_for_state :: "transaction_state \<Rightarrow> bool" where
  "tree_sidecar_required_for_state s \<longleftrightarrow> s \<notin> {Purged, PurgeOutcome, Restored, UndoConflict, RolledBack}"

definition retained_final_corruption :: "sidecar_error \<Rightarrow> bool" where
  "retained_final_corruption e =
     (case e of Malformed _ \<Rightarrow> True | Integrity \<Rightarrow> True | UnsafeFile _ \<Rightarrow> True
      | SidecarIo io \<Rightarrow> io = UnexpectedEof | _ \<Rightarrow> False)"

record cleanup_report =
  cr_removed :: u64
  cr_corrupt_retained :: u64

definition count_corrupt :: "cleanup_report \<Rightarrow> sidecar_error + cleanup_report" where
  "count_corrupt r =
     and_then (ok_or (Malformed ''corrupt sidecar count overflow'') (checked_add64 (cr_corrupt_retained r) 1)) (\<lambda>n.
       Inr (r\<lparr>cr_corrupt_retained := n\<rparr>))"

text \<open>One entry of the directory; the files are part of the result whatever happens.\<close>

definition cleanup_entry ::
  "store_env \<Rightarrow> digest \<Rightarrow> seal_wal \<Rightarrow> bytes \<Rightarrow> cleanup_report \<Rightarrow> sidecar_files \<Rightarrow>
   (sidecar_error + cleanup_report) \<times> sidecar_files" where
  "cleanup_entry env sha wal name report files =
     (case parse_final_name name of
        None \<Rightarrow> (Inr report, files)
      | Some t \<Rightarrow>
          let expected = map_of (wl_sidecars wal) t
          in if expected \<noteq> None \<and>
                (case map_of (wl_states wal) t of None \<Rightarrow> True | Some s \<Rightarrow> tree_sidecar_required_for_state s)
             then (Inr report, files)
             else case inspect_unbound env sha t files of
               Inl e \<Rightarrow> if retained_final_corruption e then (count_corrupt report, files) else (Inl e, files)
             | Inr actual \<Rightarrow>
                 if (case expected of None \<Rightarrow> False | Some c \<Rightarrow> c \<noteq> actual) then (count_corrupt report, files)
                 else case remove_verified_final env sha actual files of
                   Inl e \<Rightarrow> (Inl e, files)
                 | Inr files \<Rightarrow>
                     (and_then (ok_or (Malformed ''removed sidecar count overflow'')
                        (checked_add64 (cr_removed report) 1)) (\<lambda>n. Inr (report\<lparr>cr_removed := n\<rparr>)), files))"

fun cleanup_entries ::
  "store_env \<Rightarrow> digest \<Rightarrow> seal_wal \<Rightarrow> bytes list \<Rightarrow> cleanup_report \<Rightarrow> sidecar_files \<Rightarrow>
   (sidecar_error + cleanup_report) \<times> sidecar_files" where
  "cleanup_entries env sha wal [] report files = (Inr report, files)"
| "cleanup_entries env sha wal (name # names) report files =
     (case cleanup_entry env sha wal name report files of
        (Inl e, files) \<Rightarrow> (Inl e, files)
      | (Inr report, files) \<Rightarrow> cleanup_entries env sha wal names report files)"

definition cleanup_unreachable ::
  "store_env \<Rightarrow> digest \<Rightarrow> seal_wal \<Rightarrow> sidecar_files \<Rightarrow> (sidecar_error + cleanup_report) \<times> sidecar_files" where
  "cleanup_unreachable env sha wal files =
     (case env_binding env 0 of
        Inl e \<Rightarrow> (Inl e, files)
      | Inr _ \<Rightarrow>
          (case cleanup_entries env sha wal (map fst files) \<lparr>cr_removed = 0, cr_corrupt_retained = 0\<rparr> files of
             (Inl e, files) \<Rightarrow> (Inl e, files)
           | (Inr report, files) \<Rightarrow>
               (and_then (if cr_removed report \<noteq> 0 then with_io (env_sync_directory env) else Inr ()) (\<lambda>_.
                and_then (env_binding env 2) (\<lambda>_. Inr report)), files)))"

fun cleanup_temps :: "store_env \<Rightarrow> bytes list \<Rightarrow> u64 \<Rightarrow> sidecar_files \<Rightarrow> (sidecar_error + u64) \<times> sidecar_files" where
  "cleanup_temps env [] removed files = (Inr removed, files)"
| "cleanup_temps env (name # names) removed files =
     (if \<not> valid_temp_name name \<and> \<not> valid_scratch_name name then cleanup_temps env names removed files
      else case map_of files name of
        None \<Rightarrow> (Inl (SidecarIo not_found), files)
      | Some _ \<Rightarrow>
          (case remove_validated_private_file env name files of
             Inl e \<Rightarrow> (Inl e, files)
           | Inr files \<Rightarrow>
               (case checked_add64 removed 1 of
                  None \<Rightarrow> (Inl (Malformed ''unpublished sidecar count overflow''), files)
                | Some removed \<Rightarrow> cleanup_temps env names removed files)))"

definition cleanup_unpublished :: "store_env \<Rightarrow> sidecar_files \<Rightarrow> (sidecar_error + u64) \<times> sidecar_files" where
  "cleanup_unpublished env files =
     (case env_binding env 0 of
        Inl e \<Rightarrow> (Inl e, files)
      | Inr _ \<Rightarrow>
          (case cleanup_temps env (map fst files) 0 files of
             (Inl e, files) \<Rightarrow> (Inl e, files)
           | (Inr removed, files) \<Rightarrow>
               (and_then (if removed \<noteq> 0 then with_io (env_sync_directory env) else Inr ()) (\<lambda>_.
                and_then (env_binding env 1) (\<lambda>_. Inr removed)), files)))"

end
