(* ===== verification/Manifest.thy ===== *)
theory Manifest
  imports Sidecar_Store
begin

text \<open>
  Tree manifests (\<open>backend/held.rs\<close>): one record per entry of a held tree, encoded, cut into segments of a
  sidecar, fingerprinted, and decoded again by a reader that retains one path and the ends of its directory
  ancestors. \<open>read_manifest_v3_fold\<close> (\<open>seal/sidecar.rs\<close>) runs that decoder over a published sidecar. SHA-256
  is an argument of the model, and a hash state is the bytes it has consumed.
\<close>

section \<open>Entries and limits\<close>

record held_tree_limits =
  hl_max_entries :: u64
  hl_max_depth :: u32
  hl_max_path_bytes :: u64
  hl_max_manifest_bytes :: u64
  hl_max_content_bytes :: "u64 option"
  hl_max_xattr_bytes :: u64

definition MANIFEST_PATH_DEPTH_LIMIT :: u32 where "MANIFEST_PATH_DEPTH_LIMIT = 128"

definition default_limits :: held_tree_limits where
  "default_limits = \<lparr>hl_max_entries = 100000, hl_max_depth = MANIFEST_PATH_DEPTH_LIMIT,
     hl_max_path_bytes = 16 * 1024 * 1024, hl_max_manifest_bytes = 64 * 1024 * 1024,
     hl_max_content_bytes = None, hl_max_xattr_bytes = 1024 * 1024 * 1024\<rparr>"

datatype held_tree_limit = LimitEntries | LimitDepth | LimitPathBytes | LimitManifestBytes | LimitContentBytes

datatype node_kind = DirectoryNode | RegularNode | SymlinkNode | OtherNode

record node_identity =
  ni_kind :: node_kind
  ni_device :: u64
  ni_inode :: u64
  ni_incarnation :: u64

record regular_xattr_proof =
  xp_attribute_count :: u64
  xp_value_bytes :: u64
  xp_sha256 :: bytes

text \<open>The fields of a regular file; the seconds are the bits of an \<open>i64\<close>.\<close>

record regular_proof =
  rp_size :: u64
  rp_nlink :: u64
  rp_mtime_sec :: u64
  rp_mtime_nsec :: u32
  rp_ctime_sec :: u64
  rp_ctime_nsec :: u32
  rp_sha256 :: bytes
  rp_xattrs :: regular_xattr_proof

datatype content_proof = LegacyProof | DirectoryProof | RegularProof regular_proof | SymlinkProof bytes

record manifest_entry =
  me_path :: path
  me_identity :: node_identity
  me_uid :: u32
  me_gid :: u32
  me_mode :: u32
  me_content :: content_proof

text \<open>\<open>CodecPanic\<close> is not a variant of the source's enum: it is the panic of an \<open>expect\<close>.\<close>

datatype manifest_codec_error =
  RecordTooLarge
  | LengthOverflow
  | RecordCountMismatch
  | TrailingBytes
  | InvalidTag
  | KindContentMismatch
  | InvalidNanoseconds
  | InvalidMode
  | InvalidPath
  | InvalidOrder
  | InvalidRoot
  | MissingParent
  | CodecLimit held_tree_limit
  | EntryCountMismatch
  | CodecPanic

datatype 'e manifest_stream_error = StreamCodec manifest_codec_error | StreamEmit 'e

definition MANIFEST_V3_MAX_SEGMENT_PAYLOAD :: nat where "MANIFEST_V3_MAX_SEGMENT_PAYLOAD = 1048576"
definition LEGACY_CONTENT_PROOF_VERSION :: u16 where "LEGACY_CONTENT_PROOF_VERSION = 2"
definition CONTENT_PROOF_VERSION :: u16 where "CONTENT_PROOF_VERSION = 3"

definition MANIFEST_DOMAIN_V1 :: bytes where
  "MANIFEST_DOMAIN_V1 = map of_char ''degu-held-tree-manifest-v1'' @ [0]"
definition MANIFEST_DOMAIN_V2 :: bytes where
  "MANIFEST_DOMAIN_V2 = map of_char ''degu-held-tree-manifest-v2-content'' @ [0]"
definition MANIFEST_DOMAIN_V3 :: bytes where
  "MANIFEST_DOMAIN_V3 = map of_char ''degu-held-tree-manifest-v3-content-xattr'' @ [0]"

section \<open>Paths\<close>

text \<open>\<open>compare_manifest_paths(left, right) == Less\<close>: the order of \<open>Path\<close>, on components.\<close>

definition manifest_path_less :: "path \<Rightarrow> path \<Rightarrow> bool" where
  "manifest_path_less left right \<longleftrightarrow> path_components left < path_components right"

fun count_components :: "bytes list \<Rightarrow> u32 \<Rightarrow> manifest_codec_error + u32" where
  "count_components [] depth = Inr depth"
| "count_components (component # rest) depth =
     (if component = [] \<or> component = [dot] \<or> component = [dot, dot] then Inl InvalidPath
      else and_then (ok_or LengthOverflow (if depth = -1 then None else Some (depth + 1))) (count_components rest))"

definition validate_manifest_path :: "path \<Rightarrow> u32 \<Rightarrow> manifest_codec_error + unit" where
  "validate_manifest_path path max_depth =
     (if 0 \<in> set path then Inl InvalidPath
      else if path = [] then Inr ()
      else and_then (count_components (split_slash path) 0) (\<lambda>depth.
        if depth > max_depth then Inl (CodecLimit LimitDepth) else Inr ()))"

fun rposition_slash :: "bytes \<Rightarrow> nat option" where
  "rposition_slash [] = None"
| "rposition_slash (b # bs) =
     (case rposition_slash bs of Some i \<Rightarrow> Some (Suc i) | None \<Rightarrow> if b = slash then Some 0 else None)"

definition path_parent_bytes :: "path \<Rightarrow> path option" where
  "path_parent_bytes path =
     (case rposition_slash path of None \<Rightarrow> Some [] | Some position \<Rightarrow> Some (take position path))"

definition manifest_path_depth :: "path \<Rightarrow> nat" where
  "manifest_path_depth path = (if path = [] then 0 else length (filter (\<lambda>b. b = slash) path) + 1)"

section \<open>Encoding\<close>

fun kind_byte :: "node_kind \<Rightarrow> u8" where
  "kind_byte DirectoryNode = 0"
| "kind_byte RegularNode = 1"
| "kind_byte SymlinkNode = 2"
| "kind_byte OtherNode = 3"

text \<open>The pieces handed to \<open>emit\<close>, in order.\<close>

fun emit_content_v3 :: "content_proof \<Rightarrow> bytes list" where
  "emit_content_v3 LegacyProof = [[0xff]]"
| "emit_content_v3 DirectoryProof = [[0]]"
| "emit_content_v3 (RegularProof r) =
     [[1], be_bytes 8 (rp_size r), be_bytes 8 (rp_nlink r), be_bytes 8 (rp_mtime_sec r), be_bytes 4 (rp_mtime_nsec r),
      be_bytes 8 (rp_ctime_sec r), be_bytes 4 (rp_ctime_nsec r), rp_sha256 r,
      be_bytes 8 (xp_attribute_count (rp_xattrs r)), be_bytes 8 (xp_value_bytes (rp_xattrs r)), xp_sha256 (rp_xattrs r)]"
| "emit_content_v3 (SymlinkProof target) = [[2], be_bytes 8 (of_nat (length target) :: u64), target]"

definition emit_manifest_entry_v3_with_mode :: "manifest_entry \<Rightarrow> u32 \<Rightarrow> bytes list" where
  "emit_manifest_entry_v3_with_mode entry mode =
     [be_bytes 8 (of_nat (length (me_path entry)) :: u64), me_path entry, [kind_byte (ni_kind (me_identity entry))],
      be_bytes 8 (ni_device (me_identity entry)), be_bytes 8 (ni_inode (me_identity entry)),
      be_bytes 8 (ni_incarnation (me_identity entry)), be_bytes 4 (me_uid entry), be_bytes 4 (me_gid entry),
      be_bytes 4 mode] @ emit_content_v3 (me_content entry)"

definition emit_manifest_entry_v3 :: "manifest_entry \<Rightarrow> bytes list" where
  "emit_manifest_entry_v3 entry = emit_manifest_entry_v3_with_mode entry (me_mode entry)"

fun checked_lengths :: "bytes list \<Rightarrow> nat option \<Rightarrow> nat option" where
  "checked_lengths [] len = len"
| "checked_lengths (p # ps) len =
     checked_lengths ps (case len of None \<Rightarrow> None | Some current \<Rightarrow> usize_checked_add current (length p))"

definition manifest_entry_v3_len :: "manifest_entry \<Rightarrow> manifest_codec_error + nat" where
  "manifest_entry_v3_len entry = ok_or LengthOverflow (checked_lengths (emit_manifest_entry_v3 entry) (Some 0))"

text \<open>\<open>map_err(ManifestV3StreamError::Codec)?\<close>\<close>

definition codec_try ::
  "manifest_codec_error + 'a \<Rightarrow> ('a \<Rightarrow> 'e manifest_stream_error + 'b) \<Rightarrow> 'e manifest_stream_error + 'b" where
  "codec_try m f = (case m of Inl e \<Rightarrow> Inl (StreamCodec e) | Inr x \<Rightarrow> f x)"

definition emit_try :: "'e + 'a \<Rightarrow> ('a \<Rightarrow> 'e manifest_stream_error + 'b) \<Rightarrow> 'e manifest_stream_error + 'b" where
  "emit_try m f = (case m of Inl e \<Rightarrow> Inl (StreamEmit e) | Inr x \<Rightarrow> f x)"

text \<open>The consumer of the records or segments is a state-passing function.\<close>

fun stream_manifest_v3_records ::
  "(bytes \<Rightarrow> 's \<Rightarrow> 'e + 's) \<Rightarrow> manifest_entry list \<Rightarrow> 's \<Rightarrow> 'e manifest_stream_error + 's" where
  "stream_manifest_v3_records emit_record [] s = Inr s"
| "stream_manifest_v3_records emit_record (entry # rest) s =
     codec_try (manifest_entry_v3_len entry) (\<lambda>record_len.
       if record_len > MANIFEST_V3_MAX_SEGMENT_PAYLOAD then Inl (StreamCodec RecordTooLarge)
       else emit_try (emit_record (concat (emit_manifest_entry_v3 entry)) s)
         (stream_manifest_v3_records emit_record rest))"

fun stream_segments_loop ::
  "(u64 \<Rightarrow> bytes \<Rightarrow> 's \<Rightarrow> 'e + 's) \<Rightarrow> nat \<Rightarrow> manifest_entry list \<Rightarrow> bytes \<Rightarrow> u64 \<Rightarrow> 's \<Rightarrow> 'e manifest_stream_error + 's" where
  "stream_segments_loop emit_segment max_payload [] payload records s =
     (if records \<noteq> 0 then emit_try (emit_segment records payload s) Inr else Inr s)"
| "stream_segments_loop emit_segment max_payload (entry # rest) payload records s =
     codec_try (manifest_entry_v3_len entry) (\<lambda>record_len.
       if record_len > max_payload then Inl (StreamCodec RecordTooLarge)
       else and_then
         (if records \<noteq> 0 \<and> length payload + record_len > max_payload
          then emit_try (emit_segment records payload s) (\<lambda>s. Inr ([], 0, s))
          else Inr (payload, records, s)) (\<lambda>(payload, records, s).
         codec_try (ok_or LengthOverflow (checked_add64 records 1)) (\<lambda>records'.
           stream_segments_loop emit_segment max_payload rest (payload @ concat (emit_manifest_entry_v3 entry))
             records' s)))"

definition stream_manifest_v3_segments ::
  "(u64 \<Rightarrow> bytes \<Rightarrow> 's \<Rightarrow> 'e + 's) \<Rightarrow> nat \<Rightarrow> manifest_entry list \<Rightarrow> 's \<Rightarrow> 'e manifest_stream_error + 's" where
  "stream_manifest_v3_segments emit_segment max_payload manifest s =
     stream_segments_loop emit_segment (min max_payload MANIFEST_V3_MAX_SEGMENT_PAYLOAD) manifest [] 0 s"

section \<open>Fingerprints\<close>

text \<open>\<open>HeldTreeFingerprint\<close> has the three fields of a \<open>DurableTreeManifest\<close>.\<close>

type_synonym held_tree_fingerprint = durable_tree_manifest

definition fingerprint_manifest_v3 :: "digest \<Rightarrow> manifest_entry list \<Rightarrow> held_tree_fingerprint" where
  "fingerprint_manifest_v3 sha manifest =
     \<lparr>tm_schema_version = CONTENT_PROOF_VERSION, tm_entry_count = of_nat (length manifest),
      tm_sha256 = sha (MANIFEST_DOMAIN_V3 @ be_bytes 8 (of_nat (length manifest) :: u64) @
        concat (map (\<lambda>entry. concat (emit_manifest_entry_v3 entry)) manifest))\<rparr>"

fun legacy_content :: "content_proof \<Rightarrow> bytes list" where
  "legacy_content LegacyProof = [[0xff]]"
| "legacy_content DirectoryProof = [[0]]"
| "legacy_content (RegularProof r) =
     [[1], be_bytes 8 (rp_size r), be_bytes 8 (rp_nlink r), be_bytes 8 (rp_mtime_sec r), be_bytes 4 (rp_mtime_nsec r),
      be_bytes 8 (rp_ctime_sec r), be_bytes 4 (rp_ctime_nsec r), rp_sha256 r]"
| "legacy_content (SymlinkProof target) = [[2], be_bytes 8 (of_nat (length target) :: u64), target]"

definition legacy_entry :: "u16 \<Rightarrow> manifest_entry \<Rightarrow> bytes list" where
  "legacy_entry schema_version entry =
     [be_bytes 8 (of_nat (length (me_path entry)) :: u64), me_path entry, [kind_byte (ni_kind (me_identity entry))],
      be_bytes 8 (ni_device (me_identity entry)), be_bytes 8 (ni_inode (me_identity entry)),
      be_bytes 8 (ni_incarnation (me_identity entry)), be_bytes 4 (me_uid entry), be_bytes 4 (me_gid entry),
      be_bytes 4 (me_mode entry)] @ (if schema_version \<noteq> 1 then legacy_content (me_content entry) else [])"

definition fingerprint_manifest :: "digest \<Rightarrow> manifest_entry list \<Rightarrow> u16 \<Rightarrow> held_tree_fingerprint" where
  "fingerprint_manifest sha manifest schema_version =
     (if schema_version = CONTENT_PROOF_VERSION then fingerprint_manifest_v3 sha manifest
      else
        let domain = (if schema_version = 1 then MANIFEST_DOMAIN_V1
              else if schema_version = LEGACY_CONTENT_PROOF_VERSION then MANIFEST_DOMAIN_V2
              else map of_char ''degu-held-tree-manifest-unsupported'' @ [0])
        in \<lparr>tm_schema_version = schema_version, tm_entry_count = of_nat (length manifest),
            tm_sha256 = sha (domain @ be_bytes 8 (of_nat (length manifest) :: u64) @
              concat (map (\<lambda>entry. concat (legacy_entry schema_version entry)) manifest))\<rparr>)"

definition fingerprint_manifest_v1 :: "digest \<Rightarrow> manifest_entry list \<Rightarrow> held_tree_fingerprint" where
  "fingerprint_manifest_v1 sha manifest = fingerprint_manifest sha manifest 1"

definition fingerprint_manifest_v2 :: "digest \<Rightarrow> manifest_entry list \<Rightarrow> held_tree_fingerprint" where
  "fingerprint_manifest_v2 sha manifest = fingerprint_manifest sha manifest LEGACY_CONTENT_PROOF_VERSION"

section \<open>Decoding\<close>

definition take_input :: "nat \<Rightarrow> bytes \<Rightarrow> manifest_codec_error + (bytes \<times> bytes)" where
  "take_input len input = (if length input < len then Inl RecordCountMismatch else Inr (take len input, drop len input))"

definition take_u64 :: "bytes \<Rightarrow> manifest_codec_error + (u64 \<times> bytes)" where
  "take_u64 input = and_then (take_input 8 input) (\<lambda>(v, input). Inr (be_word v, input))"

datatype manifest_v3_record_kind = RecordDirectoryKind | RecordRegularKind | RecordSymlinkKind

text \<open>The fields of \<open>ManifestV3RecordContent::Regular\<close> are those of a \<open>regular_proof\<close>, flattened.\<close>

datatype manifest_v3_record_content =
  RecordDirectory | RecordRegular regular_proof | RecordSymlink bytes

record manifest_v3_record =
  mr_encoded :: bytes
  mr_path :: path
  mr_kind :: manifest_v3_record_kind
  mr_device :: u64
  mr_inode :: u64
  mr_incarnation :: u64
  mr_uid :: u32
  mr_gid :: u32
  mr_mode :: u32
  mr_content :: manifest_v3_record_content

text \<open>The stack of ancestor ends is kept with its top first.\<close>

record manifest_v3_decoder =
  md_expected_entries :: u64
  md_decoded_entries :: u64
  md_limits :: held_tree_limits
  md_path_bytes :: u64
  md_manifest_bytes :: u64
  md_xattr_bytes :: u64
  md_directory_ancestor_ends :: "nat list"
  md_previous_path :: "path option"
  md_digest :: bytes

definition decoder_with_limits :: "u64 \<Rightarrow> held_tree_limits \<Rightarrow> manifest_codec_error + manifest_v3_decoder" where
  "decoder_with_limits expected_entries limits =
     (if expected_entries = 0 then Inl InvalidRoot
      else if expected_entries > hl_max_entries limits then Inl (CodecLimit LimitEntries)
      else Inr \<lparr>md_expected_entries = expected_entries, md_decoded_entries = 0, md_limits = limits,
        md_path_bytes = 0, md_manifest_bytes = 0, md_xattr_bytes = 0, md_directory_ancestor_ends = [],
        md_previous_path = None, md_digest = MANIFEST_DOMAIN_V3 @ be_bytes 8 expected_entries\<rparr>)"

definition decoder_new :: "u64 \<Rightarrow> manifest_codec_error + manifest_v3_decoder" where
  "decoder_new expected_entries = decoder_with_limits expected_entries default_limits"

text \<open>The loop of \<open>retain_directory_parent\<close>: whether the parent was found, and the stack it leaves.\<close>

fun retain_directory_parent :: "path \<Rightarrow> path \<Rightarrow> nat list \<Rightarrow> bool \<times> nat list" where
  "retain_directory_parent previous parent [] = (False, [])"
| "retain_directory_parent previous parent (ancestor_end # rest) =
     (if ancestor_end \<le> length previous \<and> take ancestor_end previous = parent then (True, ancestor_end # rest)
      else retain_directory_parent previous parent rest)"

text \<open>The place of a path in the manifest: first the root, then strictly increasing paths whose parent is a
  directory on the stack.\<close>

definition decode_place :: "path \<Rightarrow> manifest_v3_decoder \<Rightarrow> manifest_codec_error + manifest_v3_decoder" where
  "decode_place path d =
     (if md_decoded_entries d = 0 then if path \<noteq> [] then Inl InvalidRoot else Inr d
      else if path = [] then Inl InvalidRoot
      else if (case md_previous_path d of None \<Rightarrow> False | Some previous \<Rightarrow> \<not> manifest_path_less previous path)
      then Inl InvalidOrder
      else and_then (ok_or InvalidPath (path_parent_bytes path)) (\<lambda>parent.
        case md_previous_path d of
          None \<Rightarrow> Inl CodecPanic
        | Some previous \<Rightarrow>
            (case retain_directory_parent previous parent (md_directory_ancestor_ends d) of (found, ends) \<Rightarrow>
               if found then Inr (d\<lparr>md_directory_ancestor_ends := ends\<rparr>) else Inl MissingParent)))"

definition fixed_fields :: "bytes \<Rightarrow> u64 \<times> u64 \<times> u64 \<times> u32 \<times> u32 \<times> u32" where
  "fixed_fields fixed = (be_word (byte_range 0 8 fixed), be_word (byte_range 8 16 fixed), be_word (byte_range 16 24 fixed),
     be_word (byte_range 24 28 fixed), be_word (byte_range 28 32 fixed), be_word (byte_range 32 36 fixed))"

definition regular_fields :: "bytes \<Rightarrow> regular_proof" where
  "regular_fields raw =
     \<lparr>rp_size = be_word (byte_range 0 8 raw), rp_nlink = be_word (byte_range 8 16 raw),
      rp_mtime_sec = be_word (byte_range 16 24 raw), rp_mtime_nsec = be_word (byte_range 24 28 raw),
      rp_ctime_sec = be_word (byte_range 28 36 raw), rp_ctime_nsec = be_word (byte_range 36 40 raw),
      rp_sha256 = byte_range 40 72 raw,
      rp_xattrs = \<lparr>xp_attribute_count = be_word (byte_range 72 80 raw), xp_value_bytes = be_word (byte_range 80 88 raw),
        xp_sha256 = byte_range 88 120 raw\<rparr>\<rparr>"

definition valid_nanoseconds :: "regular_proof \<Rightarrow> bool" where
  "valid_nanoseconds r \<longleftrightarrow> rp_mtime_nsec r < 1000000000 \<and> rp_ctime_nsec r < 1000000000"

definition decode_content ::
  "manifest_v3_record_kind \<Rightarrow> u8 \<Rightarrow> bytes \<Rightarrow> manifest_v3_decoder \<Rightarrow>
   manifest_codec_error + (manifest_v3_record_content \<times> bytes \<times> manifest_v3_decoder)" where
  "decode_content kind content_tag input d =
     (if kind = RecordDirectoryKind \<and> content_tag = 0 then Inr (RecordDirectory, input, d)
      else if kind = RecordRegularKind \<and> content_tag = 1 then
        and_then (take_input (8 + 8 + 8 + 4 + 8 + 4 + 32 + 8 + 8 + 32) input) (\<lambda>(raw, input).
          let r = regular_fields raw in
          if \<not> valid_nanoseconds r then Inl InvalidNanoseconds
          else and_then (ok_or LengthOverflow (checked_add64 (md_xattr_bytes d) (xp_value_bytes (rp_xattrs r)))) (\<lambda>xattr_bytes.
            if xattr_bytes > hl_max_xattr_bytes (md_limits d) then Inl (CodecLimit LimitContentBytes)
            else Inr (RecordRegular r, input, d\<lparr>md_xattr_bytes := xattr_bytes\<rparr>)))
      else if kind = RecordSymlinkKind \<and> content_tag = 2 then
        and_then (take_u64 input) (\<lambda>(target_len, input).
        and_then (take_input (unat target_len) input) (\<lambda>(target, input). Inr (RecordSymlink target, input, d)))
      else if content_tag \<le> 2 then Inl KindContentMismatch
      else Inl InvalidTag)"

text \<open>The budgets, the stack, the root's kind, the digest and the previous path. \<open>entry_size\<close> is
  \<open>size_of::<ManifestEntry>()\<close>, which the compiler chooses.\<close>

definition decode_account ::
  "u64 \<Rightarrow> path \<Rightarrow> manifest_v3_record_kind \<Rightarrow> bytes \<Rightarrow> manifest_v3_decoder \<Rightarrow> manifest_codec_error + manifest_v3_decoder" where
  "decode_account entry_size path kind encoded d =
     and_then (ok_or LengthOverflow (checked_add64 (md_path_bytes d) (of_nat (length path)))) (\<lambda>path_bytes.
     if path_bytes > hl_max_path_bytes (md_limits d) then Inl (CodecLimit LimitPathBytes)
     else and_then (ok_or LengthOverflow (case checked_add64 (md_manifest_bytes d) entry_size of
            None \<Rightarrow> None | Some v \<Rightarrow> checked_add64 v (of_nat (length path)))) (\<lambda>manifest_bytes.
       if manifest_bytes > hl_max_manifest_bytes (md_limits d) then Inl (CodecLimit LimitManifestBytes)
       else
         let ends = (if kind = RecordDirectoryKind then length path # md_directory_ancestor_ends d
               else md_directory_ancestor_ends d)
         in if md_decoded_entries d = 0 \<and> kind \<noteq> RecordDirectoryKind then Inl InvalidRoot
            else Inr (d\<lparr>md_path_bytes := path_bytes, md_manifest_bytes := manifest_bytes,
              md_directory_ancestor_ends := ends, md_digest := md_digest d @ encoded,
              md_previous_path := Some path, md_decoded_entries := md_decoded_entries d + 1\<rparr>)))"

definition record_kind :: "u8 \<Rightarrow> manifest_v3_record_kind" where
  "record_kind tag = (if tag = 0 then RecordDirectoryKind else if tag = 1 then RecordRegularKind else RecordSymlinkKind)"

definition decode_v3_record ::
  "u64 \<Rightarrow> bytes \<Rightarrow> manifest_v3_decoder \<Rightarrow> manifest_codec_error + (manifest_v3_record \<times> bytes \<times> manifest_v3_decoder)" where
  "decode_v3_record entry_size encoded_record d =
     (if md_decoded_entries d \<ge> md_expected_entries d then Inl EntryCountMismatch
      else
        and_then (take_u64 encoded_record) (\<lambda>(path_len, input).
        and_then (take_input (unat path_len) input) (\<lambda>(path, input).
        and_then (validate_manifest_path path (hl_max_depth (md_limits d))) (\<lambda>_.
        and_then (decode_place path d) (\<lambda>d.
        and_then (take_input 1 input) (\<lambda>(kind_tag, input).
        if hd kind_tag > 3 then Inl InvalidTag
        else and_then (take_input (24 + 4 + 4 + 4) input) (\<lambda>(fixed, input).
          case fixed_fields fixed of (device, inode, incarnation, uid, gid, mode) \<Rightarrow>
          if mode AND NOT 0xfff \<noteq> 0 then Inl InvalidMode
          else and_then (take_input 1 input) (\<lambda>(content_tag, input).
            if hd kind_tag = 3 then Inl (if hd content_tag \<le> 2 then KindContentMismatch else InvalidTag)
            else let kind = record_kind (hd kind_tag) in
              and_then (decode_content kind (hd content_tag) input d) (\<lambda>(content, input, d).
              let encoded = take (length encoded_record - length input) encoded_record in
              and_then (decode_account entry_size path kind encoded d) (\<lambda>d.
              Inr (\<lparr>mr_encoded = encoded, mr_path = path, mr_kind = kind, mr_device = device, mr_inode = inode,
                mr_incarnation = incarnation, mr_uid = uid, mr_gid = gid, mr_mode = mode, mr_content = content\<rparr>,
                input, d)))))))))))"

datatype 'e manifest_visit_error = VisitCodec manifest_codec_error | Visit 'e

text \<open>The loop over the records of one segment; the visitor threads a state.\<close>

fun decode_records ::
  "u64 \<Rightarrow> (manifest_v3_record \<Rightarrow> 's \<Rightarrow> 'e + 's) \<Rightarrow> nat \<Rightarrow> bytes \<Rightarrow> manifest_v3_decoder \<Rightarrow> 's \<Rightarrow>
   'e manifest_visit_error + (bytes \<times> manifest_v3_decoder \<times> 's)" where
  "decode_records entry_size visit 0 input d s = Inr (input, d, s)"
| "decode_records entry_size visit (Suc n) input d s =
     (case decode_v3_record entry_size input d of
        Inl e \<Rightarrow> Inl (VisitCodec e)
      | Inr (r, input, d) \<Rightarrow>
          (case visit r s of Inl e \<Rightarrow> Inl (Visit e) | Inr s \<Rightarrow> decode_records entry_size visit n input d s))"

definition push_segment_with ::
  "u64 \<Rightarrow> (manifest_v3_record \<Rightarrow> 's \<Rightarrow> 'e + 's) \<Rightarrow> u64 \<Rightarrow> bytes \<Rightarrow> manifest_v3_decoder \<Rightarrow> 's \<Rightarrow>
   'e manifest_visit_error + (manifest_v3_decoder \<times> 's)" where
  "push_segment_with entry_size visit record_count payload d s =
     (if record_count = 0 then Inl (VisitCodec RecordCountMismatch)
      else if length payload > MANIFEST_V3_MAX_SEGMENT_PAYLOAD then Inl (VisitCodec RecordTooLarge)
      else and_then (decode_records entry_size visit (unat record_count) payload d s) (\<lambda>(input, d, s).
        if input \<noteq> [] then Inl (VisitCodec TrailingBytes) else Inr (d, s)))"

definition push_segment ::
  "u64 \<Rightarrow> u64 \<Rightarrow> bytes \<Rightarrow> manifest_v3_decoder \<Rightarrow> manifest_codec_error + manifest_v3_decoder" where
  "push_segment entry_size record_count payload d =
     (case push_segment_with entry_size (\<lambda>_ _. Inr () :: unit + unit) record_count payload d () of
        Inr (d, _) \<Rightarrow> Inr d | Inl (VisitCodec e) \<Rightarrow> Inl e | Inl (Visit _) \<Rightarrow> Inl CodecPanic)"

definition decoder_finish :: "digest \<Rightarrow> manifest_v3_decoder \<Rightarrow> manifest_codec_error + durable_tree_manifest" where
  "decoder_finish sha d =
     (if md_decoded_entries d \<noteq> md_expected_entries d then Inl EntryCountMismatch
      else Inr \<lparr>tm_schema_version = CONTENT_PROOF_VERSION, tm_entry_count = md_decoded_entries d,
        tm_sha256 = sha (md_digest d)\<rparr>)"

section \<open>Reading the manifest of a published sidecar\<close>

datatype 'e tree_manifest_fold_error =
  ManifestSidecar sidecar_error | ManifestCodec manifest_codec_error | FingerprintMismatch | ManifestFold 'e

text \<open>What the callback captures: the decoder until its first error, that error, the first error of the
  caller's fold, and the caller's accumulator. What the fold made of the records before an error is never
  returned, so the accumulator is kept as it was.\<close>

type_synonym ('a, 'e) manifest_capture =
  "manifest_v3_decoder option \<times> manifest_codec_error option \<times> 'e option \<times> 'a"

definition capture_record ::
  "('a \<Rightarrow> manifest_v3_record \<Rightarrow> 'e + 'a) \<Rightarrow> manifest_v3_record \<Rightarrow> 'e option \<times> 'a \<Rightarrow> unit + ('e option \<times> 'a)" where
  "capture_record visit r st =
     (case st of (fold_error, acc) \<Rightarrow>
      if Option.is_none fold_error then (case visit acc r of Inl e \<Rightarrow> Inr (Some e, acc) | Inr acc \<Rightarrow> Inr (None, acc))
      else Inr (fold_error, acc))"

definition capture_segment ::
  "u64 \<Rightarrow> ('a \<Rightarrow> manifest_v3_record \<Rightarrow> 'e + 'a) \<Rightarrow> ('a, 'e) manifest_capture \<Rightarrow> u64 \<Rightarrow> bytes \<Rightarrow>
   unit + ('a, 'e) manifest_capture" where
  "capture_segment entry_size visit st record_count payload =
     (case st of (decoder, codec_error, fold_error, acc) \<Rightarrow>
      if codec_error \<noteq> None then Inr st
      else case decoder of
          None \<Rightarrow> Inr (None, Some CodecPanic, fold_error, acc)
        | Some d \<Rightarrow>
            (case push_segment_with entry_size (capture_record visit) record_count payload d (fold_error, acc) of
               Inr (d, fold_error, acc) \<Rightarrow> Inr (Some d, None, fold_error, acc)
             | Inl (VisitCodec e) \<Rightarrow> Inr (None, Some e, fold_error, acc)
             | Inl (Visit _) \<Rightarrow> Inr (Some d, None, fold_error, acc)))"

definition unsidecar :: "unit fold_error + 'a \<Rightarrow> ('a \<Rightarrow> 'e tree_manifest_fold_error + 'b) \<Rightarrow> 'e tree_manifest_fold_error + 'b" where
  "unsidecar m f = (case m of Inl (FoldSidecar e) \<Rightarrow> Inl (ManifestSidecar e) | Inl (Fold _) \<Rightarrow> Inl (ManifestCodec CodecPanic)
     | Inr x \<Rightarrow> f x)"

text \<open>The file may change between the verification (in \<open>env\<close> and \<open>files\<close>) and the pass that folds (in
  \<open>env'\<close> and \<open>files'\<close>).\<close>

definition read_manifest_v3_fold ::
  "digest \<Rightarrow> u64 \<Rightarrow> store_env \<Rightarrow> sidecar_files \<Rightarrow> store_env \<Rightarrow> sidecar_files \<Rightarrow> tree_sidecar_commitment \<Rightarrow>
   durable_tree_manifest \<Rightarrow> 'a \<Rightarrow> ('a \<Rightarrow> manifest_v3_record \<Rightarrow> 'e + 'a) \<Rightarrow>
   'e tree_manifest_fold_error + ('a \<times> durable_tree_manifest)" where
  "read_manifest_v3_fold sha entry_size env files env' files' commitment expected_manifest acc visit =
     (case verify_sidecar env sha commitment files of
        Inl e \<Rightarrow> Inl (ManifestSidecar e)
      | Inr _ \<Rightarrow>
          if sc_record_count commitment \<noteq> tm_entry_count expected_manifest then Inl (ManifestCodec EntryCountMismatch)
          else case decoder_new (sc_record_count commitment) of
              Inl e \<Rightarrow> Inl (ManifestCodec e)
            | Inr d \<Rightarrow>
                unsidecar (read_fold env' sha commitment (Some d, None, None, acc) (capture_segment entry_size visit) files')
                  (\<lambda>(decoder, codec_error, fold_error, acc).
                   case codec_error of
                     Some e \<Rightarrow> Inl (ManifestCodec e)
                   | None \<Rightarrow>
                       (case decoder of
                          None \<Rightarrow> Inl (ManifestCodec CodecPanic)
                        | Some d \<Rightarrow>
                            (case decoder_finish sha d of
                               Inl e \<Rightarrow> Inl (ManifestCodec e)
                             | Inr actual \<Rightarrow>
                                 if actual \<noteq> expected_manifest then Inl FingerprintMismatch
                                 else case fold_error of
                                     Some e \<Rightarrow> Inl (ManifestFold e)
                                   | None \<Rightarrow> Inr (acc, actual)))))"

end
