(* ===== verification/Manifest_Paths.thy ===== *)
theory Manifest_Paths
  imports Manifest
begin

text \<open>
  The paths of a manifest as lists of names: a canonical path is determined by its names, the order of the
  manifest is lexicographic on them, and the stack of ancestor ends stands for the proper prefixes of the
  previous path.
\<close>

section \<open>Names\<close>

definition names :: "path \<Rightarrow> bytes list" where
  "names p = (if p = [] then [] else split_slash p)"

fun join_slash :: "bytes list \<Rightarrow> path" where
  "join_slash [] = []"
| "join_slash [s] = s"
| "join_slash (s # t # ss) = s @ slash # join_slash (t # ss)"

definition good_name :: "bytes \<Rightarrow> bool" where
  "good_name s \<longleftrightarrow> s \<noteq> [] \<and> s \<noteq> [dot] \<and> s \<noteq> [dot, dot] \<and> slash \<notin> set s"

definition canonical_path :: "path \<Rightarrow> bool" where
  "canonical_path p \<longleftrightarrow> 0 \<notin> set p \<and> list_all good_name (names p)"

lemma join_split [simp]: "join_slash (split_slash p) = p"
proof (induction p)
  case (Cons b p)
  then show ?case by (cases "split_slash p" rule: join_slash.cases) auto
qed simp

lemma split_no_slash: "s \<in> set (split_slash p) \<Longrightarrow> slash \<notin> set s"
proof (induction p arbitrary: s)
  case (Cons b p)
  then show ?case by (cases "split_slash p") (auto split: if_splits)
qed simp

lemma split_whole: "slash \<notin> set s \<Longrightarrow> split_slash s = [s]"
  by (induction s) auto

lemma split_join: "ss \<noteq> [] \<Longrightarrow> list_all (\<lambda>s. slash \<notin> set s) ss \<Longrightarrow> split_slash (join_slash ss) = ss"
  by (induction ss rule: join_slash.induct) (auto simp: split_whole split_slash_join)

lemma join_names [simp]: "join_slash (names p) = p"
  by (simp add: names_def)

lemma join_Nil_iff: "list_all good_name ss \<Longrightarrow> join_slash ss = [] \<longleftrightarrow> ss = []"
  by (cases ss rule: join_slash.cases) (auto simp: good_name_def)

lemma names_join: "list_all good_name ss \<Longrightarrow> names (join_slash ss) = ss"
proof (cases "ss = []")
  case False
  assume good: "list_all good_name ss"
  then have "list_all (\<lambda>s. slash \<notin> set s) ss" by (auto simp: list_all_iff good_name_def)
  with False show ?thesis using join_Nil_iff [OF good] by (simp add: names_def split_join)
qed (simp add: names_def)

lemma join_inject: "list_all good_name xs \<Longrightarrow> list_all good_name ys \<Longrightarrow> join_slash xs = join_slash ys \<longleftrightarrow> xs = ys"
  by (metis names_join)

lemma names_empty [simp]: "names [] = []"
  by (simp add: names_def)

lemma names_Nil_iff [simp]: "names p = [] \<longleftrightarrow> p = []"
  by (simp add: names_def)

lemma names_inject: "names p = names q \<longleftrightarrow> p = q"
  by (metis join_names)

section \<open>Validation\<close>

lemma count_components_Inr:
  "count_components ss d = Inr n \<longleftrightarrow>
     list_all (\<lambda>s. s \<noteq> [] \<and> s \<noteq> [dot] \<and> s \<noteq> [dot, dot]) ss \<and> unat d + length ss < 2 ^ 32 \<and> n = d + of_nat (length ss)"
proof (induction ss arbitrary: d)
  case Nil
  have "unat d < 2 ^ 32" using unsigned_less [of d] by simp
  then show ?case by auto
next
  case (Cons s ss)
  have max: "d = -1 \<longleftrightarrow> unat d = 2 ^ 32 - 1"
    using unsigned_minus_1_eq_mask [where 'a = nat and 'b = 32] by (auto simp: word_unat_eq_iff mask_eq_exp_minus_1)
  show ?case
  proof (cases "d = -1")
    case True
    with max show ?thesis by simp
  next
    case False
    have "unat d < 2 ^ 32" using unsigned_less [of d] by simp
    with False max have "unat (d + 1) = unat d + 1" by (simp add: unat_word_ariths)
    with False show ?thesis by (auto simp: Cons.IH add.assoc)
  qed
qed

lemma list_all_names_good:
  "list_all good_name (names p) \<longleftrightarrow> list_all (\<lambda>s. s \<noteq> [] \<and> s \<noteq> [dot] \<and> s \<noteq> [dot, dot]) (names p)"
  using split_no_slash [of _ p] by (auto simp: list_all_iff good_name_def names_def)

lemma validate_manifest_path_Inr:
  "validate_manifest_path p d = Inr () \<longleftrightarrow> canonical_path p \<and> length (names p) \<le> unat d"
proof (cases "p = []")
  case False
  let ?ss = "split_slash p"
  have d: "unat d < 2 ^ 32" using unsigned_less [of d] by simp
  have small: "length ?ss < 2 ^ 32 \<and> \<not> d < of_nat (length ?ss) \<longleftrightarrow> length ?ss \<le> unat d"
    using d by (auto simp: word_less_nat_alt unat_of_nat)
  have "validate_manifest_path p d = Inr () \<longleftrightarrow> 0 \<notin> set p \<and>
      list_all (\<lambda>s. s \<noteq> [] \<and> s \<noteq> [dot] \<and> s \<noteq> [dot, dot]) ?ss \<and> length ?ss < 2 ^ 32 \<and> \<not> d < of_nat (length ?ss)"
    using False by (auto simp: validate_manifest_path_def count_components_Inr and_then_Inr_iff split: if_splits)
  then show ?thesis
    using False list_all_names_good [of p] unfolding small canonical_path_def names_def by auto
qed (simp add: validate_manifest_path_def canonical_path_def names_def)

lemma names_components:
  assumes "canonical_path p"
  shows "path_components p = map Normal (names p)"
proof (cases "p = []")
  case False
  then have good: "list_all good_name (split_slash p)" using assms by (simp add: canonical_path_def names_def)
  then have "hd (split_slash p) \<noteq> [dot]" "hd (split_slash p) \<noteq> []"
    by (cases "split_slash p"; auto simp: good_name_def)+
  moreover from this have "\<not> is_absolute p" by (cases p) (auto simp: is_absolute_def)
  moreover have "concat (map seg_components ss) = map Normal ss" if "list_all good_name ss" for ss
    using that by (induction ss) (auto simp: seg_components_def good_name_def)
  ultimately show ?thesis using good False by (simp add: path_components_def names_def)
qed (simp add: names_def)

section \<open>Order\<close>

lemma Normal_less: "Normal a < Normal b \<longleftrightarrow> a < b"
  by (simp add: less_path_component_def less_prod_def)

lemma map_Normal_less: "map Normal xs < map Normal ys \<longleftrightarrow> xs < ys"
proof (induction xs arbitrary: ys)
  case Nil
  then show ?case by (cases ys) simp_all
next
  case (Cons x xs)
  then show ?case by (cases ys) (auto simp: Normal_less)
qed

lemma manifest_path_less_names:
  "canonical_path p \<Longrightarrow> canonical_path q \<Longrightarrow> manifest_path_less p q \<longleftrightarrow> names p < names q"
  by (simp add: manifest_path_less_def names_components map_Normal_less)

lemma less_snoc: "xs < xs @ [x :: 'a::linorder]"
  by (induction xs) simp_all

lemma lex_between:
  fixes xs ys :: "'a::linorder list"
  assumes "xs \<le> ys" "ys < xs @ [x]"
  shows "prefix xs ys"
  using assms
proof (induction xs arbitrary: ys)
  case (Cons z xs)
  then obtain y ys' where y: "ys = y # ys'" by (cases ys) auto
  with Cons.prems have "y = z" by auto
  with y Cons show ?case by auto
qed simp

section \<open>Parents\<close>

lemma rposition_slash_None: "rposition_slash p = None \<longleftrightarrow> slash \<notin> set p"
  by (induction p) (auto split: option.splits)

lemma rposition_slash_Some:
  "rposition_slash p = Some i \<Longrightarrow> i < length p \<and> p ! i = slash \<and> slash \<notin> set (drop (Suc i) p)"
proof (induction p arbitrary: i)
  case (Cons b p)
  then show ?case
    by (cases "rposition_slash p") (auto simp: rposition_slash_None split: if_splits)
qed simp

lemma path_parent_join: "path_parent_bytes p = Some (join_slash (butlast (split_slash p)))"
proof (cases "rposition_slash p")
  case None
  then show ?thesis using split_whole [of p] rposition_slash_None [of p] by (simp add: path_parent_bytes_def)
next
  case (Some i)
  from rposition_slash_Some [OF Some] have i: "p = take i p @ slash # drop (Suc i) p" "slash \<notin> set (drop (Suc i) p)"
    using id_take_nth_drop [of i p] by auto
  have "split_slash p = split_slash (take i p) @ [drop (Suc i) p]"
    by (subst i(1)) (simp add: split_slash_join split_whole [OF i(2)])
  with Some show ?thesis by (simp add: path_parent_bytes_def butlast_append)
qed

lemma good_take: "list_all good_name ss \<Longrightarrow> list_all good_name (take k ss)"
  by (auto simp: list_all_iff dest: in_set_takeD)

lemma good_butlast: "list_all good_name ss \<Longrightarrow> list_all good_name (butlast ss)"
  by (simp add: butlast_conv_take good_take)

lemma path_parent_names:
  "canonical_path p \<Longrightarrow> path_parent_bytes p = Some (join_slash (butlast (names p)))"
  by (cases "p = []") (simp_all add: path_parent_join names_def)

section \<open>The ancestor stack\<close>

text \<open>The ends of the proper prefixes of a path, the longest first.\<close>

definition ends :: "bytes list \<Rightarrow> nat list" where
  "ends ss = rev (map (\<lambda>k. length (join_slash (take k ss))) [0..<length ss])"

lemma ends_Nil [simp]: "ends [] = []"
  by (simp add: ends_def)

lemma ends_snoc [simp]: "ends (ss @ [s]) = length (join_slash ss) # ends ss"
  by (simp add: ends_def)

lemma join_snoc: "join_slash (ss @ [s]) = (if ss = [] then s else join_slash ss @ slash # s)"
  by (induction ss rule: join_slash.induct) auto

lemma join_append: "\<exists>r. join_slash (xs @ ys) = join_slash xs @ r"
proof (induction ys rule: rev_induct)
  case (snoc y ys)
  then show ?case using join_snoc [of "xs @ ys" y] by (auto split: if_splits)
qed simp

lemma take_join: "prefix xs ys \<Longrightarrow> take (length (join_slash xs)) (join_slash ys) = join_slash xs \<and>
    length (join_slash xs) \<le> length (join_slash ys)"
  by (elim prefixE) (metis join_append append_eq_conv_conj length_append le_add1)

lemma retain_ends:
  assumes "list_all good_name ss'" "list_all good_name ps" "prefix ss ss'"
  shows "retain_directory_parent (join_slash ss') (join_slash ps) (ends ss) =
    (if strict_prefix ps ss then (True, length (join_slash ps) # ends ps) else (False, []))"
  using assms(3)
proof (induction ss rule: rev_induct)
  case (snoc s ss)
  have p: "prefix ss ss'" using snoc.prems by (meson append_prefixD)
  have good: "list_all good_name ss" using p assms(1) by (auto simp: list_all_iff prefix_def)
  have "strict_prefix ps (ss @ [s]) \<longleftrightarrow> ps = ss \<or> strict_prefix ps ss"
    by (auto simp: strict_prefix_def)
  then show ?case using snoc.IH [OF p] take_join [OF p] join_inject [OF good assms(2)] by auto
qed simp

definition stack_of :: "bool \<Rightarrow> bytes list \<Rightarrow> nat list" where
  "stack_of directory ss = (if directory then length (join_slash ss) # ends ss else ends ss)"

lemma retain_stack:
  assumes "list_all good_name ss" "list_all good_name ps"
  shows "retain_directory_parent (join_slash ss) (join_slash ps) (stack_of directory ss) =
    (if strict_prefix ps ss \<or> directory \<and> ps = ss then (True, length (join_slash ps) # ends ps) else (False, []))"
  using retain_ends [OF assms, of ss] join_inject [OF assms] by (auto simp: stack_of_def)

end
