(* ===== verification/Sidecar_Props.thy ===== *)
theory Sidecar_Props
  imports Sidecar
begin

text \<open>
  The container is exact: a reader accepts a file under a commitment precisely when it is the encoding
  of its segments, and what a publisher writes is that encoding.
\<close>

section \<open>Slices\<close>

lemma drop_range: "a \<le> b \<Longrightarrow> drop a bs = byte_range a b bs @ drop b bs"
  by (simp add: byte_range_def) (metis append_take_drop_id drop_drop le_add_diff_inverse2)

lemma length_range: "length (byte_range a b bs) = min (b - a) (length bs - a)"
  by (simp add: byte_range_def)

lemma range_append [simp]:
  "b \<le> length xs \<Longrightarrow> byte_range a b (xs @ ys) = byte_range a b xs"
  "length xs \<le> a \<Longrightarrow> byte_range a b (xs @ ys) = byte_range (a - length xs) (b - length xs) ys"
  by (simp_all add: byte_range_def)

lemma range_all: "length bs = n \<Longrightarrow> byte_range 0 n bs = bs"
  by (simp add: byte_range_def)

section \<open>Headers\<close>

definition valid_header :: "tree_sidecar_commitment \<Rightarrow> bool" where
  "valid_header c \<longleftrightarrow> sc_segment_count c \<noteq> 0 \<and> sc_segment_count c \<le> MAX_SEGMENTS \<and> sc_record_count c \<noteq> 0 \<and>
     sc_payload_bytes c \<le> MAX_TOTAL_PAYLOAD_BYTES"

lemma length_magic [simp]: "length sidecar_magic = 4"
  by (simp add: sidecar_magic_def)

lemma header_ranges:
  assumes "length (tid_bytes (sc_transaction c)) = 16" "length (sc_root_sha256 c) = 32"
  shows "byte_range 0 4 (encode_header c) = sidecar_magic" "byte_range 4 6 (encode_header c) = be_bytes 2 sidecar_version"
    "byte_range 6 8 (encode_header c) = be_bytes 2 (80 :: u16)" "byte_range 8 24 (encode_header c) = tid_bytes (sc_transaction c)"
    "byte_range 24 32 (encode_header c) = be_bytes 8 (sc_segment_count c)"
    "byte_range 32 40 (encode_header c) = be_bytes 8 (sc_record_count c)"
    "byte_range 40 48 (encode_header c) = be_bytes 8 (sc_payload_bytes c)"
    "byte_range 48 80 (encode_header c) = sc_root_sha256 c" "length (encode_header c) = 80"
  using assms by (simp_all add: encode_header_def range_all)

lemma decode_encode_header:
  assumes "length (tid_bytes (sc_transaction c)) = 16" "length (sc_root_sha256 c) = 32" "valid_header c"
  shows "decode_header (encode_header c) = Inr (c\<lparr>sc_file_bytes := 0\<rparr>)"
  using assms(3) unfolding decode_header_def header_ranges [OF assms(1,2)]
  by (simp add: valid_header_def Let_def not_less)

lemma decode_header_Inr:
  assumes "decode_header h = Inr c" "length h = 80"
  shows "h = encode_header c" "valid_header c" "length (tid_bytes (sc_transaction c)) = 16"
    "length (sc_root_sha256 c) = 32"
proof -
  have split: "h = byte_range 0 4 h @ byte_range 4 6 h @ byte_range 6 8 h @ byte_range 8 24 h @ byte_range 24 32 h @ byte_range 32 40 h @
      byte_range 40 48 h @ byte_range 48 80 h"
    using drop_range [of 0 4 h] drop_range [of 4 6 h] drop_range [of 6 8 h] drop_range [of 8 24 h]
      drop_range [of 24 32 h] drop_range [of 32 40 h] drop_range [of 40 48 h] drop_range [of 48 80 h] assms(2)
    by simp
  have len: "length (byte_range a b h) = b - a" if "b \<le> 80" for a b using that assms(2) by (simp add: length_range)
  have fields: "byte_range 0 4 h = sidecar_magic" "be_word (byte_range 4 6 h) = sidecar_version"
    "be_word (byte_range 6 8 h) = (80 :: u16)" "valid_header c" "sc_transaction c = TransactionId (byte_range 8 24 h)"
    "sc_segment_count c = be_word (byte_range 24 32 h)" "sc_record_count c = be_word (byte_range 32 40 h)"
    "sc_payload_bytes c = be_word (byte_range 40 48 h)" "sc_root_sha256 c = byte_range 48 80 h"
    using assms(1) by (auto simp: decode_header_def Let_def valid_header_def split: if_splits)
  have be: "byte_range 4 6 h = be_bytes 2 sidecar_version" "byte_range 6 8 h = be_bytes 2 (80 :: u16)"
    "byte_range 24 32 h = be_bytes 8 (sc_segment_count c)" "byte_range 32 40 h = be_bytes 8 (sc_record_count c)"
    "byte_range 40 48 h = be_bytes 8 (sc_payload_bytes c)"
    using be_bytes_be_word [of "byte_range 4 6 h" 2, where 'a = 16] be_bytes_be_word [of "byte_range 6 8 h" 2, where 'a = 16]
      be_bytes_be_word [of "byte_range 24 32 h" 8, where 'a = 64] be_bytes_be_word [of "byte_range 32 40 h" 8, where 'a = 64]
      be_bytes_be_word [of "byte_range 40 48 h" 8, where 'a = 64] len fields
    by simp_all
  show "h = encode_header c"
    by (subst split) (simp only: encode_header_def be fields(1,5,9) transaction_id.sel)
  show "valid_header c" "length (tid_bytes (sc_transaction c)) = 16" "length (sc_root_sha256 c) = 32"
    using fields len by simp_all
qed

section \<open>Segments\<close>

text \<open>The bytes and digests of segments from an index on.\<close>

fun segment_bytes :: "digest \<Rightarrow> transaction_id \<Rightarrow> u64 \<Rightarrow> segment list \<Rightarrow> bytes" where
  "segment_bytes sha t i [] = []"
| "segment_bytes sha t i ((n, p) # segs) =
     encode_segment_header i n (of_nat (length p)) (segment_digest sha t i n p) @ p @ segment_bytes sha t (i + 1) segs"

fun segment_digests :: "digest \<Rightarrow> transaction_id \<Rightarrow> u64 \<Rightarrow> segment list \<Rightarrow> bytes" where
  "segment_digests sha t i [] = []"
| "segment_digests sha t i ((n, p) # segs) = segment_digest sha t i n p @ segment_digests sha t (i + 1) segs"

definition segment_ok :: "segment \<Rightarrow> bool" where
  "segment_ok seg \<longleftrightarrow> fst seg \<noteq> 0 \<and> length (snd seg) \<le> unat MAX_SEGMENT_PAYLOAD"

lemma payload_len_word: "length p \<le> unat MAX_SEGMENT_PAYLOAD \<Longrightarrow> unat (of_nat (length p) :: u32) = length p"
  "length p \<le> unat MAX_SEGMENT_PAYLOAD \<Longrightarrow> unat (of_nat (length p) :: u64) = length p"
  by (simp_all add: MAX_SEGMENT_PAYLOAD_def unat_of_nat)

lemma read_encoded_segment:
  assumes "segment_ok (n, p)" "\<And>bs. length (sha bs) = 32"
  shows "read_segment sha t i (encode_segment_header i n (of_nat (length p)) (segment_digest sha t i n p) @ p @ rest) =
    Inr (n, p, segment_digest sha t i n p, rest)"
proof -
  let ?h = "encode_segment_header i n (of_nat (length p)) (segment_digest sha t i n p)"
  have len: "length (segment_digest sha t i n p) = 32" by (simp add: segment_digest_def assms(2))
  then have h: "length ?h = 56" "byte_range 0 8 ?h = be_bytes 8 i" "byte_range 8 16 ?h = be_bytes 8 n"
    "byte_range 16 20 ?h = be_bytes 4 (of_nat (length p) :: u32)" "byte_range 20 24 ?h = replicate 4 0"
    "byte_range 24 56 ?h = segment_digest sha t i n p"
    by (simp_all add: encode_segment_header_def range_all)
  have "read_exact 56 (?h @ p @ rest) = Inr (?h, p @ rest)" using h(1) by (simp add: read_exact_def)
  then show ?thesis
    using assms(1) h(2-6) payload_len_word(1) [of p]
    by (simp add: read_segment_def Let_def segment_ok_def read_exact_def)
qed

lemma read_segment_Inr:
  assumes "read_segment sha t i bs = Inr (n, p, d, rest)"
  shows "bs = encode_segment_header i n (of_nat (length p)) d @ p @ rest" "d = segment_digest sha t i n p" "segment_ok (n, p)"
proof -
  define h where "h = take 56 bs"
  have len: "56 \<le> length bs" using assms by (auto simp: read_segment_def read_exact_def and_then_Inr_iff split: if_splits)
  then have hl: "length h = 56" by (simp add: h_def)
  define l where "l = (be_word (byte_range 16 20 h) :: u32)"
  have parts: "byte_range 20 24 h = replicate 4 0" "be_word (byte_range 0 8 h) = i" "n = be_word (byte_range 8 16 h)" "n \<noteq> 0"
    "unat l \<le> unat MAX_SEGMENT_PAYLOAD" "unat l \<le> length (drop 56 bs)" "p = take (unat l) (drop 56 bs)"
    "rest = drop (unat l) (drop 56 bs)" "d = byte_range 24 56 h" "d = segment_digest sha t i n p"
    using assms len
    by (auto simp: read_segment_def read_exact_def and_then_Inr_iff Let_def h_def l_def split: if_splits)
  have pl: "length p = unat l" using parts(6,7) by simp
  have split: "h = byte_range 0 8 h @ byte_range 8 16 h @ byte_range 16 20 h @ byte_range 20 24 h @ byte_range 24 56 h"
    using drop_range [of 0 8 h] drop_range [of 8 16 h] drop_range [of 16 20 h] drop_range [of 20 24 h]
      drop_range [of 24 56 h] hl by simp
  have be: "byte_range 0 8 h = be_bytes 8 i" "byte_range 8 16 h = be_bytes 8 n"
    "byte_range 16 20 h = be_bytes 4 (of_nat (length p) :: u32)"
    using be_bytes_be_word [of "byte_range 0 8 h" 8, where 'a = 64] be_bytes_be_word [of "byte_range 8 16 h" 8, where 'a = 64]
      be_bytes_be_word [of "byte_range 16 20 h" 4, where 'a = 32] hl parts(2,3) pl
    by (simp_all add: length_range l_def)
  have "h = encode_segment_header i n (of_nat (length p)) d"
    by (subst split) (simp only: encode_segment_header_def be parts(1) parts(9))
  moreover have "bs = h @ p @ rest" unfolding h_def parts(7,8) by (simp only: append_take_drop_id)
  ultimately show "bs = encode_segment_header i n (of_nat (length p)) d @ p @ rest" by simp
  show "d = segment_digest sha t i n p" "segment_ok (n, p)" using parts(4,5,10) pl by (simp_all add: segment_ok_def)
qed


definition record_total :: "segment list \<Rightarrow> nat" where
  "record_total segs = sum_list (map (\<lambda>seg. unat (fst seg)) segs)"

definition payload_total :: "segment list \<Rightarrow> nat" where
  "payload_total segs = sum_list (map (\<lambda>seg. length (snd seg)) segs)"

lemma segment_sums [simp]:
  "record_total [] = 0" "payload_total [] = 0"
  "record_total (seg # segs) = unat (fst seg) + record_total segs"
  "payload_total (seg # segs) = length (snd seg) + payload_total segs"
  by (simp_all add: record_total_def payload_total_def)

lemma checked_add64_ok: "unat a + unat b < 2 ^ 64 \<Longrightarrow> checked_add64 a b = Some (a + b)"
  by (simp add: checked_add64_def)

lemma checked_add64_Some: "checked_add64 a b = Some c \<longleftrightarrow> unat a + unat b < 2 ^ 64 \<and> c = a + b"
  by (auto simp: checked_add64_def)

lemma unat_add64: "unat (a :: u64) + unat b < 2 ^ 64 \<Longrightarrow> unat (a + b) = unat a + unat b"
  by (simp add: unat_word_ariths)

text \<open>Reading the segments that were written gives them to the consumer, one after the other.\<close>

lemma fold_encoded_segments:
  assumes "list_all segment_ok segs" "\<And>bs. length (sha bs) = 32"
    and "unat records + record_total segs < 2 ^ 64" "unat payload + payload_total segs < 2 ^ 64"
  shows "fold_segments sha t f (length segs) i (segment_bytes sha t i segs @ rest) root records payload acc =
    (case fold_r (\<lambda>(n, p) acc. f acc n p) segs acc of
       Inl e \<Rightarrow> Inl (Fold e)
     | Inr acc \<Rightarrow> Inr (rest, root @ segment_digests sha t i segs, records + of_nat (record_total segs),
         payload + of_nat (payload_total segs), acc))"
  using assms(1,3,4)
proof (induction segs arbitrary: i root records payload acc)
  case (Cons seg segs)
  obtain n p where seg: "seg = (n, p)" by (cases seg)
  have ok: "segment_ok (n, p)" using Cons.prems(1) seg by simp
  then have len: "unat (of_nat (length p) :: u64) = length p" by (simp add: segment_ok_def payload_len_word)
  have sums: "unat records + unat n < 2 ^ 64" "unat payload + unat (of_nat (length p) :: u64) < 2 ^ 64"
    using Cons.prems(2,3) seg len by simp_all
  have next_sums: "unat (records + n) + record_total segs < 2 ^ 64"
    "unat (payload + of_nat (length p)) + payload_total segs < 2 ^ 64"
    using Cons.prems(2,3) seg len unat_add64 [OF sums(1)] unat_add64 [OF sums(2)] by simp_all
  show ?case
    using read_encoded_segment [OF ok assms(2), where rest = "segment_bytes sha t (i + 1) segs @ rest"]
      Cons.IH [OF _ next_sums] Cons.prems(1) checked_add64_ok [OF sums(1)] checked_add64_ok [OF sums(2)]
    by (auto simp: seg sidecar_try_def add.assoc split: sum.split)
qed simp

text \<open>A fold that ends has read nothing but encoded segments, in order.\<close>

lemma fold_segments_Inr:
  assumes "fold_segments sha t f k i bs root records payload acc = Inr (rest, root', records', payload', acc')"
  shows "\<exists>segs. fold_r (\<lambda>(n, p) acc. f acc n p) segs acc = Inr acc' \<and> length segs = k \<and> list_all segment_ok segs \<and>
    bs = segment_bytes sha t i segs @ rest \<and> root' = root @ segment_digests sha t i segs \<and>
    unat records + record_total segs < 2 ^ 64 \<and> unat payload + payload_total segs < 2 ^ 64 \<and>
    records' = records + of_nat (record_total segs) \<and> payload' = payload + of_nat (payload_total segs)"
  using assms
proof (induction k arbitrary: i bs root records payload acc)
  case (Suc k)
  from Suc.prems obtain n p d bs' acc1 where seg: "read_segment sha t i bs = Inr (n, p, d, bs')"
    "unat records + unat n < 2 ^ 64" "unat payload + unat (of_nat (length p) :: u64) < 2 ^ 64"
    "fold_segments sha t f k (i + 1) bs' (root @ d) (records + n)
       (payload + of_nat (length p)) acc1 = Inr (rest, root', records', payload', acc')" "f acc n p = Inr acc1"
    by (auto simp: sidecar_try_def checked_add64_Some ok_or_def split: sum.splits option.splits)
  note r = read_segment_Inr [OF seg(1)]
  have len: "unat (of_nat (length p) :: u64) = length p" using r(3) by (simp add: segment_ok_def payload_len_word)
  from Suc.IH [OF seg(4)] obtain segs where segs: "fold_r (\<lambda>(n, p) acc. f acc n p) segs acc1 = Inr acc'" "length segs = k"
    "list_all segment_ok segs" "bs' = segment_bytes sha t (i + 1) segs @ rest"
    "root' = (root @ d) @ segment_digests sha t (i + 1) segs"
    "unat (records + n) + record_total segs < 2 ^ 64" "unat (payload + of_nat (length p)) + payload_total segs < 2 ^ 64"
    "records' = records + n + of_nat (record_total segs)"
    "payload' = payload + of_nat (length p) + of_nat (payload_total segs)" by auto
  show ?case
    using segs r seg(2,3,5) len unat_add64 [OF seg(2)] unat_add64 [OF seg(3)]
    by (intro exI [of _ "(n, p) # segs"]) (simp add: add.assoc)
next
  case 0
  have "unat w < 2 ^ 64" for w :: u64 using unsigned_less [of w] by simp
  with 0 show ?case by simp
qed

section \<open>The container\<close>

definition valid_segments :: "segment list \<Rightarrow> bool" where
  "valid_segments segs \<longleftrightarrow> segs \<noteq> [] \<and> length segs \<le> unat MAX_SEGMENTS \<and> list_all segment_ok segs \<and>
     record_total segs \<le> unat MAX_RECORDS"

definition commitment_of :: "digest \<Rightarrow> transaction_id \<Rightarrow> segment list \<Rightarrow> tree_sidecar_commitment" where
  "commitment_of sha t segs = \<lparr>sc_transaction = t, sc_segment_count = of_nat (length segs),
     sc_record_count = of_nat (record_total segs), sc_payload_bytes = of_nat (payload_total segs),
     sc_file_bytes = of_nat (80 + length (segment_bytes sha t 0 segs)),
     sc_root_sha256 = sha (ROOT_DOMAIN @ tid_bytes t @ segment_digests sha t 0 segs @
       be_bytes 8 (of_nat (length segs) :: u64) @ be_bytes 8 (of_nat (record_total segs) :: u64) @
       be_bytes 8 (of_nat (payload_total segs) :: u64))\<rparr>"

definition sidecar_of :: "digest \<Rightarrow> transaction_id \<Rightarrow> segment list \<Rightarrow> bytes" where
  "sidecar_of sha t segs = encode_header (commitment_of sha t segs) @ segment_bytes sha t 0 segs"

lemma length_segment_bytes:
  assumes "\<And>bs. length (sha bs) = 32"
  shows "length (segment_bytes sha t i segs) = 56 * length segs + payload_total segs"
  by (induction segs arbitrary: i)
     (auto simp: encode_segment_header_def segment_digest_def assms)

lemma segment_bounds:
  assumes "list_all segment_ok segs"
  shows "length segs \<le> record_total segs" "payload_total segs \<le> length segs * 1048576"
  using assms
proof (induction segs)
  case (Cons seg segs)
  {
    case 1
    then have "0 < unat (fst seg)" by (simp add: segment_ok_def unat_gt_0)
    with 1 Cons show ?case by simp
  next
    case 2
    with Cons show ?case by (simp add: segment_ok_def MAX_SEGMENT_PAYLOAD_def)
  }
qed simp_all

lemma valid_segments_sizes:
  assumes "valid_segments segs"
  shows "0 < length segs" "length segs \<le> 1000000" "record_total segs \<le> 100000" "length segs \<le> record_total segs"
    "payload_total segs \<le> length segs * 1048576" "payload_total segs \<le> 1048576000000"
  using assms segment_bounds [of segs]
  by (auto simp: valid_segments_def MAX_SEGMENTS_def MAX_RECORDS_def)

lemma checked_mul64_ok: "unat a * unat b < 2 ^ 64 \<Longrightarrow> checked_mul64 a b = Some (a * b)"
  by (simp add: checked_mul64_def)

lemma commitment_valid:
  assumes "valid_segments segs" "\<And>bs. length (sha bs) = 32"
  shows "validate_tree_sidecar_commitment (commitment_of sha t segs) = Inr ()"
    "valid_header (commitment_of sha t segs)"
proof -
  note b = valid_segments_sizes [OF assms(1)]
  have len: "length (segment_bytes sha t 0 segs) = 56 * length segs + payload_total segs"
    by (rule length_segment_bytes) (rule assms(2))
  define n r p where "n = (of_nat (length segs) :: u64)" and "r = (of_nat (record_total segs) :: u64)"
    and "p = (of_nat (payload_total segs) :: u64)"
  have u: "unat n = length segs" "unat r = record_total segs" "unat p = payload_total segs"
    using b by (simp_all add: n_def r_def p_def unat_of_nat)
  have pos: "0 < record_total segs" using b(1,4) by (rule less_le_trans)
  have n: "n \<noteq> 0" "n \<le> MAX_SEGMENTS" "n \<le> r" "r \<le> MAX_RECORDS" "r \<noteq> 0"
    using b pos u by (auto simp: word_le_nat_alt MAX_SEGMENTS_def MAX_RECORDS_def unat_eq_zero [symmetric])
  have mul: "unat (n * MAX_SEGMENT_PAYLOAD) = unat n * 1048576" "checked_mul64 n MAX_SEGMENT_PAYLOAD = Some (n * MAX_SEGMENT_PAYLOAD)"
    "unat (n * SEGMENT_HEADER_LEN) = unat n * 56" "checked_mul64 n SEGMENT_HEADER_LEN = Some (n * SEGMENT_HEADER_LEN)"
    using b u by (simp_all add: checked_mul64_def unat_word_ariths MAX_SEGMENT_PAYLOAD_def SEGMENT_HEADER_LEN_def)
  have p: "p \<le> MAX_TOTAL_PAYLOAD_BYTES" "p \<le> n * MAX_SEGMENT_PAYLOAD"
    using b u mul by (simp_all add: word_le_nat_alt MAX_TOTAL_PAYLOAD_BYTES_def MAX_SEGMENTS_def MAX_SEGMENT_PAYLOAD_def)
  have a1: "unat (SIDECAR_HEADER_LEN + n * SEGMENT_HEADER_LEN) = 80 + unat n * 56"
    "checked_add64 SIDECAR_HEADER_LEN (n * SEGMENT_HEADER_LEN) = Some (SIDECAR_HEADER_LEN + n * SEGMENT_HEADER_LEN)"
    using b u mul(3) by (simp_all add: checked_add64_def unat_word_ariths SIDECAR_HEADER_LEN_def)
  have a2: "unat (SIDECAR_HEADER_LEN + n * SEGMENT_HEADER_LEN + p) = 80 + unat n * 56 + unat p"
    "checked_add64 (SIDECAR_HEADER_LEN + n * SEGMENT_HEADER_LEN) p = Some (SIDECAR_HEADER_LEN + n * SEGMENT_HEADER_LEN + p)"
    using b u a1(1) by (simp_all add: checked_add64_def unat_add64)
  have sz: "SIDECAR_HEADER_LEN + n * SEGMENT_HEADER_LEN + p \<le> MAX_FILE_BYTES"
    using b u a2(1) by (simp add: word_le_nat_alt MAX_FILE_BYTES_def MAX_TOTAL_PAYLOAD_BYTES_def MAX_SEGMENTS_def
        MAX_SEGMENT_PAYLOAD_def SIDECAR_HEADER_LEN_def SEGMENT_HEADER_LEN_def)
  have eq: "of_nat (80 + length (segment_bytes sha t 0 segs)) = SIDECAR_HEADER_LEN + n * SEGMENT_HEADER_LEN + p"
    by (simp add: len n_def p_def SIDECAR_HEADER_LEN_def SEGMENT_HEADER_LEN_def)
  show "validate_tree_sidecar_commitment (commitment_of sha t segs) = Inr ()"
    using n p mul a1 a2 sz eq
    by (simp add: validate_tree_sidecar_commitment_def commitment_of_def not_less
        n_def [symmetric] r_def [symmetric] p_def [symmetric])
  show "valid_header (commitment_of sha t segs)"
    using n p by (simp add: valid_header_def commitment_of_def n_def [symmetric] r_def [symmetric] p_def [symmetric])
qed


text \<open>A valid commitment bounds what its file holds.\<close>

lemma validate_commitment_bounds:
  assumes "validate_tree_sidecar_commitment c = Inr ()"
  shows "sc_segment_count c \<noteq> 0" "sc_segment_count c \<le> MAX_SEGMENTS" "sc_record_count c \<le> MAX_RECORDS"
  using assms by (auto simp: validate_tree_sidecar_commitment_def not_less and_then_Inr_iff split: if_splits)

lemma fold_file_sidecar_of:
  assumes "\<And>bs. length (sha bs) = 32" "wf_tid t" "valid_segments segs"
  shows "fold_file sha (sidecar_of sha t segs) (commitment_of sha t segs) acc f =
    (case fold_r (\<lambda>(n, p) acc. f acc n p) segs acc of Inl e \<Rightarrow> Inl (Fold e) | Inr acc \<Rightarrow> Inr acc)"
proof -
  let ?c = "commitment_of sha t segs"
  note b = valid_segments_sizes [OF assms(3)]
  note v = commitment_valid [OF assms(3,1)]
  have fields: "sc_transaction ?c = t" "length (sc_root_sha256 ?c) = 32" "length (tid_bytes t) = 16"
    "unat (sc_segment_count ?c) = length segs"
    using assms(1,2) b by (simp_all add: commitment_of_def unat_of_nat wf_tid_def)
  have h: "length (encode_header ?c) = 80" "decode_header (encode_header ?c) = Inr (?c\<lparr>sc_file_bytes := 0\<rparr>)"
    using header_ranges(9) [of ?c] decode_encode_header [of ?c] fields v(2) by simp_all
  have size: "of_nat (length (sidecar_of sha t segs)) = sc_file_bytes ?c"
    using h(1) by (simp add: sidecar_of_def commitment_of_def)
  have eq: "?c\<lparr>sc_file_bytes := of_nat (length (sidecar_of sha t segs))\<rparr> = ?c"
    unfolding size by simp
  have segs: "fold_segments sha t f (length segs) 0 (segment_bytes sha t 0 segs) (ROOT_DOMAIN @ tid_bytes t) 0 0 acc =
    (case fold_r (\<lambda>(n, p) acc. f acc n p) segs acc of
       Inl e \<Rightarrow> Inl (Fold e)
     | Inr acc \<Rightarrow> Inr ([], (ROOT_DOMAIN @ tid_bytes t) @ segment_digests sha t 0 segs, of_nat (record_total segs),
         of_nat (payload_total segs), acc))"
    using fold_encoded_segments [of segs sha 0 0 t f 0 "[]"] assms(1,3) b
    by (simp add: valid_segments_def split: sum.split)
  show ?thesis
    unfolding fold_file_def v(1) size using h eq fields segs
    by (simp add: sidecar_of_def read_exact_def sidecar_try_def)
       (simp add: commitment_of_def split: sum.split)
qed


lemma fold_file_Inr:
  assumes "fold_file sha file c acc f = Inr acc'"
  obtains segs where "wf_tid (sc_transaction c)" "file = sidecar_of sha (sc_transaction c) segs"
    "c = commitment_of sha (sc_transaction c) segs" "valid_segments segs"
    "fold_r (\<lambda>(n, p) acc. f acc n p) segs acc = Inr acc'"
proof -
  let ?t = "sc_transaction c"
  from assms obtain decoded rest root records payload where
    v: "validate_tree_sidecar_commitment c = Inr ()" and size: "of_nat (length file) = sc_file_bytes c"
    and len: "80 \<le> length file" and dec: "decode_header (take 80 file) = Inr decoded"
    and c: "decoded\<lparr>sc_file_bytes := of_nat (length file)\<rparr> = c"
    and fold: "fold_segments sha ?t f (unat (sc_segment_count c)) 0 (drop 80 file)
      (ROOT_DOMAIN @ tid_bytes ?t) 0 0 acc = Inr ([], root, records, payload, acc')"
    and totals: "records = sc_record_count c" "payload = sc_payload_bytes c"
      "sha (root @ be_bytes 8 (sc_segment_count c) @ be_bytes 8 records @ be_bytes 8 payload) = sc_root_sha256 c"
    by (auto simp: fold_file_def sidecar_try_def read_exact_def and_then_Inr_iff split: if_splits sum.splits)
  have "length (take 80 file) = 80" using len by simp
  note h = decode_header_Inr [OF dec this]
  have hl: "take 80 file = encode_header c" "length (tid_bytes ?t) = 16"
    using h(1,3) len c by (auto simp: encode_header_def)
  from fold_segments_Inr [OF fold] obtain segs where res: "fold_r (\<lambda>(n, p) acc. f acc n p) segs acc = Inr acc'"
    and segs: "length segs = unat (sc_segment_count c)" "list_all segment_ok segs"
    "drop 80 file = segment_bytes sha ?t 0 segs" "root = (ROOT_DOMAIN @ tid_bytes ?t) @ segment_digests sha ?t 0 segs"
    "record_total segs < 2 ^ 64" "records = of_nat (record_total segs)" "payload = of_nat (payload_total segs)"
    by auto
  note vb = validate_commitment_bounds [OF v]
  have n: "sc_segment_count c = of_nat (length segs)" using segs(1) by simp
  have len80: "length file = 80 + length (segment_bytes sha ?t 0 segs)"
    unfolding segs(3) [symmetric] using len by simp
  have cc: "c = commitment_of sha ?t segs"
    using totals segs(4,6,7) n size len80 by (intro tree_sidecar_commitment.equality) (simp_all add: commitment_of_def)
  have content: "file = sidecar_of sha ?t segs"
    using append_take_drop_id [of 80 "file"] unfolding sidecar_of_def segs(3) hl(1) cc [symmetric] by simp
  have tid: "wf_tid ?t" using hl(2) by (simp add: wf_tid_def)
  have "unat records = record_total segs" using segs(5,6) by (simp add: unat_of_nat)
  moreover have "unat (sc_segment_count c) \<noteq> 0" using vb(1) by (simp add: unat_eq_zero)
  ultimately have "valid_segments segs"
    using vb segs(1,2) totals(1) by (auto simp: valid_segments_def word_le_nat_alt)
  with that tid content cc res show thesis by blast
qed

section \<open>What a publisher writes\<close>

definition emitted_of :: "digest \<Rightarrow> transaction_id \<Rightarrow> segment list \<Rightarrow> emitted" where
  "emitted_of sha t segs = \<lparr>em_file = replicate 80 0 @ segment_bytes sha t 0 segs,
     em_root = ROOT_DOMAIN @ tid_bytes t @ segment_digests sha t 0 segs, em_segment_count = of_nat (length segs),
     em_record_count = of_nat (record_total segs), em_payload_bytes = of_nat (payload_total segs)\<rparr>"

lemma segments_snoc:
  "segment_bytes sha t i (segs @ [(n, p)]) = segment_bytes sha t i segs @
     encode_segment_header (i + of_nat (length segs)) n (of_nat (length p))
       (segment_digest sha t (i + of_nat (length segs)) n p) @ p"
  "segment_digests sha t i (segs @ [(n, p)]) = segment_digests sha t i segs @
     segment_digest sha t (i + of_nat (length segs)) n p"
  by (induction segs arbitrary: i) (auto simp: add.assoc add.left_commute)

lemma totals_append [simp]:
  "record_total (xs @ ys) = record_total xs + record_total ys" "payload_total (xs @ ys) = payload_total xs + payload_total ys"
  by (simp_all add: record_total_def payload_total_def)


definition writable :: "segment list \<Rightarrow> bool" where
  "writable segs \<longleftrightarrow> length segs \<le> unat MAX_SEGMENTS \<and> list_all segment_ok segs \<and> record_total segs < 2 ^ 64"

lemma writable_word:
  assumes "writable segs"
  shows "unat (of_nat (length segs) :: u64) = length segs" "unat (of_nat (record_total segs) :: u64) = record_total segs"
    "unat (of_nat (payload_total segs) :: u64) = payload_total segs" "payload_total segs \<le> 1000000 * 1048576"
proof -
  have l: "length segs \<le> 1000000" using assms by (simp add: writable_def MAX_SEGMENTS_def)
  with segment_bounds(2) [of segs] assms show p: "payload_total segs \<le> 1000000 * 1048576" by (simp add: writable_def)
  show "unat (of_nat (length segs) :: u64) = length segs" "unat (of_nat (record_total segs) :: u64) = record_total segs"
    "unat (of_nat (payload_total segs) :: u64) = payload_total segs"
    using l p assms by (simp_all add: unat_of_nat writable_def)
qed

lemma max_total_payload: "unat MAX_TOTAL_PAYLOAD_BYTES = 1000000 * 1048576"
  by (simp add: MAX_TOTAL_PAYLOAD_BYTES_def MAX_SEGMENTS_def MAX_SEGMENT_PAYLOAD_def)

lemma emit_ok:
  assumes "writable (segs @ [(n, p)])"
  shows "emit sha t (n, p) (emitted_of sha t segs) = (Inr (), emitted_of sha t (segs @ [(n, p)]))"
proof -
  have w: "writable segs" using assms by (simp add: writable_def)
  note u = writable_word [OF w] and u' = writable_word [OF assms]
  have p: "n \<noteq> 0" "length p \<le> unat MAX_SEGMENT_PAYLOAD" "length p < 2 ^ 32" "unat (of_nat (length p) :: u64) = length p"
    using assms payload_len_word(2) [of p] by (simp_all add: writable_def segment_ok_def MAX_SEGMENT_PAYLOAD_def)
  have l: "of_nat (length segs) < MAX_SEGMENTS"
    using assms u(1) by (simp add: word_less_nat_alt writable_def)
  have c: "checked_add64 (of_nat (length segs)) 1 = Some (of_nat (length segs) + 1)"
    "checked_add64 (of_nat (record_total segs)) n = Some (of_nat (record_total segs) + n)"
    "checked_add64 (of_nat (payload_total segs)) (of_nat (length p)) = Some (of_nat (payload_total segs) + of_nat (length p))"
    using assms u u'(4) p(4) by (simp_all add: checked_add64_def writable_def MAX_SEGMENTS_def)
  have m: "\<not> MAX_TOTAL_PAYLOAD_BYTES < of_nat (payload_total segs) + of_nat (length p)"
    using u'(3,4) by (simp add: word_less_nat_alt max_total_payload)
  show ?thesis
    using p(1-3) l c m
    by (simp add: emit_def emitted_of_def Let_def segments_snoc add.commute not_less not_le)
qed

lemma emit_refused:
  assumes "writable segs" "\<not> writable (segs @ [(n, p)])"
  shows "\<exists>e st. emit sha t (n, p) (emitted_of sha t segs) = (Inl e, st)"
proof -
  note u = writable_word [OF assms(1)]
  have "n = 0 \<or> length p > unat MAX_SEGMENT_PAYLOAD \<or> of_nat (length segs) \<ge> MAX_SEGMENTS \<or>
    checked_add64 (of_nat (record_total segs)) n = None"
    using assms u by (auto simp: writable_def segment_ok_def word_le_nat_alt checked_add64_def not_le)
  then show ?thesis
    by (auto simp: emit_def emitted_of_def Let_def split: option.splits if_splits)
qed


lemma emit_all_split:
  assumes "writable pre"
  shows "if writable (pre @ segs) then emit_all sha t segs (emitted_of sha t pre) = (Inr (), emitted_of sha t (pre @ segs))
    else \<exists>e st. emit_all sha t segs (emitted_of sha t pre) = (Inl e, st)"
  using assms
proof (induction segs arbitrary: pre)
  case (Cons seg segs)
  obtain n p where seg: "seg = (n, p)" by (cases seg)
  show ?case
  proof (cases "writable (pre @ [(n, p)])")
    case True
    then show ?thesis using Cons.IH [OF True] emit_ok [OF True] by (simp add: seg)
  next
    case False
    then have "\<not> writable (pre @ seg # segs)" by (auto simp: writable_def seg)
    with emit_refused [OF Cons.prems False, of sha t] show ?thesis by (auto simp: seg)
  qed
qed simp

lemma emitted_start: "emitted_of sha t [] = emit_start t"
  by (simp add: emitted_of_def emit_start_def)

lemma emitted_commitment: "emit_commitment sha t (emitted_of sha t segs) = commitment_of sha t segs"
  by (simp add: emit_commitment_def emitted_of_def commitment_of_def)

text \<open>The publisher accepts the segments a file can hold, and writes their encoding.\<close>

lemma write_sidecar_Inr:
  "write_sidecar sha t segs = (Inr c, content) \<longleftrightarrow>
     writable segs \<and> segs \<noteq> [] \<and> c = commitment_of sha t segs \<and> content = sidecar_of sha t segs"
proof (cases "writable segs")
  case True
  then have "emit_all sha t segs (emit_start t) = (Inr (), emitted_of sha t segs)"
    using emit_all_split [of "[]" segs sha t] by (simp add: writable_def emitted_start)
  moreover have "em_segment_count (emitted_of sha t segs) = 0 \<longleftrightarrow> segs = []"
    using writable_word(1) [OF True] by (auto simp: emitted_of_def unat_eq_zero [symmetric])
  ultimately show ?thesis using True
    by (auto simp: write_sidecar_def emitted_commitment sidecar_of_def Let_def) (simp_all add: emitted_of_def)
next
  case False
  then obtain e st where "emit_all sha t segs (emit_start t) = (Inl e, st)"
    using emit_all_split [of "[]" segs sha t] by (auto simp: writable_def emitted_start)
  with False show ?thesis by (simp add: write_sidecar_def)
qed

lemma valid_segments_iff: "valid_segments segs \<longleftrightarrow> writable segs \<and> segs \<noteq> [] \<and> record_total segs \<le> unat MAX_RECORDS"
  by (auto simp: valid_segments_def writable_def MAX_RECORDS_def)

lemma write_valid_iff:
  "write_sidecar sha t segs = (Inr c, content) \<and> record_total segs \<le> unat MAX_RECORDS \<longleftrightarrow>
     valid_segments segs \<and> c = commitment_of sha t segs \<and> content = sidecar_of sha t segs"
  unfolding write_sidecar_Inr valid_segments_iff by blast

lemma fold_file_Inr_iff:
  assumes "\<And>bs. length (sha bs) = 32"
  shows "fold_file sha content c acc f = Inr acc' \<longleftrightarrow> wf_tid (sc_transaction c) \<and>
    (\<exists>segs. write_sidecar sha (sc_transaction c) segs = (Inr c, content) \<and> record_total segs \<le> unat MAX_RECORDS \<and>
       fold_r (\<lambda>(n, p) acc. f acc n p) segs acc = Inr acc')"
    (is "?fold = Inr _ \<longleftrightarrow> ?exact")
proof
  assume "?fold = Inr acc'"
  then obtain segs where segs: "wf_tid (sc_transaction c)" "content = sidecar_of sha (sc_transaction c) segs"
    "c = commitment_of sha (sc_transaction c) segs" "valid_segments segs"
    "fold_r (\<lambda>(n, p) acc. f acc n p) segs acc = Inr acc'"
    by (rule fold_file_Inr)
  have "write_sidecar sha (sc_transaction c) segs = (Inr c, content) \<and> record_total segs \<le> unat MAX_RECORDS"
    unfolding write_valid_iff by (intro conjI segs)
  with segs(1,5) show ?exact by blast
next
  assume ?exact
  then obtain t segs where t: "wf_tid t" "fold_r (\<lambda>(n, p) acc. f acc n p) segs acc = Inr acc'"
    and w: "write_sidecar sha t segs = (Inr c, content) \<and> record_total segs \<le> unat MAX_RECORDS" by blast
  from w [unfolded write_valid_iff] t(2) show "?fold = Inr acc'"
    using fold_file_sidecar_of [OF assms t(1), where segs = segs and acc = acc and f = f] by (elim conjE) (simp only: sum.case)
qed

lemma verify_file_Inr_iff:
  assumes "\<And>bs. length (sha bs) = 32"
  shows "verify_file sha content c = Inr () \<longleftrightarrow> wf_tid (sc_transaction c) \<and>
    (\<exists>segs. write_sidecar sha (sc_transaction c) segs = (Inr c, content) \<and> record_total segs \<le> unat MAX_RECORDS)"
proof -
  let ?f = "\<lambda>_ _ _. Inr () :: unit + unit"
  have const: "fold_r (\<lambda>(n, p) acc. ?f acc n p) segs () = Inr ()" for segs
    by (induction segs) auto
  have fold: "fold_segments sha t ?f k i bs root records payload () \<noteq> Inl (Fold e)" for t k i bs root records payload e
    by (induction k arbitrary: i bs root records payload) (auto simp: sidecar_try_def split: sum.splits)
  have "fold_file sha content c () ?f \<noteq> Inl (Fold e)" for e
    using fold [of "sc_transaction c"]
    by (auto simp: fold_file_def sidecar_try_def and_then_def split: sum.splits if_splits)
  then have "verify_file sha content c = Inr () \<longleftrightarrow> fold_file sha content c () ?f = Inr ()"
    by (auto simp: verify_file_def split: sum.splits fold_error.splits)
  then show ?thesis unfolding fold_file_Inr_iff [OF assms] const by simp
qed

text \<open>C25: the container is exact. A reader (\<open>fold_file\<close>) reaches the end of a file under a commitment
  precisely when the file and the commitment are what the publisher (\<open>write_sidecar\<close>) makes of some
  segments with at most \<open>MAX_RECORDS\<close> records, and then it has handed its consumer exactly those
  segments in their order. A changed, truncated, reordered or lengthened file that is not itself the
  encoding of segments under that root digest is refused.\<close>

theorem sidecar_container_exact:
  assumes "\<And>bs. length (sha bs) = 32"
  shows "fold_file sha content c acc f = Inr acc' \<longleftrightarrow> wf_tid (sc_transaction c) \<and>
    (\<exists>segs. write_sidecar sha (sc_transaction c) segs = (Inr c, content) \<and> record_total segs \<le> unat MAX_RECORDS \<and>
       fold_r (\<lambda>(n, p) acc. f acc n p) segs acc = Inr acc')"
  using assms by (rule fold_file_Inr_iff)

lemma sidecar_container_exact_witness:
  "\<exists>c content. write_sidecar (\<lambda>_. replicate 32 7) (TransactionId (replicate 16 1)) [(2, [5, 6]), (1, [])] = (Inr c, content) \<and>
     fold_file (\<lambda>_. replicate 32 7) content c [] (\<lambda>acc n p. Inr (acc @ [(n, p)]) :: unit + segment list) =
       Inr [(2, [5, 6]), (1, [])]"
proof -
  let ?sha = "\<lambda>_ :: bytes. replicate 32 (7 :: u8)" and ?t = "TransactionId (replicate 16 1)"
  let ?segs = "[(2, [5, 6]), (1, [])] :: segment list"
  have w: "write_sidecar ?sha ?t ?segs = (Inr (commitment_of ?sha ?t ?segs), sidecar_of ?sha ?t ?segs)"
    by (simp add: write_sidecar_Inr writable_def segment_ok_def MAX_SEGMENTS_def MAX_SEGMENT_PAYLOAD_def)
  have "wf_tid (sc_transaction (commitment_of ?sha ?t ?segs))" "record_total ?segs \<le> unat MAX_RECORDS"
    by (simp_all add: commitment_of_def wf_tid_def MAX_RECORDS_def)
  moreover have "sc_transaction (commitment_of ?sha ?t ?segs) = ?t" by (simp add: commitment_of_def)
  moreover have "fold_r (\<lambda>(n, p) acc. Inr (acc @ [(n, p)]) :: unit + segment list) ?segs [] = Inr ?segs" by simp
  ultimately have "fold_file ?sha (sidecar_of ?sha ?t ?segs) (commitment_of ?sha ?t ?segs) []
      (\<lambda>acc n p. Inr (acc @ [(n, p)]) :: unit + segment list) = Inr ?segs"
    using w sidecar_container_exact [of ?sha "sidecar_of ?sha ?t ?segs" "commitment_of ?sha ?t ?segs" "[]"
      "\<lambda>acc n p. Inr (acc @ [(n, p)]) :: unit + segment list" ?segs]
    by auto
  with w show ?thesis by blast
qed

end
