(* ===== verification/Manifest_Codec.thy ===== *)
theory Manifest_Codec
  imports Manifest_Paths Sidecar_Props
begin

text \<open>
  One record: what the decoders of a manifest accept is exactly what the encoder writes for a well-formed
  entry.
\<close>

section \<open>Well-formed entries\<close>

fun content_fits :: "node_kind \<Rightarrow> content_proof \<Rightarrow> bool" where
  "content_fits DirectoryNode DirectoryProof = True"
| "content_fits RegularNode (RegularProof r) =
     (valid_nanoseconds r \<and> length (rp_sha256 r) = 32 \<and> length (xp_sha256 (rp_xattrs r)) = 32)"
| "content_fits SymlinkNode (SymlinkProof target) = (length target < 2 ^ 64)"
| "content_fits _ _ = False"

definition wf_entry :: "u32 \<Rightarrow> manifest_entry \<Rightarrow> bool" where
  "wf_entry max_depth e \<longleftrightarrow> canonical_path (me_path e) \<and> length (names (me_path e)) \<le> unat max_depth \<and>
     length (me_path e) < 2 ^ 64 \<and> me_mode e AND NOT 0xfff = 0 \<and> content_fits (ni_kind (me_identity e)) (me_content e)"

definition entry_bytes :: "manifest_entry \<Rightarrow> bytes" where
  "entry_bytes e = concat (emit_manifest_entry_v3 e)"

fun record_kind_of :: "node_kind \<Rightarrow> manifest_v3_record_kind" where
  "record_kind_of DirectoryNode = RecordDirectoryKind"
| "record_kind_of RegularNode = RecordRegularKind"
| "record_kind_of _ = RecordSymlinkKind"

fun record_content_of :: "content_proof \<Rightarrow> manifest_v3_record_content" where
  "record_content_of (RegularProof r) = RecordRegular r"
| "record_content_of (SymlinkProof target) = RecordSymlink target"
| "record_content_of _ = RecordDirectory"

definition manifest_record_of :: "manifest_entry \<Rightarrow> manifest_v3_record" where
  "manifest_record_of e = \<lparr>mr_encoded = entry_bytes e, mr_path = me_path e, mr_kind = record_kind_of (ni_kind (me_identity e)),
     mr_device = ni_device (me_identity e), mr_inode = ni_inode (me_identity e),
     mr_incarnation = ni_incarnation (me_identity e), mr_uid = me_uid e, mr_gid = me_gid e, mr_mode = me_mode e,
     mr_content = record_content_of (me_content e)\<rparr>"

section \<open>Fields\<close>

lemma take_input_Inr: "take_input n input = Inr (x, rest) \<longleftrightarrow> input = x @ rest \<and> length x = n"
  by (auto simp: take_input_def append_eq_conv_conj)

lemma take_u64_Inr: "take_u64 input = Inr (n, rest) \<longleftrightarrow> input = be_bytes 8 n @ rest"
proof
  assume "take_u64 input = Inr (n, rest)"
  then obtain v where "input = v @ rest" "length v = 8" "n = be_word v"
    by (auto simp: take_u64_def and_then_Inr_iff take_input_Inr)
  then show "input = be_bytes 8 n @ rest" using be_bytes_be_word [of v 8, where 'a = 64] by simp
next
  assume "input = be_bytes 8 n @ rest"
  then have "take_input 8 input = Inr (be_bytes 8 n, rest)" by (simp add: take_input_Inr)
  then show "take_u64 input = Inr (n, rest)" by (simp add: take_u64_def)
qed

lemma be_range:
  "length bs = n \<Longrightarrow> b \<le> n \<Longrightarrow> a + 8 = b \<Longrightarrow> be_bytes 8 (be_word (byte_range a b bs) :: u64) = byte_range a b bs"
  "length bs = n \<Longrightarrow> b \<le> n \<Longrightarrow> a + 4 = b \<Longrightarrow> be_bytes 4 (be_word (byte_range a b bs) :: u32) = byte_range a b bs"
  by (auto simp: length_range intro!: be_bytes_be_word)

lemma fixed_fields_iff:
  assumes "length bs = 36"
  shows "fixed_fields bs = (device, inode, incarnation, uid, gid, mode) \<longleftrightarrow>
    bs = be_bytes 8 device @ be_bytes 8 inode @ be_bytes 8 incarnation @ be_bytes 4 uid @ be_bytes 4 gid @ be_bytes 4 mode"
proof
  have split: "bs = byte_range 0 8 bs @ byte_range 8 16 bs @ byte_range 16 24 bs @ byte_range 24 28 bs @ byte_range 28 32 bs @ byte_range 32 36 bs"
    using drop_range [of 0 8 bs] drop_range [of 8 16 bs] drop_range [of 16 24 bs] drop_range [of 24 28 bs]
      drop_range [of 28 32 bs] drop_range [of 32 36 bs] assms by simp
  assume "fixed_fields bs = (device, inode, incarnation, uid, gid, mode)"
  then have "be_bytes 8 device = byte_range 0 8 bs" "be_bytes 8 inode = byte_range 8 16 bs"
    "be_bytes 8 incarnation = byte_range 16 24 bs" "be_bytes 4 uid = byte_range 24 28 bs" "be_bytes 4 gid = byte_range 28 32 bs"
    "be_bytes 4 mode = byte_range 32 36 bs"
    using be_range [OF assms] by (auto simp: fixed_fields_def)
  then show "bs = be_bytes 8 device @ be_bytes 8 inode @ be_bytes 8 incarnation @ be_bytes 4 uid @ be_bytes 4 gid @ be_bytes 4 mode"
    by (subst split) (simp only:)
next
  assume "bs = be_bytes 8 device @ be_bytes 8 inode @ be_bytes 8 incarnation @ be_bytes 4 uid @ be_bytes 4 gid @ be_bytes 4 mode"
  then show "fixed_fields bs = (device, inode, incarnation, uid, gid, mode)"
    by (simp add: fixed_fields_def range_all)
qed

definition regular_bytes :: "regular_proof \<Rightarrow> bytes" where
  "regular_bytes r = be_bytes 8 (rp_size r) @ be_bytes 8 (rp_nlink r) @ be_bytes 8 (rp_mtime_sec r) @
     be_bytes 4 (rp_mtime_nsec r) @ be_bytes 8 (rp_ctime_sec r) @ be_bytes 4 (rp_ctime_nsec r) @ rp_sha256 r @
     be_bytes 8 (xp_attribute_count (rp_xattrs r)) @ be_bytes 8 (xp_value_bytes (rp_xattrs r)) @ xp_sha256 (rp_xattrs r)"

lemma regular_fields_bytes:
  assumes "length (rp_sha256 r) = 32" "length (xp_sha256 (rp_xattrs r)) = 32"
  shows "regular_fields (regular_bytes r) = r" "length (regular_bytes r) = 120"
  using assms by (simp_all add: regular_fields_def regular_bytes_def range_all)

lemma regular_bytes_fields:
  assumes "length bs = 120"
  shows "regular_bytes (regular_fields bs) = bs" "length (rp_sha256 (regular_fields bs)) = 32"
    "length (xp_sha256 (rp_xattrs (regular_fields bs))) = 32"
proof -
  have "bs = byte_range 0 8 bs @ byte_range 8 16 bs @ byte_range 16 24 bs @ byte_range 24 28 bs @ byte_range 28 36 bs @
      byte_range 36 40 bs @ byte_range 40 72 bs @ byte_range 72 80 bs @ byte_range 80 88 bs @ byte_range 88 120 bs"
    using drop_range [of 0 8 bs] drop_range [of 8 16 bs] drop_range [of 16 24 bs] drop_range [of 24 28 bs]
      drop_range [of 28 36 bs] drop_range [of 36 40 bs] drop_range [of 40 72 bs] drop_range [of 72 80 bs]
      drop_range [of 80 88 bs] drop_range [of 88 120 bs] assms by simp
  then show "regular_bytes (regular_fields bs) = bs"
    using be_range [OF assms] by (simp add: regular_bytes_def regular_fields_def)
  show "length (rp_sha256 (regular_fields bs)) = 32" "length (xp_sha256 (rp_xattrs (regular_fields bs))) = 32"
    using assms by (simp_all add: regular_fields_def length_range)
qed

section \<open>Contents\<close>

text \<open>The charge of the extended attributes of a regular file.\<close>

fun charge_xattrs :: "content_proof \<Rightarrow> manifest_v3_decoder \<Rightarrow> manifest_codec_error + manifest_v3_decoder" where
  "charge_xattrs (RegularProof r) d =
     and_then (ok_or LengthOverflow (checked_add64 (md_xattr_bytes d) (xp_value_bytes (rp_xattrs r)))) (\<lambda>xattr_bytes.
       if xattr_bytes > hl_max_xattr_bytes (md_limits d) then Inl (CodecLimit LimitContentBytes)
       else Inr (d\<lparr>md_xattr_bytes := xattr_bytes\<rparr>))"
| "charge_xattrs _ d = Inr d"

lemma emit_content_bytes:
  "concat (emit_content_v3 (RegularProof r)) = 1 # regular_bytes r"
  by (simp add: regular_bytes_def)

lemma decode_content_emitted:
  assumes "content_fits kind content" "charge_xattrs content d = Inr d'"
  shows "\<exists>tag body. concat (emit_content_v3 content) = tag # body \<and>
    decode_content (record_kind_of kind) tag (body @ rest) d = Inr (record_content_of content, rest, d')"
proof (cases content)
  case (RegularProof r)
  then have r: "kind = RegularNode" "valid_nanoseconds r" "length (rp_sha256 r) = 32" "length (xp_sha256 (rp_xattrs r)) = 32"
    using assms(1) by (cases kind; simp)+
  have "take_input 120 (regular_bytes r @ rest) = Inr (regular_bytes r, rest)"
    using regular_fields_bytes(2) [OF r(3,4)] by (simp add: take_input_Inr)
  then show ?thesis
    using assms(2) r regular_fields_bytes(1) [OF r(3,4)] unfolding RegularProof emit_content_bytes
    by (auto simp: decode_content_def Let_def and_then_Inr_iff split: if_splits)
next
  case (SymlinkProof target)
  then have t: "kind = SymlinkNode" "length target < 2 ^ 64" using assms(1) by (cases kind; simp)+
  have "take_u64 (be_bytes 8 (of_nat (length target) :: u64) @ target @ rest) = Inr (of_nat (length target), target @ rest)"
    by (simp add: take_u64_Inr)
  moreover have "take_input (length target) (target @ rest) = Inr (target, rest)" by (simp add: take_input_Inr)
  moreover have "unat (of_nat (length target) :: u64) = length target" using t(2) by (simp add: unat_of_nat)
  ultimately show ?thesis using SymlinkProof t(1) assms(2) by (simp add: decode_content_def)
qed (use assms in \<open>cases kind; simp add: decode_content_def\<close>)+

lemma decode_content_Inr:
  assumes "decode_content (record_kind_of kind) tag input d = Inr (c, rest, d')" "kind \<noteq> OtherNode"
  shows "\<exists>content. content_fits kind content \<and> charge_xattrs content d = Inr d' \<and> c = record_content_of content \<and>
    tag # input = concat (emit_content_v3 content) @ rest"
proof (cases kind)
  case DirectoryNode
  with assms(1) show ?thesis by (intro exI [of _ DirectoryProof]) (auto simp: decode_content_def split: if_splits)
next
  case RegularNode
  with assms(1) obtain raw where tag: "tag = 1" and raw: "input = raw @ rest" "length raw = 120"
    and r: "valid_nanoseconds (regular_fields raw)" "c = RecordRegular (regular_fields raw)"
    and d: "charge_xattrs (RegularProof (regular_fields raw)) d = Inr d'"
    by (auto simp: decode_content_def Let_def and_then_Inr_iff take_input_Inr split: if_splits)
  note fields = regular_bytes_fields [OF raw(2)]
  show ?thesis
    by (rule exI [of _ "RegularProof (regular_fields raw)"])
      (use RegularNode tag raw r d fields in \<open>simp only: emit_content_bytes content_fits.simps record_content_of.simps append_Cons\<close>)
next
  case SymlinkNode
  with assms(1) obtain target and n :: u64 where t: "tag = 2" "input = be_bytes 8 n @ target @ rest" "length target = unat n"
    "c = RecordSymlink target" "d' = d"
    by (auto simp: decode_content_def and_then_Inr_iff take_u64_Inr take_input_Inr split: if_splits)
  have "unat n < 2 ^ 64" using unsigned_less [of n] by simp
  with t SymlinkNode show ?thesis by (intro exI [of _ "SymlinkProof target"]) simp
qed (use assms in simp)

section \<open>Records\<close>

definition account_entry :: "u64 \<Rightarrow> manifest_entry \<Rightarrow> manifest_v3_decoder \<Rightarrow> manifest_codec_error + manifest_v3_decoder" where
  "account_entry entry_size e d =
     and_then (decode_place (me_path e) d) (\<lambda>d.
     and_then (charge_xattrs (me_content e) d) (\<lambda>d.
     decode_account entry_size (me_path e) (record_kind_of (ni_kind (me_identity e))) (entry_bytes e) d))"

lemma entry_bytes_split:
  "entry_bytes e = be_bytes 8 (of_nat (length (me_path e)) :: u64) @ me_path e @ [kind_byte (ni_kind (me_identity e))] @
     (be_bytes 8 (ni_device (me_identity e)) @ be_bytes 8 (ni_inode (me_identity e)) @ be_bytes 8 (ni_incarnation (me_identity e)) @
      be_bytes 4 (me_uid e) @ be_bytes 4 (me_gid e) @ be_bytes 4 (me_mode e)) @ concat (emit_content_v3 (me_content e))"
  by (simp add: entry_bytes_def emit_manifest_entry_v3_def emit_manifest_entry_v3_with_mode_def)

lemma kind_byte_kind [simp]:
  "kind \<noteq> OtherNode \<Longrightarrow> record_kind (kind_byte kind) = record_kind_of kind" "kind_byte kind \<le> 3" "\<not> 3 < kind_byte kind"
  "kind_byte kind = 3 \<longleftrightarrow> kind = OtherNode"
  by (cases kind; simp add: record_kind_def)+

lemma decode_emitted_record:
  assumes "wf_entry (hl_max_depth (md_limits d)) e" "account_entry entry_size e d = Inr d'"
    and "md_decoded_entries d < md_expected_entries d"
  shows "decode_v3_record entry_size (entry_bytes e @ rest) d = Inr (manifest_record_of e, rest, d')"
proof -
  let ?fixed = "be_bytes 8 (ni_device (me_identity e)) @ be_bytes 8 (ni_inode (me_identity e)) @
    be_bytes 8 (ni_incarnation (me_identity e)) @ be_bytes 4 (me_uid e) @ be_bytes 4 (me_gid e) @ be_bytes 4 (me_mode e)"
  let ?path = "me_path e" and ?kind = "ni_kind (me_identity e)"
  from assms(2) obtain d1 d2 where d: "decode_place ?path d = Inr d1" "charge_xattrs (me_content e) d1 = Inr d2"
    "decode_account entry_size ?path (record_kind_of ?kind) (entry_bytes e) d2 = Inr d'"
    by (auto simp: account_entry_def and_then_Inr_iff)
  have wf: "validate_manifest_path ?path (hl_max_depth (md_limits d)) = Inr ()" "length ?path < 2 ^ 64"
    "me_mode e AND NOT 0xfff = 0" "content_fits ?kind (me_content e)"
    using assms(1) by (simp_all add: wf_entry_def validate_manifest_path_Inr)
  have kind: "?kind \<noteq> OtherNode" using wf(4) by (auto elim: content_fits.elims)
  from decode_content_emitted [OF wf(4) d(2)] obtain tag body where
    content: "concat (emit_content_v3 (me_content e)) = tag # body"
    "decode_content (record_kind_of ?kind) tag (body @ rest) d1 = Inr (record_content_of (me_content e), rest, d2)" by blast
  let ?tail = "[kind_byte ?kind] @ ?fixed @ [tag] @ body @ rest"
  have input: "entry_bytes e @ rest = be_bytes 8 (of_nat (length ?path) :: u64) @ ?path @ ?tail"
    unfolding entry_bytes_split content(1) by simp
  have steps: "take_u64 (entry_bytes e @ rest) = Inr (of_nat (length ?path), ?path @ ?tail)"
    "take_input (length ?path) (?path @ ?tail) = Inr (?path, ?tail)"
    "take_input 1 ?tail = Inr ([kind_byte ?kind], ?fixed @ [tag] @ body @ rest)"
    "take_input (24 + 4 + 4 + 4) (?fixed @ [tag] @ body @ rest) = Inr (?fixed, [tag] @ body @ rest)"
    "take_input 1 ([tag] @ body @ rest) = Inr ([tag], body @ rest)"
    unfolding input take_u64_Inr take_input_Inr by simp_all
  have len: "unat (of_nat (length ?path) :: u64) = length ?path" using wf(2) by (simp add: unat_of_nat)
  have fixed: "fixed_fields ?fixed = (ni_device (me_identity e), ni_inode (me_identity e), ni_incarnation (me_identity e),
      me_uid e, me_gid e, me_mode e)"
    by (subst fixed_fields_iff) simp_all
  have enc: "take (length (entry_bytes e @ rest) - length rest) (entry_bytes e @ rest) = entry_bytes e" by simp
  show ?thesis
    unfolding decode_v3_record_def steps(1) and_then_simps split_conv len steps(2) wf(1) d(1) steps(3) list.sel
      steps(4) fixed steps(5) prod.case
    using assms(3) wf(3) kind content(2) d(3) by (simp add: not_le [symmetric] manifest_record_of_def)
qed

lemma decode_record_Inr:
  assumes "decode_v3_record entry_size input d = Inr (r, rest, d')"
  shows "md_decoded_entries d < md_expected_entries d" "\<exists>e. wf_entry (hl_max_depth (md_limits d)) e \<and>
    account_entry entry_size e d = Inr d' \<and> input = entry_bytes e @ rest \<and> r = manifest_record_of e"
proof -
  show "md_decoded_entries d < md_expected_entries d"
    using assms by (auto simp: decode_v3_record_def not_le split: if_splits)
  from assms obtain path_len path kt fixed ct body content d1 d2 device inode incarnation uid gid mode i1 i2 i3 i4 where
    steps: "take_u64 input = Inr (path_len, i1)" "take_input (unat path_len) i1 = Inr (path, i2)"
      "take_input 1 i2 = Inr (kt, i3)" "take_input 36 i3 = Inr (fixed, i4)" "take_input 1 i4 = Inr (ct, body)"
    and path: "validate_manifest_path path (hl_max_depth (md_limits d)) = Inr ()" "decode_place path d = Inr d1"
    and fields: "fixed_fields fixed = (device, inode, incarnation, uid, gid, mode)" "mode AND NOT 0xfff = 0"
    and kt: "\<not> hd kt > 3" "hd kt \<noteq> 3"
    and content: "decode_content (record_kind (hd kt)) (hd ct) body d1 = Inr (content, rest, d2)"
    and account: "decode_account entry_size path (record_kind (hd kt)) (take (length input - length rest) input) d2 = Inr d'"
    and r: "r = \<lparr>mr_encoded = take (length input - length rest) input, mr_path = path, mr_kind = record_kind (hd kt),
      mr_device = device, mr_inode = inode, mr_incarnation = incarnation, mr_uid = uid, mr_gid = gid, mr_mode = mode,
      mr_content = content\<rparr>"
    by (auto simp: decode_v3_record_def Let_def elim!: and_then_InrE split: if_splits prod.splits)
  have input: "input = be_bytes 8 path_len @ path @ kt @ fixed @ ct @ body" "length path = unat path_len" "length kt = 1"
      "length fixed = 36" "length ct = 1"
    using steps by (simp_all add: take_u64_Inr take_input_Inr)
  define kind where "kind = (if hd kt = 0 then DirectoryNode else if hd kt = 1 then RegularNode else SymlinkNode)"
  have tag: "hd kt = 2" if "hd kt \<noteq> 0" "hd kt \<noteq> 1"
    using that kt by (simp add: word_less_nat_alt word_unat_eq_iff)
  have kind: "record_kind (hd kt) = record_kind_of kind" "kind \<noteq> OtherNode" "kt = [kind_byte kind]" "ct = [hd ct]"
    using tag input(3,5) by (cases kt; cases ct; auto simp: kind_def record_kind_def)+
  from decode_content_Inr [OF content [unfolded kind(1)] kind(2)] obtain proof' where
    pr: "content_fits kind proof'" "charge_xattrs proof' d1 = Inr d2" "content = record_content_of proof'"
    "hd ct # body = concat (emit_content_v3 proof') @ rest" by blast
  define e where "e = \<lparr>me_path = path, me_identity = \<lparr>ni_kind = kind, ni_device = device, ni_inode = inode,
    ni_incarnation = incarnation\<rparr>, me_uid = uid, me_gid = gid, me_mode = mode, me_content = proof'\<rparr>"
  have n: "path_len = of_nat (length path)" "length path < 2 ^ 64" using input(2) unsigned_less [of path_len] by simp_all
  have bytes: "input = entry_bytes e @ rest"
    using input(1) kind(3,4) pr(4) fields(1) [unfolded fixed_fields_iff [OF input(4)]] n(1)
    unfolding entry_bytes_split by (simp add: e_def) (metis append_Cons append_Nil)
  then have enc: "take (length input - length rest) input = entry_bytes e" by simp
  have "wf_entry (hl_max_depth (md_limits d)) e"
    using path(1) n(2) fields(2) pr(1) by (simp add: wf_entry_def e_def validate_manifest_path_Inr)
  moreover have "account_entry entry_size e d = Inr d'"
    using path(2) pr(2) account kind(1) enc by (simp add: account_entry_def e_def)
  moreover have "r = manifest_record_of e" using r enc pr(3) kind(1) by (simp add: manifest_record_of_def e_def)
  ultimately show "\<exists>e. wf_entry (hl_max_depth (md_limits d)) e \<and>
    account_entry entry_size e d = Inr d' \<and> input = entry_bytes e @ rest \<and> r = manifest_record_of e" using bytes by blast
qed

end
