(* ===== verification/Manifest_Tree.thy ===== *)
theory Manifest_Tree
  imports Manifest_Codec
begin

text \<open>
  The streaming decoder against what a manifest is: a root directory, then entries in strictly increasing
  order, each under a directory of the manifest, within the limits. The decoder keeps one path and the ends of
  its ancestors; it accepts exactly these manifests.
\<close>

section \<open>What a manifest is\<close>

fun xattr_bytes_of :: "content_proof \<Rightarrow> nat" where
  "xattr_bytes_of (RegularProof r) = unat (xp_value_bytes (rp_xattrs r))"
| "xattr_bytes_of _ = 0"

abbreviation is_directory :: "manifest_entry \<Rightarrow> bool" where
  "is_directory e \<equiv> ni_kind (me_identity e) = DirectoryNode"

definition within_limits :: "held_tree_limits \<Rightarrow> u64 \<Rightarrow> manifest_entry list \<Rightarrow> bool" where
  "within_limits limits entry_size es \<longleftrightarrow>
     (\<Sum>e\<leftarrow>es. length (me_path e)) \<le> unat (hl_max_path_bytes limits) \<and>
     (\<Sum>e\<leftarrow>es. unat entry_size + length (me_path e)) \<le> unat (hl_max_manifest_bytes limits) \<and>
     (\<Sum>e\<leftarrow>es. xattr_bytes_of (me_content e)) \<le> unat (hl_max_xattr_bytes limits)"

definition tree_manifest :: "held_tree_limits \<Rightarrow> u64 \<Rightarrow> manifest_entry list \<Rightarrow> bool" where
  "tree_manifest limits entry_size es \<longleftrightarrow>
     list_all (wf_entry (hl_max_depth limits)) es \<and>
     (es \<noteq> [] \<longrightarrow> me_path (hd es) = [] \<and> is_directory (hd es)) \<and>
     sorted_wrt (\<lambda>a b. manifest_path_less (me_path a) (me_path b)) es \<and>
     list_all (\<lambda>e. me_path e = [] \<or> list_ex (\<lambda>p. is_directory p \<and> path_parent_bytes (me_path e) = Some (me_path p)) es) es \<and>
     within_limits limits entry_size es"

section \<open>The state of the decoder\<close>

definition decoder_after :: "held_tree_limits \<Rightarrow> u64 \<Rightarrow> u64 \<Rightarrow> manifest_entry list \<Rightarrow> manifest_v3_decoder" where
  "decoder_after limits entry_size n es =
     \<lparr>md_expected_entries = n, md_decoded_entries = of_nat (length es), md_limits = limits,
      md_path_bytes = of_nat (\<Sum>e\<leftarrow>es. length (me_path e)),
      md_manifest_bytes = of_nat (\<Sum>e\<leftarrow>es. unat entry_size + length (me_path e)),
      md_xattr_bytes = of_nat (\<Sum>e\<leftarrow>es. xattr_bytes_of (me_content e)),
      md_directory_ancestor_ends =
        (if es = [] then [] else stack_of (is_directory (last es)) (names (me_path (last es)))),
      md_previous_path = (if es = [] then None else Some (me_path (last es))),
      md_digest = MANIFEST_DOMAIN_V3 @ be_bytes 8 n @ concat (map entry_bytes es)\<rparr>"

lemma checked_sum_Inr:
  assumes "a \<le> unat (limit :: u64)" "b < 2 ^ 64"
  shows "checked_add64 (of_nat a) (of_nat b) = Some s \<and> \<not> limit < s \<longleftrightarrow> a + b \<le> unat limit \<and> s = of_nat (a + b)"
proof -
  have l: "unat limit < 2 ^ 64" using unsigned_less [of limit] by simp
  with assms have u: "unat (of_nat a :: u64) = a" "unat (of_nat b :: u64) = b" by (simp_all add: unat_of_nat)
  have "unat (of_nat (a + b) :: u64) = a + b" if "a + b < 2 ^ 64"
    using that by (simp add: unat_of_nat del: of_nat_add)
  with u l show ?thesis by (auto simp: checked_add64_Some word_less_nat_alt not_less)
qed

lemma checked_limit_Inr:
  "and_then (ok_or e m) (\<lambda>s. if limit < s then Inl e' else f s) = Inr y \<longleftrightarrow>
     (\<exists>s. (m = Some s \<and> \<not> limit < s) \<and> f s = Inr y)"
  by (auto simp: and_then_Inr_iff split: if_splits)

lemma charge_xattrs_after:
  assumes "(\<Sum>e\<leftarrow>es. xattr_bytes_of (me_content e)) \<le> unat (hl_max_xattr_bytes (md_limits d))"
    and "md_xattr_bytes d = of_nat (\<Sum>e\<leftarrow>es. xattr_bytes_of (me_content e))"
  shows "charge_xattrs (me_content e) d = Inr d' \<longleftrightarrow>
    (\<Sum>e\<leftarrow>es @ [e]. xattr_bytes_of (me_content e)) \<le> unat (hl_max_xattr_bytes (md_limits d)) \<and>
    d' = d\<lparr>md_xattr_bytes := of_nat (\<Sum>e\<leftarrow>es @ [e]. xattr_bytes_of (me_content e))\<rparr>"
proof (cases "me_content e")
  case (RegularProof r)
  let ?v = "xp_value_bytes (rp_xattrs r)"
  have v: "unat ?v < 2 ^ 64" using unsigned_less [of ?v] by simp
  have "charge_xattrs (me_content e) d = Inr d' \<longleftrightarrow> (\<exists>s. (checked_add64 (md_xattr_bytes d) (of_nat (unat ?v)) = Some s \<and>
      \<not> hl_max_xattr_bytes (md_limits d) < s) \<and> d' = d\<lparr>md_xattr_bytes := s\<rparr>)"
    by (auto simp: RegularProof checked_limit_Inr)
  then show ?thesis unfolding assms(2) checked_sum_Inr [OF assms(1) v] by (auto simp: RegularProof)
qed (use assms in auto)

lemma decode_account_after:
  fixes limits entry_size es
  defines "paths \<equiv> \<Sum>e\<leftarrow>es. length (me_path e)" and "entries \<equiv> \<Sum>e\<leftarrow>es. unat entry_size + length (me_path e)"
  assumes "paths \<le> unat (hl_max_path_bytes (md_limits d))" "entries \<le> unat (hl_max_manifest_bytes (md_limits d))"
    and "length path < 2 ^ 64" "md_path_bytes d = of_nat paths" "md_manifest_bytes d = of_nat entries"
  shows "decode_account entry_size path kind encoded d = Inr d' \<longleftrightarrow>
    paths + length path \<le> unat (hl_max_path_bytes (md_limits d)) \<and>
    entries + (unat entry_size + length path) \<le> unat (hl_max_manifest_bytes (md_limits d)) \<and>
    (md_decoded_entries d = 0 \<longrightarrow> kind = RecordDirectoryKind) \<and>
    d' = d\<lparr>md_path_bytes := of_nat (paths + length path), md_manifest_bytes := of_nat (entries + (unat entry_size + length path)),
      md_directory_ancestor_ends := (if kind = RecordDirectoryKind then length path # md_directory_ancestor_ends d
        else md_directory_ancestor_ends d),
      md_digest := md_digest d @ encoded, md_previous_path := Some path, md_decoded_entries := md_decoded_entries d + 1\<rparr>"
proof -
  let ?l = "hl_max_manifest_bytes (md_limits d)"
  have l: "unat ?l < 2 ^ 64" using unsigned_less [of ?l] by simp
  have size: "unat entry_size < 2 ^ 64" using unsigned_less [of entry_size] by simp
  have m: "(case checked_add64 (of_nat entries) entry_size of None \<Rightarrow> None | Some v \<Rightarrow> checked_add64 v (of_nat (length path))) = Some s \<and>
      \<not> ?l < s \<longleftrightarrow> entries + (unat entry_size + length path) \<le> unat ?l \<and> s = of_nat (entries + (unat entry_size + length path))"
    (is "?add \<longleftrightarrow> _") for s
  proof (cases "entries + unat entry_size \<le> unat ?l")
    case True
    with l have "checked_add64 (of_nat entries) entry_size = Some (of_nat (entries + unat entry_size))"
      using assms(4) by (simp add: checked_add64_Some unat_of_nat)
    then show ?thesis using checked_sum_Inr [OF True assms(5), of s] by (simp add: add.assoc)
  next
    case False
    have "\<not> ?add"
    proof
      assume add: ?add
      then obtain v where v: "checked_add64 (of_nat entries) entry_size = Some v" "checked_add64 v (of_nat (length path)) = Some s"
        "\<not> ?l < s" by (auto split: option.splits)
      from v(1) assms(4) l have "unat v = entries + unat entry_size"
        by (auto simp: checked_add64_Some unat_of_nat unat_add64)
      with v(2) have "entries + unat entry_size \<le> unat s" by (auto simp: checked_add64_Some unat_add64)
      with v(3) False show False by (simp add: word_less_nat_alt)
    qed
    with False show ?thesis by auto
  qed
  show ?thesis
    unfolding decode_account_def assms(6,7) checked_limit_Inr checked_sum_Inr [OF assms(3,5)] m Let_def
    by (auto split: if_splits)
qed

section \<open>Trees\<close>

text \<open>The place of an entry after those already decoded.\<close>

definition placed :: "manifest_entry list \<Rightarrow> manifest_entry \<Rightarrow> bool" where
  "placed es e \<longleftrightarrow>
     (if es = [] then me_path e = []
      else me_path e \<noteq> [] \<and> manifest_path_less (me_path (last es)) (me_path e) \<and>
        (\<exists>p\<in>set es. is_directory p \<and> path_parent_bytes (me_path e) = Some (me_path p)))"

lemma manifest_path_less_trans: "manifest_path_less p q \<Longrightarrow> manifest_path_less q r \<Longrightarrow> manifest_path_less p r"
  by (auto simp: manifest_path_less_def)

lemma manifest_path_less_irrefl [simp]: "\<not> manifest_path_less p p" "\<not> manifest_path_less p []"
  by (simp_all add: manifest_path_less_def)

lemma tree_canonical:
  "tree_manifest limits entry_size es \<Longrightarrow> e \<in> set es \<Longrightarrow> canonical_path (me_path e) \<and> list_all good_name (names (me_path e))"
  by (auto simp: tree_manifest_def wf_entry_def list_all_iff canonical_path_def)

lemma tree_last:
  assumes "tree_manifest limits entry_size es" "e \<in> set es" "e \<noteq> last es"
  shows "manifest_path_less (me_path e) (me_path (last es))"
proof (cases es rule: rev_cases)
  case (snoc xs l)
  with assms show ?thesis by (auto simp: tree_manifest_def sorted_wrt_append)
qed (use assms in simp)

lemma tree_parent:
  assumes "tree_manifest limits entry_size es" "e \<in> set es" "me_path e \<noteq> []"
  obtains p where "p \<in> set es" "is_directory p" "names (me_path p) = butlast (names (me_path e))"
proof -
  from assms obtain p where p: "p \<in> set es" "is_directory p" "path_parent_bytes (me_path e) = Some (me_path p)"
    by (auto simp: tree_manifest_def list_all_iff list_ex_iff)
  note good = tree_canonical [OF assms(1,2)]
  have "names (me_path p) = butlast (names (me_path e))"
    using p(3) path_parent_names [of "me_path e"] good names_join [OF good_butlast] by (metis option.inject)
  with p that show thesis by blast
qed

text \<open>Every proper ancestor of an entry is a directory of the manifest.\<close>

lemma tree_ancestor:
  assumes "tree_manifest limits entry_size es" "e \<in> set es" "strict_prefix ps (names (me_path e))"
  shows "\<exists>p\<in>set es. is_directory p \<and> names (me_path p) = ps"
  using assms(2,3)
proof (induction "length (names (me_path e))" arbitrary: e)
  case 0
  then show ?case by simp
next
  case (Suc n)
  then have "me_path e \<noteq> []" by (auto simp: names_def)
  then obtain p where p: "p \<in> set es" "is_directory p" "names (me_path p) = butlast (names (me_path e))"
    using tree_parent [OF assms(1) Suc.prems(1)] by blast
  show ?case
  proof (cases "ps = names (me_path p)")
    case False
    have "names (me_path e) = butlast (names (me_path e)) @ [last (names (me_path e))]"
      using \<open>me_path e \<noteq> []\<close> by simp
    then have "strict_prefix ps (names (me_path p))"
      using Suc.prems(2) False unfolding p(3) by (metis prefix_snoc strict_prefix_def)
    moreover have "n = length (names (me_path p))" using Suc.hyps(2) p(3) by simp
    ultimately show ?thesis using Suc.hyps(1) p(1) by blast
  qed (use p in blast)
qed

lemma parent_on_stack:
  assumes tree: "tree_manifest limits entry_size es" and ne: "es \<noteq> []"
    and path: "canonical_path path" "path \<noteq> []" "manifest_path_less (me_path (last es)) path"
  shows "(\<exists>p\<in>set es. is_directory p \<and> path_parent_bytes path = Some (me_path p)) \<longleftrightarrow>
    strict_prefix (butlast (names path)) (names (me_path (last es))) \<or>
    is_directory (last es) \<and> butlast (names path) = names (me_path (last es))"
proof -
  let ?l = "last es" and ?ps = "butlast (names path)"
  have l: "?l \<in> set es" using ne by simp
  note good = tree_canonical [OF tree]
  have gp: "list_all good_name ?ps" using path(1) by (simp add: canonical_path_def good_butlast)
  have parent: "path_parent_bytes path = Some (me_path p) \<longleftrightarrow> names (me_path p) = ?ps" if "p \<in> set es" for p
    using path_parent_names [OF path(1)] names_join [OF gp] names_inject [of "me_path p"] by (metis option.inject)
  have up: "names path = ?ps @ [last (names path)]" using path(2) by simp
  have less: "names (me_path ?l) < ?ps @ [last (names path)]"
    using path(3) manifest_path_less_names [of "me_path ?l" path] good [OF l] path(1) up by metis
  have below: "prefix ?ps (names (me_path ?l)) \<and> (?ps = names (me_path ?l) \<longrightarrow> is_directory ?l)"
    if p: "p \<in> set es" "is_directory p" "names (me_path p) = ?ps" for p
  proof (cases "p = ?l")
    case False
    from tree_last [OF tree p(1) False] have "?ps < names (me_path ?l)"
      using manifest_path_less_names good [OF p(1)] good [OF l] p(3) by metis
    then show ?thesis using lex_between [OF _ less] by auto
  qed (use p in auto)
  show ?thesis
    using below tree_ancestor [OF tree l, of ?ps] parent l by (auto simp: strict_prefix_def)
qed

lemma tree_snoc:
  "tree_manifest limits entry_size (es @ [e]) \<longleftrightarrow>
     tree_manifest limits entry_size es \<and> wf_entry (hl_max_depth limits) e \<and> placed es e \<and>
     (es = [] \<longrightarrow> is_directory e) \<and> within_limits limits entry_size (es @ [e])"
  (is "?tree \<longleftrightarrow> ?step")
proof
  assume tree: ?tree
  have wf: "list_all (wf_entry (hl_max_depth limits)) es" "wf_entry (hl_max_depth limits) e"
    and hd: "me_path (hd (es @ [e])) = []" "is_directory (hd (es @ [e]))"
    and sorted: "sorted_wrt (\<lambda>a b. manifest_path_less (me_path a) (me_path b)) es"
      "\<And>x. x \<in> set es \<Longrightarrow> manifest_path_less (me_path x) (me_path e)"
    and within: "within_limits limits entry_size (es @ [e])"
    using tree by (auto simp: tree_manifest_def sorted_wrt_append)
  have parent: "\<exists>p\<in>set es. is_directory p \<and> path_parent_bytes (me_path x) = Some (me_path p)"
    if x: "x \<in> set (es @ [e])" "me_path x \<noteq> []" for x
  proof -
    from x tree obtain p where p: "p \<in> set (es @ [e])" "is_directory p" "path_parent_bytes (me_path x) = Some (me_path p)"
      by (auto simp: tree_manifest_def list_all_iff list_ex_iff)
    have cx: "canonical_path (me_path x)" "canonical_path (me_path p)" using tree_canonical [OF tree] x(1) p(1) by auto
    have "names (me_path p) = butlast (names (me_path x))"
      using p(3) path_parent_names [OF cx(1)] names_join good_butlast cx(1) by (metis canonical_path_def option.inject)
    moreover have "ss \<noteq> [] \<Longrightarrow> butlast ss < ss" for ss :: "bytes list"
      by (cases ss rule: rev_cases) (simp_all add: less_snoc)
    ultimately have "manifest_path_less (me_path p) (me_path x)" using x(2) cx manifest_path_less_names by simp
    moreover have "x = e \<or> manifest_path_less (me_path x) (me_path e)" using x(1) sorted(2) by auto
    ultimately have "p \<noteq> e" using manifest_path_less_trans manifest_path_less_irrefl(1) by metis
    with p show ?thesis by auto
  qed
  have "me_path e \<noteq> []" if "es \<noteq> []" using sorted(2) [of "last es"] that by auto
  with parent [of e] sorted(2) hd have "placed es e" by (cases es) (auto simp: placed_def)
  moreover have "tree_manifest limits entry_size es"
    using wf(1) hd sorted(1) parent within
    by (cases es) (auto simp: tree_manifest_def list_all_iff list_ex_iff within_limits_def)
  ultimately show ?step using wf(2) hd within by auto
next
  assume step: ?step
  have "manifest_path_less (me_path x) (me_path e)" if "x \<in> set es" for x
  proof -
    from that step have "manifest_path_less (me_path (last es)) (me_path e)" by (auto simp: placed_def split: if_splits)
    with tree_last [of limits entry_size es x] that step show ?thesis using manifest_path_less_trans by metis
  qed
  with step show ?tree
    by (cases "es = []") (auto simp: tree_manifest_def sorted_wrt_append list_all_iff list_ex_iff placed_def split: if_splits)
qed

section \<open>Records in sequence\<close>

lemma decode_place_after:
  assumes tree: "tree_manifest limits entry_size es" and len: "length es < 2 ^ 64" and e: "wf_entry (hl_max_depth limits) e"
  shows "decode_place (me_path e) (decoder_after limits entry_size n es) = Inr d \<longleftrightarrow> placed es e \<and>
    d = (decoder_after limits entry_size n es)\<lparr>md_directory_ancestor_ends := ends (names (me_path e))\<rparr>"
proof (cases "es = []")
  case True
  then show ?thesis by (auto simp: decode_place_def decoder_after_def placed_def)
next
  case False
  let ?path = "me_path e" and ?l = "last es"
  have zero: "(of_nat (length es) :: u64) \<noteq> 0" using False len by (simp add: word_unat_eq_iff unat_of_nat)
  have c: "canonical_path ?path" using e by (simp add: wf_entry_def)
  have gp: "list_all good_name (butlast (names ?path))" using c by (simp add: canonical_path_def good_butlast)
  have gl: "list_all good_name (names (me_path ?l))" using tree_canonical [OF tree] False by simp
  have up: "?path \<noteq> [] \<Longrightarrow> ends (names ?path) = length (join_slash (butlast (names ?path))) # ends (butlast (names ?path))"
    using ends_snoc [of "butlast (names ?path)" "last (names ?path)"] by simp
  show ?thesis
    using False zero parent_on_stack [OF tree False c] retain_stack [OF gl gp, of "is_directory ?l"] up
    by (auto simp: decode_place_def decoder_after_def placed_def path_parent_names [OF c])
qed

lemma account_entry_after:
  assumes tree: "tree_manifest limits entry_size es" and len: "length es < 2 ^ 64"
  shows "wf_entry (hl_max_depth limits) e \<and> account_entry entry_size e (decoder_after limits entry_size n es) = Inr d \<longleftrightarrow>
    tree_manifest limits entry_size (es @ [e]) \<and> d = decoder_after limits entry_size n (es @ [e])"
proof (cases "wf_entry (hl_max_depth limits) e")
  case True
  let ?d = "decoder_after limits entry_size n es"
  let ?d1 = "?d\<lparr>md_directory_ancestor_ends := ends (names (me_path e))\<rparr>"
  let ?x = "\<Sum>e\<leftarrow>es @ [e]. xattr_bytes_of (me_content e)"
  let ?d2 = "?d1\<lparr>md_xattr_bytes := of_nat ?x\<rparr>"
  have within: "within_limits limits entry_size es" using tree by (simp add: tree_manifest_def)
  have path: "length (me_path e) < 2 ^ 64" using True by (simp add: wf_entry_def)
  have kind: "record_kind_of (ni_kind (me_identity e)) = RecordDirectoryKind \<longleftrightarrow> is_directory e"
    by (cases "ni_kind (me_identity e)") simp_all
  have x: "charge_xattrs (me_content e) ?d1 = Inr d' \<longleftrightarrow> ?x \<le> unat (hl_max_xattr_bytes limits) \<and> d' = ?d2" for d'
    using charge_xattrs_after [of es ?d1 e d'] within by (simp add: decoder_after_def within_limits_def)
  have zero: "(of_nat (length es) :: u64) = 0 \<longleftrightarrow> es = []" using len by (simp add: word_unat_eq_iff unat_of_nat)
  have a: "decode_account entry_size (me_path e) (record_kind_of (ni_kind (me_identity e))) (entry_bytes e) ?d2 = Inr d \<longleftrightarrow>
      (\<Sum>e\<leftarrow>es @ [e]. length (me_path e)) \<le> unat (hl_max_path_bytes limits) \<and>
      (\<Sum>e\<leftarrow>es @ [e]. unat entry_size + length (me_path e)) \<le> unat (hl_max_manifest_bytes limits) \<and>
      (es = [] \<longrightarrow> is_directory e) \<and> d = decoder_after limits entry_size n (es @ [e])"
    using decode_account_after [of es ?d2 entry_size "me_path e"] within path
    by (auto simp: decoder_after_def within_limits_def kind zero stack_of_def)
  have "account_entry entry_size e ?d = Inr d \<longleftrightarrow> placed es e \<and> ?x \<le> unat (hl_max_xattr_bytes limits) \<and>
      decode_account entry_size (me_path e) (record_kind_of (ni_kind (me_identity e))) (entry_bytes e) ?d2 = Inr d"
    unfolding account_entry_def and_then_Inr_iff using decode_place_after [OF tree len True] x by auto
  with True tree show ?thesis unfolding a tree_snoc by (auto simp: within_limits_def)
qed (use tree_snoc in blast)

end
