(* ===== verification/Sidecar_Store_Props.thy ===== *)
theory Sidecar_Store_Props
  imports Sidecar_Store Sidecar_Props
begin

text \<open>
  The directory of sidecar files. The name of a published file determines its transaction, publishing
  never overwrites and makes the segments readable, and a cleanup removes nothing a restart may need.
\<close>

section \<open>Names\<close>

lemma u8_range: "(b :: u8) \<in> set (map of_nat [0..<256])"
proof -
  have "unat b < 256" using unsigned_less [of b] by simp
  then show ?thesis by (auto simp: image_iff intro!: bexI [of _ "unat b"])
qed

lemma u4_range: "(b :: u8) < 16 \<Longrightarrow> b \<in> set (map of_nat [0..<16])"
  by (auto simp: image_iff word_less_nat_alt intro!: bexI [of _ "unat b"])

lemma decode_hex_digits:
  "list_all (\<lambda>b :: u8. case decode_hex b of None \<Rightarrow> True | Some n \<Rightarrow> n < 16 \<and> hex_digit n = b) (map of_nat [0..<256])"
  by code_simp

lemma hex_digit_digits: "list_all (\<lambda>n :: u8. decode_hex (hex_digit n) = Some n) (map of_nat [0..<16])"
  by code_simp

lemma hex_pair_digits:
  "list_all (\<lambda>hi :: u8. list_all (\<lambda>lo. (hi * 16 + lo) div 16 = hi \<and> (hi * 16 + lo) mod 16 = lo) (map of_nat [0..<16]))
     (map of_nat [0..<16])"
  by code_simp

lemma byte_pair_digits:
  "list_all (\<lambda>b :: u8. b div 16 < 16 \<and> b mod 16 < 16 \<and> b div 16 * 16 + b mod 16 = b) (map of_nat [0..<256])"
  by code_simp

lemma decode_hex_Some: "decode_hex b = Some n \<Longrightarrow> n < 16 \<and> hex_digit n = b"
  using decode_hex_digits u8_range [of b] by (auto simp: list_all_iff split: option.splits)

lemma decode_hex_digit: "n < 16 \<Longrightarrow> decode_hex (hex_digit n) = Some n"
  using hex_digit_digits u4_range [of n] by (auto simp: list_all_iff)

lemma hex_pair: "hi < 16 \<Longrightarrow> lo < 16 \<Longrightarrow> (hi * 16 + lo) div 16 = hi \<and> (hi * 16 + lo) mod 16 = (lo :: u8)"
  using hex_pair_digits u4_range [of hi] u4_range [of lo] unfolding list_all_iff by blast

lemma byte_pair: "b div 16 < 16 \<and> b mod 16 < 16 \<and> b div 16 * 16 + b mod 16 = (b :: u8)"
  using byte_pair_digits u8_range [of b] unfolding list_all_iff by blast

definition hex_of :: "bytes \<Rightarrow> bytes" where
  "hex_of bs = concat (map (\<lambda>b. [hex_digit (b div 16), hex_digit (b mod 16)]) bs)"

lemma hex_of_simps [simp]:
  "hex_of [] = []" "hex_of (b # bs) = hex_digit (b div 16) # hex_digit (b mod 16) # hex_of bs"
  "length (hex_of bs) = 2 * length bs"
  by (simp_all add: hex_of_def) (induction bs; simp)

lemma decode_hex_of [simp]: "decode_pairs (hex_of bs) = Some bs"
  by (induction bs) (simp_all add: decode_hex_digit byte_pair)

lemma decode_pairs_Some: "decode_pairs cs = Some bs \<Longrightarrow> even (length cs) \<Longrightarrow> cs = hex_of bs"
proof (induction cs arbitrary: bs rule: decode_pairs.induct)
  case (1 a b cs)
  then obtain hi lo bs' where "decode_hex a = Some hi" "decode_hex b = Some lo" "decode_pairs cs = Some bs'"
    "bs = (hi * 16 + lo) # bs'" by (auto simp: Option.bind_eq_Some_conv)
  with 1 decode_hex_Some [of a hi] decode_hex_Some [of b lo] hex_pair [of hi lo] show ?case by auto
qed auto

lemma strip_both_Some: "strip_both pre post name = Some body \<longleftrightarrow> name = pre @ body @ post"
proof
  assume a: "strip_both pre post name = Some body"
  define rest where "rest = drop (length pre) name"
  have "name = take (length pre) name @ rest" by (simp add: rest_def)
  moreover have "rest = take (length rest - length post) rest @ drop (length rest - length post) rest" by simp
  ultimately show "name = pre @ body @ post"
    using a unfolding strip_both_def Let_def rest_def [symmetric] by (metis option.distinct(1) option.inject)
qed (simp add: strip_both_def)

text \<open>A name is read back as the transaction it was made for, and no other name is read as one.\<close>

lemma parse_final_name_Some: "parse_final_name name = Some t \<longleftrightarrow> wf_tid t \<and> name = final_name t"
proof
  assume "parse_final_name name = Some t"
  then obtain body bs where b: "name = final_prefix @ body @ final_suffix" "length body = 32"
    "decode_pairs body = Some bs" "t = TransactionId bs"
    by (auto simp: parse_final_name_def Option.bind_eq_Some_conv strip_both_Some split: if_splits)
  then have "body = hex_of bs" by (intro decode_pairs_Some) simp_all
  with b show "wf_tid t \<and> name = final_name t" by (simp add: wf_tid_def final_name_def transaction_hex_def hex_of_def [symmetric])
next
  assume "wf_tid t \<and> name = final_name t"
  moreover have "strip_both final_prefix final_suffix (final_name t) = Some (hex_of (tid_bytes t))"
    by (simp add: strip_both_Some final_name_def transaction_hex_def hex_of_def)
  ultimately show "parse_final_name name = Some t"
    by (simp add: parse_final_name_def wf_tid_def)
qed

lemma final_name_inj: "wf_tid s \<Longrightarrow> wf_tid t \<Longrightarrow> final_name s = final_name t \<longleftrightarrow> s = t"
  using parse_final_name_Some [of "final_name s" s] parse_final_name_Some [of "final_name s" t] by auto

lemma temp_not_final: "temp_name t pid sequence \<noteq> final_name s"
  by (simp add: temp_name_def final_name_def TEMP_PREFIX_def final_prefix_def)

section \<open>Publishing\<close>

lemma publish_file_keeps:
  assumes "map_of files temp = None" "map_of files n = Some x"
  shows "map_of (snd (publish_file env sha temp c content files)) n = Some x"
proof -
  have n: "n \<noteq> temp" using assms by auto
  show ?thesis
  proof (cases "map_of files (final_name (sc_transaction c))")
    case None
    with assms n show ?thesis
      by (auto simp: publish_file_def Let_def update_conv' delete_conv' split: sum.split)
  next
    case (Some y)
    with assms n show ?thesis
      by (auto simp: publish_file_def Let_def update_conv' delete_conv' split: sum.split)
  qed
qed

text \<open>Whatever happens, a file that was there is there with its contents.\<close>

lemma publish_stream_keeps:
  "map_of files n = Some x \<Longrightarrow> map_of (snd (publish_stream env sha pid sequence t segs files)) n = Some x"
  using publish_file_keeps [of files "temp_name t pid sequence" n x]
  by (auto simp: publish_stream_def Let_def update_conv' split: sum.split prod.split)

lemma publish_file_Inr:
  assumes "publish_file env sha temp c content files = (Inr c', files')"
    and "map_of files temp = None" "temp \<noteq> final_name (sc_transaction c)"
  shows "c' = c" "verify_file sha content c = Inr ()" "map_of files (final_name (sc_transaction c)) = None"
    "map_of files' = (map_of files)(final_name (sc_transaction c) \<mapsto> content)"
  using assms
  by (auto simp: publish_file_def Let_def update_conv' delete_conv' and_then_Inr_iff fun_eq_iff
      split: sum.splits if_splits)

lemma publish_stream_Inr:
  assumes "publish_stream env sha pid sequence t segs files = (Inr c, files')"
  obtains content where "write_sidecar sha t segs = (Inr c, content)" "verify_file sha content c = Inr ()"
    "map_of files (final_name t) = None" "map_of files' = (map_of files)(final_name t \<mapsto> content)"
proof -
  from assms obtain c0 content where w: "write_sidecar sha t segs = (Inr c0, content)"
    and p: "publish_file env sha (temp_name t pid sequence) c0 content files = (Inr c, files')"
    and temp: "map_of files (temp_name t pid sequence) = None"
    by (auto simp: publish_stream_def Let_def split: sum.splits prod.splits if_splits)
  have t: "sc_transaction c0 = t" using w by (auto simp: write_sidecar_Inr commitment_of_def)
  from publish_file_Inr [OF p temp] temp_not_final w that show thesis unfolding t by metis
qed

text \<open>Nothing fails: what the checks and the system answer on a healthy store.\<close>

definition healthy :: "store_env \<Rightarrow> bool" where
  "healthy env \<longleftrightarrow> (\<forall>i. env_binding env i = Inr ()) \<and> (\<forall>n. env_validate env n = Inr ()) \<and> env_sync_file env = Inr () \<and>
     env_sync_directory env = Inr () \<and> env_rename env = Inr () \<and> (\<forall>n. env_unlink env n = Inr ())"

lemma publish_stream_healthy:
  assumes "healthy env" "write_sidecar sha t segs = (Inr c, content)" "verify_file sha content c = Inr ()"
    and "map_of files (final_name t) = None" "map_of files (temp_name t pid sequence) = None"
  shows "\<exists>files'. publish_stream env sha pid sequence t segs files = (Inr c, files')"
proof -
  have "sc_transaction c = t" using assms(2) by (auto simp: write_sidecar_Inr commitment_of_def)
  with assms temp_not_final [of t pid sequence t] show ?thesis
    by (auto simp: publish_stream_def publish_file_def healthy_def Let_def with_io_def update_conv')
qed

lemma read_fold_published:
  assumes "\<And>bs. length (sha bs) = 32" "wf_tid t" "valid_segments segs" "healthy env"
    and "map_of files (final_name t) = Some (sidecar_of sha t segs)"
  shows "read_fold env sha (commitment_of sha t segs) acc f files =
    (case fold_r (\<lambda>(n, p) acc. f acc n p) segs acc of Inl e \<Rightarrow> Inl (Fold e) | Inr acc \<Rightarrow> Inr acc)"
proof -
  have "sc_transaction (commitment_of sha t segs) = t" by (simp add: commitment_of_def)
  with assms(4,5) show ?thesis
    unfolding read_fold_def open_final_def healthy_def
    by (simp add: sidecar_try_def fold_file_sidecar_of [OF assms(1-3)] split: sum.split)
qed

lemma verify_published:
  assumes "\<And>bs. length (sha bs) = 32" "wf_tid t" "valid_segments segs"
  shows "verify_file sha (sidecar_of sha t segs) (commitment_of sha t segs) = Inr ()"
proof -
  have w: "write_sidecar sha t segs = (Inr (commitment_of sha t segs), sidecar_of sha t segs)"
    "record_total segs \<le> unat MAX_RECORDS"
    using assms(3) by (simp_all add: write_sidecar_Inr valid_segments_iff)
  have "sc_transaction (commitment_of sha t segs) = t" by (simp add: commitment_of_def)
  with w assms(2) show ?thesis unfolding verify_file_Inr_iff [OF assms(1)] by auto
qed

lemma inspect_published:
  assumes "\<And>bs. length (sha bs) = 32" "wf_tid t" "valid_segments segs" "healthy env"
    and "map_of files (final_name t) = Some (sidecar_of sha t segs)"
  shows "inspect_unbound env sha t files = Inr (commitment_of sha t segs)"
proof -
  let ?c = "commitment_of sha t segs"
  have v: "validate_tree_sidecar_commitment ?c = Inr ()" "valid_header ?c"
    using commitment_valid [of segs sha t] assms(1,3) by blast+
  have fields: "sc_transaction ?c = t" "length (sc_root_sha256 ?c) = 32" "length (tid_bytes t) = 16"
    using assms(1,2) by (simp_all add: commitment_of_def wf_tid_def)
  have h: "length (encode_header ?c) = 80" "decode_header (encode_header ?c) = Inr (?c\<lparr>sc_file_bytes := 0\<rparr>)"
    using header_ranges(9) [of ?c] decode_encode_header [of ?c] fields v(2) by simp_all
  have size: "of_nat (length (sidecar_of sha t segs)) = sc_file_bytes ?c"
    using h(1) by (simp add: sidecar_of_def commitment_of_def)
  have small: "validate_file_size (sc_file_bytes ?c) = Inr ()"
    using v(1) by (auto simp: validate_file_size_def validate_tree_sidecar_commitment_def and_then_Inr_iff split: if_splits)
  have head: "read_exact 80 (sidecar_of sha t segs) = Inr (encode_header ?c, segment_bytes sha t 0 segs)"
    using h(1) by (simp add: read_exact_def sidecar_of_def)
  have eq: "?c\<lparr>sc_file_bytes := sc_file_bytes ?c\<rparr> = ?c" by simp
  show ?thesis
    using assms(4,5) verify_published [OF assms(1-3)]
    by (simp add: inspect_unbound_def open_final_def healthy_def Let_def size small head h(2) eq fields(1))
qed

text \<open>C27: publishing. Where nothing fails and its names are free, publishing segments of a valid size
  succeeds, adds exactly the final file of the transaction to the directory, and a reader given the
  returned commitment folds over exactly the published segments (the consumer's own error is returned
  as such). Whatever the checks and the system answer, no file that was in the directory is changed.\<close>

theorem published_sidecar_reads_back:
  assumes "\<And>bs. length (sha bs) = 32" "wf_tid t" "valid_segments segs" "healthy env"
    and "map_of files (final_name t) = None" "map_of files (temp_name t pid sequence) = None"
  shows "(\<exists>c content files'. publish_stream env sha pid sequence t segs files = (Inr c, files') \<and>
      map_of files' = (map_of files)(final_name t \<mapsto> content) \<and>
      read_fold env sha c acc f files' =
        (case fold_r (\<lambda>(n, p) acc. f acc n p) segs acc of Inl e \<Rightarrow> Inl (Fold e) | Inr acc \<Rightarrow> Inr acc)) \<and>
    (\<forall>n x. map_of files n = Some x \<longrightarrow>
      map_of (snd (publish_stream env' sha pid sequence t' segs' files)) n = Some x)"
proof -
  let ?c = "commitment_of sha t segs" and ?content = "sidecar_of sha t segs"
  have w: "write_sidecar sha t segs = (Inr ?c, ?content)"
    using assms(3) by (simp add: write_sidecar_Inr valid_segments_iff)
  note v = verify_published [OF assms(1-3)]
  from publish_stream_healthy [OF assms(4) w v assms(5,6)] obtain files' where
    p: "publish_stream env sha pid sequence t segs files = (Inr ?c, files')" by blast
  then have m: "map_of files' = (map_of files)(final_name t \<mapsto> ?content)"
    by (rule publish_stream_Inr) (use w in simp)
  then have "map_of files' (final_name t) = Some ?content" by simp
  note r = read_fold_published [OF assms(1-4) this]
  show ?thesis
    by (intro conjI exI allI impI) (rule p, rule m, rule r, rule publish_stream_keeps, assumption)
qed

section \<open>Cleaning up\<close>

definition sidecar_required :: "seal_wal \<Rightarrow> transaction_id \<Rightarrow> bool" where
  "sidecar_required wal t \<longleftrightarrow> map_of (wl_sidecars wal) t \<noteq> None \<and>
     (case map_of (wl_states wal) t of None \<Rightarrow> True | Some s \<Rightarrow> tree_sidecar_required_for_state s)"

text \<open>The file is an intact published one of a transaction no restart needs it for.\<close>

definition removable :: "digest \<Rightarrow> seal_wal \<Rightarrow> bytes \<Rightarrow> bytes \<Rightarrow> bool" where
  "removable sha wal n content \<longleftrightarrow> (\<exists>t c. wf_tid t \<and> n = final_name t \<and> \<not> sidecar_required wal t \<and> sc_transaction c = t \<and>
     verify_file sha content c = Inr () \<and> map_of (wl_sidecars wal) t \<in> {None, Some c})"

definition only_removes :: "digest \<Rightarrow> seal_wal \<Rightarrow> sidecar_files \<Rightarrow> sidecar_files \<Rightarrow> bool" where
  "only_removes sha wal files files' \<longleftrightarrow> (\<forall>n. map_of files' n = map_of files n \<or>
     map_of files' n = None \<and> (\<exists>content. map_of files n = Some content \<and> removable sha wal n content))"

lemma only_removes_refl [simp]: "only_removes sha wal files files"
  by (simp add: only_removes_def)

lemma only_removes_trans: "only_removes sha wal a b \<Longrightarrow> only_removes sha wal b c \<Longrightarrow> only_removes sha wal a c"
  unfolding only_removes_def by metis

lemma inspect_unbound_Inr:
  "inspect_unbound env sha t files = Inr c \<Longrightarrow> sc_transaction c = t"
  by (auto simp: inspect_unbound_def and_then_Inr_iff Let_def split: if_splits)

lemma remove_verified_final_Inr:
  assumes "remove_verified_final env sha c files = Inr files'"
  obtains content where "map_of files (final_name (sc_transaction c)) = Some content" "verify_file sha content c = Inr ()"
    "files' = AList.delete (final_name (sc_transaction c)) files"
  using assms
  by (auto simp: remove_verified_final_def remove_validated_private_file_def open_final_def and_then_Inr_iff Let_def
      split: option.splits)

lemma cleanup_entry_safe: "only_removes sha wal files (snd (cleanup_entry env sha wal name report files))"
proof (cases "cleanup_entry env sha wal name report files")
  case (Pair r files')
  then consider "files' = files"
    | t c where "parse_final_name name = Some t" "\<not> sidecar_required wal t" "inspect_unbound env sha t files = Inr c"
      "map_of (wl_sidecars wal) t \<in> {None, Some c}" "remove_verified_final env sha c files = Inr files'"
    by (auto simp: cleanup_entry_def sidecar_required_def Let_def split: option.splits if_splits sum.splits)
  then show ?thesis
  proof cases
    case 2
    note t = inspect_unbound_Inr [OF 2(3)]
    from 2(5) obtain content where "map_of files (final_name t) = Some content" "verify_file sha content c = Inr ()"
      "files' = AList.delete (final_name t) files" by (rule remove_verified_final_Inr) (simp add: t)
    with 2 t Pair show ?thesis
      by (auto simp: only_removes_def removable_def parse_final_name_Some delete_conv')
  qed (simp add: Pair)
qed

lemma cleanup_entries_safe: "only_removes sha wal files (snd (cleanup_entries env sha wal names report files))"
proof (induction names arbitrary: report files)
  case (Cons name names)
  show ?case
    using cleanup_entry_safe [of sha wal files env name report] Cons.IH
    by (auto split: prod.split sum.split intro: only_removes_trans)
qed simp

lemma cleanup_unreachable_safe: "only_removes sha wal files (snd (cleanup_unreachable env sha wal files))"
  using cleanup_entries_safe [of sha wal files env "map fst files" "\<lparr>cr_removed = 0, cr_corrupt_retained = 0\<rparr>"]
  by (auto simp: cleanup_unreachable_def split: prod.split sum.split)

text \<open>The names of unpublished files start with a dot, those of published files do not.\<close>

lemma final_not_temp: "\<not> valid_temp_name (final_name t)" "\<not> valid_scratch_name (final_name t)"
proof -
  have "strip_both (46 # pre) post (final_name t) = None" for pre post
    by (simp add: strip_both_def final_name_def final_prefix_def)
  then show "\<not> valid_temp_name (final_name t)" "\<not> valid_scratch_name (final_name t)"
    by (simp_all add: valid_temp_name_def valid_scratch_name_def scratch_transaction_def TEMP_PREFIX_def SCRATCH_PREFIX_def)
qed

lemma cleanup_temps_keeps_finals:
  "map_of (snd (cleanup_temps env names removed files)) (final_name t) = map_of files (final_name t)"
proof (induction env names removed files rule: cleanup_temps.induct)
  case (2 env name names removed files)
  show ?case
  proof (cases "valid_temp_name name \<or> valid_scratch_name name")
    case True
    then have "final_name t \<noteq> name" using final_not_temp by metis
    with 2 True show ?thesis
      by (auto simp: remove_validated_private_file_def and_then_Inr_iff delete_conv' split: option.split sum.split)
  qed (use 2 in simp)
qed simp

lemma cleanup_unpublished_keeps_finals:
  "map_of (snd (cleanup_unpublished env files)) (final_name t) = map_of files (final_name t)"
  using cleanup_temps_keeps_finals [of env "map fst files" 0 files t]
  by (auto simp: cleanup_unpublished_def split: prod.split sum.split)

text \<open>C26: cleanup. Whatever the checks and the system answer, a file that \<open>cleanup_unreachable\<close> does
  not leave as it was is gone, and was the intact published sidecar of a transaction for which the log
  binds no sidecar or is in a state that needs none; where the log binds one, it was that very one. So
  neither a sidecar a restart may read, nor a damaged or substituted one, nor any other file is ever
  removed; and \<open>cleanup_unpublished\<close> removes no published sidecar at all.\<close>

theorem cleanup_removes_only_dead_sidecars:
  assumes "\<And>bs. length (sha bs) = 32" "map_of files n = Some content"
    and "map_of (snd (cleanup_unreachable env sha wal files)) n \<noteq> Some content"
  shows "map_of (snd (cleanup_unreachable env sha wal files)) n = None \<and>
    (\<exists>t c segs. wf_tid t \<and> n = final_name t \<and> \<not> sidecar_required wal t \<and>
       write_sidecar sha t segs = (Inr c, content) \<and> map_of (wl_sidecars wal) t \<in> {None, Some c}) \<and>
    map_of (snd (cleanup_unpublished env' files)) n = Some content"
proof -
  have "map_of (snd (cleanup_unreachable env sha wal files)) n = None \<and> removable sha wal n content"
    using cleanup_unreachable_safe [of sha wal files env] assms(2,3) unfolding only_removes_def
    by (metis option.inject)
  then obtain t c segs where r: "map_of (snd (cleanup_unreachable env sha wal files)) n = None" "wf_tid t"
    "n = final_name t" "\<not> sidecar_required wal t" "write_sidecar sha t segs = (Inr c, content)"
    "map_of (wl_sidecars wal) t \<in> {None, Some c}"
    unfolding removable_def verify_file_Inr_iff [OF assms(1)] by blast
  then show ?thesis using assms(2) cleanup_unpublished_keeps_finals [of env' files t] by (intro conjI exI) auto
qed

section \<open>A directory on a healthy store\<close>

definition sample_stat :: file_stat where
  "sample_stat = \<lparr>st_dev = 9, st_ino = 77, st_mode = 33152, st_uid = 501, st_nlink = 1\<rparr>"

definition sample_env :: store_env where
  "sample_env = \<lparr>env_backend = Ext4, env_device = 9, env_euid = 501, env_binding = \<lambda>_. Inr (),
     env_view = \<lambda>_. \<lparr>fv_opened = Inr sample_stat, fv_acl = Inr (), fv_backend = Inr Ext4, fv_entry = Inr sample_stat\<rparr>,
     env_sync_file = Inr (), env_sync_directory = Inr (),
     env_rename = Inr (), env_unlink = \<lambda>_. Inr ()\<rparr>"

definition sample_sha :: digest where "sample_sha = (\<lambda>_. replicate 32 7)"

definition sample_tid :: transaction_id where "sample_tid = TransactionId (replicate 16 1)"

definition sample_segments :: "segment list" where "sample_segments = [(2, [5, 6]), (1, [])]"

definition sample_files :: sidecar_files where
  "sample_files = [(final_name sample_tid, snd (write_sidecar sample_sha sample_tid sample_segments))]"

lemma sample_answers:
  "env_validate sample_env n = Inr ()" "env_binding sample_env i = Inr ()" "env_sync_file sample_env = Inr ()"
  "env_sync_directory sample_env = Inr ()" "env_rename sample_env = Inr ()" "env_unlink sample_env n = Inr ()"
  by (simp_all add: env_validate_def validate_file_def sample_env_def sample_stat_def with_io_def regular_file_def
      FILE_MODE_def)

lemma samples: "length (sample_sha bs) = 32" "healthy sample_env" "wf_tid sample_tid" "valid_segments sample_segments"
  by (simp_all add: sample_sha_def healthy_def sample_answers wf_tid_def sample_tid_def valid_segments_def
      sample_segments_def segment_ok_def MAX_SEGMENTS_def MAX_SEGMENT_PAYLOAD_def MAX_RECORDS_def)

lemma published_sidecar_reads_back_witness:
  "\<exists>c files'. publish_stream sample_env sample_sha 12 3 sample_tid sample_segments [] = (Inr c, files') \<and>
     read_fold sample_env sample_sha c [] (\<lambda>acc n p. Inr (acc @ [(n, p)]) :: unit + segment list) files' =
       Inr sample_segments"
proof -
  let ?f = "\<lambda>acc n p. Inr (acc @ [(n, p)]) :: unit + segment list"
  have "fold_r (\<lambda>(n, p) acc. ?f acc n p) sample_segments [] = Inr sample_segments" by (simp add: sample_segments_def)
  then show ?thesis
    using published_sidecar_reads_back [of sample_sha sample_tid sample_segments sample_env "[]" 12 3 "[]" ?f, OF samples(1,3,4,2)]
    by auto
qed

lemma cleaned_sample: "cleanup_unreachable sample_env sample_sha (from_validated [] 0 0) sample_files =
  (Inr \<lparr>cr_removed = 1, cr_corrupt_retained = 0\<rparr>, [])"
proof -
  let ?c = "commitment_of sample_sha sample_tid sample_segments" and ?content = "sidecar_of sample_sha sample_tid sample_segments"
  have f: "sample_files = [(final_name sample_tid, ?content)]"
    using write_sidecar_Inr [of sample_sha sample_tid sample_segments ?c ?content] samples(4)
    by (simp add: sample_files_def valid_segments_iff)
  have i: "inspect_unbound sample_env sample_sha sample_tid sample_files = Inr ?c"
    by (rule inspect_published) (simp_all add: samples f)
  have v: "verify_file sample_sha ?content ?c = Inr ()" by (rule verify_published) (rule samples)+
  have p: "parse_final_name (final_name sample_tid) = Some sample_tid" by (simp add: parse_final_name_Some samples)
  have t: "sc_transaction ?c = sample_tid" by (simp add: commitment_of_def)
  show ?thesis
    using i v t
    by (simp add: cleanup_unreachable_def cleanup_entry_def p from_validated_def remove_verified_final_def open_final_def
        remove_validated_private_file_def sample_answers f checked_add64_def with_io_def)
qed

lemma cleanup_removes_only_dead_sidecars_witness:
  "cleanup_unreachable sample_env sample_sha (from_validated [] 0 0) sample_files =
     (Inr \<lparr>cr_removed = 1, cr_corrupt_retained = 0\<rparr>, []) \<and> \<not> sidecar_required (from_validated [] 0 0) sample_tid \<and>
   map_of (snd (cleanup_unpublished sample_env sample_files)) (final_name sample_tid) \<noteq> None"
  using cleaned_sample
    cleanup_removes_only_dead_sidecars [of sample_sha sample_files "final_name sample_tid"
      "snd (write_sidecar sample_sha sample_tid sample_segments)" sample_env "from_validated [] 0 0" sample_env]
    samples
  by (auto simp: sample_files_def final_name_inj)

end
