(* ===== verification/Manifest_Props.thy ===== *)
theory Manifest_Props
  imports Manifest_Tree Sidecar_Store_Props
begin

text \<open>
  The manifest of a published sidecar, end to end: what the encoder cuts into segments, the store publishes
  and the reader decodes.
\<close>

section \<open>Segments\<close>

lemma ex_Cons: "\<not> P [] \<Longrightarrow> (\<exists>x xs. P (x # xs)) \<longleftrightarrow> (\<exists>xs. P xs)"
  by (metis neq_Nil_conv)

lemma tree_prefix: "tree_manifest limits entry_size (xs @ ys) \<Longrightarrow> tree_manifest limits entry_size xs"
proof (induction ys rule: rev_induct)
  case (snoc y ys)
  then show ?case using tree_snoc [of limits entry_size "xs @ ys" y] by simp
qed simp

lemma decode_record_after:
  assumes "tree_manifest limits entry_size es" "length es \<le> unat n"
  shows "decode_v3_record entry_size input (decoder_after limits entry_size n es) = Inr (r, rest, d) \<longleftrightarrow>
    (\<exists>e. input = entry_bytes e @ rest \<and> r = manifest_record_of e \<and> tree_manifest limits entry_size (es @ [e]) \<and>
      length (es @ [e]) \<le> unat n \<and> d = decoder_after limits entry_size n (es @ [e]))"
proof -
  let ?d = "decoder_after limits entry_size n es"
  have n: "unat n < 2 ^ 64" using unsigned_less [of n] by simp
  have lim: "md_limits ?d = limits" by (simp add: decoder_after_def)
  have count: "md_decoded_entries ?d < md_expected_entries ?d \<longleftrightarrow> length es < unat n"
    using assms(2) n by (simp add: decoder_after_def word_less_nat_alt unat_of_nat)
  have len: "length es < 2 ^ 64" using assms(2) n by simp
  note acc = account_entry_after [OF assms(1) len]
  show ?thesis
  proof
    assume dec: "decode_v3_record entry_size input ?d = Inr (r, rest, d)"
    note inv = decode_record_Inr [OF dec, unfolded lim count]
    then show "\<exists>e. input = entry_bytes e @ rest \<and> r = manifest_record_of e \<and> tree_manifest limits entry_size (es @ [e]) \<and>
      length (es @ [e]) \<le> unat n \<and> d = decoder_after limits entry_size n (es @ [e])" using acc by auto
  next
    assume "\<exists>e. input = entry_bytes e @ rest \<and> r = manifest_record_of e \<and> tree_manifest limits entry_size (es @ [e]) \<and>
      length (es @ [e]) \<le> unat n \<and> d = decoder_after limits entry_size n (es @ [e])"
    then obtain e where e: "input = entry_bytes e @ rest" "r = manifest_record_of e" "tree_manifest limits entry_size (es @ [e])"
      "length es < unat n" "d = decoder_after limits entry_size n (es @ [e])" by auto
    then show "decode_v3_record entry_size input ?d = Inr (r, rest, d)"
      using decode_emitted_record [of ?d e entry_size d rest] acc [of e n d] by (simp add: lim count)
  qed
qed

lemma decode_records_after:
  assumes "tree_manifest limits entry_size es" "length es \<le> unat n"
  shows "decode_records entry_size visit k input (decoder_after limits entry_size n es) s = Inr (rest, d, s') \<longleftrightarrow>
    (\<exists>fs. length fs = k \<and> input = concat (map entry_bytes fs) @ rest \<and> tree_manifest limits entry_size (es @ fs) \<and>
      length (es @ fs) \<le> unat n \<and> d = decoder_after limits entry_size n (es @ fs) \<and>
      fold_r visit (map manifest_record_of fs) s = Inr s')"
  using assms
proof (induction k arbitrary: es input s)
  case (Suc k)
  let ?goal = "\<lambda>fs. length fs = Suc k \<and> input = concat (map entry_bytes fs) @ rest \<and> tree_manifest limits entry_size (es @ fs) \<and>
      length (es @ fs) \<le> unat n \<and> d = decoder_after limits entry_size n (es @ fs) \<and>
      fold_r visit (map manifest_record_of fs) s = Inr s'"
  have "decode_records entry_size visit (Suc k) input (decoder_after limits entry_size n es) s = Inr (rest, d, s') \<longleftrightarrow>
    (\<exists>r i d1 s1. decode_v3_record entry_size input (decoder_after limits entry_size n es) = Inr (r, i, d1) \<and>
       visit r s = Inr s1 \<and> decode_records entry_size visit k i d1 s1 = Inr (rest, d, s'))"
    by (auto split: sum.splits)
  also have "\<dots> \<longleftrightarrow> (\<exists>e i s1. input = entry_bytes e @ i \<and> visit (manifest_record_of e) s = Inr s1 \<and>
      tree_manifest limits entry_size (es @ [e]) \<and> length (es @ [e]) \<le> unat n \<and>
      decode_records entry_size visit k i (decoder_after limits entry_size n (es @ [e])) s1 = Inr (rest, d, s'))"
    unfolding decode_record_after [OF Suc.prems] by blast
  also have "\<dots> \<longleftrightarrow> (\<exists>e fs. ?goal (e # fs))"
  proof -
    have step: "tree_manifest limits entry_size (es @ [e]) \<and> length (es @ [e]) \<le> unat n \<and>
        decode_records entry_size visit k i (decoder_after limits entry_size n (es @ [e])) s1 = Inr (rest, d, s') \<longleftrightarrow>
      (\<exists>fs. length fs = k \<and> i = concat (map entry_bytes fs) @ rest \<and> tree_manifest limits entry_size (es @ e # fs) \<and>
        length (es @ e # fs) \<le> unat n \<and> d = decoder_after limits entry_size n (es @ e # fs) \<and>
        fold_r visit (map manifest_record_of fs) s1 = Inr s')" for e i s1
    proof (cases "tree_manifest limits entry_size (es @ [e]) \<and> length (es @ [e]) \<le> unat n")
      case True
      then show ?thesis using Suc.IH [of "es @ [e]" i s1] by simp
    next
      case False
      then show ?thesis using tree_prefix [of limits entry_size "es @ [e]"] by auto
    qed
    show ?thesis unfolding step list.map fold_r.simps concat.simps and_then_Inr_iff by auto
  qed
  also have "\<dots> \<longleftrightarrow> (\<exists>fs. ?goal fs)" by (rule ex_Cons) simp
  finally show ?case .
qed auto

definition encode_group :: "manifest_entry list \<Rightarrow> segment" where
  "encode_group fs = (of_nat (length fs), concat (map entry_bytes fs))"

definition good_group :: "manifest_entry list \<Rightarrow> bool" where
  "good_group fs \<longleftrightarrow> fs \<noteq> [] \<and> length (concat (map entry_bytes fs)) \<le> MANIFEST_V3_MAX_SEGMENT_PAYLOAD"

lemma push_segment_after:
  assumes "tree_manifest limits entry_size es" "length es \<le> unat n"
  shows "push_segment_with entry_size visit record_count payload (decoder_after limits entry_size n es) s = Inr (d, s') \<longleftrightarrow>
    (\<exists>fs. (record_count, payload) = encode_group fs \<and> good_group fs \<and> tree_manifest limits entry_size (es @ fs) \<and>
      length (es @ fs) \<le> unat n \<and> d = decoder_after limits entry_size n (es @ fs) \<and>
      fold_r visit (map manifest_record_of fs) s = Inr s')"
proof -
  have n: "unat n < 2 ^ 64" using unsigned_less [of n] by simp
  have count: "record_count \<noteq> 0 \<and> length fs = unat record_count \<longleftrightarrow> fs \<noteq> [] \<and> record_count = of_nat (length fs)"
    if "length (es @ fs) \<le> unat n" for fs :: "manifest_entry list"
    using that n by (auto simp: word_unat_eq_iff unat_of_nat)
  have "push_segment_with entry_size visit record_count payload (decoder_after limits entry_size n es) s = Inr (d, s') \<longleftrightarrow>
    record_count \<noteq> 0 \<and> length payload \<le> MANIFEST_V3_MAX_SEGMENT_PAYLOAD \<and>
    decode_records entry_size visit (unat record_count) payload (decoder_after limits entry_size n es) s = Inr ([], d, s')"
    by (auto simp: push_segment_with_def and_then_Inr_iff split: if_splits)
  then show ?thesis
    unfolding decode_records_after [OF assms] using count by (auto simp: encode_group_def good_group_def)
qed

lemma push_segments_after:
  assumes "tree_manifest limits entry_size es" "length es \<le> unat n"
  shows "fold_r (\<lambda>(k, p) (d, s). push_segment_with entry_size visit k p d s) segs (decoder_after limits entry_size n es, s) = Inr (d, s') \<longleftrightarrow>
    (\<exists>gs. segs = map encode_group gs \<and> list_all good_group gs \<and> tree_manifest limits entry_size (es @ concat gs) \<and>
      length (es @ concat gs) \<le> unat n \<and> d = decoder_after limits entry_size n (es @ concat gs) \<and>
      fold_r visit (map manifest_record_of (concat gs)) s = Inr s')"
  using assms
proof (induction segs arbitrary: es s)
  case (Cons seg segs)
  obtain k p where seg: "seg = (k, p)" by (cases seg)
  let ?goal = "\<lambda>gs. seg # segs = map encode_group gs \<and> list_all good_group gs \<and> tree_manifest limits entry_size (es @ concat gs) \<and>
      length (es @ concat gs) \<le> unat n \<and> d = decoder_after limits entry_size n (es @ concat gs) \<and>
      fold_r visit (map manifest_record_of (concat gs)) s = Inr s'"
  have "fold_r (\<lambda>(k, p) (d, s). push_segment_with entry_size visit k p d s) (seg # segs) (decoder_after limits entry_size n es, s) = Inr (d, s') \<longleftrightarrow>
    (\<exists>g s1. (k, p) = encode_group g \<and> good_group g \<and> tree_manifest limits entry_size (es @ g) \<and> length (es @ g) \<le> unat n \<and>
      fold_r visit (map manifest_record_of g) s = Inr s1 \<and>
      fold_r (\<lambda>(k, p) (d, s). push_segment_with entry_size visit k p d s) segs (decoder_after limits entry_size n (es @ g), s1) = Inr (d, s'))"
    unfolding seg fold_r.simps and_then_Inr_iff split_conv split_paired_Ex push_segment_after [OF Cons.prems] by blast
  also have "\<dots> \<longleftrightarrow> (\<exists>g gs. ?goal (g # gs))"
  proof -
    have step: "tree_manifest limits entry_size (es @ g) \<and> length (es @ g) \<le> unat n \<and> fold_r visit (map manifest_record_of g) s = Inr s1 \<and>
        fold_r (\<lambda>(k, p) (d, s). push_segment_with entry_size visit k p d s) segs (decoder_after limits entry_size n (es @ g), s1) = Inr (d, s') \<longleftrightarrow>
      fold_r visit (map manifest_record_of g) s = Inr s1 \<and> (\<exists>gs. segs = map encode_group gs \<and> list_all good_group gs \<and>
        tree_manifest limits entry_size (es @ g @ concat gs) \<and> length (es @ g @ concat gs) \<le> unat n \<and>
        d = decoder_after limits entry_size n (es @ g @ concat gs) \<and> fold_r visit (map manifest_record_of (concat gs)) s1 = Inr s')" for g s1
    proof (cases "tree_manifest limits entry_size (es @ g) \<and> length (es @ g) \<le> unat n")
      case True
      then show ?thesis using Cons.IH [of "es @ g" s1] by simp
    next
      case False
      then show ?thesis using tree_prefix [of limits entry_size "es @ g"] by auto
    qed
    show ?thesis unfolding step by (auto simp: seg and_then_Inr_iff fold_r_append)
  qed
  also have "\<dots> \<longleftrightarrow> (\<exists>gs. ?goal gs)" by (rule ex_Cons) simp
  finally show ?case .
qed auto

section \<open>The reader of a sidecar\<close>

lemma decoder_new_Inr:
  "decoder_new n = Inr d \<longleftrightarrow> n \<noteq> 0 \<and> unat n \<le> 100000 \<and> d = decoder_after default_limits entry_size n []"
  by (auto simp: decoder_new_def decoder_with_limits_def default_limits_def decoder_after_def word_less_nat_alt)

lemma tree_Nil [simp]: "tree_manifest limits entry_size []"
  by (simp add: tree_manifest_def within_limits_def)

lemma finish_after:
  "decoder_finish sha (decoder_after limits entry_size n es) = Inr m \<longleftrightarrow>
    n = of_nat (length es) \<and> m = fingerprint_manifest_v3 sha es"
proof -
  have "concat (map (\<lambda>entry. concat (emit_manifest_entry_v3 entry)) es) = concat (map entry_bytes es)"
    by (simp add: entry_bytes_def cong: map_cong)
  then show ?thesis by (auto simp: decoder_finish_def decoder_after_def fingerprint_manifest_v3_def)
qed

text \<open>The callback never fails; it remembers the first error.\<close>

lemma capture_simps:
  "capture_segment entry_size visit (dec, Some e, fe, acc) k p = Inr (dec, Some e, fe, acc)"
  "capture_segment entry_size visit (Some d, None, fe, acc) k p =
    (case push_segment_with entry_size (capture_record visit) k p d (fe, acc) of
       Inr (d, fe, acc) \<Rightarrow> Inr (Some d, None, fe, acc)
     | Inl (VisitCodec e) \<Rightarrow> Inr (None, Some e, fe, acc)
     | Inl (Visit _) \<Rightarrow> Inr (Some d, None, fe, acc))"
  "capture_record visit r (None, acc) = (case visit acc r of Inl e \<Rightarrow> Inr (Some e, acc) | Inr acc \<Rightarrow> Inr (None, acc))"
  "capture_record visit r (Some e', acc) = Inr (Some e', acc)"
  by (simp_all add: capture_segment_def capture_record_def)

lemma capture_stuck:
  "fold_r (\<lambda>(k, p) st. capture_segment entry_size visit st k p) segs (dec, Some e, fe, acc) = Inr (dec, Some e, fe, acc)"
  by (induction segs) (auto simp: capture_simps)

lemma capture_record_ok: "\<exists>st'. capture_record visit r st = Inr st'"
  by (cases st) (auto simp: capture_record_def split: sum.split)

lemma decode_records_capture: "decode_records entry_size (capture_record visit) k input d s \<noteq> Inl (Visit e)"
  using capture_record_ok [of visit] by (induction k arbitrary: input d s) (auto split: sum.splits, metis sum.distinct(1))

lemma push_capture: "push_segment_with entry_size (capture_record visit) k p d s \<noteq> Inl (Visit e)"
  using decode_records_capture [of entry_size visit "unat k" p d s e]
  by (auto simp: push_segment_with_def and_then_def split: sum.splits)

lemma capture_segments:
  "fold_r (\<lambda>(k, p) st. capture_segment entry_size visit st k p) segs (Some d, None, fe, acc) = Inr (dec', None, fe', acc') \<longleftrightarrow>
   (\<exists>d'. dec' = Some d' \<and>
     fold_r (\<lambda>(k, p) (d, s). push_segment_with entry_size (capture_record visit) k p d s) segs (d, (fe, acc)) = Inr (d', (fe', acc')))"
proof (induction segs arbitrary: d fe acc)
  case (Cons seg segs)
  obtain k p where seg: "seg = (k, p)" by (cases seg)
  show ?case
  proof (cases "push_segment_with entry_size (capture_record visit) k p d (fe, acc)")
    case (Inl e)
    then obtain c where "e = VisitCodec c" using push_capture [of entry_size visit k p d "(fe, acc)"] by (cases e) auto
    with Inl show ?thesis by (simp add: seg capture_simps capture_stuck)
  next
    case (Inr x)
    obtain d1 fe1 acc1 where x: "x = (d1, fe1, acc1)" by (cases x)
    show ?thesis using Inr x Cons.IH [of d1 fe1 acc1] by (simp add: seg capture_simps)
  qed
qed auto

lemma capture_records:
  "fold_r (capture_record visit) rs (None, acc) = Inr (fe, acc') \<Longrightarrow>
     (case fold_r (\<lambda>r a. visit a r) rs acc of Inl e \<Rightarrow> fe = Some e | Inr a \<Rightarrow> fe = None \<and> acc' = a)"
proof (induction rs arbitrary: acc)
  case (Cons r rs)
  have stuck: "fold_r (capture_record visit) rs (Some e, a) = Inr (Some e, a)" for e a
    by (induction rs) (simp_all add: capture_simps)
  show ?case using Cons stuck by (cases "visit acc r") (auto simp: capture_simps)
qed simp

lemma capture_records_total: "\<exists>st. fold_r (capture_record visit) rs st0 = Inr st"
proof (induction rs arbitrary: st0)
  case (Cons r rs)
  then show ?case using capture_record_ok [of visit r st0] by auto
qed simp

text \<open>The pass over the segments, from a fresh decoder to the fingerprint.\<close>

definition decoded_groups ::
  "u64 \<Rightarrow> digest \<Rightarrow> durable_tree_manifest \<Rightarrow> segment list \<Rightarrow> manifest_entry list list \<Rightarrow> bool" where
  "decoded_groups entry_size sha m segs gs \<longleftrightarrow> segs = map encode_group gs \<and> list_all good_group gs \<and> concat gs \<noteq> [] \<and>
     length (concat gs) \<le> 100000 \<and> tree_manifest default_limits entry_size (concat gs) \<and>
     m = fingerprint_manifest_v3 sha (concat gs)"

lemma capture_manifest:
  "decoder_new n = Inr d \<and>
   fold_r (\<lambda>(k, p) st. capture_segment entry_size visit st k p) segs (Some d, None, None, acc) = Inr (Some d', None, fe, acc') \<and>
   decoder_finish sha d' = Inr m \<longleftrightarrow>
   d = decoder_after default_limits entry_size n [] \<and>
   (\<exists>gs. decoded_groups entry_size sha m segs gs \<and> n = of_nat (length (concat gs)) \<and>
     d' = decoder_after default_limits entry_size n (concat gs) \<and>
     fold_r (capture_record visit) (map manifest_record_of (concat gs)) (None, acc) = Inr (fe, acc'))"
  (is "?new \<and> ?fold \<and> ?finish \<longleftrightarrow> ?d \<and> (\<exists>gs. ?groups gs)")
proof -
  have fold: "?fold \<longleftrightarrow> (\<exists>gs. segs = map encode_group gs \<and> list_all good_group gs \<and> tree_manifest default_limits entry_size (concat gs) \<and>
      length (concat gs) \<le> unat n \<and> d' = decoder_after default_limits entry_size n (concat gs) \<and>
      fold_r (capture_record visit) (map manifest_record_of (concat gs)) (None, acc) = Inr (fe, acc'))"
    if ?d
    unfolding capture_segments using push_segments_after [of default_limits entry_size "[]" n] that by simp
  have n: "unat n < 2 ^ 64" using unsigned_less [of n] by simp
  have count: "n \<noteq> 0 \<and> unat n \<le> 100000 \<and> length es \<le> unat n \<and> n = of_nat (length es) \<longleftrightarrow>
      es \<noteq> [] \<and> length es \<le> 100000 \<and> n = of_nat (length es)" for es :: "manifest_entry list"
    using n by (auto simp: unat_of_nat word_unat_eq_iff)
  show ?thesis
  proof
    assume l: "?new \<and> ?fold \<and> ?finish"
    then have d: ?d and n0: "n \<noteq> 0" "unat n \<le> 100000" using decoder_new_Inr by blast+
    from l fold [OF d] obtain gs where gs: "segs = map encode_group gs" "list_all good_group gs"
      "tree_manifest default_limits entry_size (concat gs)" "length (concat gs) \<le> unat n"
      "d' = decoder_after default_limits entry_size n (concat gs)"
      "fold_r (capture_record visit) (map manifest_record_of (concat gs)) (None, acc) = Inr (fe, acc')" by blast
    have "n = of_nat (length (concat gs))" "m = fingerprint_manifest_v3 sha (concat gs)"
      using l finish_after [of sha default_limits entry_size n "concat gs"] unfolding gs(5) by blast+
    with d gs n0 count [of "concat gs"] show "?d \<and> (\<exists>gs. ?groups gs)" unfolding decoded_groups_def by blast
  next
    assume r: "?d \<and> (\<exists>gs. ?groups gs)"
    then obtain gs where gs: "?groups gs" by blast
    have n0: "n \<noteq> 0" "unat n \<le> 100000" "length (concat gs) \<le> unat n"
      using gs count [of "concat gs"] unfolding decoded_groups_def by blast+
    have ?new using n0 r decoder_new_Inr [of n d entry_size] by blast
    moreover have ?fold using fold r gs n0 unfolding decoded_groups_def by blast
    moreover have ?finish using gs finish_after [of sha default_limits entry_size n "concat gs"] unfolding decoded_groups_def by blast
    ultimately show "?new \<and> ?fold \<and> ?finish" by blast
  qed
qed

lemma read_fold_Inr:
  assumes "\<And>bs. length (sha bs) = 32"
  shows "read_fold env sha c acc f files = Inr acc' \<longleftrightarrow> env_binding env 0 = Inr () \<and> env_binding env 1 = Inr () \<and>
    wf_tid (sc_transaction c) \<and> (\<exists>content segs. open_final env (final_name (sc_transaction c)) files = Inr content \<and>
      write_sidecar sha (sc_transaction c) segs = (Inr c, content) \<and> record_total segs \<le> unat MAX_RECORDS \<and>
      fold_r (\<lambda>(n, p) acc. f acc n p) segs acc = Inr acc')"
proof -
  have "read_fold env sha c acc f files = Inr acc' \<longleftrightarrow> env_binding env 0 = Inr () \<and> env_binding env 1 = Inr () \<and>
    (\<exists>content. open_final env (final_name (sc_transaction c)) files = Inr content \<and> fold_file sha content c acc f = Inr acc')"
    by (cases "env_binding env 0"; cases "env_binding env 1"; cases "open_final env (final_name (sc_transaction c)) files")
      (auto simp: read_fold_def sidecar_try_def and_then_Inr_iff)
  then show ?thesis unfolding fold_file_Inr_iff [OF assms] by blast
qed

lemma read_manifest_Inr:
  "read_manifest_v3_fold sha entry_size env files env' files' c m acc visit = Inr (acc', m') \<longleftrightarrow>
    verify_sidecar env sha c files = Inr () \<and> m' = m \<and> sc_record_count c = tm_entry_count m \<and>
    (\<exists>d d'. decoder_new (sc_record_count c) = Inr d \<and>
      read_fold env' sha c (Some d, None, None, acc) (capture_segment entry_size visit) files' = Inr (Some d', None, None, acc') \<and>
      decoder_finish sha d' = Inr m)"
  by (auto simp: read_manifest_v3_fold_def unsidecar_def split: sum.splits if_splits option.splits fold_error.splits)

lemma encode_groups:
  assumes "length (concat gs) < 2 ^ 64"
  shows "record_total (map encode_group gs) = length (concat gs)"
  using assms by (induction gs) (auto simp: encode_group_def unat_of_nat)

lemma write_record_count: "write_sidecar sha t segs = (Inr c, content) \<Longrightarrow> sc_record_count c = of_nat (record_total segs)"
  by (auto simp: write_sidecar_Inr commitment_of_def)

text \<open>C15: the reader of a manifest is exact. \<open>read_manifest_v3_fold\<close> returns precisely when the verification passed
  and the file of the second pass (which may have been replaced in between) is the sidecar of some groups of
  entries that together form a tree manifest (a root directory first, paths in strictly increasing component
  order, every entry under a directory of the manifest, within the limits) whose fingerprint is the expected
  one. The fold has then seen exactly the records of those entries, in order. The decoder retains one path and
  the ends of its directory ancestors, so this also says that its ancestor stack never mistakes a missing
  parent.\<close>

theorem manifest_reader_exact:
  assumes "\<And>bs. length (sha bs) = 32"
  shows "read_manifest_v3_fold sha entry_size env files env' files' c m acc visit = Inr (acc', m') \<longleftrightarrow>
    verify_sidecar env sha c files = Inr () \<and> env_binding env' 0 = Inr () \<and> env_binding env' 1 = Inr () \<and>
    wf_tid (sc_transaction c) \<and> m' = m \<and>
    (\<exists>gs content. open_final env' (final_name (sc_transaction c)) files' = Inr content \<and>
      write_sidecar sha (sc_transaction c) (map encode_group gs) = (Inr c, content) \<and>
      list_all good_group gs \<and> concat gs \<noteq> [] \<and> length (concat gs) \<le> 100000 \<and>
      tree_manifest default_limits entry_size (concat gs) \<and> m = fingerprint_manifest_v3 sha (concat gs) \<and>
      fold_r (\<lambda>r a. visit a r) (map manifest_record_of (concat gs)) acc = Inr acc')"
  (is "_ \<longleftrightarrow> ?v \<and> ?b0 \<and> ?b1 \<and> ?t \<and> m' = m \<and> (\<exists>gs content. ?ok gs content)")
proof -
  have seen: "fold_r (capture_record visit) (map manifest_record_of es) (None, acc) = Inr (None, acc') \<longleftrightarrow>
      fold_r (\<lambda>r a. visit a r) (map manifest_record_of es) acc = Inr acc'" for es
    using capture_records [of visit "map manifest_record_of es" acc] capture_records_total [of visit "map manifest_record_of es" "(None, acc)"]
    by (auto split: sum.splits)
  have "read_manifest_v3_fold sha entry_size env files env' files' c m acc visit = Inr (acc', m') \<longleftrightarrow>
      ?v \<and> ?b0 \<and> ?b1 \<and> ?t \<and> m' = m \<and> sc_record_count c = tm_entry_count m \<and>
      (\<exists>content segs. open_final env' (final_name (sc_transaction c)) files' = Inr content \<and>
        write_sidecar sha (sc_transaction c) segs = (Inr c, content) \<and> record_total segs \<le> unat MAX_RECORDS \<and>
        (\<exists>d d'. decoder_new (sc_record_count c) = Inr d \<and>
          fold_r (\<lambda>(n, p) st. capture_segment entry_size visit st n p) segs (Some d, None, None, acc) = Inr (Some d', None, None, acc') \<and>
          decoder_finish sha d' = Inr m))"
    unfolding read_manifest_Inr read_fold_Inr [OF assms] by blast
  also have "\<dots> \<longleftrightarrow> ?v \<and> ?b0 \<and> ?b1 \<and> ?t \<and> m' = m \<and> sc_record_count c = tm_entry_count m \<and>
      (\<exists>content segs. open_final env' (final_name (sc_transaction c)) files' = Inr content \<and>
        write_sidecar sha (sc_transaction c) segs = (Inr c, content) \<and> record_total segs \<le> unat MAX_RECORDS \<and>
        (\<exists>gs. decoded_groups entry_size sha m segs gs \<and> sc_record_count c = of_nat (length (concat gs)) \<and>
          fold_r (\<lambda>r a. visit a r) (map manifest_record_of (concat gs)) acc = Inr acc'))"
    unfolding capture_manifest seen by blast
  also have "\<dots> \<longleftrightarrow> ?v \<and> ?b0 \<and> ?b1 \<and> ?t \<and> m' = m \<and> (\<exists>gs content. ?ok gs content)"
  proof -
    have total: "record_total (map encode_group gs) \<le> unat MAX_RECORDS \<and> sc_record_count c = of_nat (length (concat gs)) \<and>
        sc_record_count c = tm_entry_count m"
      if "?ok gs content" for gs content
    proof -
      have w: "write_sidecar sha (sc_transaction c) (map encode_group gs) = (Inr c, content)" "length (concat gs) \<le> 100000"
        "m = fingerprint_manifest_v3 sha (concat gs)" using that by blast+
      then show ?thesis
        using encode_groups [of gs] write_record_count [OF w(1)] by (simp add: MAX_RECORDS_def fingerprint_manifest_v3_def)
    qed
    show ?thesis unfolding decoded_groups_def using total by (intro iffI; elim conjE exE) blast+
  qed
  finally show ?thesis .
qed

section \<open>From the encoder to the reader\<close>

lemma checked_lengths_Some:
  "k + length (concat ps) < 2 ^ 64 \<Longrightarrow> checked_lengths ps (Some k) = Some (k + length (concat ps))"
  by (induction ps arbitrary: k) (simp_all add: usize_checked_add_def add.assoc)

lemma entry_len: "length (entry_bytes e) < 2 ^ 64 \<Longrightarrow> manifest_entry_v3_len e = Inr (length (entry_bytes e))"
  using checked_lengths_Some [of 0 "emit_manifest_entry_v3 e"] by (simp add: manifest_entry_v3_len_def entry_bytes_def)

definition collect_segment :: "u64 \<Rightarrow> bytes \<Rightarrow> segment list \<Rightarrow> unit + segment list" where
  "collect_segment n p out = Inr (out @ [(n, p)])"

lemma stream_loop_groups:
  assumes "max_payload < 2 ^ 64" "list_all (\<lambda>e. length (entry_bytes e) \<le> max_payload) es"
    and "length (concat (map entry_bytes g)) \<le> max_payload" "length g + length es < 2 ^ 64"
  shows "\<exists>gs. stream_segments_loop collect_segment max_payload es (concat (map entry_bytes g)) (of_nat (length g)) out =
      Inr (out @ map encode_group gs) \<and> concat gs = g @ es \<and>
      list_all (\<lambda>g. g \<noteq> [] \<and> length (concat (map entry_bytes g)) \<le> max_payload) gs"
  using assms(2-)
proof (induction es arbitrary: g out)
  case Nil
  have "(of_nat (length g) :: u64) \<noteq> 0 \<longleftrightarrow> g \<noteq> []" using Nil by (auto simp: word_unat_eq_iff unat_of_nat)
  with Nil show ?case
    by (cases "g = []")
      (auto simp: emit_try_def collect_segment_def encode_group_def intro: exI [of _ "[]"] exI [of _ "[g]"])
next
  case (Cons e es)
  have u: "unat (of_nat (length g) :: u64) = length g" using Cons.prems(3) by (simp add: unat_of_nat)
  have n: "(of_nat (length g) :: u64) \<noteq> 0 \<longleftrightarrow> g \<noteq> []" using u by (auto simp: unat_eq_zero [symmetric])
  have n': "checked_add64 (of_nat (length g)) 1 = Some (of_nat (length g + 1))" "checked_add64 0 1 = Some (of_nat (length [e]))"
    using Cons.prems(3) u by (simp_all add: checked_add64_def add.commute)
  have len: "manifest_entry_v3_len e = Inr (length (entry_bytes e))" "length (entry_bytes e) \<le> max_payload"
    using Cons.prems(1) assms(1) entry_len by auto
  let ?flush = "g \<noteq> [] \<and> length (concat (map entry_bytes g)) + length (entry_bytes e) > max_payload"
  show ?case
  proof (cases ?flush)
    case True
    from Cons.IH [of "[e]" "out @ [encode_group g]"] Cons.prems len obtain gs where
      gs: "stream_segments_loop collect_segment max_payload es (entry_bytes e) (of_nat (length [e])) (out @ [encode_group g]) =
        Inr (out @ encode_group g # map encode_group gs)" "concat gs = e # es"
        "list_all (\<lambda>g. g \<noteq> [] \<and> length (concat (map entry_bytes g)) \<le> max_payload) gs" by auto
    have "stream_segments_loop collect_segment max_payload (e # es) (concat (map entry_bytes g)) (of_nat (length g)) out =
        Inr (out @ map encode_group (g # gs))"
      using gs(1) True len n n' by (simp add: codec_try_def emit_try_def collect_segment_def encode_group_def entry_bytes_def [symmetric])
    with gs(2,3) True Cons.prems(2) show ?thesis by (intro exI [of _ "g # gs"]) simp
  next
    case False
    then have "length (concat (map entry_bytes (g @ [e]))) \<le> max_payload" using len by (cases "g = []") auto
    with Cons.IH [of "g @ [e]" out] Cons.prems obtain gs where
      gs: "stream_segments_loop collect_segment max_payload es (concat (map entry_bytes (g @ [e]))) (of_nat (length (g @ [e]))) out =
        Inr (out @ map encode_group gs)" "concat gs = g @ e # es"
        "list_all (\<lambda>g. g \<noteq> [] \<and> length (concat (map entry_bytes g)) \<le> max_payload) gs" by auto
    have "stream_segments_loop collect_segment max_payload (e # es) (concat (map entry_bytes g)) (of_nat (length g)) out =
        Inr (out @ map encode_group gs)"
      using gs(1) False len n n' by (auto simp: codec_try_def entry_bytes_def [symmetric])
    with gs(2,3) show ?thesis by blast
  qed
qed

lemma stream_groups:
  assumes "list_all (\<lambda>e. length (entry_bytes e) \<le> min max_payload MANIFEST_V3_MAX_SEGMENT_PAYLOAD) es" "length es < 2 ^ 64"
  shows "\<exists>gs. stream_manifest_v3_segments collect_segment max_payload es [] = Inr (map encode_group gs) \<and>
    concat gs = es \<and> list_all good_group gs"
proof -
  let ?max = "min max_payload MANIFEST_V3_MAX_SEGMENT_PAYLOAD"
  have "?max < 2 ^ 64" by (simp add: MANIFEST_V3_MAX_SEGMENT_PAYLOAD_def)
  from stream_loop_groups [OF this assms(1), of "[]" "[]"] assms(2) obtain gs where
    "stream_manifest_v3_segments collect_segment max_payload es [] = Inr (map encode_group gs)" "concat gs = es"
    "list_all (\<lambda>g. g \<noteq> [] \<and> length (concat (map entry_bytes g)) \<le> ?max) gs"
    by (auto simp: stream_manifest_v3_segments_def)
  then show ?thesis by (intro exI [of _ gs]) (auto simp: good_group_def list_all_iff)
qed

lemma groups_valid_segments:
  assumes "list_all good_group gs" "concat gs \<noteq> []" "length (concat gs) \<le> 100000"
  shows "valid_segments (map encode_group gs)"
proof -
  have total: "record_total (map encode_group gs) = length (concat gs)" using assms(3) encode_groups [of gs] by simp
  have ok: "segment_ok (encode_group g)" if "g \<in> set gs" for g
  proof -
    have "length g \<le> length (concat gs)" using that by (induction gs) auto
    with that assms show ?thesis
      by (auto simp: segment_ok_def encode_group_def good_group_def list_all_iff word_unat_eq_iff unat_of_nat
          MANIFEST_V3_MAX_SEGMENT_PAYLOAD_def MAX_SEGMENT_PAYLOAD_def)
  qed
  then have all: "list_all segment_ok (map encode_group gs)" by (simp add: list_all_iff)
  have "length (map encode_group gs) \<le> record_total (map encode_group gs)" by (rule segment_bounds(1) [OF all])
  with all total assms show ?thesis by (auto simp: valid_segments_def MAX_SEGMENTS_def MAX_RECORDS_def)
qed

lemma read_published_manifest:
  assumes sha: "\<And>bs. length (sha bs) = 32" and t: "wf_tid t" and env: "healthy env"
    and gs: "list_all good_group gs" "concat gs \<noteq> []" "length (concat gs) \<le> 100000" "tree_manifest default_limits entry_size (concat gs)"
    and file_: "map_of files (final_name t) = Some (sidecar_of sha t (map encode_group gs))"
  shows "read_manifest_v3_fold sha entry_size env files env files (commitment_of sha t (map encode_group gs))
      (fingerprint_manifest_v3 sha (concat gs)) acc visit =
    (case fold_r (\<lambda>r a. visit a r) (map manifest_record_of (concat gs)) acc of
       Inl e \<Rightarrow> Inl (ManifestFold e) | Inr acc \<Rightarrow> Inr (acc, fingerprint_manifest_v3 sha (concat gs)))"
proof -
  let ?segs = "map encode_group gs" and ?es = "concat gs"
  let ?c = "commitment_of sha t ?segs" and ?m = "fingerprint_manifest_v3 sha ?es" and ?n = "of_nat (length ?es) :: u64"
  have valid: "valid_segments ?segs" by (rule groups_valid_segments [OF gs(1-3)])
  have total: "record_total ?segs = length ?es" using encode_groups [of gs] gs(3) by simp
  have count: "sc_record_count ?c = ?n" "tm_entry_count ?m = ?n"
    by (simp_all add: commitment_of_def total fingerprint_manifest_v3_def)
  have "inspect_unbound env sha t files = Inr ?c"
    using inspect_published [of sha t ?segs env files] sha t valid env file_ by blast
  then have verify: "verify_sidecar env sha ?c files = Inr ()" by (simp add: verify_sidecar_def commitment_of_def)
  obtain fe acc' where seen: "fold_r (capture_record visit) (map manifest_record_of ?es) (None, acc) = Inr (fe, acc')"
    using capture_records_total [of visit "map manifest_record_of ?es" "(None, acc)"] by auto
  have groups: "decoded_groups entry_size sha ?m ?segs gs" using gs by (simp add: decoded_groups_def)
  let ?d = "decoder_after default_limits entry_size ?n []" and ?d' = "decoder_after default_limits entry_size ?n ?es"
  from capture_manifest [of ?n ?d entry_size visit ?segs acc ?d' fe acc' sha ?m] groups seen
  have d: "decoder_new ?n = Inr ?d"
    "fold_r (\<lambda>(k, p) st. capture_segment entry_size visit st k p) ?segs (Some ?d, None, None, acc) = Inr (Some ?d', None, fe, acc')"
    "decoder_finish sha ?d' = Inr ?m" by blast+
  have "read_fold env sha ?c (Some ?d, None, None, acc) (capture_segment entry_size visit) files = Inr (Some ?d', None, fe, acc')"
    using read_fold_published [of sha t ?segs env files "(Some ?d, None, None, acc)" "capture_segment entry_size visit"]
      sha t valid env file_ d(2) by simp
  then show ?thesis
    using capture_records [OF seen] verify count d(1,3)
    by (auto simp: read_manifest_v3_fold_def unsidecar_def split: sum.splits)
qed

text \<open>C16: a manifest survives its way to disk. The entries of a tree within the limits, each small enough for
  a segment, are cut into segments by \<open>stream_manifest_v3_segments\<close> without an error; on a healthy store with
  free names the segments are published; and reading the sidecar back under the returned commitment and the
  fingerprint of the entries hands the caller's fold exactly the records of those entries in their order,
  whatever the cut was. Only an error of the caller's own fold is returned.\<close>

theorem manifest_round_trip:
  assumes "\<And>bs. length (sha bs) = 32" "wf_tid t" "healthy env"
    and "es \<noteq> []" "length es \<le> 100000" "tree_manifest default_limits entry_size es"
    and "list_all (\<lambda>e. length (concat (emit_manifest_entry_v3 e)) \<le> min max_payload MANIFEST_V3_MAX_SEGMENT_PAYLOAD) es"
    and "map_of files (final_name t) = None" "map_of files (temp_name t pid sequence) = None"
  shows "\<exists>segs c files'. stream_manifest_v3_segments collect_segment max_payload es [] = Inr segs \<and>
    publish_stream env sha pid sequence t segs files = (Inr c, files') \<and>
    read_manifest_v3_fold sha entry_size env files' env files' c (fingerprint_manifest_v3 sha es) acc visit =
      (case fold_r (\<lambda>r a. visit a r) (map manifest_record_of es) acc of
         Inl e \<Rightarrow> Inl (ManifestFold e) | Inr acc \<Rightarrow> Inr (acc, fingerprint_manifest_v3 sha es))"
proof -
  from stream_groups [of max_payload es] assms(5,7) obtain gs where
    gs: "stream_manifest_v3_segments collect_segment max_payload es [] = Inr (map encode_group gs)" "concat gs = es"
      "list_all good_group gs"
    by (auto simp: entry_bytes_def)
  let ?segs = "map encode_group gs"
  have valid: "valid_segments ?segs" using groups_valid_segments [of gs] gs(2,3) assms(4,5) by blast
  have w: "write_sidecar sha t ?segs = (Inr (commitment_of sha t ?segs), sidecar_of sha t ?segs)"
    using valid by (simp add: write_sidecar_Inr valid_segments_iff)
  have v: "verify_file sha (sidecar_of sha t ?segs) (commitment_of sha t ?segs) = Inr ()"
    using verify_published [of sha t ?segs] assms(1,2) valid by blast
  from publish_stream_healthy [OF assms(3) w v assms(8,9)] obtain files' where
    p: "publish_stream env sha pid sequence t ?segs files = (Inr (commitment_of sha t ?segs), files')" by blast
  then have "map_of files' (final_name t) = Some (sidecar_of sha t ?segs)"
    by (rule publish_stream_Inr) (use w in simp)
  then have "read_manifest_v3_fold sha entry_size env files' env files' (commitment_of sha t ?segs)
      (fingerprint_manifest_v3 sha (concat gs)) acc visit =
    (case fold_r (\<lambda>r a. visit a r) (map manifest_record_of (concat gs)) acc of
       Inl e \<Rightarrow> Inl (ManifestFold e) | Inr acc \<Rightarrow> Inr (acc, fingerprint_manifest_v3 sha (concat gs)))"
    using read_published_manifest [of sha t env gs entry_size files' acc visit] assms(1-6) gs by blast
  with gs(1) p show ?thesis unfolding gs(2) by blast
qed

section \<open>A sample\<close>

definition sample_entry :: "path \<Rightarrow> node_kind \<Rightarrow> content_proof \<Rightarrow> manifest_entry" where
  "sample_entry p kind content = \<lparr>me_path = p, me_identity = \<lparr>ni_kind = kind, ni_device = 7, ni_inode = 9, ni_incarnation = 1\<rparr>,
     me_uid = 1000, me_gid = 1000, me_mode = 448, me_content = content\<rparr>"

text \<open>The root, the directory \<open>a\<close>, the link \<open>a/l\<close> and, not under \<open>a\<close>, the directory \<open>a-\<close>.\<close>

definition sample_manifest :: "manifest_entry list" where
  "sample_manifest =
     [sample_entry [] DirectoryNode DirectoryProof, sample_entry [97] DirectoryNode DirectoryProof,
      sample_entry [97, 47, 108] SymlinkNode (SymlinkProof [120]), sample_entry [97, 45] DirectoryNode DirectoryProof]"

lemma sample_names:
  "names [97] = [[97]]" "names [97, 47, 108] = [[97], [108]]" "names [97, 45] = [[97, 45]]"
  by (simp_all add: names_def slash_def)

lemma sample_canonical: "canonical_path [97]" "canonical_path [97, 47, 108]" "canonical_path [97, 45]" "canonical_path []"
  by (simp_all add: canonical_path_def sample_names good_name_def dot_def slash_def)

lemma sample_wf: "list_all (wf_entry (hl_max_depth default_limits)) sample_manifest"
  by (simp add: sample_manifest_def sample_entry_def wf_entry_def sample_canonical sample_names default_limits_def
      MANIFEST_PATH_DEPTH_LIMIT_def)

lemma sample_tree: "tree_manifest default_limits 200 sample_manifest"
proof -
  have "sorted_wrt (\<lambda>a b. manifest_path_less (me_path a) (me_path b)) sample_manifest"
    by (simp add: sample_manifest_def sample_entry_def manifest_path_less_names sample_canonical sample_names)
  moreover have "path_parent_bytes [97] = Some []" "path_parent_bytes [97, 47, 108] = Some [97]" "path_parent_bytes [97, 45] = Some []"
    by (simp_all add: path_parent_bytes_def slash_def)
  ultimately show ?thesis
    using sample_wf by (simp add: tree_manifest_def within_limits_def default_limits_def sample_manifest_def sample_entry_def)
qed

lemma sample_sizes: "list_all (\<lambda>e. length (concat (emit_manifest_entry_v3 e)) \<le> min 64 MANIFEST_V3_MAX_SEGMENT_PAYLOAD) sample_manifest"
  by (simp add: sample_manifest_def sample_entry_def emit_manifest_entry_v3_def emit_manifest_entry_v3_with_mode_def
      MANIFEST_V3_MAX_SEGMENT_PAYLOAD_def)

lemma manifest_round_trip_witness:
  "\<exists>segs c files'. stream_manifest_v3_segments collect_segment 64 sample_manifest [] = Inr segs \<and>
     publish_stream sample_env sample_sha 12 3 sample_tid segs [] = (Inr c, files') \<and>
     read_manifest_v3_fold sample_sha 200 sample_env files' sample_env files' c (fingerprint_manifest_v3 sample_sha sample_manifest)
       [] (\<lambda>acc r. Inr (acc @ [mr_path r]) :: unit + path list) =
     Inr ([[], [97], [97, 47, 108], [97, 45]], fingerprint_manifest_v3 sample_sha sample_manifest)"
proof -
  let ?visit = "\<lambda>acc r. Inr (acc @ [mr_path r]) :: unit + path list"
  have "fold_r (\<lambda>r a. ?visit a r) (map manifest_record_of sample_manifest) [] = Inr [[], [97], [97, 47, 108], [97, 45]]"
    by (simp add: sample_manifest_def sample_entry_def manifest_record_of_def)
  moreover have "sample_manifest \<noteq> []" "length sample_manifest \<le> 100000" by (simp_all add: sample_manifest_def)
  ultimately show ?thesis
    using manifest_round_trip [of sample_sha sample_tid sample_env sample_manifest 200 64 "[]" 12 3 "[]" ?visit,
      OF samples(1,3,2) _ _ sample_tree sample_sizes] by simp
qed

lemma manifest_reader_exact_witness:
  "\<exists>c content. write_sidecar sample_sha sample_tid [encode_group sample_manifest] = (Inr c, content) \<and>
     read_manifest_v3_fold sample_sha 200 sample_env [(final_name sample_tid, content)] sample_env [(final_name sample_tid, content)] c
       (fingerprint_manifest_v3 sample_sha sample_manifest) 0 (\<lambda>n r. Inr (n + 1) :: unit + nat) =
     Inr (4, fingerprint_manifest_v3 sample_sha sample_manifest)"
proof -
  let ?gs = "[sample_manifest]" and ?segs = "[encode_group sample_manifest]"
  let ?c = "commitment_of sample_sha sample_tid ?segs" and ?content = "sidecar_of sample_sha sample_tid ?segs"
  let ?files = "[(final_name sample_tid, ?content)]"
  have g: "list_all good_group ?gs" "concat ?gs \<noteq> []" "length (concat ?gs) \<le> 100000"
    by (simp_all add: good_group_def sample_manifest_def sample_entry_def entry_bytes_def emit_manifest_entry_v3_def
        emit_manifest_entry_v3_with_mode_def MANIFEST_V3_MAX_SEGMENT_PAYLOAD_def)
  have valid: "valid_segments ?segs" using groups_valid_segments [OF g] by simp
  have w: "write_sidecar sample_sha sample_tid ?segs = (Inr ?c, ?content)"
    using valid by (simp add: write_sidecar_Inr valid_segments_iff)
  have "inspect_unbound sample_env sample_sha sample_tid ?files = Inr ?c"
    by (rule inspect_published [OF samples(1,3) valid samples(2)]) simp
  then have v: "verify_sidecar sample_env sample_sha ?c ?files = Inr ()" by (simp add: verify_sidecar_def commitment_of_def)
  have t: "sc_transaction ?c = sample_tid" by (simp add: commitment_of_def)
  have "fold_r (\<lambda>r a. Inr (a + 1) :: unit + nat) (map manifest_record_of (concat ?gs)) 0 = Inr 4"
    by (simp add: sample_manifest_def)
  then have "read_manifest_v3_fold sample_sha 200 sample_env ?files sample_env ?files ?c
       (fingerprint_manifest_v3 sample_sha sample_manifest) 0 (\<lambda>n r. Inr (n + 1) :: unit + nat) =
     Inr (4, fingerprint_manifest_v3 sample_sha sample_manifest)"
    unfolding manifest_reader_exact [OF samples(1)] t
    using v g w sample_tree sample_answers samples(3) by (intro conjI exI [of _ ?gs] exI [of _ ?content]) (simp_all add: open_final_def)
  with w show ?thesis by blast
qed

end
