(* ===== verification/Manifest_Plan.thy ===== *)
theory Manifest_Plan
  imports Manifest
begin

text \<open>
  What is derived from the records of a decoded manifest (\<open>backend/held.rs\<close>): the private plan a purge follows,
  with the evidence of every ancestor it descends through, and the fingerprint a tree has once its directories
  are sealed, computed by splicing the new modes into the authenticated bytes.
\<close>

section \<open>One record on its own\<close>

definition decode_unordered_v3_record :: "bytes \<Rightarrow> u32 \<Rightarrow> manifest_codec_error + manifest_entry" where
  "decode_unordered_v3_record encoded max_depth =
     and_then (take_u64 encoded) (\<lambda>(path_len, input).
     and_then (take_input (unat path_len) input) (\<lambda>(path, input).
     and_then (validate_manifest_path path max_depth) (\<lambda>_.
     and_then (take_input 1 input) (\<lambda>(kind_tag, input).
     and_then (if hd kind_tag = 0 then Inr DirectoryNode else if hd kind_tag = 1 then Inr RegularNode
         else if hd kind_tag = 2 then Inr SymlinkNode else if hd kind_tag = 3 then Inl KindContentMismatch
         else Inl InvalidTag) (\<lambda>kind.
     if path = [] \<and> kind \<noteq> DirectoryNode then Inl InvalidRoot
     else and_then (take_input 36 input) (\<lambda>(fixed, input).
       case fixed_fields fixed of (device, inode, incarnation, uid, gid, mode) \<Rightarrow>
       if mode AND NOT 0xfff \<noteq> 0 then Inl InvalidMode
       else and_then (take_input 1 input) (\<lambda>(content_tag, input).
         and_then
           (if kind = DirectoryNode \<and> hd content_tag = 0 then Inr (DirectoryProof, input)
            else if kind = RegularNode \<and> hd content_tag = 1 then
              and_then (take_input 120 input) (\<lambda>(raw, input).
                if \<not> valid_nanoseconds (regular_fields raw) then Inl InvalidNanoseconds
                else Inr (RegularProof (regular_fields raw), input))
            else if kind = SymlinkNode \<and> hd content_tag = 2 then
              and_then (take_u64 input) (\<lambda>(target_len, input).
              and_then (take_input (unat target_len) input) (\<lambda>(target, input). Inr (SymlinkProof target, input)))
            else if hd content_tag \<le> 2 then Inl KindContentMismatch
            else Inl InvalidTag) (\<lambda>(content, input).
         if input \<noteq> [] then Inl TrailingBytes
         else Inr \<lparr>me_path = path, me_identity = \<lparr>ni_kind = kind, ni_device = device, ni_inode = inode,
           ni_incarnation = incarnation\<rparr>, me_uid = uid, me_gid = gid, me_mode = mode, me_content = content\<rparr>))))))))"

section \<open>Purge plans\<close>

record purge_directory_evidence =
  pd_device :: u64
  pd_inode :: u64
  pd_incarnation :: u64
  pd_uid :: u32
  pd_gid :: u32
  pd_mode :: u32

definition V3_PURGE_PLAN_MAGIC :: bytes where "V3_PURGE_PLAN_MAGIC = map of_char ''DHP3''"
definition V3_PURGE_PLAN_VERSION :: u16 where "V3_PURGE_PLAN_VERSION = 1"
definition V3_PURGE_ANCESTOR_BYTES :: nat where "V3_PURGE_ANCESTOR_BYTES = 36"
definition V3_PURGE_PLAN_MAX_OVERHEAD :: nat where "V3_PURGE_PLAN_MAX_OVERHEAD = 64 * 1024"

definition plan_overhead :: "nat \<Rightarrow> nat \<Rightarrow> nat option" where
  "plan_overhead path_len ancestors =
     Option.bind (usize_checked_add 8 path_len) (\<lambda>n.
     Option.bind (usize_checked_add n (4 + 2 + 2 + 8)) (\<lambda>n.
     if ancestors * V3_PURGE_ANCESTOR_BYTES < 2 ^ 64 then usize_checked_add n (ancestors * V3_PURGE_ANCESTOR_BYTES)
     else None))"

definition ancestor_bytes :: "purge_directory_evidence \<Rightarrow> bytes" where
  "ancestor_bytes a = be_bytes 8 (pd_device a) @ be_bytes 8 (pd_inode a) @ be_bytes 8 (pd_incarnation a) @
     be_bytes 4 (pd_uid a) @ be_bytes 4 (pd_gid a) @ be_bytes 4 (pd_mode a)"

definition encode_v3_purge_plan_record ::
  "manifest_v3_record \<Rightarrow> purge_directory_evidence list \<Rightarrow> manifest_codec_error + bytes" where
  "encode_v3_purge_plan_record r ancestors =
     and_then (ok_or LengthOverflow (plan_overhead (length (mr_path r)) (length ancestors))) (\<lambda>overhead.
     if overhead \<ge> V3_PURGE_PLAN_MAX_OVERHEAD \<or> length ancestors > 65535 then Inl RecordTooLarge
     else and_then (ok_or LengthOverflow (usize_checked_add overhead (length (mr_encoded r)))) (\<lambda>_.
       Inr (be_bytes 8 (of_nat (length (mr_path r)) :: u64) @ mr_path r @ V3_PURGE_PLAN_MAGIC @
         be_bytes 2 V3_PURGE_PLAN_VERSION @ be_bytes 2 (of_nat (length ancestors) :: u16) @
         be_bytes 8 (of_nat (length (mr_encoded r)) :: u64) @ concat (map ancestor_bytes ancestors) @ mr_encoded r)))"

fun decode_ancestors :: "nat \<Rightarrow> bytes \<Rightarrow> manifest_codec_error + (purge_directory_evidence list \<times> bytes)" where
  "decode_ancestors 0 input = Inr ([], input)"
| "decode_ancestors (Suc n) input =
     and_then (take_input V3_PURGE_ANCESTOR_BYTES input) (\<lambda>(fixed, input).
       case fixed_fields fixed of (device, inode, incarnation, uid, gid, mode) \<Rightarrow>
       if mode AND NOT 0xfff \<noteq> 0 then Inl InvalidMode
       else and_then (decode_ancestors n input) (\<lambda>(ancestors, input).
         Inr (\<lparr>pd_device = device, pd_inode = inode, pd_incarnation = incarnation, pd_uid = uid, pd_gid = gid,
           pd_mode = mode\<rparr> # ancestors, input)))"

record decoded_v3_purge_plan =
  dp_path :: path
  dp_expected :: manifest_entry
  dp_expected_raw :: bytes
  dp_ancestors :: "purge_directory_evidence list"

definition decode_v3_purge_plan_record :: "bytes \<Rightarrow> u32 \<Rightarrow> manifest_codec_error + decoded_v3_purge_plan" where
  "decode_v3_purge_plan_record input max_depth =
     and_then (take_u64 input) (\<lambda>(key_len, input).
     and_then (take_input (unat key_len) input) (\<lambda>(key, input).
     and_then (validate_manifest_path key max_depth) (\<lambda>_.
     and_then (take_input 4 input) (\<lambda>(magic, input).
     if magic \<noteq> V3_PURGE_PLAN_MAGIC then Inl InvalidTag
     else and_then (take_input 2 input) (\<lambda>(version, input).
     if be_word version \<noteq> V3_PURGE_PLAN_VERSION then Inl InvalidTag
     else and_then (take_input 2 input) (\<lambda>(count, input).
     let ancestor_count = unat (be_word count :: u16) in
     and_then (take_u64 input) (\<lambda>(expected_len, input).
     if ancestor_count \<noteq> manifest_path_depth key - 1 then Inl MissingParent
     else and_then (ok_or LengthOverflow (plan_overhead (unat key_len) ancestor_count)) (\<lambda>overhead.
     if overhead \<ge> V3_PURGE_PLAN_MAX_OVERHEAD then Inl RecordTooLarge
     else and_then (decode_ancestors ancestor_count input) (\<lambda>(ancestors, input).
       and_then (take_input (unat expected_len) input) (\<lambda>(expected_raw, input).
       if input \<noteq> [] then Inl TrailingBytes
       else and_then (decode_unordered_v3_record expected_raw max_depth) (\<lambda>expected.
         if me_path expected \<noteq> key then Inl InvalidPath
         else Inr \<lparr>dp_path = key, dp_expected = expected, dp_expected_raw = expected_raw, dp_ancestors = ancestors\<rparr>)))))))))))"

record purge_plan_builder =
  pb_directories :: "purge_directory_evidence list"
  pb_previous_path :: "path option"
  pb_saw_root :: bool

definition plan_builder_new :: purge_plan_builder where
  "plan_builder_new = \<lparr>pb_directories = [], pb_previous_path = None, pb_saw_root = False\<rparr>"

definition record_evidence :: "manifest_v3_record \<Rightarrow> purge_directory_evidence" where
  "record_evidence r = \<lparr>pd_device = mr_device r, pd_inode = mr_inode r, pd_incarnation = mr_incarnation r, pd_uid = mr_uid r,
     pd_gid = mr_gid r, pd_mode = mr_mode r\<rparr>"

text \<open>One observed record; \<open>emit_record\<close> threads a state.\<close>

definition observe_plan ::
  "(bytes \<Rightarrow> 's \<Rightarrow> 'e + 's) \<Rightarrow> manifest_v3_record \<Rightarrow> purge_plan_builder \<times> 's \<Rightarrow>
   'e manifest_stream_error + (purge_plan_builder \<times> 's)" where
  "observe_plan emit_record r st =
     (case st of (b, s) \<Rightarrow>
      if (case pb_previous_path b of None \<Rightarrow> False | Some previous \<Rightarrow> \<not> manifest_path_less previous (mr_path r))
      then Inl (StreamCodec InvalidOrder)
      else codec_try
        (if mr_path r = [] then
           if pb_saw_root b \<or> mr_kind r \<noteq> RecordDirectoryKind then Inl InvalidRoot else Inr (b\<lparr>pb_saw_root := True\<rparr>)
         else if \<not> pb_saw_root b then Inl InvalidRoot
         else
           let required = manifest_path_depth (mr_path r) - 1;
               directories = take required (pb_directories b)
           in if length directories \<noteq> required then Inl MissingParent else Inr (b\<lparr>pb_directories := directories\<rparr>)) (\<lambda>b.
        codec_try (encode_v3_purge_plan_record r (pb_directories b)) (\<lambda>encoded.
        emit_try (emit_record encoded s) (\<lambda>s.
        let directories = (if mr_kind r = RecordDirectoryKind \<and> mr_path r \<noteq> [] then pb_directories b @ [record_evidence r]
              else pb_directories b)
        in Inr (b\<lparr>pb_directories := directories, pb_previous_path := Some (mr_path r)\<rparr>, s)))))"

text \<open>\<open>compare_v3_purge_paths(left, right) == Less\<close>: deeper first, then the larger path first.\<close>

definition purge_path_less :: "path \<Rightarrow> path \<Rightarrow> bool" where
  "purge_path_less left right \<longleftrightarrow> manifest_path_depth right < manifest_path_depth left \<or>
     manifest_path_depth right = manifest_path_depth left \<and> manifest_path_less right left"

section \<open>The fingerprint after sealing\<close>

datatype post_seal_error = PostChanged path | PostSealLimit held_tree_limit u64

definition V3_MODE_BYTES :: nat where "V3_MODE_BYTES = 4"

definition v3_mode_offset :: "nat \<Rightarrow> nat option" where
  "v3_mode_offset path_len = Option.bind (usize_checked_add 8 path_len) (\<lambda>n. usize_checked_add n (1 + (8 + 8 + 8) + (4 + 4)))"

definition update_manifest_v3_digest_with_mode :: "bytes \<Rightarrow> manifest_v3_record \<Rightarrow> u32 \<Rightarrow> post_seal_error + bytes" where
  "update_manifest_v3_digest_with_mode consumed r mode =
     and_then (ok_or (PostChanged []) (v3_mode_offset (length (mr_path r)))) (\<lambda>mode_offset.
     and_then (ok_or (PostChanged []) (usize_checked_add mode_offset V3_MODE_BYTES)) (\<lambda>suffix_offset.
     if mode_offset > length (mr_encoded r) \<or> suffix_offset > length (mr_encoded r) then Inl (PostChanged [])
     else Inr (consumed @ take mode_offset (mr_encoded r) @ be_bytes 4 mode @ drop suffix_offset (mr_encoded r))))"

record post_seal_builder =
  pe_digest :: bytes
  pe_expected_entries :: u64
  pe_observed_entries :: u64
  pe_observed_directories :: u64

definition post_seal_expectation_builder :: "u64 \<Rightarrow> post_seal_builder" where
  "post_seal_expectation_builder entry_count =
     \<lparr>pe_digest = MANIFEST_DOMAIN_V3 @ be_bytes 8 entry_count, pe_expected_entries = entry_count,
      pe_observed_entries = 0, pe_observed_directories = 0\<rparr>"

definition observe_post_seal ::
  "u64 \<Rightarrow> (path \<Rightarrow> u64 \<Rightarrow> u64 \<Rightarrow> u64 \<Rightarrow> u32 option) \<Rightarrow> manifest_v3_record \<Rightarrow> post_seal_builder \<Rightarrow>
   post_seal_error + post_seal_builder" where
  "observe_post_seal max_entries directory_mode r b =
     and_then (ok_or (PostSealLimit LimitEntries max_entries) (checked_add64 (pe_observed_entries b) 1)) (\<lambda>entries.
     let b = b\<lparr>pe_observed_entries := entries\<rparr> in
     and_then
       (if mr_kind r = RecordDirectoryKind then
          let b = b\<lparr>pe_observed_directories := sat_add (pe_observed_directories b) 1\<rparr> in
          and_then (ok_or (PostChanged (mr_path r)) (directory_mode (mr_path r) (mr_device r) (mr_inode r) (mr_incarnation r)))
            (\<lambda>mode. Inr (mode, b))
        else Inr (mr_mode r, b)) (\<lambda>(mode, b).
     and_then (update_manifest_v3_digest_with_mode (pe_digest b) r mode) (\<lambda>consumed. Inr (b\<lparr>pe_digest := consumed\<rparr>))))"

text \<open>The fingerprint of the expectation; its other fields are copied from the inventory.\<close>

definition finish_post_seal_expectation :: "digest \<Rightarrow> u64 \<Rightarrow> post_seal_builder \<Rightarrow> post_seal_error + held_tree_fingerprint" where
  "finish_post_seal_expectation sha directory_count b =
     (if pe_observed_entries b \<noteq> pe_expected_entries b \<or> pe_observed_directories b \<noteq> directory_count
      then Inl (PostChanged [])
      else Inr \<lparr>tm_schema_version = CONTENT_PROOF_VERSION, tm_entry_count = pe_expected_entries b,
        tm_sha256 = sha (pe_digest b)\<rparr>)"

end
