(* ===== verification/Manifest_Plan_Props.thy ===== *)
theory Manifest_Plan_Props
  imports Manifest_Props Manifest_Plan
begin

text \<open>
  The plan of a purge and the fingerprint after sealing, against the entries of the manifest they are built from.
\<close>

section \<open>Splicing modes\<close>

definition entry_prefix :: "manifest_entry \<Rightarrow> bytes" where
  "entry_prefix e = be_bytes 8 (of_nat (length (me_path e)) :: u64) @ me_path e @ [kind_byte (ni_kind (me_identity e))] @
     be_bytes 8 (ni_device (me_identity e)) @ be_bytes 8 (ni_inode (me_identity e)) @ be_bytes 8 (ni_incarnation (me_identity e)) @
     be_bytes 4 (me_uid e) @ be_bytes 4 (me_gid e)"

lemma length_entry_prefix: "length (entry_prefix e) = 41 + length (me_path e)"
  by (simp add: entry_prefix_def)

lemma emit_with_mode:
  "concat (emit_manifest_entry_v3_with_mode e mode) = entry_prefix e @ be_bytes 4 mode @ concat (emit_content_v3 (me_content e))"
  by (simp add: emit_manifest_entry_v3_with_mode_def entry_prefix_def)

lemma splice_mode:
  assumes "length (me_path e) + 45 < 2 ^ 64"
  shows "update_manifest_v3_digest_with_mode consumed (manifest_record_of e) mode =
    Inr (consumed @ concat (emit_manifest_entry_v3_with_mode e mode))"
proof -
  let ?n = "41 + length (me_path e)"
  have off: "v3_mode_offset (length (me_path e)) = Some ?n" "usize_checked_add ?n V3_MODE_BYTES = Some (?n + 4)"
    using assms by (simp_all add: v3_mode_offset_def usize_checked_add_def V3_MODE_BYTES_def)
  have bytes: "entry_bytes e = entry_prefix e @ be_bytes 4 (me_mode e) @ concat (emit_content_v3 (me_content e))"
    unfolding entry_bytes_def emit_manifest_entry_v3_def by (rule emit_with_mode)
  have "take ?n (entry_bytes e) = entry_prefix e" "drop (?n + 4) (entry_bytes e) = concat (emit_content_v3 (me_content e))"
    "?n + 4 \<le> length (entry_bytes e)"
    unfolding bytes by (simp_all add: length_entry_prefix)
  with off show ?thesis
    unfolding update_manifest_v3_digest_with_mode_def emit_with_mode manifest_record_of_def by simp
qed

text \<open>The entry as it is after its directory was sealed.\<close>

definition sealed_entry :: "(path \<Rightarrow> u64 \<Rightarrow> u64 \<Rightarrow> u64 \<Rightarrow> u32 option) \<Rightarrow> manifest_entry \<Rightarrow> manifest_entry" where
  "sealed_entry directory_mode e =
     (if is_directory e then
        e\<lparr>me_mode := the (directory_mode (me_path e) (ni_device (me_identity e)) (ni_inode (me_identity e))
          (ni_incarnation (me_identity e)))\<rparr>
      else e)"

definition mode_known :: "(path \<Rightarrow> u64 \<Rightarrow> u64 \<Rightarrow> u64 \<Rightarrow> u32 option) \<Rightarrow> manifest_entry \<Rightarrow> bool" where
  "mode_known directory_mode e \<longleftrightarrow> is_directory e \<longrightarrow>
     directory_mode (me_path e) (ni_device (me_identity e)) (ni_inode (me_identity e)) (ni_incarnation (me_identity e)) \<noteq> None"

lemma sealed_bytes:
  "entry_bytes (sealed_entry directory_mode e) =
     concat (emit_manifest_entry_v3_with_mode e (me_mode (sealed_entry directory_mode e)))"
  by (simp add: sealed_entry_def entry_bytes_def emit_manifest_entry_v3_def emit_manifest_entry_v3_with_mode_def)

lemma observe_one:
  assumes "mode_known directory_mode e" "length (me_path e) + 45 < 2 ^ 64" "unat (pe_observed_entries b) + 1 < 2 ^ 64"
  shows "observe_post_seal max_entries directory_mode (manifest_record_of e) b =
    Inr (b\<lparr>pe_observed_entries := pe_observed_entries b + 1,
      pe_observed_directories := (if is_directory e then sat_add (pe_observed_directories b) 1 else pe_observed_directories b),
      pe_digest := pe_digest b @ entry_bytes (sealed_entry directory_mode e)\<rparr>)"
proof -
  have kind: "mr_kind (manifest_record_of e) = RecordDirectoryKind \<longleftrightarrow> is_directory e"
    by (cases "ni_kind (me_identity e)") (simp_all add: manifest_record_of_def)
  have fields: "mr_path (manifest_record_of e) = me_path e" "mr_device (manifest_record_of e) = ni_device (me_identity e)"
    "mr_inode (manifest_record_of e) = ni_inode (me_identity e)" "mr_incarnation (manifest_record_of e) = ni_incarnation (me_identity e)"
    "mr_mode (manifest_record_of e) = me_mode e"
    by (simp_all add: manifest_record_of_def)
  have add: "checked_add64 (pe_observed_entries b) 1 = Some (pe_observed_entries b + 1)"
    using assms(3) by (simp add: checked_add64_def)
  show ?thesis
  proof (cases "is_directory e")
    case True
    with assms(1) obtain mode where "directory_mode (me_path e) (ni_device (me_identity e)) (ni_inode (me_identity e))
        (ni_incarnation (me_identity e)) = Some mode" by (auto simp: mode_known_def)
    with True add kind splice_mode [OF assms(2)] sealed_bytes [of directory_mode e] show ?thesis
      by (simp add: observe_post_seal_def Let_def fields sealed_entry_def)
  next
    case False
    with add kind splice_mode [OF assms(2)] sealed_bytes [of directory_mode e] show ?thesis
      by (simp add: observe_post_seal_def Let_def fields sealed_entry_def)
  qed
qed

lemma observe_entries:
  assumes "list_all (mode_known directory_mode) es" "list_all (\<lambda>e. length (me_path e) + 45 < 2 ^ 64) es"
    and "unat (pe_observed_entries b) + length es < 2 ^ 64" "unat (pe_observed_directories b) + length es < 2 ^ 64"
  shows "fold_r (observe_post_seal max_entries directory_mode) (map manifest_record_of es) b =
    Inr (b\<lparr>pe_observed_entries := pe_observed_entries b + of_nat (length es),
      pe_observed_directories := pe_observed_directories b + of_nat (length (filter is_directory es)),
      pe_digest := pe_digest b @ concat (map (\<lambda>e. entry_bytes (sealed_entry directory_mode e)) es)\<rparr>)"
  using assms
proof (induction es arbitrary: b)
  case (Cons e es)
  let ?dirs = "if is_directory e then sat_add (pe_observed_directories b) 1 else pe_observed_directories b"
  let ?b = "b\<lparr>pe_observed_entries := pe_observed_entries b + 1, pe_observed_directories := ?dirs,
      pe_digest := pe_digest b @ entry_bytes (sealed_entry directory_mode e)\<rparr>"
  have one: "observe_post_seal max_entries directory_mode (manifest_record_of e) b = Inr ?b"
    using Cons.prems by (intro observe_one) simp_all
  have sat: "sat_add (pe_observed_directories b) 1 = pe_observed_directories b + 1"
    using Cons.prems(4) by (simp add: sat_add_def)
  have u: "unat (pe_observed_entries b + 1) = unat (pe_observed_entries b) + 1"
    "unat (pe_observed_directories b + 1) = unat (pe_observed_directories b) + 1"
    using Cons.prems(3,4) by (simp_all add: unat_word_ariths)
  have "fold_r (observe_post_seal max_entries directory_mode) (map manifest_record_of es) ?b =
    Inr (?b\<lparr>pe_observed_entries := pe_observed_entries ?b + of_nat (length es),
      pe_observed_directories := pe_observed_directories ?b + of_nat (length (filter is_directory es)),
      pe_digest := pe_digest ?b @ concat (map (\<lambda>e. entry_bytes (sealed_entry directory_mode e)) es)\<rparr>)"
    using Cons.prems u sat by (intro Cons.IH) simp_all
  with one sat show ?case by (simp add: add.assoc)
qed simp

lemma manifest_path_bound:
  assumes "tree_manifest default_limits entry_size es" "e \<in> set es"
  shows "length (me_path e) + 45 < 2 ^ 64"
proof -
  have "length (me_path e) \<le> (\<Sum>e\<leftarrow>es. length (me_path e))" using assms(2) by (induction es) auto
  also have "\<dots> \<le> 16777216" using assms(1) by (simp add: tree_manifest_def within_limits_def default_limits_def)
  finally show ?thesis by simp
qed

lemma fingerprint_bytes:
  "fingerprint_manifest_v3 sha es = \<lparr>tm_schema_version = CONTENT_PROOF_VERSION, tm_entry_count = of_nat (length es),
     tm_sha256 = sha (MANIFEST_DOMAIN_V3 @ be_bytes 8 (of_nat (length es) :: u64) @ concat (map entry_bytes es))\<rparr>"
proof -
  have "map (\<lambda>entry. concat (emit_manifest_entry_v3 entry)) es = map entry_bytes es" by (simp add: entry_bytes_def)
  then show ?thesis unfolding fingerprint_manifest_v3_def by (simp only:)
qed

text \<open>C18: sealing and the fingerprint. Observing the records of a manifest with the mode each directory was sealed
  to yields, for the count of its directories, exactly the fingerprint of the entries with those modes: splicing
  four bytes at the computed offset of each authenticated record is re-encoding the sealed entry, for every path
  and content, and any other count of directories is refused.\<close>

theorem post_seal_fingerprint_exact:
  assumes "tree_manifest default_limits entry_size es" "length es \<le> 100000" "list_all (mode_known directory_mode) es"
  shows "\<exists>b. fold_r (observe_post_seal max_entries directory_mode) (map manifest_record_of es)
      (post_seal_expectation_builder (of_nat (length es))) = Inr b \<and>
    finish_post_seal_expectation sha directory_count b =
      (if directory_count = of_nat (length (filter is_directory es))
       then Inr (fingerprint_manifest_v3 sha (map (sealed_entry directory_mode) es)) else Inl (PostChanged []))"
proof -
  let ?b = "post_seal_expectation_builder (of_nat (length es))"
  have "list_all (\<lambda>e. length (me_path e) + 45 < 2 ^ 64) es"
    using manifest_path_bound [OF assms(1)] by (simp add: list_all_iff)
  from observe_entries [OF assms(3) this, of ?b max_entries] assms(2) show ?thesis
    by (simp add: post_seal_expectation_builder_def finish_post_seal_expectation_def fingerprint_bytes o_def)
qed

lemma post_seal_fingerprint_exact_witness:
  "\<exists>b. fold_r (observe_post_seal 100000 (\<lambda>p device inode incarnation. Some 320)) (map manifest_record_of sample_manifest)
      (post_seal_expectation_builder 4) = Inr b \<and>
     finish_post_seal_expectation sample_sha 3 b =
       Inr (fingerprint_manifest_v3 sample_sha (map (sealed_entry (\<lambda>p device inode incarnation. Some 320)) sample_manifest))"
proof -
  let ?mode = "\<lambda>p device inode incarnation. Some 320 :: u32 option"
  have "list_all (mode_known ?mode) sample_manifest" "length sample_manifest \<le> 100000" "length sample_manifest = 4"
    "length (filter is_directory sample_manifest) = 3"
    by (simp_all add: mode_known_def sample_manifest_def sample_entry_def)
  then show ?thesis
    using post_seal_fingerprint_exact [OF sample_tree, of ?mode 100000 sample_sha 3] by simp
qed

end
