(* ===== verification/Purge_Plan_Props.thy ===== *)
theory Purge_Plan_Props
  imports Manifest_Plan_Props
begin

text \<open>
  The purge plan built from a manifest: each plan record decodes to the entry it deletes and to the evidence of
  exactly its ancestor directories, although the builder only counts depths.
\<close>

section \<open>One record on its own\<close>

lemma decode_unordered_emitted:
  assumes "wf_entry max_depth e" "me_path e = [] \<Longrightarrow> is_directory e"
  shows "decode_unordered_v3_record (entry_bytes e) max_depth = Inr e"
proof -
  let ?fixed = "be_bytes 8 (ni_device (me_identity e)) @ be_bytes 8 (ni_inode (me_identity e)) @
    be_bytes 8 (ni_incarnation (me_identity e)) @ be_bytes 4 (me_uid e) @ be_bytes 4 (me_gid e) @ be_bytes 4 (me_mode e)"
  let ?path = "me_path e" and ?kind = "ni_kind (me_identity e)" and ?content = "concat (emit_content_v3 (me_content e))"
  have wf: "validate_manifest_path ?path max_depth = Inr ()" "length ?path < 2 ^ 64"
    "me_mode e AND NOT 0xfff = 0" "content_fits ?kind (me_content e)"
    using assms(1) by (simp_all add: wf_entry_def validate_manifest_path_Inr)
  have fixed: "fixed_fields ?fixed = (ni_device (me_identity e), ni_inode (me_identity e), ni_incarnation (me_identity e),
      me_uid e, me_gid e, me_mode e)"
    by (subst fixed_fields_iff) simp_all
  have len: "unat (of_nat (length ?path) :: u64) = length ?path" using wf(2) by (simp add: unat_of_nat)
  have steps: "take_u64 (entry_bytes e) = Inr (of_nat (length ?path), ?path @ [kind_byte ?kind] @ ?fixed @ ?content)"
    "take_input (length ?path) (?path @ [kind_byte ?kind] @ ?fixed @ ?content) = Inr (?path, [kind_byte ?kind] @ ?fixed @ ?content)"
    "take_input 1 ([kind_byte ?kind] @ ?fixed @ ?content) = Inr ([kind_byte ?kind], ?fixed @ ?content)"
    "take_input 36 (?fixed @ ?content) = Inr (?fixed, ?content)"
    unfolding entry_bytes_split take_u64_Inr take_input_Inr by simp_all
  have eta: "\<lparr>me_path = ?path, me_identity = \<lparr>ni_kind = ?kind, ni_device = ni_device (me_identity e), ni_inode = ni_inode (me_identity e),
      ni_incarnation = ni_incarnation (me_identity e)\<rparr>, me_uid = me_uid e, me_gid = me_gid e, me_mode = me_mode e,
      me_content = me_content e\<rparr> = e" by simp
  note front = decode_unordered_v3_record_def steps(1) and_then_simps split_conv len steps(2) wf(1) steps(3) list.sel steps(4) fixed prod.case
  show ?thesis
  proof (cases "me_content e")
    case DirectoryProof
    then have "?kind = DirectoryNode" using wf(4) by (cases ?kind) simp_all
    moreover have "take_input 1 ?content = Inr ([0], [])" unfolding DirectoryProof take_input_Inr by simp
    ultimately show ?thesis unfolding front using wf(3) eta DirectoryProof by simp
  next
    case (RegularProof r)
    then have r: "?kind = RegularNode" "valid_nanoseconds r" "length (rp_sha256 r) = 32" "length (xp_sha256 (rp_xattrs r)) = 32"
      using wf(4) by (cases ?kind; simp)+
    note raw = regular_fields_bytes [OF r(3,4)]
    have "take_input 1 ?content = Inr ([1], regular_bytes r)" "take_input 120 (regular_bytes r) = Inr (regular_bytes r, [])"
      unfolding RegularProof emit_content_bytes take_input_Inr using raw(2) by simp_all
    then show ?thesis unfolding front using wf(3) eta RegularProof r(1,2) raw(1) assms(2) by auto
  next
    case (SymlinkProof target)
    then have t: "?kind = SymlinkNode" "length target < 2 ^ 64" using wf(4) by (cases ?kind; simp)+
    have u: "unat (of_nat (length target) :: u64) = length target" using t(2) by (simp add: unat_of_nat)
    have "take_input 1 ?content = Inr ([2], be_bytes 8 (of_nat (length target) :: u64) @ target)"
      "take_u64 (be_bytes 8 (of_nat (length target) :: u64) @ target) = Inr (of_nat (length target), target)"
      "take_input (length target) target = Inr (target, [])"
      unfolding SymlinkProof take_input_Inr take_u64_Inr by simp_all
    then show ?thesis unfolding front using wf(3) eta SymlinkProof t(1) u assms(2) by auto
  next
    case LegacyProof
    then show ?thesis using wf(4) by (cases ?kind) simp_all
  qed
qed

section \<open>Plan records\<close>

definition entry_evidence :: "manifest_entry \<Rightarrow> purge_directory_evidence" where
  "entry_evidence e = record_evidence (manifest_record_of e)"

lemma ancestor_fields:
  "length (ancestor_bytes a) = 36"
  "fixed_fields (ancestor_bytes a) = (pd_device a, pd_inode a, pd_incarnation a, pd_uid a, pd_gid a, pd_mode a)"
  by (simp_all add: ancestor_bytes_def fixed_fields_iff)

lemma decode_encoded_ancestors:
  "list_all (\<lambda>a. pd_mode a AND NOT 0xfff = 0) as \<Longrightarrow>
     decode_ancestors (length as) (concat (map ancestor_bytes as) @ rest) = Inr (as, rest)"
proof (induction as)
  case (Cons a as)
  have "take_input V3_PURGE_ANCESTOR_BYTES (ancestor_bytes a @ concat (map ancestor_bytes as) @ rest) =
      Inr (ancestor_bytes a, concat (map ancestor_bytes as) @ rest)"
    by (simp add: take_input_Inr V3_PURGE_ANCESTOR_BYTES_def ancestor_fields)
  with Cons show ?case by (simp add: ancestor_fields(2))
qed simp

lemma path_depth_names: "manifest_path_depth p = length (names p)"
proof -
  have "length (split_slash p) = length (filter (\<lambda>b. b = slash) p) + 1"
  proof (induction p)
    case (Cons b p)
    then show ?case by (cases "split_slash p") auto
  qed simp
  then show ?thesis by (simp add: manifest_path_depth_def names_def)
qed

definition plan_fits :: "manifest_entry \<Rightarrow> bool" where
  "plan_fits e \<longleftrightarrow> length (entry_bytes e) \<le> MANIFEST_V3_MAX_SEGMENT_PAYLOAD \<and>
     24 + length (me_path e) + 36 * (manifest_path_depth (me_path e) - 1) < V3_PURGE_PLAN_MAX_OVERHEAD"

lemma plan_record_round_trip:
  assumes "plan_fits e" "wf_entry max_depth e" "me_path e = [] \<Longrightarrow> is_directory e"
    and "length as = manifest_path_depth (me_path e) - 1" "list_all (\<lambda>a. pd_mode a AND NOT 0xfff = 0) as"
  shows "\<exists>out. encode_v3_purge_plan_record (manifest_record_of e) as = Inr out \<and>
    decode_v3_purge_plan_record out max_depth =
      Inr \<lparr>dp_path = me_path e, dp_expected = e, dp_expected_raw = entry_bytes e, dp_ancestors = as\<rparr>"
proof -
  let ?p = "me_path e" and ?raw = "entry_bytes e"
  define overhead where "overhead = 24 + length ?p + 36 * length as"
  have small: "overhead < 65536" "length ?raw \<le> 1048576"
    using assms(1,4) by (simp_all add: overhead_def plan_fits_def V3_PURGE_PLAN_MAX_OVERHEAD_def MANIFEST_V3_MAX_SEGMENT_PAYLOAD_def)
  have over: "plan_overhead (length ?p) (length as) = Some overhead"
    using small by (simp add: plan_overhead_def usize_checked_add_def V3_PURGE_ANCESTOR_BYTES_def overhead_def algebra_simps)
  have bounds: "length as \<le> 65535" "length ?p < 2 ^ 64" "length as < 2 ^ 16" "length ?raw < 2 ^ 64"
    using small by (simp_all add: overhead_def)
  have r: "mr_path (manifest_record_of e) = ?p" "mr_encoded (manifest_record_of e) = ?raw"
    by (simp_all add: manifest_record_of_def)
  let ?tail = "concat (map ancestor_bytes as) @ ?raw"
  let ?out = "be_bytes 8 (of_nat (length ?p) :: u64) @ ?p @ V3_PURGE_PLAN_MAGIC @ be_bytes 2 V3_PURGE_PLAN_VERSION @
      be_bytes 2 (of_nat (length as) :: u16) @ be_bytes 8 (of_nat (length ?raw) :: u64) @ ?tail"
  have enc: "encode_v3_purge_plan_record (manifest_record_of e) as = Inr ?out"
    using small bounds by (simp add: encode_v3_purge_plan_record_def r over V3_PURGE_PLAN_MAX_OVERHEAD_def usize_checked_add_def)
  have u: "unat (of_nat (length ?p) :: u64) = length ?p" "unat (of_nat (length as) :: u16) = length as"
    "unat (of_nat (length ?raw) :: u64) = length ?raw"
    using bounds by (simp_all add: unat_of_nat)
  have steps: "take_u64 ?out = Inr (of_nat (length ?p), ?p @ V3_PURGE_PLAN_MAGIC @ be_bytes 2 V3_PURGE_PLAN_VERSION @
      be_bytes 2 (of_nat (length as) :: u16) @ be_bytes 8 (of_nat (length ?raw) :: u64) @ ?tail)"
    "take_input (length ?p) (?p @ V3_PURGE_PLAN_MAGIC @ be_bytes 2 V3_PURGE_PLAN_VERSION @
      be_bytes 2 (of_nat (length as) :: u16) @ be_bytes 8 (of_nat (length ?raw) :: u64) @ ?tail) =
      Inr (?p, V3_PURGE_PLAN_MAGIC @ be_bytes 2 V3_PURGE_PLAN_VERSION @
      be_bytes 2 (of_nat (length as) :: u16) @ be_bytes 8 (of_nat (length ?raw) :: u64) @ ?tail)"
    "take_input 4 (V3_PURGE_PLAN_MAGIC @ be_bytes 2 V3_PURGE_PLAN_VERSION @
      be_bytes 2 (of_nat (length as) :: u16) @ be_bytes 8 (of_nat (length ?raw) :: u64) @ ?tail) =
      Inr (V3_PURGE_PLAN_MAGIC, be_bytes 2 V3_PURGE_PLAN_VERSION @
      be_bytes 2 (of_nat (length as) :: u16) @ be_bytes 8 (of_nat (length ?raw) :: u64) @ ?tail)"
    "take_input 2 (be_bytes 2 V3_PURGE_PLAN_VERSION @ be_bytes 2 (of_nat (length as) :: u16) @ be_bytes 8 (of_nat (length ?raw) :: u64) @ ?tail) =
      Inr (be_bytes 2 V3_PURGE_PLAN_VERSION, be_bytes 2 (of_nat (length as) :: u16) @ be_bytes 8 (of_nat (length ?raw) :: u64) @ ?tail)"
    "take_input 2 (be_bytes 2 (of_nat (length as) :: u16) @ be_bytes 8 (of_nat (length ?raw) :: u64) @ ?tail) =
      Inr (be_bytes 2 (of_nat (length as) :: u16), be_bytes 8 (of_nat (length ?raw) :: u64) @ ?tail)"
    "take_u64 (be_bytes 8 (of_nat (length ?raw) :: u64) @ ?tail) = Inr (of_nat (length ?raw), ?tail)"
    "take_input (length ?raw) ?raw = Inr (?raw, [])"
    unfolding take_u64_Inr take_input_Inr by (simp_all add: V3_PURGE_PLAN_MAGIC_def)
  have depth: "manifest_path_depth ?p - Suc 0 = length as" using assms(4) by simp
  have v: "validate_manifest_path ?p max_depth = Inr ()" using assms(2) by (simp add: wf_entry_def validate_manifest_path_Inr)
  have "decode_v3_purge_plan_record ?out max_depth =
      Inr \<lparr>dp_path = ?p, dp_expected = e, dp_expected_raw = ?raw, dp_ancestors = as\<rparr>"
    unfolding decode_v3_purge_plan_record_def steps(1) and_then_simps split_conv u(1) steps(2) v steps(3) steps(4) steps(5) steps(6)
    using decode_encoded_ancestors [OF assms(5), of ?raw] decode_unordered_emitted [OF assms(2,3)] steps(7) small
    by (simp add: depth u over Let_def V3_PURGE_PLAN_MAX_OVERHEAD_def)
  with enc show ?thesis by blast
qed

section \<open>The builder\<close>

text \<open>The entry at a list of names, and the evidence along a path below the root.\<close>

definition entry_at :: "manifest_entry list \<Rightarrow> bytes list \<Rightarrow> manifest_entry" where
  "entry_at es ns = the (find (\<lambda>e. names (me_path e) = ns) es)"

definition evidence_along :: "manifest_entry list \<Rightarrow> bytes list \<Rightarrow> purge_directory_evidence list" where
  "evidence_along es ns = map (\<lambda>k. entry_evidence (entry_at es (take (Suc k) ns))) [0..<length ns]"

lemma length_evidence [simp]: "length (evidence_along es ns) = length ns"
  by (simp add: evidence_along_def)

lemma take_evidence: "prefix ps ns \<Longrightarrow> take (length ps) (evidence_along es ns) = evidence_along es ps"
  by (auto simp: prefix_def evidence_along_def take_map intro!: map_cong)

lemma evidence_snoc: "evidence_along es (ns @ [n]) = evidence_along es ns @ [entry_evidence (entry_at es (ns @ [n]))]"
  by (auto simp: evidence_along_def intro!: map_cong)

lemma find_mem: "e \<in> set es \<Longrightarrow> P e \<Longrightarrow> \<exists>x. find P es = Some x \<and> x \<in> set es \<and> P x"
  by (induction es) auto

lemma find_append: "find P (xs @ ys) = (case find P xs of None \<Rightarrow> find P ys | Some x \<Rightarrow> Some x)"
  by (induction xs) auto

lemma evidence_extend:
  assumes tree: "tree_manifest limits entry_size es" and p: "p \<in> set es"
  shows "evidence_along (es @ fs) (names (me_path p)) = evidence_along es (names (me_path p))"
    "list_all (\<lambda>a. pd_mode a AND NOT 0xfff = 0) (evidence_along es (names (me_path p)))"
proof -
  let ?ns = "names (me_path p)"
  have there: "\<exists>x. find (\<lambda>e. names (me_path e) = take (Suc k) ?ns) es = Some x \<and> x \<in> set es" if "k < length ?ns" for k
  proof -
    have "\<exists>q\<in>set es. names (me_path q) = take (Suc k) ?ns"
    proof (cases "take (Suc k) ?ns = ?ns")
      case False
      then have "strict_prefix (take (Suc k) ?ns) ?ns" by (simp add: strict_prefix_def take_is_prefix)
      from tree_ancestor [OF tree p this] show ?thesis by blast
    qed (use p in auto)
    then show ?thesis using find_mem [of _ es "\<lambda>e. names (me_path e) = take (Suc k) ?ns"] by blast
  qed
  have "entry_at (es @ fs) (take (Suc k) ?ns) = entry_at es (take (Suc k) ?ns)" "entry_at es (take (Suc k) ?ns) \<in> set es"
    if "k < length ?ns" for k
    using there [OF that] by (auto simp: entry_at_def find_append)
  moreover have "me_mode x AND NOT 0xfff = 0" if "x \<in> set es" for x
    using tree that by (auto simp: tree_manifest_def wf_entry_def list_all_iff)
  ultimately show "evidence_along (es @ fs) ?ns = evidence_along es ?ns"
    "list_all (\<lambda>a. pd_mode a AND NOT 0xfff = 0) (evidence_along es ?ns)"
    by (auto simp: evidence_along_def list_all_iff entry_evidence_def record_evidence_def manifest_record_of_def)
qed

lemma entry_at_last:
  assumes "tree_manifest limits entry_size (es @ [e])"
  shows "entry_at (es @ [e]) (names (me_path e)) = e"
proof -
  have "me_path x \<noteq> me_path e" if "x \<in> set es" for x
  proof -
    have "manifest_path_less (me_path x) (me_path e)"
      using assms that by (auto simp: tree_manifest_def sorted_wrt_append)
    then show ?thesis by auto
  qed
  then have "find (\<lambda>x. names (me_path x) = names (me_path e)) es = None"
    by (auto simp: find_None_iff names_inject)
  then show ?thesis by (simp add: entry_at_def find_append)
qed

definition builder_after :: "manifest_entry list \<Rightarrow> purge_plan_builder" where
  "builder_after es =
     (if es = [] then plan_builder_new
      else let l = last es; ns = names (me_path l) in
        \<lparr>pb_directories = evidence_along es (if is_directory l then ns else butlast ns),
         pb_previous_path = Some (me_path l), pb_saw_root = True\<rparr>)"

definition ancestor_evidence :: "manifest_entry list \<Rightarrow> manifest_entry \<Rightarrow> purge_directory_evidence list" where
  "ancestor_evidence es e = evidence_along es (butlast (names (me_path e)))"

definition collect_plan :: "bytes \<Rightarrow> bytes list \<Rightarrow> unit + bytes list" where
  "collect_plan b out = Inr (out @ [b])"

lemma kind_directory: "mr_kind (manifest_record_of e) = RecordDirectoryKind \<longleftrightarrow> is_directory e"
  by (cases "ni_kind (me_identity e)") (simp_all add: manifest_record_of_def)

lemma tree_parent_entry:
  assumes "tree_manifest limits entry_size (es @ [e])" "me_path e \<noteq> []"
  obtains p where "p \<in> set es" "is_directory p" "names (me_path p) = butlast (names (me_path e))"
proof -
  have step: "placed es e" "tree_manifest limits entry_size es" "canonical_path (me_path e)"
    using assms(1) unfolding tree_snoc by (auto simp: wf_entry_def)
  then obtain p where p: "p \<in> set es" "is_directory p" "path_parent_bytes (me_path e) = Some (me_path p)"
    using assms(2) by (auto simp: placed_def split: if_splits)
  have "list_all good_name (butlast (names (me_path e)))" using step(3) by (simp add: canonical_path_def good_butlast)
  then have "names (me_path p) = butlast (names (me_path e))"
    using p(3) path_parent_names [OF step(3)] names_join by (metis option.inject)
  with p that show thesis by blast
qed

text \<open>Truncating to the depth leaves the evidence of the ancestors of the next entry.\<close>

lemma truncated_directories:
  assumes tree: "tree_manifest limits entry_size (es @ [e])" and ne: "es \<noteq> []"
  shows "take (length (butlast (names (me_path e)))) (pb_directories (builder_after es)) = ancestor_evidence es e"
proof -
  let ?ps = "butlast (names (me_path e))" and ?l = "last es"
  have step: "tree_manifest limits entry_size es" "placed es e" "canonical_path (me_path e)"
    using tree unfolding tree_snoc by (auto simp: wf_entry_def)
  then have "strict_prefix ?ps (names (me_path ?l)) \<or> is_directory ?l \<and> ?ps = names (me_path ?l)"
    using parent_on_stack [OF step(1) ne step(3)] ne by (auto simp: placed_def)
  then have "prefix ?ps (if is_directory ?l then names (me_path ?l) else butlast (names (me_path ?l)))"
    by (auto simp: strict_prefix_def) (metis append_butlast_last_id prefix_Nil prefix_snoc)
  from take_evidence [OF this] show ?thesis using ne by (simp add: builder_after_def Let_def ancestor_evidence_def)
qed

lemma ancestors_stable:
  assumes "tree_manifest limits entry_size (es @ [e])"
  shows "ancestor_evidence (es @ fs) e = ancestor_evidence es e"
    "list_all (\<lambda>a. pd_mode a AND NOT 0xfff = 0) (ancestor_evidence es e)"
proof -
  have tree: "tree_manifest limits entry_size es" using assms unfolding tree_snoc by blast
  have "ancestor_evidence (es @ fs) e = ancestor_evidence es e \<and>
    list_all (\<lambda>a. pd_mode a AND NOT 0xfff = 0) (ancestor_evidence es e)"
  proof (cases "me_path e = []")
    case False
    from tree_parent_entry [OF assms this] obtain p where "p \<in> set es" "names (me_path p) = butlast (names (me_path e))" by blast
    with evidence_extend [OF tree] show ?thesis unfolding ancestor_evidence_def by metis
  qed (simp add: ancestor_evidence_def evidence_along_def)
  then show "ancestor_evidence (es @ fs) e = ancestor_evidence es e"
    "list_all (\<lambda>a. pd_mode a AND NOT 0xfff = 0) (ancestor_evidence es e)" by blast+
qed

lemma builder_directories:
  assumes "tree_manifest limits entry_size (es @ [e])"
  shows "pb_directories (builder_after (es @ [e])) =
    (if is_directory e \<and> me_path e \<noteq> [] then ancestor_evidence es e @ [entry_evidence e] else ancestor_evidence es e)"
proof (cases "me_path e = []")
  case False
  then have up: "names (me_path e) = butlast (names (me_path e)) @ [last (names (me_path e))]" by simp
  have "evidence_along (es @ [e]) (names (me_path e)) =
      ancestor_evidence (es @ [e]) e @ [entry_evidence (entry_at (es @ [e]) (names (me_path e)))]"
    unfolding ancestor_evidence_def by (subst up, subst evidence_snoc) (simp only: up [symmetric])
  moreover have "evidence_along (es @ [e]) (butlast (names (me_path e))) = ancestor_evidence (es @ [e]) e"
    by (simp only: ancestor_evidence_def)
  ultimately show ?thesis
    unfolding ancestors_stable(1) [OF assms] entry_at_last [OF assms] using False
    by (simp add: builder_after_def Let_def)
qed (simp add: builder_after_def Let_def ancestor_evidence_def evidence_along_def)

lemma observe_plan_step:
  assumes tree: "tree_manifest limits entry_size (es @ [e])" and fits: "plan_fits e"
  shows "\<exists>out. observe_plan collect_plan (manifest_record_of e) (builder_after es, outs) = Inr (builder_after (es @ [e]), outs @ [out]) \<and>
    decode_v3_purge_plan_record out (hl_max_depth limits) =
      Inr \<lparr>dp_path = me_path e, dp_expected = e, dp_expected_raw = entry_bytes e, dp_ancestors = ancestor_evidence es e\<rparr>"
proof -
  have step: "tree_manifest limits entry_size es" "wf_entry (hl_max_depth limits) e" "placed es e" "es = [] \<longrightarrow> is_directory e"
    using tree unfolding tree_snoc by blast+
  have root: "me_path e = [] \<longleftrightarrow> es = []" using step(3) by (auto simp: placed_def split: if_splits)
  have path: "mr_path (manifest_record_of e) = me_path e" by (simp add: manifest_record_of_def)
  have len: "length (ancestor_evidence es e) = manifest_path_depth (me_path e) - 1"
    by (simp add: ancestor_evidence_def path_depth_names)
  from plan_record_round_trip [OF fits step(2) _ len ancestors_stable(2) [OF tree]] step(4) root obtain out where
    out: "encode_v3_purge_plan_record (manifest_record_of e) (ancestor_evidence es e) = Inr out"
      "decode_v3_purge_plan_record out (hl_max_depth limits) =
        Inr \<lparr>dp_path = me_path e, dp_expected = e, dp_expected_raw = entry_bytes e, dp_ancestors = ancestor_evidence es e\<rparr>"
    by blast
  have after: "builder_after (es @ [e]) =
      \<lparr>pb_directories = (if is_directory e \<and> me_path e \<noteq> [] then ancestor_evidence es e @ [entry_evidence e] else ancestor_evidence es e),
       pb_previous_path = Some (me_path e), pb_saw_root = True\<rparr>"
    using builder_directories [OF tree] by (simp add: builder_after_def Let_def)
  have "observe_plan collect_plan (manifest_record_of e) (builder_after es, outs) = Inr (builder_after (es @ [e]), outs @ [out])"
  proof (cases "es = []")
    case True
    with root have e: "me_path e = []" "is_directory e" using step(4) by simp_all
    then have "ancestor_evidence es e = []" by (simp add: ancestor_evidence_def evidence_along_def)
    with True e out(1) show ?thesis
      unfolding after by (simp add: observe_plan_def builder_after_def plan_builder_new_def path kind_directory codec_try_def emit_try_def collect_plan_def)
  next
    case False
    have trunc: "take (manifest_path_depth (me_path e) - 1) (pb_directories (builder_after es)) = ancestor_evidence es e"
      using truncated_directories [OF tree False] by (simp add: path_depth_names)
    have cut: "length (take (manifest_path_depth (me_path e) - 1) (pb_directories (builder_after es))) = manifest_path_depth (me_path e) - 1"
      unfolding trunc by (rule len)
    have b: "pb_previous_path (builder_after es) = Some (me_path (last es))" "pb_saw_root (builder_after es)"
      using False by (simp_all add: builder_after_def Let_def)
    have less: "manifest_path_less (me_path (last es)) (me_path e)" using step(3) False by (simp add: placed_def)
    show ?thesis
      unfolding after using False root out(1) trunc b less cut
      by (simp add: observe_plan_def path kind_directory codec_try_def emit_try_def collect_plan_def Let_def entry_evidence_def
          del: length_take)
  qed
  with out(2) show ?thesis by blast
qed

text \<open>C17: the purge plan names what it deletes and every directory on the way. Where every entry fits a plan
  record (\<open>plan_fits\<close>), observing the records of a manifest succeeds and emits one plan record per entry, the root
  included: it carries no unlinking, and the comment on \<open>observe\<close> that speaks of the non-root entries is not what
  the code does. Each plan record decodes to the entry with its authenticated bytes and to the evidence of exactly
  the directories of the manifest on the path from the root to it (the root, which the inventory holds, left out
  of the evidence), in order. The builder keeps only a stack truncated to the depth of each path and never compares
  names.\<close>

theorem purge_plan_exact:
  assumes "tree_manifest limits entry_size es" "list_all plan_fits es"
  shows "\<exists>b outs. fold_r (observe_plan collect_plan) (map manifest_record_of es) (plan_builder_new, []) = Inr (b, outs) \<and>
    map (\<lambda>out. decode_v3_purge_plan_record out (hl_max_depth limits)) outs =
    map (\<lambda>e. Inr \<lparr>dp_path = me_path e, dp_expected = e, dp_expected_raw = entry_bytes e,
      dp_ancestors = ancestor_evidence es e\<rparr>) es"
proof -
  have "\<exists>outs. fold_r (observe_plan collect_plan) (map manifest_record_of es) (plan_builder_new, []) = Inr (builder_after es, outs) \<and>
    map (\<lambda>out. decode_v3_purge_plan_record out (hl_max_depth limits)) outs =
    map (\<lambda>e. Inr \<lparr>dp_path = me_path e, dp_expected = e, dp_expected_raw = entry_bytes e,
      dp_ancestors = ancestor_evidence es e\<rparr>) es"
    using assms
  proof (induction es rule: rev_induct)
    case Nil
    then show ?case by (simp add: builder_after_def)
  next
    case (snoc e es)
    have tree: "tree_manifest limits entry_size es" using snoc.prems(1) unfolding tree_snoc by blast
    from snoc.IH [OF tree] snoc.prems(2) obtain outs where
      outs: "fold_r (observe_plan collect_plan) (map manifest_record_of es) (plan_builder_new, []) = Inr (builder_after es, outs)"
        "map (\<lambda>out. decode_v3_purge_plan_record out (hl_max_depth limits)) outs =
         map (\<lambda>e. Inr \<lparr>dp_path = me_path e, dp_expected = e, dp_expected_raw = entry_bytes e,
           dp_ancestors = ancestor_evidence es e\<rparr>) es" by auto
    from observe_plan_step [OF snoc.prems(1), of outs] snoc.prems(2) obtain out where
      out: "observe_plan collect_plan (manifest_record_of e) (builder_after es, outs) = Inr (builder_after (es @ [e]), outs @ [out])"
        "decode_v3_purge_plan_record out (hl_max_depth limits) =
         Inr \<lparr>dp_path = me_path e, dp_expected = e, dp_expected_raw = entry_bytes e, dp_ancestors = ancestor_evidence es e\<rparr>" by auto
    have old: "ancestor_evidence (es @ [e]) x = ancestor_evidence es x" if x: "x \<in> set es" for x
    proof (cases "me_path x = []")
      case False
      from tree_parent [OF tree x this] obtain p where "p \<in> set es" "names (me_path p) = butlast (names (me_path x))" by blast
      then show ?thesis unfolding ancestor_evidence_def using evidence_extend(1) [OF tree] by metis
    qed (simp add: ancestor_evidence_def evidence_along_def)
    have same: "ancestor_evidence (es @ [e]) e = ancestor_evidence es e" by (rule ancestors_stable(1) [OF snoc.prems(1)])
    show ?case
      by (rule exI [of _ "outs @ [out]"]) (use outs out old same in \<open>simp add: fold_r_append cong: map_cong\<close>)
  qed
  then show ?thesis by blast
qed

lemma sample_fits: "list_all plan_fits sample_manifest"
  by (simp add: sample_manifest_def sample_entry_def plan_fits_def entry_bytes_def emit_manifest_entry_v3_def
      emit_manifest_entry_v3_with_mode_def MANIFEST_V3_MAX_SEGMENT_PAYLOAD_def V3_PURGE_PLAN_MAX_OVERHEAD_def
      path_depth_names sample_names)

lemma sample_ancestors: "map (ancestor_evidence sample_manifest) sample_manifest =
    [[], [], [entry_evidence (sample_entry [97] DirectoryNode DirectoryProof)], []]"
  by (simp add: sample_manifest_def sample_entry_def ancestor_evidence_def evidence_along_def entry_at_def sample_names)

lemma purge_plan_exact_witness:
  "\<exists>b outs. fold_r (observe_plan collect_plan) (map manifest_record_of sample_manifest) (plan_builder_new, []) = Inr (b, outs) \<and>
     map (\<lambda>out. case decode_v3_purge_plan_record out 128 of Inl _ \<Rightarrow> [] | Inr d \<Rightarrow> dp_ancestors d) outs =
     [[], [], [entry_evidence (sample_entry [97] DirectoryNode DirectoryProof)], []]"
proof -
  from purge_plan_exact [OF sample_tree sample_fits] obtain b outs where
    f: "fold_r (observe_plan collect_plan) (map manifest_record_of sample_manifest) (plan_builder_new, []) = Inr (b, outs)"
    and d: "map (\<lambda>out. decode_v3_purge_plan_record out (hl_max_depth default_limits)) outs =
      map (\<lambda>e. Inr \<lparr>dp_path = me_path e, dp_expected = e, dp_expected_raw = entry_bytes e,
        dp_ancestors = ancestor_evidence sample_manifest e\<rparr>) sample_manifest" by blast
  have depth: "hl_max_depth default_limits = 128" by (simp add: default_limits_def MANIFEST_PATH_DEPTH_LIMIT_def)
  from arg_cong [OF d [unfolded depth], of "map (\<lambda>r. case r of Inl _ \<Rightarrow> [] | Inr d \<Rightarrow> dp_ancestors d)"]
  have "map (\<lambda>out. case decode_v3_purge_plan_record out 128 of Inl _ \<Rightarrow> [] | Inr d \<Rightarrow> dp_ancestors d) outs =
      map (ancestor_evidence sample_manifest) sample_manifest"
    by (simp add: o_def)
  then show ?thesis unfolding sample_ancestors using f by (intro exI conjI)
qed

section \<open>The order of deletion\<close>

text \<open>A child is deleted before its ancestors.\<close>

lemma purge_children_first: "strict_prefix (names p) (names q) \<Longrightarrow> purge_path_less q p \<and> \<not> purge_path_less p q"
  using prefix_length_less [of "names p" "names q"] by (auto simp: purge_path_less_def path_depth_names)

text \<open>The order is by depth first: \<open>a/b\<close> is deleted before \<open>c\<close>, although the reverse of the manifest's order
  would delete \<open>c\<close> first.\<close>

lemma purge_order_by_depth:
  "purge_path_less [97, 47, 98] [99] \<and> \<not> purge_path_less [99] [97, 47, 98] \<and> manifest_path_less [97, 47, 98] [99]"
proof -
  have n: "names [97, 47, 98] = [[97], [98]]" "names [99] = [[99]]" by (simp_all add: names_def slash_def)
  then have "canonical_path [97, 47, 98]" "canonical_path [99]"
    by (simp_all add: canonical_path_def good_name_def dot_def slash_def)
  then have "manifest_path_less [97, 47, 98] [99]" by (simp add: manifest_path_less_names n)
  then show ?thesis by (simp add: purge_path_less_def path_depth_names n)
qed

end
