(* ===== verification/Held_Mode.thy ===== *)
theory Held_Mode
  imports Backend
begin

text \<open>
  Mode changes on a held directory (\<open>HeldLocalBackendEvidence\<close> of \<open>backend.rs\<close>): what degu-core knows of a
  directory it holds, the preparation of a seal or of its restore, and the mode change itself. The mode
  of the directory is a state of its own; what is known of it may be unverified.
\<close>

unbundle bit_operations_syntax

section \<open>State\<close>

record seal_lineage =
  ln_transaction :: transaction_id
  ln_mutation_id :: u64
  ln_backend :: certified_local_backend
  ln_mount_id :: u64
  ln_device :: u64
  ln_inode :: u64
  ln_owner_uid :: u32
  ln_group_gid :: u32
  ln_effective_uid :: u32
  ln_effective_groups :: "u32 list"
  ln_original_mode :: u32
  ln_sealed_mode :: u32

record held_evidence =
  he_backend :: certified_local_backend
  he_mount_id :: u64
  he_owner_uid :: u32
  he_group_gid :: u32
  he_mode :: u32
  he_mode_verified :: bool
  he_device :: u64
  he_inode :: u64
  he_effective_uid :: u32
  he_effective_groups :: "u32 list"
  he_seal_lineage :: "seal_lineage option"

datatype prepared_mode_change_kind = PreparedSeal | PreparedRestore seal_lineage

record prepared_mode_change =
  pm_pre :: verified_local_mode_snapshot
  pm_target_mode :: u32
  pm_kind :: prepared_mode_change_kind

datatype held_mode_change_outcome =
  AppliedVerified verified_local_mode_snapshot verified_local_mode_snapshot
  | NotAppliedVerified verified_local_mode_snapshot nat
  | RefusedBeforeMutation local_mode_revalidation_failure
  | AppliedButUnverified u32 local_mode_revalidation_failure
  | OutcomeUnknown nat local_mode_revalidation_failure

text \<open>
  The system: what the descriptor shows at the \<open>k\<close>-th inspection when the directory has a mode, the
  error number of \<open>fchmod\<close> if it fails, and whether a failed \<open>fchmod\<close> changed the mode nevertheless.
\<close>

record mode_env =
  me_view :: "nat \<Rightarrow> u32 \<Rightarrow> descriptor_view"
  me_chmod :: "nat option"
  me_lands :: bool

section \<open>Certifying a descriptor\<close>

definition certified_backend :: "descriptor_view \<Rightarrow> certification_error + (u64 \<times> certified_local_backend)" where
  "certified_backend view =
     and_then (ok_or MountIdentityUnavailable (fd_mount_id view)) (\<lambda>mount_id.
     and_then (ok_or MountIdentityUnavailable mount_id) (\<lambda>mount_id.
     and_then (ok_or MountInfoUnreadable (fd_mountinfo view)) (\<lambda>mountinfo.
     and_then (ok_or InspectionFailed (fd_filesystem_magic view)) (\<lambda>magic.
     and_then (certify_linux_mount mount_id mountinfo magic) (\<lambda>backend. Inr (mount_id, backend))))))"

definition certify_held_fd_backend :: "descriptor_view \<Rightarrow> certification_error + certified_local_backend" where
  "certify_held_fd_backend view = and_then (certified_backend view) (\<lambda>(_, backend). Inr backend)"

definition finish_certification ::
  "descriptor_view \<Rightarrow> certified_local_backend \<Rightarrow> u64 \<Rightarrow> certification_error + held_evidence" where
  "finish_certification view backend mount_id =
     and_then (ok_or InspectionFailed (fd_stat view)) (\<lambda>stat.
     if \<not> is_directory_mode (ds_mode stat) then Inl CertNotDirectory
     else and_then (require_acl_absent (probe_acl view)) (\<lambda>_.
          and_then (ok_or ProcessCredentialsUnavailable (fd_groups view)) (\<lambda>groups.
          Inr \<lparr>he_backend = backend, he_mount_id = mount_id, he_owner_uid = ds_uid stat,
            he_group_gid = ds_gid stat, he_mode = ds_mode stat AND 4095, he_mode_verified = True,
            he_device = ds_device stat, he_inode = ds_inode stat, he_effective_uid = fd_effective_uid view,
            he_effective_groups = group_set groups (fd_effective_gid view), he_seal_lineage = None\<rparr>)))"

definition certify_held_fd :: "descriptor_view \<Rightarrow> certification_error + held_evidence" where
  "certify_held_fd view =
     and_then (certified_backend view) (\<lambda>(mount_id, backend). finish_certification view backend mount_id)"

section \<open>Preparing\<close>

definition crate_minimal_sealed_mode :: "u32 \<Rightarrow> u32" where
  "crate_minimal_sealed_mode mode =
     (let sealed = (if mode AND 24 = 24 then mode AND NOT 16 else mode)
      in if mode AND 3 = 3 then sealed AND NOT 2 else sealed)"

definition certified_snapshot :: "held_evidence \<Rightarrow> verified_local_mode_snapshot" where
  "certified_snapshot h =
     \<lparr>vs_backend = he_backend h, vs_mount_id = he_mount_id h, vs_owner_uid = he_owner_uid h,
      vs_group_gid = he_group_gid h, vs_mode = he_mode h, vs_device = he_device h, vs_inode = he_inode h,
      vs_effective_uid = he_effective_uid h, vs_effective_groups = he_effective_groups h\<rparr>"

definition verify_current_mode :: "descriptor_view \<Rightarrow> u32 \<Rightarrow> held_evidence \<Rightarrow> local_mode_revalidation_failure + unit" where
  "verify_current_mode view expected_mode h =
     and_then (inspect_held_fd view) (\<lambda>actual. validate_snapshot actual (certified_snapshot h) expected_mode)"

definition verify_namespace_exclusive :: "descriptor_view \<Rightarrow> held_evidence \<Rightarrow> local_mode_revalidation_failure + unit" where
  "verify_namespace_exclusive view h =
     and_then (verify_current_mode view (he_mode h) h) (\<lambda>_.
       if he_mode h AND 24 = 24 \<or> he_mode h AND 3 = 3 then Inl NamespaceWritersPresent else Inr ())"

definition prepare_exact_mode_change ::
  "descriptor_view \<Rightarrow> u32 \<Rightarrow> prepared_mode_change_kind \<Rightarrow> held_evidence \<Rightarrow>
   (local_mode_revalidation_failure + prepared_mode_change) \<times> held_evidence" where
  "prepare_exact_mode_change view target_mode kind h =
     (if target_mode AND NOT 4095 \<noteq> 0 then (Inl InvalidTargetMode, h)
      else case inspect_expected view (certified_snapshot h) (he_mode h) of
        Inl e \<Rightarrow> (Inl e, h\<lparr>he_mode_verified := False\<rparr>)
      | Inr pre \<Rightarrow> (Inr \<lparr>pm_pre = pre, pm_target_mode = target_mode, pm_kind = kind\<rparr>, h))"

definition prepare_minimal_seal ::
  "descriptor_view \<Rightarrow> bool \<Rightarrow> held_evidence \<Rightarrow>
   (local_mode_revalidation_failure + prepared_mode_change) \<times> held_evidence" where
  "prepare_minimal_seal view acquire_owner_write_search h =
     (if \<not> he_mode_verified h then (Inl EvidenceUnverified, h)
      else if he_seal_lineage h \<noteq> None then (Inl SealAlreadyActive, h)
      else
        let base = (if acquire_owner_write_search then he_mode h OR 192 else he_mode h)
        in prepare_exact_mode_change view (crate_minimal_sealed_mode base) PreparedSeal h)"

definition lineage_of :: "held_evidence \<Rightarrow> transaction_id \<Rightarrow> u64 \<Rightarrow> u32 \<Rightarrow> u32 \<Rightarrow> seal_lineage" where
  "lineage_of h t mid original_mode sealed_mode =
     \<lparr>ln_transaction = t, ln_mutation_id = mid, ln_backend = he_backend h, ln_mount_id = he_mount_id h,
      ln_device = he_device h, ln_inode = he_inode h, ln_owner_uid = he_owner_uid h,
      ln_group_gid = he_group_gid h, ln_effective_uid = he_effective_uid h,
      ln_effective_groups = he_effective_groups h, ln_original_mode = original_mode,
      ln_sealed_mode = sealed_mode\<rparr>"

definition bind_recovered_seal_lineage ::
  "transaction_id \<Rightarrow> u64 \<Rightarrow> u32 \<Rightarrow> u32 \<Rightarrow> certified_local_backend \<Rightarrow> u64 \<Rightarrow> u64 \<Rightarrow> held_evidence \<Rightarrow>
   (local_mode_revalidation_failure + unit) \<times> held_evidence" where
  "bind_recovered_seal_lineage t original_mutation_id original_pre_mode original_expected_mode
     expected_backend expected_device expected_inode h =
     (if \<not> he_mode_verified h \<or> he_seal_lineage h \<noteq> None \<or> he_backend h \<noteq> expected_backend \<or>
         he_device h \<noteq> expected_device \<or> he_inode h \<noteq> expected_inode \<or> he_mode h \<noteq> original_expected_mode
      then (Inl SealLineageMismatch, h)
      else (Inr (), h\<lparr>he_seal_lineage :=
        Some (lineage_of h t original_mutation_id original_pre_mode original_expected_mode)\<rparr>))"

definition prepare_wal_bound_restore ::
  "descriptor_view \<Rightarrow> transaction_id \<Rightarrow> u64 \<Rightarrow> u32 \<Rightarrow> u32 \<Rightarrow> held_evidence \<Rightarrow>
   (local_mode_revalidation_failure + prepared_mode_change) \<times> held_evidence" where
  "prepare_wal_bound_restore view t original_mutation_id original_expected_mode original_pre_mode h =
     (if \<not> he_mode_verified h \<or> he_mode h \<noteq> original_expected_mode then (Inl EvidenceUnverified, h)
      else case he_seal_lineage h of
        None \<Rightarrow> (Inl MissingSealLineage, h)
      | Some l \<Rightarrow>
          if ln_transaction l \<noteq> t \<or> ln_mutation_id l \<noteq> original_mutation_id \<or> ln_backend l \<noteq> he_backend h \<or>
             ln_mount_id l \<noteq> he_mount_id h \<or> ln_device l \<noteq> he_device h \<or> ln_inode l \<noteq> he_inode h \<or>
             ln_owner_uid l \<noteq> he_owner_uid h \<or> ln_group_gid l \<noteq> he_group_gid h \<or>
             ln_effective_uid l \<noteq> he_effective_uid h \<or> ln_effective_groups l \<noteq> he_effective_groups h \<or>
             ln_original_mode l \<noteq> original_pre_mode \<or> ln_sealed_mode l \<noteq> original_expected_mode
          then (Inl SealLineageMismatch, h)
          else prepare_exact_mode_change view original_pre_mode (PreparedRestore l) h)"

section \<open>Changing the mode\<close>

definition invalidate_mode :: "u32 \<Rightarrow> held_evidence \<Rightarrow> held_evidence" where
  "invalidate_mode best_observation h =
     h\<lparr>he_mode := best_observation, he_mode_verified := False, he_seal_lineage := None\<rparr>"

definition invalidate_after_wal_uncertainty :: "held_evidence \<Rightarrow> held_evidence" where
  "invalidate_after_wal_uncertainty h = invalidate_mode (he_mode h) h"

definition record_applied_seal_lineage ::
  "transaction_id \<Rightarrow> u64 \<Rightarrow> u32 \<Rightarrow> u32 \<Rightarrow> held_evidence \<Rightarrow> (local_mode_revalidation_failure + unit) \<times> held_evidence" where
  "record_applied_seal_lineage t mid original_mode sealed_mode h =
     (if \<not> he_mode_verified h \<or> he_mode h \<noteq> sealed_mode then (Inl EvidenceUnverified, h)
      else if he_seal_lineage h \<noteq> None then (Inl SealAlreadyActive, h)
      else (Inr (), h\<lparr>he_seal_lineage := Some (lineage_of h t mid original_mode sealed_mode)\<rparr>))"

definition finish_successful_chmod ::
  "u32 \<Rightarrow> verified_local_mode_snapshot \<Rightarrow> local_mode_revalidation_failure + verified_local_mode_snapshot \<Rightarrow>
   held_evidence \<Rightarrow> held_mode_change_outcome \<times> held_evidence" where
  "finish_successful_chmod target_mode pre post h =
     (case post of
        Inr post \<Rightarrow> (AppliedVerified pre post, h\<lparr>he_mode := vs_mode post, he_mode_verified := True\<rparr>)
      | Inl reason \<Rightarrow>
          let observed = (case reason of ModeChanged _ actual \<Rightarrow> actual | _ \<Rightarrow> target_mode)
          in (AppliedButUnverified target_mode reason, invalidate_mode observed h))"

text \<open>The lineage a restore takes, and what is left; \<open>None\<close> for a seal, which takes none.\<close>

definition take_lineage ::
  "prepared_mode_change_kind \<Rightarrow> held_evidence \<Rightarrow>
   local_mode_revalidation_failure + (seal_lineage option \<times> held_evidence)" where
  "take_lineage kind h =
     (case kind of
        PreparedSeal \<Rightarrow> Inr (None, h)
      | PreparedRestore expected \<Rightarrow>
          (case he_seal_lineage h of
             None \<Rightarrow> Inl MissingSealLineage
           | Some actual \<Rightarrow>
               if actual = expected then Inr (Some actual, h\<lparr>he_seal_lineage := None\<rparr>)
               else Inl SealLineageMismatch))"

text \<open>The directory's own mode is the last argument and part of the result.\<close>

definition apply_wal_bound_mode_change ::
  "mode_env \<Rightarrow> prepared_mode_change \<Rightarrow> held_evidence \<Rightarrow> u32 \<Rightarrow> held_mode_change_outcome \<times> held_evidence \<times> u32" where
  "apply_wal_bound_mode_change env prepared h mode =
     (case inspect_expected (me_view env 1 mode) (pm_pre prepared) (vs_mode (pm_pre prepared)) of
        Inl reason \<Rightarrow> (RefusedBeforeMutation reason, h\<lparr>he_mode_verified := False\<rparr>, mode)
      | Inr pre \<Rightarrow>
          (case take_lineage (pm_kind prepared) h of
             Inl reason \<Rightarrow> (RefusedBeforeMutation reason, h, mode)
           | Inr (consumed_lineage, h) \<Rightarrow>
               (case me_chmod env of
                  None \<Rightarrow>
                    let mode = pm_target_mode prepared;
                        (outcome, h) = finish_successful_chmod (pm_target_mode prepared) pre
                          (inspect_expected (me_view env 2 mode) (pm_pre prepared) (pm_target_mode prepared)) h
                    in (outcome, h, mode)
                | Some errno \<Rightarrow>
                    let mode = (if me_lands env then pm_target_mode prepared else mode)
                    in (case inspect_expected (me_view env 2 mode) (pm_pre prepared) (vs_mode (pm_pre prepared)) of
                          Inr snapshot \<Rightarrow>
                            (NotAppliedVerified snapshot errno,
                             (case consumed_lineage of None \<Rightarrow> h | Some l \<Rightarrow> h\<lparr>he_seal_lineage := Some l\<rparr>), mode)
                        | Inl post_failure \<Rightarrow> (OutcomeUnknown errno post_failure, invalidate_mode (he_mode h) h, mode)))))"

end
