(* ===== verification/Executor.thy ===== *)
theory Executor
  imports Held_Mode Wal_Programs
begin

text \<open>
  The executor (\<open>seal/executor.rs\<close>): one mode change, sealed or restored, on a held directory under the
  log. It prepares the change, has the log write the intent, changes the mode from within the log's
  callback, and settles what the log says with what happened.
\<close>

section \<open>Requests and results\<close>

record recovery_locator =
  rl_relative_path :: path
  rl_filesystem_id :: "bytes option"
  rl_incarnation :: "u64 option"

definition authority_neutral :: "path \<Rightarrow> bytes option \<Rightarrow> recovery_locator" where
  "authority_neutral p fs = \<lparr>rl_relative_path = p, rl_filesystem_id = fs, rl_incarnation = None\<rparr>"

definition held_staging :: "path \<Rightarrow> bytes \<Rightarrow> u64 \<Rightarrow> recovery_locator" where
  "held_staging p fs incarnation =
     \<lparr>rl_relative_path = p, rl_filesystem_id = Some fs, rl_incarnation = Some incarnation\<rparr>"

definition durable_restore :: "path \<Rightarrow> bytes option \<Rightarrow> recovery_locator" where
  "durable_restore p fs = \<lparr>rl_relative_path = p, rl_filesystem_id = fs, rl_incarnation = None\<rparr>"

datatype local_mode_transform = SealMode bool | RestoreMode durable_permission

record local_mode_mutation_request =
  rq_transaction :: transaction_id
  rq_mutation_id :: u64
  rq_locator :: recovery_locator
  rq_transform :: local_mode_transform

datatype local_mode_mutation_result = ModeApplied u32 u32 | ModeConfirmedNotApplied

datatype local_mode_execution_error =
  Preparation local_mode_revalidation_failure
  | InvalidRequest string
  | IntentNotDurable append_error
  | NotAppliedResolutionNotDurable resolve_error
  | ModeAppliedButUnverified local_mode_revalidation_failure "append_error + unit"
  | ModeOutcomeUnknown nat local_mode_revalidation_failure "append_error + unit"
  | AppliedRecordNotDurable append_error
  | InvalidSealOrInverse append_error
  | SealLineageError local_mode_revalidation_failure
  | OriginalSealUnreadable permission_read_error

text \<open>What happens to the frames an execution writes: the intent, the applied record, and the record that
  settles a mutation that was not applied or moves the transaction to recovery.\<close>

record executor_io =
  xi_intent :: append_io
  xi_applied :: append_io
  xi_settle :: append_io

text \<open>The log, what is known of the directory, and the directory's mode.\<close>

record mode_world =
  mw_wal :: seal_wal
  mw_held :: held_evidence
  mw_mode :: u32

section \<open>Preparing a request\<close>

definition prepare_request ::
  "mode_env \<Rightarrow> local_mode_mutation_request \<Rightarrow> mode_world \<Rightarrow>
   (local_mode_execution_error + (prepared_mode_change \<times> u64 option \<times> durable_permission option)) \<times> held_evidence" where
  "prepare_request env request world =
     (let view = me_view env 0 (mw_mode world); h = mw_held world
      in case rq_transform request of
           SealMode acquire_owner_write_search \<Rightarrow>
             (case prepare_minimal_seal view acquire_owner_write_search h of
                (Inl e, h) \<Rightarrow> (Inl (Preparation e), h)
              | (Inr prepared, h) \<Rightarrow> (Inr (prepared, None, None), h))
         | RestoreMode original \<Rightarrow>
             if dp_application original \<noteq> Applied \<or> dp_phase original \<notin> {ParentSealIntent, TreeSealIntent} \<or>
                dp_reverses original \<noteq> None
             then (Inl (InvalidRequest ''restore must reference an applied original seal''), h)
             else
               (case prepare_wal_bound_restore view (rq_transaction request) (dp_mutation_id original)
                       (dp_expected_mode original) (dp_pre_mode original) h of
                  (Inl e, h) \<Rightarrow> (Inl (Preparation e), h)
                | (Inr prepared, h) \<Rightarrow> (Inr (prepared, Some (dp_mutation_id original), Some original), h)))"

text \<open>The intent of a prepared change.\<close>

definition request_intent ::
  "bool \<Rightarrow> local_mode_mutation_request \<Rightarrow> prepared_mode_change \<Rightarrow> u64 option \<Rightarrow> durable_permission option \<Rightarrow>
   local_mode_execution_error + permission_intent" where
  "request_intent staging request prepared reverses restore_original =
     (let pre = pm_pre prepared; locator = rq_locator request
      in if (case restore_original of None \<Rightarrow> False
             | Some original \<Rightarrow> vs_mode pre \<noteq> dp_expected_mode original \<or>
                 vs_device pre \<noteq> ev_device (dp_evidence original) \<or> vs_inode pre \<noteq> ev_inode (dp_evidence original))
         then Inl (InvalidRequest ''held restore target does not match the original seal'')
         else and_then (case restore_original of
             None \<Rightarrow> Inr (rl_incarnation locator)
           | Some original \<Rightarrow>
               let durable = ev_generation_or_btime (dp_evidence original)
               in if rl_incarnation locator \<noteq> None \<and> rl_incarnation locator \<noteq> durable
                  then Inl (InvalidRequest ''restore locator incarnation differs from its original seal'')
                  else Inr durable) (\<lambda>incarnation.
           and_then (ok_or (InvalidRequest ''recovery locator is not a confined relative path'')
             ((if staging then evidence_new_staging else evidence_new) (rl_relative_path locator)
                (rl_filesystem_id locator) (vs_device pre) (vs_inode pre) incarnation (pm_target_mode prepared)))
             (\<lambda>evidence.
               Inr \<lparr>pi_transaction = rq_transaction request, pi_mutation_id = rq_mutation_id request,
                 pi_evidence = evidence, pi_pre_mode = vs_mode pre, pi_expected_mode = pm_target_mode prepared,
                 pi_reverses = reverses\<rparr>)))"

section \<open>The mode change within the log\<close>

text \<open>The log runs its callback once the checks passed and the frame of the intent is synced.\<close>

definition intent_appended :: "append_io \<Rightarrow> permission_intent \<Rightarrow> seal_wal \<Rightarrow> bool" where
  "intent_appended io i w \<longleftrightarrow>
     (case check_intent_append w i of
        Inl _ \<Rightarrow> False
      | Inr _ \<Rightarrow> (case append_synced_at io (intent_record i) w of (Inl _, _) \<Rightarrow> False | (Inr _, _) \<Rightarrow> True))"

definition callback_runs :: "bool \<Rightarrow> append_io \<Rightarrow> permission_intent \<Rightarrow> seal_wal \<Rightarrow> bool" where
  "callback_runs staging io i w \<longleftrightarrow>
     (map_of (wl_staging w) (pi_transaction i) \<noteq> None) = staging \<and> intent_appended io i w"

definition mutation_not_verified :: io_error where
  "mutation_not_verified = OtherError ''held mode mutation was not verified''"

definition callback_result :: "held_mode_change_outcome \<Rightarrow> io_error + unit" where
  "callback_result outcome = (case outcome of AppliedVerified _ _ \<Rightarrow> Inr () | _ \<Rightarrow> Inl mutation_not_verified)"

definition apply_through_wal ::
  "bool \<Rightarrow> bool \<Rightarrow> executor_io \<Rightarrow> io_error + unit \<Rightarrow> permission_intent \<Rightarrow> seal_wal \<Rightarrow>
   (mutation_append_error, unit) wal_op_result option" where
  "apply_through_wal staging defer_applied io mutate i w =
     (if defer_applied then apply_deferred_mutation (xi_intent io) mutate (xi_applied io) i w
      else if staging then apply_staging_permission_mutation (xi_intent io) mutate (xi_applied io) i w
      else apply_permission_mutation (xi_intent io) mutate (xi_applied io) i w)"

definition resolve_not_applied ::
  "bool \<Rightarrow> executor_io \<Rightarrow> transaction_id \<Rightarrow> u64 \<Rightarrow> seal_wal \<Rightarrow>
   (resolve_error, permission_resolution) wal_op_result option" where
  "resolve_not_applied staging io t mid w =
     (if staging then resolve_staging_permission (xi_settle io) (\<lambda>_. Inr ResolvedNotApplied) t mid w
      else resolve_unresolved_permission (xi_settle io) (\<lambda>_. Inr ResolvedNotApplied) t mid w)"

type_synonym execution = "((local_mode_execution_error + local_mode_mutation_result) \<times> mode_world) option"

definition finished :: "local_mode_execution_error + local_mode_mutation_result \<Rightarrow> seal_wal \<Rightarrow> held_evidence \<Rightarrow> u32 \<Rightarrow> execution" where
  "finished r w h mode = Some (r, \<lparr>mw_wal = w, mw_held = h, mw_mode = mode\<rparr>)"

definition settle_mutation ::
  "bool \<Rightarrow> executor_io \<Rightarrow> permission_intent \<Rightarrow> mutation_append_error + unit \<Rightarrow> held_mode_change_outcome option \<Rightarrow>
   seal_wal \<Rightarrow> held_evidence \<Rightarrow> u32 \<Rightarrow> execution" where
  "settle_mutation staging io i wal_result held_outcome w h mode =
     (let t = pi_transaction i; mid = pi_mutation_id i
      in case (wal_result, held_outcome) of
        (Inr _, Some (AppliedVerified _ _)) \<Rightarrow>
          if pi_reverses i = None
          then (case record_applied_seal_lineage t mid (pi_pre_mode i) (pi_expected_mode i) h of
                  (Inl e, h) \<Rightarrow> finished (Inl (SealLineageError e)) w h mode
                | (Inr _, h) \<Rightarrow> finished (Inr (ModeApplied (pi_pre_mode i) (pi_expected_mode i))) w h mode)
          else finished (Inr (ModeApplied (pi_pre_mode i) (pi_expected_mode i))) w h mode
      | (Inl (IntentWal (InvalidState reason)), None) \<Rightarrow>
          finished (Inl (InvalidSealOrInverse (InvalidState reason))) w h mode
      | (Inl (IntentWal e), None) \<Rightarrow> finished (Inl (IntentNotDurable e)) w h mode
      | (Inl (MutationPermissionRecord e), None) \<Rightarrow> finished (Inl (OriginalSealUnreadable e)) w h mode
      | (Inl (AppliedWal e _), Some _) \<Rightarrow>
          finished (Inl (AppliedRecordNotDurable e)) w (invalidate_after_wal_uncertainty h) mode
      | (Inl (Mutation _), Some (AppliedButUnverified _ reason)) \<Rightarrow>
          (case transition_recovery_required (xi_settle io) t w of
             (r, w) \<Rightarrow> finished (Inl (ModeAppliedButUnverified reason r)) w h mode)
      | (Inl (Mutation _), Some (OutcomeUnknown syscall post_failure)) \<Rightarrow>
          (case transition_recovery_required (xi_settle io) t w of
             (r, w) \<Rightarrow> finished (Inl (ModeOutcomeUnknown syscall post_failure r)) w h mode)
      | (Inl (Mutation _), Some (AppliedVerified _ _)) \<Rightarrow>
          finished (Inl (InvalidRequest ''WAL callback and held mode outcome diverged'')) w h mode
      | (Inl (Mutation _), Some _) \<Rightarrow>
          (case resolve_not_applied staging io t mid w of
             None \<Rightarrow> None
           | Some (Inl e, w) \<Rightarrow>
               finished (Inl (NotAppliedResolutionNotDurable e)) w (invalidate_after_wal_uncertainty h) mode
           | Some (Inr _, w) \<Rightarrow> finished (Inr ModeConfirmedNotApplied) w h mode)
      | _ \<Rightarrow> finished (Inl (InvalidRequest ''WAL callback and held mode outcome diverged'')) w h mode)"

text \<open>The callback changes the directory and what is known of it only where it runs.\<close>

definition execute_local_mode_mutation_inner ::
  "mode_env \<Rightarrow> executor_io \<Rightarrow> bool \<Rightarrow> bool \<Rightarrow> local_mode_mutation_request \<Rightarrow> mode_world \<Rightarrow> execution" where
  "execute_local_mode_mutation_inner env io staging defer_applied request world =
     (let w = mw_wal world; mode = mw_mode world
      in case prepare_request env request world of
           (Inl e, h) \<Rightarrow> finished (Inl e) w h mode
         | (Inr (prepared, reverses, restore_original), h) \<Rightarrow>
             (case request_intent staging request prepared reverses restore_original of
                Inl e \<Rightarrow> finished (Inl e) w h mode
              | Inr i \<Rightarrow>
                  let (outcome, h', mode') = apply_wal_bound_mode_change env prepared h mode
                  in case apply_through_wal staging defer_applied io (callback_result outcome) i w of
                       None \<Rightarrow> None
                     | Some (wal_result, w) \<Rightarrow>
                         if callback_runs staging (xi_intent io) i (mw_wal world)
                         then settle_mutation staging io i wal_result (Some outcome) w h' mode'
                         else settle_mutation staging io i wal_result None w h mode))"

definition execute_local_mode_mutation ::
  "mode_env \<Rightarrow> executor_io \<Rightarrow> local_mode_mutation_request \<Rightarrow> mode_world \<Rightarrow> execution" where
  "execute_local_mode_mutation env io = execute_local_mode_mutation_inner env io False False"

definition execute_staging_local_mode_mutation ::
  "mode_env \<Rightarrow> executor_io \<Rightarrow> local_mode_mutation_request \<Rightarrow> mode_world \<Rightarrow> execution" where
  "execute_staging_local_mode_mutation env io = execute_local_mode_mutation_inner env io True False"

definition execute_deferred_mutation ::
  "mode_env \<Rightarrow> executor_io \<Rightarrow> local_mode_mutation_request \<Rightarrow> mode_world \<Rightarrow> execution" where
  "execute_deferred_mutation env io = execute_local_mode_mutation_inner env io True True"

end
