(* ===== verification/Executor_Props.thy ===== *)
theory Executor_Props
  imports Executor Wal_Writer_Props
begin

text \<open>
  What degu-core knows of a directory it holds stays true, and the log and the directory stay together:
  a mode changes only behind its durable intent, and a reported outcome is both the directory's and the
  log's.
\<close>

unbundle bit_operations_syntax

section \<open>The held directory\<close>

text \<open>A mode has twelve bits. Nothing else changes it: an inspection that reads it reads the directory's.\<close>

definition mode_bits :: "u32 \<Rightarrow> bool" where
  "mode_bits m \<longleftrightarrow> m AND NOT 4095 = 0"

definition sees_mode :: "mode_env \<Rightarrow> bool" where
  "sees_mode env \<longleftrightarrow> (\<forall>k m st. mode_bits m \<longrightarrow> fd_stat (me_view env k m) = Some st \<longrightarrow> ds_mode st AND 4095 = m)"

text \<open>A verified mode is the directory's, and a lineage is that of a seal that put the known mode there.\<close>

definition held_inv :: "held_evidence \<Rightarrow> u32 \<Rightarrow> bool" where
  "held_inv h m \<longleftrightarrow> mode_bits m \<and> (he_mode_verified h \<longrightarrow> he_mode h = m) \<and>
     (\<forall>l. he_seal_lineage h = Some l \<longrightarrow>
        l = lineage_of h (ln_transaction l) (ln_mutation_id l) (ln_original_mode l) (he_mode h))"

lemma validate_snapshot_Inr:
  "validate_snapshot actual expected md = Inr () \<longleftrightarrow>
     actual = expected\<lparr>vs_mode := md\<rparr> \<and> vs_effective_uid expected = vs_owner_uid expected"
  by (cases actual, cases expected) (auto simp: validate_snapshot_def split: if_splits)

lemma inspect_held_fd_mode:
  "sees_mode env \<Longrightarrow> mode_bits m \<Longrightarrow> inspect_held_fd (me_view env k m) = Inr s \<Longrightarrow> vs_mode s = m"
  by (auto simp: inspect_held_fd_def sees_mode_def and_then_Inr_iff ok_or_Inr_iff split: if_splits)

lemma inspect_expected_Inr:
  assumes "sees_mode env" "mode_bits m" "inspect_expected (me_view env k m) expected md = Inr s"
  shows "m = md" "s = expected\<lparr>vs_mode := md\<rparr>"
  using assms inspect_held_fd_mode [OF assms(1,2), of k]
  by (auto simp: inspect_expected_def and_then_Inr_iff validate_snapshot_Inr)

lemma certified_snapshot_simps [simp]:
  "vs_mode (certified_snapshot h) = he_mode h" "(certified_snapshot h)\<lparr>vs_mode := he_mode h\<rparr> = certified_snapshot h"
  by (simp_all add: certified_snapshot_def)

lemma held_inv_unverified: "held_inv h m \<Longrightarrow> held_inv (h\<lparr>he_mode_verified := False\<rparr>) m"
  by (auto simp: held_inv_def lineage_of_def)

lemma held_inv_invalid [simp]: "held_inv (invalidate_mode b h) m \<longleftrightarrow> mode_bits m"
  by (simp add: held_inv_def invalidate_mode_def)

lemma held_inv_bits: "held_inv h m \<Longrightarrow> mode_bits m"
  by (simp add: held_inv_def)

definition ready :: "prepared_mode_change \<Rightarrow> held_evidence \<Rightarrow> u32 \<Rightarrow> bool" where
  "ready p h m \<longleftrightarrow> he_mode_verified h \<and> he_mode h = m \<and> pm_pre p = certified_snapshot h \<and>
     mode_bits m \<and> mode_bits (pm_target_mode p) \<and>
     (case pm_kind p of PreparedSeal \<Rightarrow> he_seal_lineage h = None | PreparedRestore l \<Rightarrow> he_seal_lineage h = Some l)"

lemma prepare_exact_cases:
  assumes "sees_mode env" "mode_bits m" "prepare_exact_mode_change (me_view env k m) target kind h = (r, h')"
  shows "case r of Inl _ \<Rightarrow> h' = h \<or> h' = h\<lparr>he_mode_verified := False\<rparr>
     | Inr p \<Rightarrow> h' = h \<and> he_mode h = m \<and> mode_bits target \<and> p = \<lparr>pm_pre = certified_snapshot h, pm_target_mode = target, pm_kind = kind\<rparr>"
  using assms inspect_expected_Inr [OF assms(1,2), of k "certified_snapshot h" "he_mode h"]
  by (auto simp: mode_bits_def prepare_exact_mode_change_def split: if_splits sum.splits)

lemma prepare_request_cases:
  assumes "sees_mode env" "held_inv (mw_held world) (mw_mode world)" "prepare_request env request world = (r, h)"
  shows "held_inv h (mw_mode world)"
    "r = Inr (p, rv, orig) \<Longrightarrow> ready p h (mw_mode world) \<and> (rv = None \<longleftrightarrow> pm_kind p = PreparedSeal)"
proof -
  let ?h = "mw_held world" and ?m = "mw_mode world"
  have bits: "mode_bits ?m" using assms(2) by (simp add: held_inv_def)
  note ex = prepare_exact_cases [OF assms(1) bits, of 0]
  have "(\<exists>e. r = Inl e) \<and> (h = ?h \<or> h = ?h\<lparr>he_mode_verified := False\<rparr>) \<or>
    (\<exists>p rv orig. r = Inr (p, rv, orig) \<and> h = ?h \<and> ready p h ?m \<and> (rv = None \<longleftrightarrow> pm_kind p = PreparedSeal))"
  proof (cases "rq_transform request")
    case (SealMode acquire)
    then show ?thesis using assms(3) bits ex [of _ PreparedSeal ?h]
      by (fastforce simp: prepare_request_def prepare_minimal_seal_def Let_def ready_def
          split: prod.splits sum.splits if_splits)
  next
    case (RestoreMode original)
    then show ?thesis using assms(3) bits ex [of _ "PreparedRestore (the (he_seal_lineage ?h))" ?h]
      by (fastforce simp: prepare_request_def prepare_wal_bound_restore_def Let_def ready_def
          split: prod.splits sum.splits if_splits option.splits)
  qed
  then show "held_inv h ?m"
    "r = Inr (p, rv, orig) \<Longrightarrow> ready p h (mw_mode world) \<and> (rv = None \<longleftrightarrow> pm_kind p = PreparedSeal)"
    using assms(2) held_inv_unverified by auto
qed

text \<open>What a mode change does to the directory, by its outcome.\<close>

definition outcome_mode :: "held_mode_change_outcome \<Rightarrow> u32 \<Rightarrow> u32 \<Rightarrow> u32 \<Rightarrow> bool" where
  "outcome_mode out m target m' =
     (case out of AppliedVerified _ _ \<Rightarrow> m' = target | NotAppliedVerified _ _ \<Rightarrow> m' = m
      | RefusedBeforeMutation _ \<Rightarrow> m' = m | AppliedButUnverified _ _ \<Rightarrow> m' = target
      | OutcomeUnknown _ _ \<Rightarrow> m' = m \<or> m' = target)"

text \<open>What is known of the directory afterwards, by the outcome; \<open>h\<close> is what was known before.\<close>

definition outcome_held :: "held_mode_change_outcome \<Rightarrow> held_evidence \<Rightarrow> u32 \<Rightarrow> held_evidence \<Rightarrow> bool" where
  "outcome_held out h m' h' =
     (case out of
        AppliedVerified _ _ \<Rightarrow> he_mode_verified h' \<and> he_mode h' = m' \<and> he_seal_lineage h' = None
      | NotAppliedVerified _ _ \<Rightarrow> h' = h
      | RefusedBeforeMutation _ \<Rightarrow> h' = h \<or> h' = h\<lparr>he_mode_verified := False\<rparr>
      | AppliedButUnverified _ _ \<Rightarrow> \<not> he_mode_verified h' \<and> he_seal_lineage h' = None
      | OutcomeUnknown _ _ \<Rightarrow> \<not> he_mode_verified h' \<and> he_seal_lineage h' = None)"

lemma outcome_held_inv:
  assumes "outcome_held out h m' h'" "held_inv h m" "outcome_mode out m target m'" "mode_bits target"
  shows "held_inv h' m'"
  using assms held_inv_unverified [OF assms(2)]
  by (cases out) (auto simp: outcome_held_def outcome_mode_def held_inv_def)

lemma ready_takes_lineage:
  assumes "ready p h m"
  obtains taken h1 where "take_lineage (pm_kind p) h = Inr (taken, h1)" "he_seal_lineage h1 = None" "he_mode h1 = he_mode h"
    "(case taken of None \<Rightarrow> h1 | Some l \<Rightarrow> h1\<lparr>he_seal_lineage := Some l\<rparr>) = h"
proof (cases "pm_kind p")
  case PreparedSeal
  with assms that show thesis by (simp add: take_lineage_def ready_def)
next
  case (PreparedRestore l)
  with assms have l: "he_seal_lineage h = Some l" by (simp add: ready_def)
  then have "h\<lparr>he_seal_lineage := None, he_seal_lineage := Some l\<rparr> = h" by (cases h) simp
  with l PreparedRestore that [of "Some l" "h\<lparr>he_seal_lineage := None\<rparr>"] show thesis by (simp add: take_lineage_def)
qed

lemma apply_mode_change_cases:
  assumes "sees_mode env" "ready p h m" "apply_wal_bound_mode_change env p h m = (out, h', m')"
  shows "outcome_mode out m (pm_target_mode p) m' \<and> outcome_held out h m' h'"
proof (cases "inspect_expected (me_view env 1 m) (pm_pre p) (vs_mode (pm_pre p))")
  case (Inl e)
  with assms(3) show ?thesis by (auto simp: apply_wal_bound_mode_change_def outcome_mode_def outcome_held_def)
next
  case pre: (Inr pre)
  obtain taken h1 where t: "take_lineage (pm_kind p) h = Inr (taken, h1)" "he_seal_lineage h1 = None"
    "he_mode h1 = he_mode h" "(case taken of None \<Rightarrow> h1 | Some l \<Rightarrow> h1\<lparr>he_seal_lineage := Some l\<rparr>) = h"
    by (rule ready_takes_lineage [OF assms(2)])
  note run = assms(3) [unfolded apply_wal_bound_mode_change_def pre t(1) sum.case prod.case Let_def]
  show ?thesis
  proof (cases "me_chmod env")
    case None
    show ?thesis
    proof (cases "inspect_expected (me_view env 2 (pm_target_mode p)) (pm_pre p) (pm_target_mode p)")
      case (Inl e)
      with run None show ?thesis
        by (auto simp: finish_successful_chmod_def outcome_mode_def outcome_held_def invalidate_mode_def Let_def)
    next
      case (Inr post)
      with run None inspect_expected_Inr [OF assms(1) _ Inr] t(2) assms(2) [unfolded ready_def] show ?thesis
        by (auto simp: finish_successful_chmod_def outcome_mode_def outcome_held_def)
    qed
  next
    case (Some errno)
    define m2 where "m2 = (if me_lands env then pm_target_mode p else m)"
    show ?thesis
    proof (cases "inspect_expected (me_view env 2 m2) (pm_pre p) (vs_mode (pm_pre p))")
      case (Inl e)
      with run Some show ?thesis
        by (auto simp: m2_def [symmetric] outcome_mode_def outcome_held_def invalidate_mode_def) (auto simp: m2_def)
    next
      case (Inr s)
      have "m2 = m" using inspect_expected_Inr(1) [OF assms(1) _ Inr] assms(2) by (auto simp: ready_def m2_def)
      with run Some Inr t(4) show ?thesis
        by (auto simp: m2_def [symmetric] outcome_mode_def outcome_held_def)
    qed
  qed
qed

section \<open>The log\<close>

lemma bt_insert_same: "map_of (bt_insert k v xs) k = Some v"
  by (induction xs) auto

definition mutation_status :: "seal_wal \<Rightarrow> transaction_id \<Rightarrow> u64 \<Rightarrow> application_status option" where
  "mutation_status w t mid = map_option pe_application (ledger_entry (wal_ledger w t) mid)"

lemma record_resolved_status:
  "record_resolved t mid r w = Some w' \<Longrightarrow> mutation_status w' t mid = Some (resolution_status r)"
  by (cases r) (auto simp: record_resolved_def record_resolution_def mutation_status_def ledger_entry_def wal_ledger_def
      ledger_insert_def Let_def Option.bind_eq_Some_conv bt_insert_same update_conv' split: option.splits)

text \<open>The frame of an intent is in the file right after what was committed, and within the synced length.\<close>

definition intent_durable :: "seal_wal \<Rightarrow> permission_intent \<Rightarrow> seal_wal \<Rightarrow> bool" where
  "intent_durable w i w' \<longleftrightarrow> (\<exists>frame rest. encode_frame (intent_record i) = Inr frame \<and>
     wl_writer w' = wl_writer w @ frame @ rest \<and> wl_committed_len w + length frame \<le> wl_synced_len w')"

lemma intent_durable_grows:
  assumes "intent_durable w i w1" "\<exists>rest. wl_writer w2 = wl_writer w1 @ rest" "wl_synced_len w1 \<le> wl_synced_len w2"
  shows "intent_durable w i w2"
  using assms unfolding intent_durable_def by fastforce

lemma and_update_grows:
  assumes "\<And>w. wl_writer (f w) = wl_writer w" "\<And>w. wl_synced_len (f w) = wl_synced_len w"
    and "wl_synced_len w \<le> wl_committed_len w" "and_update (append_synced io r w) f = (x, w')"
  shows "(\<exists>rest. wl_writer w' = wl_writer w @ rest) \<and> wl_synced_len w \<le> wl_synced_len w'"
proof -
  obtain y w1 where y: "append_at io r True w = (y, w1)" by fastforce
  have "wl_writer w' = wl_writer w1 \<and> wl_synced_len w' = wl_synced_len w1"
    using assms(1,2,4) y
    by (cases y) (auto simp: append_synced_def append_synced_at_def and_update_def)
  with append_grows(1,3) [OF y] assms(3) show ?thesis by auto
qed

lemma recovery_required_grows:
  assumes "wl_synced_len w \<le> wl_committed_len w" "transition_recovery_required io t w = (x, w')"
  shows "(\<exists>rest. wl_writer w' = wl_writer w @ rest) \<and> wl_synced_len w \<le> wl_synced_len w'"
  using assms and_update_grows [OF _ _ assms(1), of "\<lambda>w. w\<lparr>wl_states := AList.update t RecoveryRequired (wl_states w)\<rparr>"]
  by (auto simp: transition_recovery_required_def transition_inner_def invalid_op_def Let_def
      split: option.splits if_splits)

lemma resolve_not_applied_cases:
  assumes "wl_synced_len w \<le> wl_committed_len w" "resolve_not_applied staging io t mid w = Some (r, w')"
  shows "(\<exists>rest. wl_writer w' = wl_writer w @ rest) \<and> wl_synced_len w \<le> wl_synced_len w'"
    "r = Inr res \<Longrightarrow> mutation_status w' t mid = Some ConfirmedNotApplied"
proof -
  have "w' = w \<and> (\<exists>e. r = Inl e) \<or> (\<exists>io' x w1. append_synced io' (PermissionNotApplied t mid) w = (x, w1) \<and>
      (case x of Inl _ \<Rightarrow> w' = w1 \<and> (\<exists>e. r = Inl e) | Inr _ \<Rightarrow> record_resolved t mid ResolvedNotApplied w1 = Some w'))"
    using assms(2)
    by (fastforce simp: resolve_not_applied_def resolve_staging_permission_def resolve_unresolved_permission_def
        resolve_unresolved_permission_inner_def resolution_record_def split: if_splits option.splits sum.splits prod.splits)
  then consider "w' = w" "\<exists>e. r = Inl e"
    | io' x w1 where "append_synced io' (PermissionNotApplied t mid) w = (x, w1)"
      "case x of Inl _ \<Rightarrow> w' = w1 \<and> (\<exists>e. r = Inl e) | Inr _ \<Rightarrow> record_resolved t mid ResolvedNotApplied w1 = Some w'"
    by blast
  then have "((\<exists>rest. wl_writer w' = wl_writer w @ rest) \<and> wl_synced_len w \<le> wl_synced_len w') \<and>
    (r = Inr res \<longrightarrow> mutation_status w' t mid = Some ConfirmedNotApplied)"
  proof cases
    case 2
    have g: "(\<exists>rest. wl_writer w1 = wl_writer w @ rest) \<and> wl_synced_len w \<le> wl_synced_len w1"
      using and_update_grows [OF _ _ assms(1), of id io' "PermissionNotApplied t mid" x w1] 2(1)
      by (cases "append_synced io' (PermissionNotApplied t mid) w") (auto simp: and_update_def append_synced_def split: sum.splits)
    show ?thesis
    proof (cases x)
      case (Inl e)
      with 2(2) g show ?thesis by auto
    next
      case (Inr u)
      with 2(2) have r: "record_resolved t mid ResolvedNotApplied w1 = Some w'" by simp
      then have "wl_writer w' = wl_writer w1" "wl_synced_len w' = wl_synced_len w1"
        by (auto simp: record_resolved_def ledger_insert_def)
      with g record_resolved_status [OF r] show ?thesis by simp
    qed
  qed auto
  then show "(\<exists>rest. wl_writer w' = wl_writer w @ rest) \<and> wl_synced_len w \<le> wl_synced_len w'"
    "r = Inr res \<Longrightarrow> mutation_status w' t mid = Some ConfirmedNotApplied" by blast+
qed

text \<open>The log answers by whether its callback ran, and then the intent is durable.\<close>

definition ran_result :: "io_error + unit \<Rightarrow> permission_intent \<Rightarrow> seal_wal \<Rightarrow> mutation_append_error + unit \<Rightarrow> seal_wal \<Rightarrow> bool" where
  "ran_result mutate i w r w' \<longleftrightarrow> intent_durable w i w' \<and>
     (case mutate of
        Inl e \<Rightarrow> r = Inl (Mutation e) \<and> wl_synced_len w' \<le> wl_committed_len w'
      | Inr _ \<Rightarrow> (\<exists>e b. r = Inl (AppliedWal e b)) \<or>
          r = Inr () \<and> mutation_status w' (pi_transaction i) (pi_mutation_id i) = Some Applied)"

definition refused_result :: "mutation_append_error + unit \<Rightarrow> bool" where
  "refused_result r \<longleftrightarrow> (\<exists>e. r = Inl (IntentWal e)) \<or> (\<exists>e. r = Inl (MutationPermissionRecord e))"

lemma check_intent_refuses:
  assumes "check_intent_append w i = Inl e"
  shows "refused_result (Inl e)"
proof -
  have "check_inverse w phase i = Inl e \<Longrightarrow> refused_result (Inl e)" for phase
    by (auto simp: check_inverse_def refused_result_def Let_def refuse_intent_def split: option.splits sum.splits if_splits)
  with assms show ?thesis
    by (auto simp: check_intent_append_def refused_result_def Let_def refuse_intent_def and_then_def
        split: option.splits sum.splits if_splits)
qed

lemma apply_inner_cases:
  assumes "apply_permission_mutation_inner io mutate io' i d w = Some (r, w')"
  shows "if intent_appended io i w then ran_result mutate i w r w' else refused_result r"
proof (cases "check_intent_append w i")
  case (Inl e)
  with assms check_intent_refuses [OF Inl] show ?thesis
    by (simp add: apply_permission_mutation_inner_def intent_appended_def)
next
  case chk: (Inr phase)
  obtain x w1 where x: "append_synced_at io (intent_record i) w = (x, w1)" by fastforce
  show ?thesis
  proof (cases x)
    case (Inl e)
    with x chk assms show ?thesis
      by (auto simp: apply_permission_mutation_inner_def intent_appended_def refused_result_def Let_def)
  next
    case (Inr ext)
    then obtain frame where f: "encode_frame (intent_record i) = Inr frame" "wl_writer w1 = wl_writer w @ frame"
      "wl_synced_len w1 = wl_committed_len w + length frame" "wl_committed_len w1 = wl_synced_len w1"
      using x append_grows(2) by (metis append_synced_at_def)
    note run = assms [unfolded apply_permission_mutation_inner_def Let_def chk sum.case x Inr prod.case]
    note g = applied_grows [OF run]
    have "intent_durable w i w'"
      using g f unfolding intent_durable_def by (fastforce simp: ledger_insert_def)
    moreover have "case mutate of Inl e \<Rightarrow> r = Inl (Mutation e) \<and> wl_synced_len w' \<le> wl_committed_len w'
      | Inr _ \<Rightarrow> (\<exists>e b. r = Inl (AppliedWal e b)) \<or>
          r = Inr () \<and> mutation_status w' (pi_transaction i) (pi_mutation_id i) = Some Applied"
      using run f(4) record_resolved_status [of "pi_transaction i" "pi_mutation_id i" ResolvedApplied]
      by (auto simp: ledger_insert_def split: sum.splits prod.splits)
    ultimately show ?thesis using chk x Inr by (simp add: intent_appended_def ran_result_def)
  qed
qed

lemma apply_through_wal_cases:
  assumes "apply_through_wal staging d io mutate i w = Some (r, w')" "d \<longrightarrow> staging"
  shows "if callback_runs staging (xi_intent io) i w then ran_result mutate i w r w' else refused_result r"
proof -
  let ?staged = "map_of (wl_staging w) (pi_transaction i) \<noteq> None"
  have "(if ?staged = staging then apply_permission_mutation_inner (xi_intent io) mutate (xi_applied io) i d w
      else Some (refuse_intent (if staging then ''transaction is not staged''
        else ''staging permission mutation requires the high-level engine''), w)) = Some (r, w')"
    using assms by (auto simp: apply_through_wal_def apply_deferred_mutation_def apply_staging_permission_mutation_def
        apply_permission_mutation_def refuse_mutation_def split: if_splits)
  then show ?thesis
    using apply_inner_cases [of "xi_intent io" mutate "xi_applied io" i d w r w']
    by (auto simp: callback_runs_def refused_result_def refuse_intent_def split: if_splits)
qed

section \<open>Settling\<close>

definition diverged :: local_mode_execution_error where
  "diverged = InvalidRequest ''WAL callback and held mode outcome diverged''"

definition unreached :: "local_mode_execution_error + local_mode_mutation_result \<Rightarrow> bool" where
  "unreached r \<longleftrightarrow> r = Inl diverged \<or> (\<exists>e. r = Inl (SealLineageError e))"

text \<open>A reported outcome is the directory's and the log's.\<close>

definition reports :: "permission_intent \<Rightarrow> u32 \<Rightarrow> local_mode_execution_error + local_mode_mutation_result \<Rightarrow> mode_world \<Rightarrow> bool" where
  "reports i m r world =
     (let status = mutation_status (mw_wal world) (pi_transaction i) (pi_mutation_id i)
      in case r of
           Inr (ModeApplied pre post) \<Rightarrow> m = pre \<and> mw_mode world = post \<and> he_mode_verified (mw_held world) \<and> status = Some Applied
         | Inr ModeConfirmedNotApplied \<Rightarrow> mw_mode world = m \<and> status = Some ConfirmedNotApplied
         | Inl _ \<Rightarrow> True)"

lemma settle_refused:
  assumes "refused_result wr" "settle_mutation staging io i wr None w h m = Some (r, world)"
  shows "\<exists>e. r = Inl e" "\<not> unreached r" "world = \<lparr>mw_wal = w, mw_held = h, mw_mode = m\<rparr>"
  using assms
  by (auto simp: refused_result_def settle_mutation_def finished_def unreached_def diverged_def split: append_error.splits)

lemma lineage_recorded:
  assumes "held_inv h m" "he_mode_verified h" "he_seal_lineage h = None" "sealed = m"
  obtains h' where "record_applied_seal_lineage t mid original sealed h = (Inr (), h')" "held_inv h' m" "he_mode_verified h'"
  using assms by (auto simp: record_applied_seal_lineage_def held_inv_def lineage_of_def)

definition settled :: "seal_wal \<Rightarrow> permission_intent \<Rightarrow> u32 \<Rightarrow> u32 \<Rightarrow> local_mode_execution_error + local_mode_mutation_result \<Rightarrow>
  mode_world \<Rightarrow> bool" where
  "settled w0 i m m' r world \<longleftrightarrow> mw_mode world = m' \<and> held_inv (mw_held world) m' \<and>
     intent_durable w0 i (mw_wal world) \<and> \<not> unreached r \<and> reports i m r world"

lemmas settle_defs = settle_mutation_def finished_def settled_def unreached_def diverged_def reports_def

lemma settle_recovery:
  assumes "settle_mutation staging io i (Inl (Mutation err)) (Some out) w h m' = Some (r, world)"
    and "(\<exists>t e. out = AppliedButUnverified t e) \<or> (\<exists>n e. out = OutcomeUnknown n e)"
    and "intent_durable w0 i w" "wl_synced_len w \<le> wl_committed_len w" "held_inv h m'"
  shows "settled w0 i m m' r world"
proof -
  obtain x w1 where x: "transition_recovery_required (xi_settle io) (pi_transaction i) w = (x, w1)" by fastforce
  note g = recovery_required_grows [OF assms(4) x]
  have "intent_durable w0 i w1" by (rule intent_durable_grows [OF assms(3) conjunct1 [OF g] conjunct2 [OF g]])
  with assms(1,2,5) x show ?thesis by (auto simp: settle_defs)
qed

lemma settle_not_applied:
  assumes "settle_mutation staging io i (Inl (Mutation err)) (Some out) w h m = Some (r, world)"
    and "(\<exists>sn n. out = NotAppliedVerified sn n) \<or> (\<exists>e. out = RefusedBeforeMutation e)"
    and "intent_durable w0 i w" "wl_synced_len w \<le> wl_committed_len w" "held_inv h m"
  shows "settled w0 i m m r world"
proof -
  have run: "(case resolve_not_applied staging io (pi_transaction i) (pi_mutation_id i) w of
       None \<Rightarrow> None
     | Some (Inl e, w) \<Rightarrow> finished (Inl (NotAppliedResolutionNotDurable e)) w (invalidate_after_wal_uncertainty h) m
     | Some (Inr _, w) \<Rightarrow> finished (Inr ModeConfirmedNotApplied) w h m) = Some (r, world)"
    using assms(1,2) by (auto simp: settle_mutation_def)
  then obtain x w1 where x: "resolve_not_applied staging io (pi_transaction i) (pi_mutation_id i) w = Some (x, w1)"
    by (cases "resolve_not_applied staging io (pi_transaction i) (pi_mutation_id i) w") auto
  note c = resolve_not_applied_cases [OF assms(4) x]
  have "intent_durable w0 i w1" by (rule intent_durable_grows [OF assms(3) conjunct1 [OF c(1)] conjunct2 [OF c(1)]])
  with run x c(2) assms(5) show ?thesis
    by (cases x) (auto simp: settle_defs invalidate_after_wal_uncertainty_def dest: held_inv_bits)
qed

lemma settle_applied:
  assumes "settle_mutation staging io i wr (Some (AppliedVerified a b)) w h m' = Some (r, world)"
    and "(\<exists>e b. wr = Inl (AppliedWal e b)) \<or>
      wr = Inr () \<and> mutation_status w (pi_transaction i) (pi_mutation_id i) = Some Applied"
    and "intent_durable w0 i w" "held_inv h m'" "he_mode_verified h" "he_seal_lineage h = None"
    and "pi_expected_mode i = m'" "pi_pre_mode i = m"
  shows "settled w0 i m m' r world"
proof -
  obtain h' where "record_applied_seal_lineage (pi_transaction i) (pi_mutation_id i) (pi_pre_mode i) (pi_expected_mode i) h =
    (Inr (), h')" "held_inv h' m'" "he_mode_verified h'"
    using lineage_recorded [OF assms(4-7)] by blast
  with assms held_inv_bits [OF assms(4)] show ?thesis
    by (auto simp: settle_defs invalidate_after_wal_uncertainty_def Let_def split: if_splits)
qed

lemma settle_ran:
  assumes "settle_mutation staging io i wr (Some out) w h m' = Some (r, world)"
    and ran: "ran_result (callback_result out) i w0 wr w"
    and held: "outcome_held out h0 m' h" "held_inv h m'" "outcome_mode out m (pi_expected_mode i) m'" "pi_pre_mode i = m"
  shows "settled w0 i m m' r world"
proof -
  have dur: "intent_durable w0 i w" using ran by (simp add: ran_result_def)
  have not_verified: "wr = Inl (Mutation mutation_not_verified)" "wl_synced_len w \<le> wl_committed_len w"
    if "callback_result out = Inl mutation_not_verified" using ran that by (simp_all add: ran_result_def)
  show ?thesis
  proof (cases out)
    case (AppliedVerified a b)
    with assms dur show ?thesis
      by (intro settle_applied) (auto simp: ran_result_def callback_result_def outcome_held_def outcome_mode_def)
  next
    case (NotAppliedVerified sn n)
    with assms(1) held dur not_verified show ?thesis
      by (auto simp: callback_result_def outcome_mode_def intro: settle_not_applied)
  next
    case (RefusedBeforeMutation e)
    with assms(1) held dur not_verified show ?thesis
      by (auto simp: callback_result_def outcome_mode_def intro: settle_not_applied)
  next
    case (AppliedButUnverified t e)
    with assms(1) held dur not_verified show ?thesis by (auto simp: callback_result_def intro: settle_recovery)
  next
    case (OutcomeUnknown n e)
    with assms(1) held dur not_verified show ?thesis by (auto simp: callback_result_def intro: settle_recovery)
  qed
qed

section \<open>One execution\<close>

lemma request_intent_Inr:
  assumes "request_intent staging request p reverses original = Inr i"
  shows "pi_transaction i = rq_transaction request" "pi_mutation_id i = rq_mutation_id request"
    "pi_pre_mode i = vs_mode (pm_pre p)" "pi_expected_mode i = pm_target_mode p"
  using assms by (auto simp: request_intent_def Let_def and_then_Inr_iff split: if_splits)

lemma early_errors:
  "prepare_request env request world = (Inl e, h) \<Longrightarrow> \<not> unreached (Inl e)"
  "request_intent staging request p reverses original = Inl e \<Longrightarrow> \<not> unreached (Inl e)"
  by (auto simp: prepare_request_def request_intent_def unreached_def diverged_def Let_def and_then_def ok_or_def
      split: local_mode_transform.splits prod.splits sum.splits if_splits option.splits)

definition intended :: "local_mode_mutation_request \<Rightarrow> permission_intent \<Rightarrow> bool" where
  "intended request i \<longleftrightarrow> pi_transaction i = rq_transaction request \<and> pi_mutation_id i = rq_mutation_id request"

text \<open>The part of an execution from the log's callback on.\<close>

lemma executed_intent:
  assumes "sees_mode env" "held_inv h m" "ready p h m" "d \<longrightarrow> staging"
    and "apply_wal_bound_mode_change env p h m = (out, h', m')" "pi_pre_mode i = m" "pi_expected_mode i = pm_target_mode p"
    and "apply_through_wal staging d io (callback_result out) i w = Some (wr, w1)"
    and "(if callback_runs staging (xi_intent io) i w then settle_mutation staging io i wr (Some out) w1 h' m'
          else settle_mutation staging io i wr None w1 h m) = Some (r, world')"
  shows "settled w i m (mw_mode world') r world' \<and> (mw_mode world' = m \<or> mw_mode world' = pi_expected_mode i) \<or>
    (\<exists>e. r = Inl e) \<and> \<not> unreached r \<and> held_inv (mw_held world') (mw_mode world') \<and> mw_mode world' = m"
proof -
  have o: "outcome_mode out m (pi_expected_mode i) m'" "outcome_held out h m' h'"
    using apply_mode_change_cases [OF assms(1,3,5)] assms(7) by simp_all
  have "mode_bits (pi_expected_mode i)" using assms(3,7) by (simp add: ready_def)
  note inv' = outcome_held_inv [OF o(2) assms(2) o(1) this]
  note cases = apply_through_wal_cases [OF assms(8,4)]
  show ?thesis
  proof (cases "callback_runs staging (xi_intent io) i w")
    case True
    with assms(6,9) cases o inv' have "settled w i m m' r world'" by (intro settle_ran) simp_all
    moreover have "m' = m \<or> m' = pi_expected_mode i" using o(1) by (cases out) (auto simp: outcome_mode_def)
    ultimately show ?thesis by (simp add: settled_def)
  next
    case False
    with assms(2,9) cases settle_refused [of wr staging io i w1 h m r world'] show ?thesis by auto
  qed
qed

text \<open>C4: The executor keeps the log and the directory together. For every request, every answer of
  the system and every outcome of an append, where nothing else changes the directory's mode: what is
  known of the directory stays true; the mode changes only once the intent with the old and the new
  mode is durable in the log; a mode reported as applied is the directory's, verified, and recorded as
  applied; a change reported as not applied left the directory as it was and is recorded so. Neither of
  the two errors for an impossible combination of answers is ever returned.\<close>

theorem executor_keeps_log_and_directory_together:
  assumes "sees_mode env" "held_inv (mw_held world) (mw_mode world)" "d \<longrightarrow> staging"
    and "execute_local_mode_mutation_inner env io staging d request world = Some (r, world')"
  shows "held_inv (mw_held world') (mw_mode world') \<and> \<not> unreached r \<and>
    (mw_mode world' \<noteq> mw_mode world \<longrightarrow> (\<exists>i. pi_transaction i = rq_transaction request \<and>
       pi_mutation_id i = rq_mutation_id request \<and> pi_pre_mode i = mw_mode world \<and>
       pi_expected_mode i = mw_mode world' \<and> intent_durable (mw_wal world) i (mw_wal world'))) \<and>
    (let status = mutation_status (mw_wal world') (rq_transaction request) (rq_mutation_id request)
     in case r of
          Inr (ModeApplied pre post) \<Rightarrow> mw_mode world = pre \<and> mw_mode world' = post \<and>
            he_mode_verified (mw_held world') \<and> status = Some Applied
        | Inr ModeConfirmedNotApplied \<Rightarrow> mw_mode world' = mw_mode world \<and> status = Some ConfirmedNotApplied
        | Inl _ \<Rightarrow> True)"
proof -
  let ?m = "mw_mode world" and ?w = "mw_wal world"
  obtain x h where x: "prepare_request env request world = (x, h)" by fastforce
  note prep = prepare_request_cases [OF assms(1,2) x]
  note run = assms(4) [unfolded execute_local_mode_mutation_inner_def Let_def x prod.case]
  show ?thesis
  proof (cases x)
    case (Inl e)
    with run prep(1) early_errors(1) [of env request world e h] x show ?thesis by (auto simp: finished_def)
  next
    case (Inr y)
    then obtain p rv orig where y: "x = Inr (p, rv, orig)" by (cases y) auto
    have ready: "ready p h ?m" using prep(2) [OF y] by simp
    show ?thesis
    proof (cases "request_intent staging request p rv orig")
      case (Inl e)
      with run y prep(1) early_errors(2) [OF Inl] show ?thesis by (auto simp: finished_def)
    next
      case (Inr i)
      note i = request_intent_Inr [OF Inr]
      obtain out h' m' where out: "apply_wal_bound_mode_change env p h ?m = (out, h', m')" by (metis prod_cases3)
      have pre: "pi_pre_mode i = ?m" using i(3) ready by (simp add: ready_def)
      note run' = run [unfolded y sum.case prod.case Inr out Let_def]
      then obtain wr w where wr: "apply_through_wal staging d io (callback_result out) i ?w = Some (wr, w)"
        by (cases "apply_through_wal staging d io (callback_result out) i ?w") auto
      note run'' = run' [unfolded wr option.case prod.case]
      from executed_intent [OF assms(1) prep(1) ready assms(3) out pre i(4) wr run''] i(1,2) pre show ?thesis
        unfolding settled_def reports_def by auto
    qed
  qed
qed

section \<open>Sealing and restoring\<close>

text \<open>Nothing fails, and the descriptor shows the same directory at every mode.\<close>

definition steady :: "mode_env \<Rightarrow> held_evidence \<Rightarrow> bool" where
  "steady env h \<longleftrightarrow> me_chmod env = None \<and> he_effective_uid h = he_owner_uid h \<and>
     (\<forall>k m. m AND NOT 4095 = 0 \<longrightarrow> inspect_held_fd (me_view env k m) = Inr ((certified_snapshot h)\<lparr>vs_mode := m\<rparr>))"

lemma sealed_mode_confined:
  assumes "m AND NOT 4095 = 0"
  shows "crate_minimal_sealed_mode m AND NOT 4095 = 0" "(m OR 192) AND NOT 4095 = 0"
proof -
  have "(x AND y) AND NOT 4095 = 0" if "x AND NOT 4095 = 0" for x y :: u32
    using that by (metis and.assoc and.commute and_zero_eq)
  with assms show "crate_minimal_sealed_mode m AND NOT 4095 = 0" by (simp add: crate_minimal_sealed_mode_def Let_def)
  show "(m OR 192) AND NOT 4095 = 0" using assms by (simp add: bit.conj_disj_distrib2)
qed

text \<open>The two copies of the sealed mode agree.\<close>

lemma crate_sealed_mode_eq: "crate_minimal_sealed_mode m = minimal_sealed_mode m"
  by (simp add: crate_minimal_sealed_mode_def minimal_sealed_mode_def GROUP_WRITE_def GROUP_EXECUTE_def OTHER_WRITE_def
      OTHER_EXECUTE_def)

lemma sealed_mode_private:
  "crate_minimal_sealed_mode m AND 24 \<noteq> 24" "crate_minimal_sealed_mode m AND 3 \<noteq> 3"
proof -
  have "(24 :: u32) = 16 OR 8" "(3 :: u32) = 2 OR 1" by simp_all
  then have "m' AND 24 = 24 \<longleftrightarrow> bit m' 3 \<and> bit m' 4" "m' AND 3 = 3 \<longleftrightarrow> bit m' 0 \<and> bit m' 1" for m' :: u32
    unfolding and_eq_mask_iff by (simp_all only: bit_or_iff bit_u32_exp) auto
  then show "crate_minimal_sealed_mode m AND 24 \<noteq> 24" "crate_minimal_sealed_mode m AND 3 \<noteq> 3"
    unfolding crate_sealed_mode_eq by (auto simp: bit_minimal_sealed_mode)
qed

lemma steady_inspect:
  assumes "steady env h" "m AND NOT 4095 = 0" "sn = (certified_snapshot h)\<lparr>vs_mode := m'\<rparr>"
  shows "inspect_expected (me_view env k m) sn m = Inr ((certified_snapshot h)\<lparr>vs_mode := m\<rparr>)"
proof -
  have "validate_snapshot ((certified_snapshot h)\<lparr>vs_mode := m\<rparr>) sn m = Inr ()"
    using assms(1) unfolding validate_snapshot_Inr assms(3) by (simp add: steady_def certified_snapshot_def)
  then show ?thesis using assms(1,2) by (simp add: inspect_expected_def steady_def)
qed

lemma steady_apply:
  assumes "steady env h" "m AND NOT 4095 = 0" "target AND NOT 4095 = 0" "take_lineage kind g = Inr (taken, g1)"
  shows "apply_wal_bound_mode_change env
      \<lparr>pm_pre = (certified_snapshot h)\<lparr>vs_mode := m\<rparr>, pm_target_mode = target, pm_kind = kind\<rparr> g m =
    (AppliedVerified ((certified_snapshot h)\<lparr>vs_mode := m\<rparr>) ((certified_snapshot h)\<lparr>vs_mode := target\<rparr>),
     g1\<lparr>he_mode := target, he_mode_verified := True\<rparr>, target)"
  using assms steady_inspect [OF assms(1,2) refl, of 1 m] steady_inspect [OF assms(1,3) refl, of 2 m]
  by (simp add: apply_wal_bound_mode_change_def finish_successful_chmod_def steady_def Let_def)

text \<open>C14: A restore undoes a seal. On a directory whose mode was just certified, where nothing fails: a
  seal is prepared and applied, the sealed mode leaves nobody but the owner write access to the names
  in the directory, the lineage is recorded, and a restore that names the same transaction and mutation
  is prepared and applied. Afterwards the directory has its original mode, and what is known of it is
  exactly what was known before.\<close>

theorem restore_undoes_seal:
  assumes "steady env h" "he_mode h AND NOT 4095 = 0" "he_mode_verified h" "he_seal_lineage h = None"
  shows "\<exists>p a b h1 h2 q c d sealed.
    prepare_minimal_seal (me_view env 0 (he_mode h)) acquire h = (Inr p, h) \<and>
    apply_wal_bound_mode_change env p h (he_mode h) = (AppliedVerified a b, h1, sealed) \<and>
    record_applied_seal_lineage t mid (he_mode h) sealed h1 = (Inr (), h2) \<and>
    verify_namespace_exclusive (me_view env k sealed) h2 = Inr () \<and>
    prepare_wal_bound_restore (me_view env 0 sealed) t mid sealed (he_mode h) h2 = (Inr q, h2) \<and>
    apply_wal_bound_mode_change env q h2 sealed = (AppliedVerified c d, h, he_mode h)"
proof -
  define s where "s = crate_minimal_sealed_mode (if acquire then he_mode h OR 192 else he_mode h)"
  define sn where "sn m = (certified_snapshot h)\<lparr>vs_mode := m\<rparr>" for m
  define p where "p = \<lparr>pm_pre = sn (he_mode h), pm_target_mode = s, pm_kind = PreparedSeal\<rparr>"
  define h1 where "h1 = h\<lparr>he_mode := s, he_mode_verified := True\<rparr>"
  define l where "l = lineage_of h1 t mid (he_mode h) s"
  define h2 where "h2 = h1\<lparr>he_seal_lineage := Some l\<rparr>"
  define q where "q = \<lparr>pm_pre = sn s, pm_target_mode = he_mode h, pm_kind = PreparedRestore l\<rparr>"
  have s: "s AND NOT 4095 = 0"
    using sealed_mode_confined [OF assms(2)] sealed_mode_confined(1) by (simp add: s_def)
  have snap: "certified_snapshot h = sn (he_mode h)" "certified_snapshot h2 = sn s"
    by (simp_all add: sn_def h2_def h1_def certified_snapshot_def)
  note see = steady_inspect [OF assms(1), folded sn_def]
  note change = steady_apply [OF assms(1), folded sn_def]
  have "prepare_minimal_seal (me_view env 0 (he_mode h)) acquire h = (Inr p, h)"
    using see [OF assms(2) snap(1)] assms(3,4) s
    by (simp add: prepare_minimal_seal_def prepare_exact_mode_change_def s_def [symmetric] p_def snap(1))
  moreover have "apply_wal_bound_mode_change env p h (he_mode h) = (AppliedVerified (sn (he_mode h)) (sn s), h1, s)"
    using change [OF assms(2) s, of PreparedSeal h None h] by (simp add: p_def h1_def take_lineage_def)
  moreover have "record_applied_seal_lineage t mid (he_mode h) s h1 = (Inr (), h2)"
    using assms(4) by (simp add: record_applied_seal_lineage_def h2_def h1_def l_def)
  moreover have "verify_namespace_exclusive (me_view env k s) h2 = Inr ()"
    using see [OF s snap(2), of k] sealed_mode_private
    by (simp add: verify_namespace_exclusive_def verify_current_mode_def inspect_expected_def and_then_Inr_iff snap(2))
       (simp add: h2_def h1_def s_def)
  moreover have "prepare_wal_bound_restore (me_view env 0 s) t mid s (he_mode h) h2 = (Inr q, h2)"
  proof -
    have h2: "he_mode h2 = s" "he_mode_verified h2" "he_seal_lineage h2 = Some l" by (simp_all add: h2_def h1_def)
    have "l = lineage_of h2 t mid (he_mode h) s" by (simp add: l_def h2_def lineage_of_def)
    then have "prepare_wal_bound_restore (me_view env 0 s) t mid s (he_mode h) h2 =
      prepare_exact_mode_change (me_view env 0 s) (he_mode h) (PreparedRestore l) h2"
      using h2 by (simp add: prepare_wal_bound_restore_def lineage_of_def)
    then show ?thesis using see [OF s snap(2), of 0] assms(2) h2(1) by (simp add: prepare_exact_mode_change_def q_def)
  qed
  moreover have "apply_wal_bound_mode_change env q h2 s = (AppliedVerified (sn s) (sn (he_mode h)), h, he_mode h)"
    using change [OF s assms(2), of "PreparedRestore l" h2 "Some l" h1] assms(3,4)
    by (simp add: q_def take_lineage_def h2_def) (simp add: h1_def)
  ultimately show ?thesis by blast
qed

section \<open>A directory on ext4\<close>

definition sample_view :: "u32 \<Rightarrow> descriptor_view" where
  "sample_view m = \<lparr>fd_flags = Some False, fd_mount_id = Some (Some 36),
     fd_mountinfo = Some (points ''36 / - ext4 a''), fd_filesystem_magic = Some EXT4_MAGIC,
     fd_stat = Some \<lparr>ds_device = 9, ds_inode = 77, ds_mode = 16384 OR m, ds_uid = 501, ds_gid = 20\<rparr>,
     fd_acl_access = AclAbsent, fd_acl_default = AclAbsent, fd_effective_uid = 501, fd_effective_gid = 20,
     fd_groups = Some []\<rparr>"

definition sample_mode_env :: mode_env where
  "sample_mode_env = \<lparr>me_view = \<lambda>_ m. sample_view m, me_chmod = None, me_lands = False\<rparr>"

definition sample_held :: held_evidence where
  "sample_held = \<lparr>he_backend = Ext4, he_mount_id = 36, he_owner_uid = 501, he_group_gid = 20, he_mode = 511,
     he_mode_verified = True, he_device = 9, he_inode = 77, he_effective_uid = 501, he_effective_groups = [20],
     he_seal_lineage = None\<rparr>"

lemma text_lines_single: "s \<noteq> [] \<Longrightarrow> 10 \<notin> set s \<Longrightarrow> text_lines s = [s]"
proof -
  assume s: "s \<noteq> []" "10 \<notin> set s"
  then have "dropWhile (\<lambda>c. c \<noteq> 10) s = []" by (auto simp: dropWhile_eq_Nil_conv)
  with s(1) show ?thesis by (subst text_lines.simps) (simp only: if_False list.case)
qed

lemma sample_mount: "certify_linux_mount 36 (points ''36 / - ext4 a'') EXT4_MAGIC = Inr Ext4"
proof -
  have "parse_mount_line (points ''36 / - ext4 a'') = Inr (36, points ''ext4'')"
    by (simp add: parse_mount_line_def points_def first_word_def is_whitespace_def parse_u64_def)
  moreover have "text_lines (points ''36 / - ext4 a'') = [points ''36 / - ext4 a'']"
    by (rule text_lines_single) (simp_all add: points_def)
  moreover have "EXT4_MAGIC AND LINUX_MAGIC_MASK = EXT4_MAGIC"
    by (simp add: EXT4_MAGIC_def LINUX_MAGIC_MASK_def)
  ultimately show ?thesis by (simp add: certify_linux_mount_def parse_linux_mountinfo_def)
qed

lemma sample_view_shows:
  "inspected_backend (sample_view m) = Inr (36, Ext4)" "checked_acl (sample_view m) = Inr ()"
  "current_groups (sample_view m) = Inr [20]" "fd_flags (sample_view m) = Some False"
  "fd_stat (sample_view m) = Some \<lparr>ds_device = 9, ds_inode = 77, ds_mode = 16384 OR m, ds_uid = 501, ds_gid = 20\<rparr>"
  "fd_effective_uid (sample_view m) = 501"
  by (simp_all add: sample_view_def inspected_backend_def sample_mount checked_acl_def probe_acl_def
      combine_acl_probes_def current_groups_def group_set_def)

lemma sample_modes:
  fixes m :: u32
  assumes "m AND NOT 4095 = 0"
  shows "(16384 OR m) AND 4095 = m" "(16384 OR m) AND 61440 = 16384"
proof -
  have "m = m AND 4095 OR m AND NOT 4095" by (simp add: bit.conj_disj_distrib [symmetric] del: bit.compl_zero)
  then have m: "m = m AND 4095" unfolding assms by simp
  then show "(16384 OR m) AND 4095 = m" by (simp add: bit.conj_disj_distrib2)
  have "m AND 61440 = m AND (4095 AND 61440)" using m by (metis and.assoc)
  then show "(16384 OR m) AND 61440 = 16384" by (simp add: bit.conj_disj_distrib2)
qed

lemma sample_inspect:
  assumes "m AND NOT 4095 = 0"
  shows "inspect_held_fd (sample_view m) = Inr ((certified_snapshot sample_held)\<lparr>vs_mode := m\<rparr>)"
  using sample_modes [OF assms]
  by (simp add: inspect_held_fd_def sample_view_shows is_directory_mode_def)
     (simp add: sample_held_def certified_snapshot_def)

lemma sample_steady: "steady sample_mode_env sample_held"
  using sample_inspect by (simp add: steady_def sample_mode_env_def) (simp add: sample_held_def)

lemma restore_undoes_seal_witness:
  "\<exists>p a b h1 h2 q c d sealed.
    prepare_minimal_seal (sample_view 511) False sample_held = (Inr p, sample_held) \<and>
    apply_wal_bound_mode_change sample_mode_env p sample_held 511 = (AppliedVerified a b, h1, sealed) \<and>
    record_applied_seal_lineage sample_id 1 511 sealed h1 = (Inr (), h2) \<and>
    prepare_wal_bound_restore (sample_view sealed) sample_id 1 sealed 511 h2 = (Inr q, h2) \<and>
    apply_wal_bound_mode_change sample_mode_env q h2 sealed = (AppliedVerified c d, sample_held, 511)"
proof -
  have h: "he_mode sample_held = 511" "he_mode_verified sample_held" "he_seal_lineage sample_held = None"
    by (simp_all add: sample_held_def)
  have v: "me_view sample_mode_env k m = sample_view m" for k m by (simp add: sample_mode_env_def)
  show ?thesis
    using restore_undoes_seal [OF sample_steady _ h(2,3), of False sample_id 1 0] unfolding v h(1) by auto
qed

section \<open>A seal under the log\<close>

definition sample_request :: local_mode_mutation_request where
  "sample_request = \<lparr>rq_transaction = sample_id, rq_mutation_id = 1,
     rq_locator = authority_neutral [97] (Some [102, 115]), rq_transform = SealMode False\<rparr>"

definition sample_world :: mode_world where
  "sample_world = \<lparr>mw_wal = sealing_wal, mw_held = sample_held, mw_mode = 511\<rparr>"

definition durable_io :: executor_io where
  "durable_io = \<lparr>xi_intent = Durable, xi_applied = Durable, xi_settle = Durable\<rparr>"

definition sample_seal :: permission_intent where
  "sample_seal = \<lparr>pi_transaction = sample_id, pi_mutation_id = 1, pi_evidence = \<lparr>ev_relative_path = [97],
     ev_filesystem_id = Some [102, 115], ev_device = 9, ev_inode = 77, ev_generation_or_btime = None,
     ev_expected_mode = 493\<rparr>, pi_pre_mode = 511, pi_expected_mode = 493, pi_reverses = None\<rparr>"

lemma sample_seal_runs:
  "\<exists>w. apply_through_wal False False durable_io (Inr ()) sample_seal sealing_wal = Some (Inr (), w)"
  by (simp add: apply_through_wal_def apply_permission_mutation_def durable_io_def apply_permission_mutation_inner_def
      check_intent_append_def check_inverse_def sealing_wal_def sample_seal_def from_validated_def Let_def intent_phase_def
      append_synced_at_def append_at_def intent_record_def encode_frame_def encode_record_def sample_id_def
      put_all.simps put_then_def put_raw_def put_u8_def put_tid_def put_u32_def put_u64_def put_bytes_def
      MAX_PAYLOAD_LEN_def frame_payload_def usize_checked_add_def HEADER_LEN_def MAX_WAL_LEN_def extent_new_def
      append_synced_def and_update_def record_resolved_def record_resolution_def record_intent_def ledger_entry_def
      wal_ledger_def ledger_insert_def ledger_default_def)

lemma sample_execution:
  "\<exists>world'. execute_local_mode_mutation sample_mode_env durable_io sample_request sample_world =
     Some (Inr (ModeApplied 511 493), world')"
proof -
  let ?sn = "\<lambda>m. (certified_snapshot sample_held)\<lparr>vs_mode := m\<rparr>"
  let ?p = "\<lparr>pm_pre = ?sn 511, pm_target_mode = 493, pm_kind = PreparedSeal\<rparr>"
  have h: "he_mode sample_held = 511" "he_mode_verified sample_held" "he_seal_lineage sample_held = None"
    by (simp_all add: sample_held_def)
  have v: "me_view sample_mode_env k m = sample_view m" for k m by (simp add: sample_mode_env_def)
  have sealed: "crate_minimal_sealed_mode 511 = 493" by (simp add: crate_minimal_sealed_mode_def)
  have sn: "certified_snapshot sample_held = ?sn 511" using h(1) certified_snapshot_simps(2) [of sample_held] by simp
  have "prepare_minimal_seal (sample_view 511) False sample_held = (Inr ?p, sample_held)"
    using steady_inspect [OF sample_steady _ sn, of 511 0] h sealed sn
    by (simp add: prepare_minimal_seal_def prepare_exact_mode_change_def v)
  then have "prepare_request sample_mode_env sample_request sample_world = (Inr (?p, None, None), sample_held)"
    by (simp add: prepare_request_def sample_request_def sample_world_def v)
  moreover have "request_intent False sample_request ?p None None = Inr sample_seal"
    by (simp add: request_intent_def sample_request_def authority_neutral_def sample_seal_def evidence_new_def
        evidence_new_inner_def is_confined_relative_path_def certified_snapshot_def sample_held_def) code_simp
  moreover have out: "apply_wal_bound_mode_change sample_mode_env ?p sample_held 511 =
      (AppliedVerified (?sn 511) (?sn 493), sample_held\<lparr>he_mode := 493, he_mode_verified := True\<rparr>, 493)"
    using steady_apply [OF sample_steady, of 511 493 PreparedSeal sample_held None sample_held] by (simp add: take_lineage_def)
  moreover obtain w where w: "apply_through_wal False False durable_io (Inr ()) sample_seal sealing_wal = Some (Inr (), w)"
    using sample_seal_runs by blast
  moreover have "callback_runs False (xi_intent durable_io) sample_seal sealing_wal"
    using apply_through_wal_cases [OF w] by (auto simp: refused_result_def split: if_splits)
  moreover have "record_applied_seal_lineage t mid 511 493 (sample_held\<lparr>he_mode := 493, he_mode_verified := True\<rparr>) =
      (Inr (), sample_held\<lparr>he_mode := 493, he_mode_verified := True,
        he_seal_lineage := Some (lineage_of (sample_held\<lparr>he_mode := 493, he_mode_verified := True\<rparr>) t mid 511 493)\<rparr>)" for t mid
    using h(3) by (simp add: record_applied_seal_lineage_def)
  ultimately show ?thesis
    by (simp add: execute_local_mode_mutation_def execute_local_mode_mutation_inner_def sample_world_def callback_result_def
        settle_mutation_def finished_def sample_seal_def)
qed

lemma executor_keeps_log_and_directory_together_witness:
  "\<exists>world'. execute_local_mode_mutation sample_mode_env durable_io sample_request sample_world =
     Some (Inr (ModeApplied 511 493), world') \<and> mw_mode world' = 493 \<and>
     mutation_status (mw_wal world') sample_id 1 = Some Applied \<and>
     (\<exists>i. pi_pre_mode i = 511 \<and> pi_expected_mode i = 493 \<and> intent_durable sealing_wal i (mw_wal world'))"
proof -
  have sees: "sees_mode sample_mode_env"
    by (auto simp: sees_mode_def sample_mode_env_def sample_view_shows mode_bits_def sample_modes)
  have inv: "held_inv (mw_held sample_world) (mw_mode sample_world)"
    by (simp add: held_inv_def sample_world_def sample_held_def mode_bits_def)
  obtain world' where run: "execute_local_mode_mutation sample_mode_env durable_io sample_request sample_world =
    Some (Inr (ModeApplied 511 493), world')" using sample_execution by blast
  from executor_keeps_log_and_directory_together [OF sees inv _ run [unfolded execute_local_mode_mutation_def]] run
  show ?thesis by (auto simp: Let_def sample_world_def sample_request_def)
qed

end
