(* ===== verification/Oplog.thy ===== *)
theory Oplog
  imports Degu_Prelude
begin

text \<open>
  The operation log (\<open>oplog.rs\<close>): what a pending rename whose final record is missing turned out to be, judged
  from probes of both paths and the identity recorded before the rename.
\<close>

datatype object_kind = DirectoryObject | FileObject | SymlinkObject | OtherObject

text \<open>The change times are the bits of an \<open>i64\<close>.\<close>

record object_identity =
  oi_kind :: object_kind
  oi_device :: u64
  oi_inode :: u64
  oi_ctime_seconds :: u64
  oi_ctime_nanoseconds :: u64

text \<open>What \<open>from_metadata\<close> reads of the metadata.\<close>

record oplog_metadata =
  om_is_dir :: bool
  om_is_file :: bool
  om_is_symlink :: bool
  om_dev :: u64
  om_ino :: u64
  om_ctime :: u64
  om_ctime_nsec :: u64

definition identity_from_metadata :: "oplog_metadata \<Rightarrow> object_identity" where
  "identity_from_metadata m =
     \<lparr>oi_kind = (if om_is_dir m then DirectoryObject else if om_is_file m then FileObject
        else if om_is_symlink m then SymlinkObject else OtherObject),
      oi_device = om_dev m, oi_inode = om_ino m, oi_ctime_seconds = om_ctime m, oi_ctime_nanoseconds = om_ctime_nsec m\<rparr>"

definition same_object :: "object_identity \<Rightarrow> object_identity \<Rightarrow> bool" where
  "same_object a b \<longleftrightarrow> oi_kind a = oi_kind b \<and> oi_device a = oi_device b \<and> oi_inode a = oi_inode b"

datatype pending_state =
  Moved | NotMoved | AmbiguousBothExist | AmbiguousBothMissing | AmbiguousIdentity

datatype pending_probe = ProbeMissing | ProbePresent object_identity | ProbeFailed

fun probe_exists :: "pending_probe \<Rightarrow> bool option" where
  "probe_exists ProbeMissing = Some False"
| "probe_exists (ProbePresent _) = Some True"
| "probe_exists ProbeFailed = None"

definition infer_layout :: "pending_probe \<Rightarrow> pending_probe \<Rightarrow> pending_state" where
  "infer_layout source destination =
     (case (probe_exists source, probe_exists destination) of
        (Some False, Some True) \<Rightarrow> Moved
      | (Some True, Some False) \<Rightarrow> NotMoved
      | (Some True, Some True) \<Rightarrow> AmbiguousBothExist
      | (Some False, Some False) \<Rightarrow> AmbiguousBothMissing
      | _ \<Rightarrow> AmbiguousIdentity)"

definition verify_identity ::
  "pending_probe \<Rightarrow> pending_probe \<Rightarrow> object_identity option \<Rightarrow> pending_state \<Rightarrow> pending_state" where
  "verify_identity source destination expected state =
     (case state of
        Moved \<Rightarrow>
          (case (destination, expected) of
             (ProbePresent actual, Some e) \<Rightarrow> if same_object e actual then state else AmbiguousIdentity
           | _ \<Rightarrow> AmbiguousIdentity)
      | NotMoved \<Rightarrow>
          (case (source, expected) of
             (ProbePresent actual, Some e) \<Rightarrow> if e = actual then state else AmbiguousIdentity
           | _ \<Rightarrow> AmbiguousIdentity)
      | _ \<Rightarrow> state)"

definition reconcile_pending_move :: "pending_probe \<Rightarrow> pending_probe \<Rightarrow> object_identity option \<Rightarrow> pending_state" where
  "reconcile_pending_move source destination expected =
     verify_identity source destination expected (infer_layout source destination)"

lemmas reconcile_defs = reconcile_pending_move_def verify_identity_def infer_layout_def

text \<open>A pending rename is never guessed. It is taken as completed exactly when the source is gone and the very
  object recorded before it (same kind, device and inode) is at the destination, and as not happened exactly when
  the destination is free and the source is the recorded object with its change time unchanged. Without a recorded
  identity, with an unreadable path or with both paths present the outcome stays ambiguous.\<close>

theorem pending_move_never_guessed:
  "(reconcile_pending_move source destination expected = Moved \<longleftrightarrow> source = ProbeMissing \<and>
     (\<exists>e actual. expected = Some e \<and> destination = ProbePresent actual \<and> same_object e actual)) \<and>
   (reconcile_pending_move source destination expected = NotMoved \<longleftrightarrow> destination = ProbeMissing \<and>
     (\<exists>e. expected = Some e \<and> source = ProbePresent e)) \<and>
   (reconcile_pending_move source destination expected = AmbiguousBothMissing \<longleftrightarrow>
     source = ProbeMissing \<and> destination = ProbeMissing) \<and>
   (reconcile_pending_move source destination expected = AmbiguousBothExist \<longleftrightarrow>
     (\<exists>a b. source = ProbePresent a \<and> destination = ProbePresent b))"
  by (cases source; cases destination; cases expected) (auto simp: reconcile_defs)

end
