(* ===== verification/Admission.thy ===== *)
theory Admission
  imports Degu_Prelude
begin

text \<open>
  Content admission (\<open>admission.rs\<close>): whether the metadata of an entry can be represented by the content proof of
  a held tree. The model has every platform the source is compiled for; \<open>directory_xattr_blocks_purge\<close> is the
  macOS build's.
\<close>

datatype entry_kind = DirectoryEntry | RegularEntry | SymlinkEntry | OtherEntry

datatype evidence = EvidenceAbsent | EvidencePresent | EvidenceUnknown

datatype xattr_platform = LinuxPlatform | MacOsPlatform | OtherXattrPlatform

datatype xattr_name_class =
  LinuxUser | LinuxSystem | LinuxTrusted | LinuxSecurityCapability | LinuxSecurity | LinuxOther
  | MacOsQuarantine | MacOsProvenance | MacOsMetadata | MacOsLastUsedDate | MacOsFinderInfo | MacOsResourceFork
  | MacOsOther | OtherPlatform

datatype xattrs = XattrNames "bytes list" | XattrsUnknown

record entry_facts =
  ef_kind :: entry_kind
  ef_acl :: evidence
  ef_xattr_platform :: xattr_platform
  ef_xattrs :: xattrs

datatype reject_reason =
  UnsupportedEntryKind | AclPresent | AclUnknown
  | ExtendedAttributePresent bytes xattr_name_class | ExtendedAttributesUnknown

datatype admission = Admit | Reject reject_reason

definition ascii :: "string \<Rightarrow> bytes" where "ascii = map of_char"

definition classify_linux_xattr :: "bytes \<Rightarrow> xattr_name_class" where
  "classify_linux_xattr name =
     (if name = ascii ''security.capability'' then LinuxSecurityCapability
      else if prefix (ascii ''user.'') name then LinuxUser
      else if prefix (ascii ''system.'') name then LinuxSystem
      else if prefix (ascii ''trusted.'') name then LinuxTrusted
      else if prefix (ascii ''security.'') name then LinuxSecurity
      else LinuxOther)"

definition classify_macos_xattr :: "bytes \<Rightarrow> xattr_name_class" where
  "classify_macos_xattr name =
     (if name = ascii ''com.apple.quarantine'' then MacOsQuarantine
      else if name = ascii ''com.apple.provenance'' then MacOsProvenance
      else if name = ascii ''com.apple.lastuseddate#PS'' then MacOsLastUsedDate
      else if name = ascii ''com.apple.FinderInfo'' then MacOsFinderInfo
      else if name = ascii ''com.apple.ResourceFork'' then MacOsResourceFork
      else if prefix (ascii ''com.apple.metadata:'') name then MacOsMetadata
      else MacOsOther)"

fun classify_xattr :: "xattr_platform \<Rightarrow> bytes \<Rightarrow> xattr_name_class" where
  "classify_xattr LinuxPlatform name = classify_linux_xattr name"
| "classify_xattr MacOsPlatform name = classify_macos_xattr name"
| "classify_xattr OtherXattrPlatform name = OtherPlatform"

definition ordinary_regular_xattr_is_admitted :: "xattr_platform \<Rightarrow> bytes \<Rightarrow> bool" where
  "ordinary_regular_xattr_is_admitted platform name =
     (case classify_xattr platform name of
        LinuxUser \<Rightarrow> True | MacOsQuarantine \<Rightarrow> True | MacOsProvenance \<Rightarrow> True | MacOsMetadata \<Rightarrow> True
      | MacOsLastUsedDate \<Rightarrow> True | MacOsFinderInfo \<Rightarrow> True | MacOsResourceFork \<Rightarrow> True | _ \<Rightarrow> False)"

definition directory_xattr_blocks_purge :: "xattr_platform \<Rightarrow> bytes \<Rightarrow> bool" where
  "directory_xattr_blocks_purge platform name \<longleftrightarrow> classify_xattr platform name \<noteq> MacOsProvenance"

text \<open>\<open>iter().min()\<close> of a non-empty list of names.\<close>

fun least_name :: "bytes \<Rightarrow> bytes list \<Rightarrow> bytes" where
  "least_name m [] = m"
| "least_name m (n # ns) = least_name (if n < m then n else m) ns"

definition assess_non_directory_metadata :: "entry_facts \<Rightarrow> admission" where
  "assess_non_directory_metadata facts =
     (case (case ef_xattrs facts of
              XattrNames [] \<Rightarrow> None
            | XattrNames (n # ns) \<Rightarrow>
                (let name = least_name n ns
                 in Some (Reject (ExtendedAttributePresent name (classify_xattr (ef_xattr_platform facts) name))))
            | XattrsUnknown \<Rightarrow> Some (Reject ExtendedAttributesUnknown)) of
        Some admission \<Rightarrow> admission
      | None \<Rightarrow>
          (case ef_acl facts of
             EvidenceAbsent \<Rightarrow> Admit | EvidencePresent \<Rightarrow> Reject AclPresent | EvidenceUnknown \<Rightarrow> Reject AclUnknown))"

definition assess_content :: "entry_facts \<Rightarrow> admission" where
  "assess_content facts =
     (case ef_kind facts of
        DirectoryEntry \<Rightarrow> Admit
      | OtherEntry \<Rightarrow> Reject UnsupportedEntryKind
      | _ \<Rightarrow> assess_non_directory_metadata facts)"

text \<open>The policy fails closed: a file or link is admitted exactly when its complete list of attribute names is
  known and empty and it is known to have no access control list; a reported name is the least of the list.\<close>

theorem content_admitted_iff:
  "assess_content facts = Admit \<longleftrightarrow> ef_kind facts = DirectoryEntry \<or>
     ef_kind facts \<in> {RegularEntry, SymlinkEntry} \<and> ef_xattrs facts = XattrNames [] \<and> ef_acl facts = EvidenceAbsent"
  by (cases "ef_kind facts"; cases "ef_xattrs facts"; cases "ef_acl facts")
    (auto simp: assess_content_def assess_non_directory_metadata_def Let_def split: list.split)

lemma least_name_least: "least_name m ns \<in> insert m (set ns) \<and> (\<forall>n\<in>insert m (set ns). least_name m ns \<le> n)"
proof (induction ns arbitrary: m)
  case (Cons n ns)
  then show ?case using Cons.IH [of n] Cons.IH [of m] by (cases "n < m") (force simp: not_less)+
qed simp

theorem reported_xattr_is_least:
  assumes "assess_content facts = Reject (ExtendedAttributePresent name class)"
  obtains ns where "ef_xattrs facts = XattrNames ns" "name \<in> set ns" "\<And>n. n \<in> set ns \<Longrightarrow> name \<le> n"
    "class = classify_xattr (ef_xattr_platform facts) name"
proof -
  from assms obtain n ns where "ef_xattrs facts = XattrNames (n # ns)" "name = least_name n ns"
    "class = classify_xattr (ef_xattr_platform facts) name"
    by (cases "ef_kind facts"; cases "ef_xattrs facts"; cases "ef_acl facts")
      (auto simp: assess_content_def assess_non_directory_metadata_def Let_def split: list.splits)
  with least_name_least [of n ns] that [of "n # ns"] show thesis by auto
qed

text \<open>An attribute that carries authority is never among the ordinary ones.\<close>

theorem authority_xattrs_not_ordinary:
  "ordinary_regular_xattr_is_admitted LinuxPlatform name \<Longrightarrow> prefix (ascii ''user.'') name"
  "\<not> ordinary_regular_xattr_is_admitted OtherXattrPlatform name"
  by (auto simp: ordinary_regular_xattr_is_admitted_def classify_linux_xattr_def split: if_splits xattr_name_class.splits)

end
