(* ===== verification/Spec2Isabelle.thy ===== *)
theory Spec2Isabelle
  imports Policy Safety_Guard Wal_Compaction Wal_Writer_Props Wal_Allowance_Props Purge_Plan_Props Executor_Props
    Oplog Admission
begin

text \<open>
  degu finds regenerable files, and removes them so that a removal can be undone. A removal is a
  \<^emph>\<open>transaction\<close>: the source directory and its tree are sealed by permission changes, the tree is
  renamed into a trash directory, verified, and only then may it be purged or moved back. Every step is
  first made durable in a write-ahead log, the \<^emph>\<open>seal WAL\<close>, so that after a crash a recovery can decide
  what is left to restore. This development models the decision core of the crate \<open>degu-core\<close> (under
  \<open>src/crates/degu-core/src/\<close>) as executable functions and proves the properties the rest of the program
  relies on.

  \<^bold>\<open>Parts and theories.\<close>

  \<^item> \<open>Degu_Prelude\<close>: machine words and saturating arithmetic, the result type \<open>'e + 'a\<close> with \<open>?\<close> as
    \<open>and_then\<close> and \<open>try_fold\<close> as \<open>fold_r\<close>, little-endian bytes, Unix paths and their components
    (\<open>std::path\<close>), B-tree maps as sorted association lists with the locale of their laws.
  \<^item> \<open>Policy\<close> (\<open>finding.rs\<close>, \<open>disposition.rs\<close>, \<open>finding/finalize.rs\<close>, \<open>finding/consolidate.rs\<close>, \<open>plan.rs\<close>):
    how a discovered candidate becomes a finding with a disposition, how findings of one path merge, and
    what a clean plan accepts. The lemmas show that merging keeps the strictest authority and that
    nothing report-only is ever planned.
  \<^item> \<open>Authority\<close> (\<open>authority.rs\<close>, \<open>authority/mode.rs\<close>): transaction states, recovery evidence, principals,
    rights, writer exposures, and the evaluation of permission modes.
  \<^item> \<open>Wal_Types\<close>, \<open>Wal_Codec\<close>, \<open>Wal_Frames\<close> (\<open>seal/wal.rs\<close>): the records of the log, their byte encoding for
    every version, the checksummed frames and the scan of a file. Encoder and decoder are inverse; a
    file cut at any byte scans to its complete frames.
  \<^item> \<open>Wal_Transitions\<close>, \<open>Wal_Ledger\<close> (\<open>seal/wal.rs\<close>, \<open>seal/wal/permission_ledger.rs\<close>): the state machine of
    a transaction, and the incremental ledger of permission mutations with the scans it replaced.
  \<^item> \<open>Wal_Replay\<close> and \<open>Wal_Replay_Inv\<close>, \<open>Wal_Replay_Index\<close>, \<open>Wal_Replay_Spec\<close>, \<open>Wal_Replay_Props\<close>
    (\<open>seal/wal.rs\<close>): replay of a file, one definition per record kind. Its invariant says what the state
    of a replayed transaction guarantees; its index reads intents back from the bytes; its
    specification is one transaction's own history.
  \<^item> \<open>Wal_Compaction\<close>, \<open>Wal_Recovery\<close> (\<open>seal/wal.rs\<close>): which transactions a rewrite of the log drops, and
    what recovery has to restore, in which order.
  \<^item> \<open>Wal_Writer\<close> (\<open>SealWal\<close> in \<open>seal/wal.rs\<close>): the writer with its resident maps, one definition per
    operation, the file and the outcome of each append being explicit. \<open>Wal_Typed\<close> and \<open>Wal_Agreement\<close>
    prove the simulation: whatever replay makes of the file is what the writer's maps say, after every
    operation and every file-system outcome. \<open>Wal_Programs\<close> lifts it to sequences of operations and to
    resuming; \<open>Wal_Writer_Props\<close> states the properties.
  \<^item> \<open>Wal_Allowance\<close>, \<open>Wal_Allowance_Props\<close> (\<open>seal/wal/allowance.rs\<close>, \<open>seal/wal/room.rs\<close>): what a settled
    transaction may still write, what a new staging is projected to write, and the room a WAL leaves;
    the measures are exact, and a transaction that was left its allowance can finish.
  \<^item> \<open>Backend\<close>, \<open>Held_Mode\<close> (\<open>backend.rs\<close>): which mounts are certified, what a held directory shows, and the
    mode change on it; \<open>Executor\<close>, \<open>Executor_Props\<close> (\<open>seal/executor.rs\<close>): one mode change under the log. The
    directory's mode is a state beside the log: it changes only behind a durable intent, and a reported
    outcome is true of both.
  \<^item> \<open>Sidecar\<close>, \<open>Sidecar_Props\<close> (\<open>seal/sidecar.rs\<close>): the container a tree manifest is stored in, its headers,
    digests, writer and reader. The reader accepts exactly what the writer makes.
  \<^item> \<open>Sidecar_Store\<close>, \<open>Sidecar_Store_Props\<close> (\<open>seal/sidecar.rs\<close>): the directory of containers, their names,
    the validation of a file, publishing, reading, and the cleanups after a restart. Publishing never
    overwrites, and a cleanup removes nothing a restart may still read.
  \<^item> \<open>Manifest\<close> (\<open>backend/held.rs\<close>, \<open>seal/sidecar.rs\<close>): the records of a tree manifest, their encoder, the cut
    into segments, the fingerprint, the streaming decoder, and the reader of a published manifest.
    \<open>Manifest_Paths\<close> treats paths as lists of names, \<open>Manifest_Codec\<close> one record, \<open>Manifest_Tree\<close> what a manifest
    is and the ancestor stack of the decoder, and \<open>Manifest_Props\<close> composes them with the store: the reader
    returns exactly the manifests that were published, and every tree survives the way.
  \<^item> \<open>Manifest_Plan\<close>, \<open>Manifest_Plan_Props\<close>, \<open>Purge_Plan_Props\<close> (\<open>backend/held.rs\<close>): the fingerprint a tree has once
    its directories are sealed, and the plan a purge follows, with the evidence of every ancestor.
  \<^item> \<open>Oplog\<close> (\<open>oplog.rs\<close>): what became of a rename whose final record is missing. \<open>Admission\<close> (\<open>admission.rs\<close>):
    which metadata a content proof can represent.
  \<^item> \<open>Tree_Guard\<close> (\<open>src/crates/degu-walk/src/guard.rs\<close>): the walk over a tree before it is renamed, and
    the check of its parent. It accepts exactly the trees that are on one mount, owned by the user, not
    shared-writable and free of protected names.
  \<^item> \<open>Safety_Guard\<close> (\<open>safety.rs\<close>): the protected names and places, and the guard every path passes. It is
    characterised exactly, and the default guard keeps every protected place of a home directory.

  \<^bold>\<open>Interfaces.\<close> Locales state the contracts one component relies on: ordered maps (\<open>Degu_Prelude\<close>), field
  codecs (\<open>Wal_Codec\<close>), frame scanners (\<open>Wal_Frames\<close>), the ledger against its history (\<open>Wal_Ledger\<close>), merging
  by key (\<open>Policy\<close>). Each is interpreted on the model's own definitions where they are declared.

  \<^bold>\<open>Parameters and bounds.\<close>

  \<^item> The operating system appears as arguments. \<open>set_len\<close> of \<open>replay_and_repair\<close> is assumed to truncate.
    \<open>append_io\<close> says what happened to one frame: durable, written in part, or written and not synced.
    Positioned reads of committed bytes succeed. Identities read by recovery are functions.
  \<^item> Lengths inside a file are \<open>nat\<close>, with the \<open>usize\<close> and \<open>u32\<close> checks of the source written out; sizes
    that the source adds as \<open>u64\<close> are 64-bit words that wrap as a release build does.
  \<^item> Loops over bytes are \<open>function\<close>s with termination proofs; no fuel is used.
  \<^item> SHA-256 is an argument; only the length of its digests is assumed. So is the size of a manifest entry in
    memory, which the compiler chooses and the budgets count. Of a store of sidecars, what a file
    looks like and whether a call succeeds are arguments, and nothing else writes to its directory during
    one operation. The executor assumes that nothing else changes the mode of the directory it holds; a
    failed \<open>fchmod\<close> may have changed it. The guards take what the file system shows as arguments.
  \<^item> A hash map is an association list whose order nothing observes.
  \<^item> The writer's simulation assumes that evidence names an object (\<open>names_object\<close>): the one condition
    the writer leaves to its callers. A finding shows what happens without it.

  \<^bold>\<open>Not modelled.\<close> The leased files and directories (\<open>seal/store.rs\<close>), the traversal, sealing and deletion of
  held trees (the rest of \<open>backend/held.rs\<close>), the orchestration of system calls around the WAL (\<open>staging\<close>,
  \<open>activation\<close>, \<open>provision\<close>), the external sort over scratch files (\<open>seal/sidecar/scratch.rs\<close>, except the
  names of its files), the adapters, the walker's threads and the command line: their behaviour is that of the
  operating system and of other programs. The JSON form of the operation log is a library's. The memo in
  \<open>remaining_allowance\<close> is left out; it holds no state of its own.
\<close>

end
